(* ===== verification/Prelude.thy ===== *)
theory Prelude
  imports Complex_Main "HOL-Library.AList" "HOL-Library.Log_Nat" "HOL-Library.Multiset" "HOL-Library.Char_ord"
begin

text \<open>
  Shared vocabulary of the development.  A fallible TypeScript function becomes a function
  into \<open>'e + 'a\<close> with \<open>Inl\<close> for the thrown error; \<open>then_ok\<close> sequences two of them the way an
  uncaught throw does.  Arrays are lists, \<open>Array.prototype.sort\<close> with a numeric comparator is the
  stable \<open>sort_key\<close>, \<open>Map\<close> and object literals are association lists where the order of keys is
  observable and functions into \<open>option\<close> where it is not.  The lemmas below are the facts about
  lists, stable sorting and positions that several components use.
\<close>

named_theorems err_simps "rewriting results of fallible operations"
named_theorems pos_simps "facts on dense positions"

type_synonym 'a js_option = "'a option"

subsection \<open>Fallible computations\<close>

fun then_ok :: "'e + 'a \<Rightarrow> ('a \<Rightarrow> 'e + 'b) \<Rightarrow> 'e + 'b" where
  "then_ok (Inl e) k = Inl e"
| "then_ok (Inr a) k = k a"

lemma then_ok_Inr_iff [err_simps]: "then_ok r k = Inr b \<longleftrightarrow> (\<exists>a. r = Inr a \<and> k a = Inr b)"
  by (cases r) auto

lemma then_ok_Inl_iff [err_simps]:
  "then_ok r k = Inl e \<longleftrightarrow> r = Inl e \<or> (\<exists>a. r = Inr a \<and> k a = Inl e)"
  by (cases r) auto

lemma then_ok_InrE: "then_ok r k = Inr b \<Longrightarrow> (\<And>a. r = Inr a \<Longrightarrow> k a = Inr b \<Longrightarrow> P) \<Longrightarrow> P"
  by (cases r) auto

lemma then_ok_cong [fundef_cong]:
  "r = r' \<Longrightarrow> (\<And>a. r' = Inr a \<Longrightarrow> k a = k' a) \<Longrightarrow> then_ok r k = then_ok r' k'"
  by (cases r') auto

lemma then_ok_assoc: "then_ok (then_ok r k) h = then_ok r (\<lambda>a. then_ok (k a) h)"
  by (cases r) auto

lemma then_ok_Inr [simp]: "then_ok r Inr = r"
  by (cases r) auto

lemmas err_split = sum.split_asm sum.split

subsection \<open>White space, as String.prototype.trim removes it\<close>

text \<open>Code units up to 255: tab, line feed, vertical tab, form feed, carriage return, space, no-break space.\<close>

definition js_space :: "char \<Rightarrow> bool" where
  "js_space c \<longleftrightarrow> (of_char c :: nat) \<in> {9, 10, 11, 12, 13, 32, 160}"

definition js_trim :: "string \<Rightarrow> string" where
  "js_trim s = rev (dropWhile js_space (rev (dropWhile js_space s)))"

lemma dropWhile_idem_hd: "(xs \<noteq> [] \<Longrightarrow> \<not> P (hd xs)) \<Longrightarrow> dropWhile P xs = xs"
  by (cases xs) auto

lemma js_trim_idem [simp]: "js_trim (js_trim s) = js_trim s"
proof -
  let ?a = "dropWhile js_space s"
  let ?b = "dropWhile js_space (rev ?a)"
  have "dropWhile js_space (rev ?b) = rev ?b"
  proof (rule dropWhile_idem_hd)
    assume "rev ?b \<noteq> []"
    then have ne: "?b \<noteq> []" by simp
    then have lst: "hd (rev ?b) = last ?b" by (simp add: hd_rev)
    have "last (rev ?a) = last (takeWhile js_space (rev ?a) @ ?b)"
      by (simp only: takeWhile_dropWhile_id)
    then have "last ?b = last (rev ?a)" using ne by (simp only: last_append if_False)
    also have "\<dots> = hd ?a" by (simp add: last_rev)
    finally have "hd (rev ?b) = hd ?a" using lst by simp
    moreover have "?a \<noteq> []" using ne by (metis dropWhile.simps(1) rev.simps(1))
    ultimately show "\<not> js_space (hd (rev ?b))" using hd_dropWhile [of js_space s] by simp
  qed
  moreover have "dropWhile js_space ?b = ?b"
    by (rule dropWhile_idem_hd) (rule hd_dropWhile)
  ultimately show ?thesis by (simp add: js_trim_def)
qed

lemma length_js_trim: "length (js_trim s) \<le> length s"
  by (metis (no_types, lifting) js_trim_def length_dropWhile_le length_rev order_trans)

end
