(* ===== verification/JsNumber.thy ===== *)
theory JsNumber
  imports Prelude
begin

text \<open>
  The numbers of the source language, as far as the retry-condition evaluator uses them: the
  IEEE double that \<open>Number(text)\<close> yields for a decimal numeral and the comparison operators.
  A finite double is the rational it denotes (both zeros compare equal, so one value stands for
  them); rounding is to nearest, ties to even, with 53 significand bits and gradual underflow.
\<close>

datatype js_number = Fin rat | PosInf | NegInf | NaN

definition pow2 :: "int \<Rightarrow> rat" where
  "pow2 e = (if 0 \<le> e then 2 ^ nat e else 1 / 2 ^ nat (- e))"

text \<open>The binary exponent of a positive rational: the greatest \<open>e\<close> with \<open>2 ^ e \<le> q\<close>.\<close>

definition ilog2 :: "rat \<Rightarrow> int" where
  "ilog2 q = (let (n, d) = quotient_of q; e = bitlen n - bitlen d
              in if pow2 e \<le> q then e else e - 1)"

definition round_half_even :: "rat \<Rightarrow> int" where
  "round_half_even q =
     (let f = floor q; d = q - of_int f
      in if d < 1 / 2 then f else if d > 1 / 2 then f + 1 else if even f then f else f + 1)"

definition to_double :: "rat \<Rightarrow> js_number" where
  "to_double q =
     (if q = 0 then Fin 0
      else let e = max (ilog2 \<bar>q\<bar>) (- 1022); u = pow2 (e - 52);
               r = of_int (round_half_even (q / u)) * u
           in if \<bar>r\<bar> < pow2 1024 then Fin r else if 0 < r then PosInf else NegInf)"

definition digit_value :: "char \<Rightarrow> nat" where
  "digit_value c = of_char c - 48"

definition digits_value :: "string \<Rightarrow> nat" where
  "digits_value = foldl (\<lambda>a c. 10 * a + digit_value c) 0"

text \<open>\<open>Number(text)\<close> on the numerals the lexer cuts out: an optional sign, digits, an optional fraction.\<close>

definition decimal_value :: "string \<Rightarrow> rat" where
  "decimal_value s =
     (let i = takeWhile (\<lambda>c. c \<noteq> CHR ''.'') s; f = tl (dropWhile (\<lambda>c. c \<noteq> CHR ''.'') s)
      in of_nat (digits_value (i @ f)) / 10 ^ length f)"

definition js_Number :: "string \<Rightarrow> js_number" where
  "js_Number s = (case s of c # r \<Rightarrow> if c = CHR ''-'' then to_double (- decimal_value r)
                                     else to_double (decimal_value s)
                  | [] \<Rightarrow> Fin 0)"

fun js_lt :: "js_number \<Rightarrow> js_number \<Rightarrow> bool" where
  "js_lt NaN _ = False"
| "js_lt _ NaN = False"
| "js_lt (Fin a) (Fin b) = (a < b)"
| "js_lt a PosInf = (a \<noteq> PosInf)"
| "js_lt NegInf b = (b \<noteq> NegInf)"
| "js_lt _ _ = False"

fun js_eq :: "js_number \<Rightarrow> js_number \<Rightarrow> bool" where
  "js_eq NaN _ = False"
| "js_eq a b = (a = b)"

definition js_le :: "js_number \<Rightarrow> js_number \<Rightarrow> bool" where
  "js_le a b \<longleftrightarrow> js_lt a b \<or> js_eq a b"

text \<open>On doubles that are not NaN the comparisons are a linear order.\<close>

lemma js_trichotomy:
  "a \<noteq> NaN \<Longrightarrow> b \<noteq> NaN \<Longrightarrow> js_lt a b \<or> js_eq a b \<or> js_lt b a"
  by (cases a; cases b) auto

lemma js_lt_asym: "js_lt a b \<Longrightarrow> \<not> js_lt b a \<and> \<not> js_eq a b"
  by (cases a; cases b) auto

lemma to_double_half: "js_Number ''-0.5'' = Fin (- (1/2))"
  by code_simp

end
