(* ===== verification/RetryGrammar.thy ===== *)
theory RetryGrammar
  imports RetryCondition
begin

text \<open>
  The grammar of the retry-condition language as an inductive relation on token lists, and the
  proof that the parser of \<open>RetryCondition\<close> accepts exactly it and returns its tree:
  soundness and completeness of the recursive descent, sufficiency of the fuel, absence of reads
  past the end of the token array.  Then the evaluator: equivalence with a semantics that does
  not thread the set of missing keys, and what that set can hold.
\<close>

subsection \<open>The grammar\<close>

inductive gPrim :: "Token list \<Rightarrow> CompareTerm \<Rightarrow> bool" where
  number: "kind t = KNumber v \<Longrightarrow> gPrim [t] (NumericLiteral v)"
| ident: "kind t = KIdentifier \<Longrightarrow> gPrim [t] (Identifier (lexeme t))"

inductive gOr :: "Token list \<Rightarrow> Expression \<Rightarrow> bool"
  and gAnd :: "Token list \<Rightarrow> Expression \<Rightarrow> bool"
  and gNot :: "Token list \<Rightarrow> Expression \<Rightarrow> bool"
  and gCmp :: "Token list \<Rightarrow> Expression \<Rightarrow> bool" where
  or_and: "gAnd ts e \<Longrightarrow> gOr ts e"
| or_or: "gOr ts l \<Longrightarrow> kind t = KOr \<Longrightarrow> gAnd us r \<Longrightarrow> gOr (ts @ t # us) (LogicalExpr LOr l r)"
| and_not: "gNot ts e \<Longrightarrow> gAnd ts e"
| and_and: "gAnd ts l \<Longrightarrow> kind t = KAnd \<Longrightarrow> gNot us r \<Longrightarrow> gAnd (ts @ t # us) (LogicalExpr LAnd l r)"
| not_cmp: "gCmp ts e \<Longrightarrow> gNot ts e"
| not_not: "kind t = KNot \<Longrightarrow> gNot ts e \<Longrightarrow> gNot (t # ts) (NotExpr e)"
| comparison: "gPrim as l \<Longrightarrow> kind t = KOp op \<Longrightarrow> gPrim bs r \<Longrightarrow> gCmp (as @ t # bs) (CompareExpr op l r)"
| paren: "kind t = KLparen \<Longrightarrow> gOr ts e \<Longrightarrow> kind u = KRparen \<Longrightarrow> gCmp (t # ts @ [u]) e"

lemmas grammar_intros = gPrim.intros gOr_gAnd_gNot_gCmp.intros

lemma gPrim_shape: "gPrim ts p \<Longrightarrow> \<exists>t. ts = [t] \<and> kind t \<noteq> KEof"
  by (auto elim!: gPrim.cases)

lemma grammar_no_eof:
  "(gOr ts e \<longrightarrow> ts \<noteq> [] \<and> (\<forall>t \<in> set ts. kind t \<noteq> KEof)) \<and>
   (gAnd as a \<longrightarrow> as \<noteq> [] \<and> (\<forall>t \<in> set as. kind t \<noteq> KEof)) \<and>
   (gNot ns n \<longrightarrow> ns \<noteq> [] \<and> (\<forall>t \<in> set ns. kind t \<noteq> KEof)) \<and>
   (gCmp cs c \<longrightarrow> cs \<noteq> [] \<and> (\<forall>t \<in> set cs. kind t \<noteq> KEof))"
proof (induction rule: gOr_gAnd_gNot_gCmp.induct)
  case (comparison as l t op bs r)
  then show ?case by (auto dest!: gPrim_shape)
qed auto

lemmas gOr_no_eof = grammar_no_eof [THEN conjunct1, rule_format]

subsection \<open>Soundness\<close>

lemma peek_Inr [err_simps]: "peek ts = Inr t \<longleftrightarrow> (\<exists>us. ts = t # us)"
  by (auto simp: peek_def split: list.splits)

lemma expect_Inr [err_simps]: "expect k ts = Inr r \<longleftrightarrow> (\<exists>t. ts = t # r \<and> kind t = k)"
  by (auto simp: expect_def err_simps split: if_splits)


lemma kind_case_primary [err_simps]:
  "(case k of KNumber v \<Rightarrow> f v | KIdentifier \<Rightarrow> g | _ \<Rightarrow> Inl z) = Inr b \<longleftrightarrow>
     (\<exists>v. k = KNumber v \<and> f v = Inr b) \<or> (k = KIdentifier \<and> g = Inr b)"
  by (cases k) auto

lemma kind_case_op [err_simps]:
  "(case k of KOp op \<Rightarrow> f op | _ \<Rightarrow> Inl z) = Inr b \<longleftrightarrow> (\<exists>op. k = KOp op \<and> f op = Inr b)"
  by (cases k) auto

lemma if_Inl_Inr [err_simps]: "(if c then Inl z else r) = Inr b \<longleftrightarrow> \<not> c \<and> r = Inr b"
  by auto

lemma parsePrimary_Inr:
  assumes "parsePrimary ts = Inr (p, r)"
  shows "\<exists>t. ts = t # r \<and> gPrim [t] p \<and> (kind t = KIdentifier \<longrightarrow> r \<noteq> [] \<and> kind (hd r) \<noteq> KLparen)"
  using assms unfolding parsePrimary_def
  by (auto simp: err_simps intro: gPrim.intros)

lemma parseComparison_Inr:
  assumes "parseComparison ts = Inr (e, r)"
  obtains s t u op a b where "ts = s # t # u # r" "kind t = KOp op" "gPrim [s] a" "gPrim [u] b"
    "e = CompareExpr op a b" "r \<noteq> []" "\<not> is_op (kind (hd r))"
  using assms unfolding parseComparison_def
  by (auto simp: err_simps dest!: parsePrimary_Inr)

lemma parseComparison_sound: "parseComparison ts = Inr (e, r) \<Longrightarrow> \<exists>us. ts = us @ r \<and> gCmp us e"
proof (erule parseComparison_Inr)
  fix s t u op a b
  assume *: "ts = s # t # u # r" "kind t = KOp op" "gPrim [s] a" "gPrim [u] b" "e = CompareExpr op a b"
  then have "gCmp ([s] @ t # [u]) e" by (auto intro!: comparison simp del: append_Cons append_Nil)
  with * show ?thesis by (intro exI [of _ "[s, t, u]"]) simp
qed

text \<open>Inversion of successful runs, one equation per parser function.\<close>

lemma parseOr_Inr: "parseOr n ts = Inr (e, r) \<longleftrightarrow>
    (\<exists>m l r1. n = Suc m \<and> parseAnd m ts = Inr (l, r1) \<and> orLoop m l r1 = Inr (e, r))"
  by (cases n) (auto simp: err_simps parser_step)

lemma orLoop_Inr: "orLoop n l ts = Inr (e, r) \<longleftrightarrow>
    (\<exists>m t us. n = Suc m \<and> ts = t # us \<and>
       (if kind t = KOr then \<exists>b vs. parseAnd m us = Inr (b, vs) \<and> orLoop m (LogicalExpr LOr l b) vs = Inr (e, r)
        else e = l \<and> r = ts))"
  by (cases n; cases ts) (auto simp: err_simps parser_step)

lemma parseAnd_Inr: "parseAnd n ts = Inr (e, r) \<longleftrightarrow>
    (\<exists>m l r1. n = Suc m \<and> parseNot m ts = Inr (l, r1) \<and> andLoop m l r1 = Inr (e, r))"
  by (cases n) (auto simp: err_simps parser_step)

lemma andLoop_Inr: "andLoop n l ts = Inr (e, r) \<longleftrightarrow>
    (\<exists>m t us. n = Suc m \<and> ts = t # us \<and>
       (if kind t = KAnd then \<exists>b vs. parseNot m us = Inr (b, vs) \<and> andLoop m (LogicalExpr LAnd l b) vs = Inr (e, r)
        else e = l \<and> r = ts))"
  by (cases n; cases ts) (auto simp: err_simps parser_step)

lemma parseNot_Inr: "parseNot n ts = Inr (e, r) \<longleftrightarrow>
    (\<exists>m t us. n = Suc m \<and> ts = t # us \<and>
       (if kind t = KNot then \<exists>b. parseNot m us = Inr (b, r) \<and> e = NotExpr b else parseCompare m ts = Inr (e, r)))"
  by (cases n; cases ts) (auto simp: err_simps parser_step)

lemma parseCompare_Inr: "parseCompare n ts = Inr (e, r) \<longleftrightarrow>
    (\<exists>m t us. n = Suc m \<and> ts = t # us \<and>
       (if kind t = KLparen then \<exists>u. parseOr m us = Inr (e, u # r) \<and> kind u = KRparen
        else parseComparison ts = Inr (e, r)))"
  by (cases n; cases ts) (auto simp: err_simps parser_step)

lemmas parser_Inr = parseOr_Inr orLoop_Inr parseAnd_Inr andLoop_Inr parseNot_Inr parseCompare_Inr

definition sound_at :: "nat \<Rightarrow> bool" where
  "sound_at n \<longleftrightarrow>
     (\<forall>ts e r. parseOr n ts = Inr (e, r) \<longrightarrow> (\<exists>us. ts = us @ r \<and> gOr us e)) \<and>
     (\<forall>l ts e r pre. orLoop n l ts = Inr (e, r) \<longrightarrow> gOr pre l \<longrightarrow> (\<exists>us. ts = us @ r \<and> gOr (pre @ us) e)) \<and>
     (\<forall>ts e r. parseAnd n ts = Inr (e, r) \<longrightarrow> (\<exists>us. ts = us @ r \<and> gAnd us e)) \<and>
     (\<forall>l ts e r pre. andLoop n l ts = Inr (e, r) \<longrightarrow> gAnd pre l \<longrightarrow> (\<exists>us. ts = us @ r \<and> gAnd (pre @ us) e)) \<and>
     (\<forall>ts e r. parseNot n ts = Inr (e, r) \<longrightarrow> (\<exists>us. ts = us @ r \<and> gNot us e)) \<and>
     (\<forall>ts e r. parseCompare n ts = Inr (e, r) \<longrightarrow> (\<exists>us. ts = us @ r \<and> gCmp us e))"

lemma sound_atD:
  assumes "sound_at n"
  shows "parseOr n ts = Inr (e, r) \<Longrightarrow> \<exists>us. ts = us @ r \<and> gOr us e"
    and "orLoop n l ts = Inr (e, r) \<Longrightarrow> gOr pre l \<Longrightarrow> \<exists>us. ts = us @ r \<and> gOr (pre @ us) e"
    and "parseAnd n ts = Inr (e, r) \<Longrightarrow> \<exists>us. ts = us @ r \<and> gAnd us e"
    and "andLoop n l ts = Inr (e, r) \<Longrightarrow> gAnd pre l \<Longrightarrow> \<exists>us. ts = us @ r \<and> gAnd (pre @ us) e"
    and "parseNot n ts = Inr (e, r) \<Longrightarrow> \<exists>us. ts = us @ r \<and> gNot us e"
    and "parseCompare n ts = Inr (e, r) \<Longrightarrow> \<exists>us. ts = us @ r \<and> gCmp us e"
  using assms by (auto simp: sound_at_def)

lemma sound_parseOr:
  assumes "sound_at n" "parseOr (Suc n) ts = Inr (e, r)"
  shows "\<exists>us. ts = us @ r \<and> gOr us e"
  using assms(2) unfolding parseOr_Inr
  by (fastforce dest!: sound_atD(3) [OF assms(1)] sound_atD(2) [OF assms(1) _ or_and])

lemma sound_parseAnd:
  assumes "sound_at n" "parseAnd (Suc n) ts = Inr (e, r)"
  shows "\<exists>us. ts = us @ r \<and> gAnd us e"
  using assms(2) unfolding parseAnd_Inr
  by (fastforce dest!: sound_atD(5) [OF assms(1)] sound_atD(4) [OF assms(1) _ and_not])

lemma sound_orLoop:
  assumes s: "sound_at n" and "orLoop (Suc n) l ts = Inr (e, r)" "gOr pre l"
  shows "\<exists>us. ts = us @ r \<and> gOr (pre @ us) e"
proof -
  from orLoop_Inr [THEN iffD1, OF assms(2)] obtain t us where ts: "ts = t # us" and c: "if kind t = KOr
      then \<exists>b vs. parseAnd n us = Inr (b, vs) \<and> orLoop n (LogicalExpr LOr l b) vs = Inr (e, r)
      else e = l \<and> r = ts" by blast
  show ?thesis
  proof (cases "kind t = KOr")
    case True
    with c obtain b vs where b: "parseAnd n us = Inr (b, vs)"
      and o: "orLoop n (LogicalExpr LOr l b) vs = Inr (e, r)" by auto
    from sound_atD(3) [OF s b] obtain bs where bs: "us = bs @ vs" "gAnd bs b" by blast
    from sound_atD(2) [OF s o or_or [OF assms(3) True bs(2)]] show ?thesis using ts bs(1) by auto
  qed (use c assms(3) in auto)
qed

lemma sound_andLoop:
  assumes s: "sound_at n" and "andLoop (Suc n) l ts = Inr (e, r)" "gAnd pre l"
  shows "\<exists>us. ts = us @ r \<and> gAnd (pre @ us) e"
proof -
  from andLoop_Inr [THEN iffD1, OF assms(2)] obtain t us where ts: "ts = t # us" and c: "if kind t = KAnd
      then \<exists>b vs. parseNot n us = Inr (b, vs) \<and> andLoop n (LogicalExpr LAnd l b) vs = Inr (e, r)
      else e = l \<and> r = ts" by blast
  show ?thesis
  proof (cases "kind t = KAnd")
    case True
    with c obtain b vs where b: "parseNot n us = Inr (b, vs)"
      and o: "andLoop n (LogicalExpr LAnd l b) vs = Inr (e, r)" by auto
    from sound_atD(5) [OF s b] obtain bs where bs: "us = bs @ vs" "gNot bs b" by blast
    from sound_atD(4) [OF s o and_and [OF assms(3) True bs(2)]] show ?thesis using ts bs(1) by auto
  qed (use c assms(3) in auto)
qed

lemma sound_parseNot:
  assumes s: "sound_at n" and "parseNot (Suc n) ts = Inr (e, r)"
  shows "\<exists>us. ts = us @ r \<and> gNot us e"
proof -
  from parseNot_Inr [THEN iffD1, OF assms(2)] obtain t us where ts: "ts = t # us" and c: "if kind t = KNot
      then \<exists>b. parseNot n us = Inr (b, r) \<and> e = NotExpr b
      else parseCompare n ts = Inr (e, r)" by blast
  show ?thesis
  proof (cases "kind t = KNot")
    case True
    with c obtain b where o: "parseNot n us = Inr (b, r)" and e: "e = NotExpr b" by auto
    from sound_atD(5) [OF s o] obtain vs where vs: "us = vs @ r" "gNot vs b" by blast
    from not_not [OF True vs(2)] show ?thesis using ts vs(1) e by (intro exI [of _ "t # vs"]) simp
  next
    case False
    with c have "parseCompare n ts = Inr (e, r)" by simp
    from sound_atD(6) [OF s this] show ?thesis by (blast intro: not_cmp)
  qed
qed

lemma sound_parseCompare:
  assumes s: "sound_at n" and "parseCompare (Suc n) ts = Inr (e, r)"
  shows "\<exists>us. ts = us @ r \<and> gCmp us e"
proof -
  from parseCompare_Inr [THEN iffD1, OF assms(2)] obtain t us where ts: "ts = t # us" and c: "if kind t = KLparen
      then \<exists>u. parseOr n us = Inr (e, u # r) \<and> kind u = KRparen
      else parseComparison ts = Inr (e, r)" by blast
  show ?thesis
  proof (cases "kind t = KLparen")
    case True
    with c obtain u where o: "parseOr n us = Inr (e, u # r)" and u: "kind u = KRparen" by auto
    from sound_atD(1) [OF s o] obtain vs where vs: "us = vs @ u # r" "gOr vs e" by blast
    from paren [OF True vs(2) u] show ?thesis using ts vs(1) by (intro exI [of _ "t # vs @ [u]"]) simp
  qed (use c in \<open>auto dest: parseComparison_sound\<close>)
qed

lemma parser_sound: "sound_at n"
proof (induction n)
  case 0
  show ?case by (simp add: sound_at_def)
next
  case (Suc n)
  show ?case unfolding sound_at_def
    by (intro conjI allI impI)
       (blast intro: sound_parseOr [OF Suc] sound_orLoop [OF Suc] sound_parseAnd [OF Suc]
          sound_andLoop [OF Suc] sound_parseNot [OF Suc] sound_parseCompare [OF Suc])+
qed

subsection \<open>Fuel: more never changes a result, and \<open>4 n + 4\<close> is enough for \<open>n\<close> tokens\<close>

abbreviation oof :: "RetryError + 'a \<Rightarrow> bool" where
  "oof r \<equiv> r = Inl OutOfFuel"

definition stable_at :: "nat \<Rightarrow> bool" where
  "stable_at n \<longleftrightarrow>
     (\<forall>ts. \<not> oof (parseOr n ts) \<longrightarrow> parseOr (Suc n) ts = parseOr n ts) \<and>
     (\<forall>l ts. \<not> oof (orLoop n l ts) \<longrightarrow> orLoop (Suc n) l ts = orLoop n l ts) \<and>
     (\<forall>ts. \<not> oof (parseAnd n ts) \<longrightarrow> parseAnd (Suc n) ts = parseAnd n ts) \<and>
     (\<forall>l ts. \<not> oof (andLoop n l ts) \<longrightarrow> andLoop (Suc n) l ts = andLoop n l ts) \<and>
     (\<forall>ts. \<not> oof (parseNot n ts) \<longrightarrow> parseNot (Suc n) ts = parseNot n ts) \<and>
     (\<forall>ts. \<not> oof (parseCompare n ts) \<longrightarrow> parseCompare (Suc n) ts = parseCompare n ts)"

lemma stable_step:
  assumes "stable_at n"
  shows "\<not> oof (parseOr (Suc n) ts) \<Longrightarrow> parseOr (Suc (Suc n)) ts = parseOr (Suc n) ts"
    and "\<not> oof (orLoop (Suc n) l ts) \<Longrightarrow> orLoop (Suc (Suc n)) l ts = orLoop (Suc n) l ts"
    and "\<not> oof (parseAnd (Suc n) ts) \<Longrightarrow> parseAnd (Suc (Suc n)) ts = parseAnd (Suc n) ts"
    and "\<not> oof (andLoop (Suc n) l ts) \<Longrightarrow> andLoop (Suc (Suc n)) l ts = andLoop (Suc n) l ts"
    and "\<not> oof (parseNot (Suc n) ts) \<Longrightarrow> parseNot (Suc (Suc n)) ts = parseNot (Suc n) ts"
    and "\<not> oof (parseCompare (Suc n) ts) \<Longrightarrow> parseCompare (Suc (Suc n)) ts = parseCompare (Suc n) ts"
proof -
  from assms have IH [simp]: "\<And>ts. \<not> oof (parseOr n ts) \<Longrightarrow> parseOr (Suc n) ts = parseOr n ts"
    "\<And>l ts. \<not> oof (orLoop n l ts) \<Longrightarrow> orLoop (Suc n) l ts = orLoop n l ts"
    "\<And>ts. \<not> oof (parseAnd n ts) \<Longrightarrow> parseAnd (Suc n) ts = parseAnd n ts"
    "\<And>l ts. \<not> oof (andLoop n l ts) \<Longrightarrow> andLoop (Suc n) l ts = andLoop n l ts"
    "\<And>ts. \<not> oof (parseNot n ts) \<Longrightarrow> parseNot (Suc n) ts = parseNot n ts"
    "\<And>ts. \<not> oof (parseCompare n ts) \<Longrightarrow> parseCompare (Suc n) ts = parseCompare n ts"
    by (auto simp only: stable_at_def)
  show "parseOr (Suc (Suc n)) ts = parseOr (Suc n) ts" if "\<not> oof (parseOr (Suc n) ts)"
    using that unfolding parseOr.simps(2) by (cases "parseAnd n ts") auto
  show "orLoop (Suc (Suc n)) l ts = orLoop (Suc n) l ts" if "\<not> oof (orLoop (Suc n) l ts)"
    using that unfolding orLoop.simps(2) [of "Suc n" l ts] orLoop.simps(2) [of n l ts]
    by (cases "peek ts"; cases "parseAnd n (tl ts)") auto
  show "parseAnd (Suc (Suc n)) ts = parseAnd (Suc n) ts" if "\<not> oof (parseAnd (Suc n) ts)"
    using that unfolding parseAnd.simps(2) by (cases "parseNot n ts") auto
  show "andLoop (Suc (Suc n)) l ts = andLoop (Suc n) l ts" if "\<not> oof (andLoop (Suc n) l ts)"
    using that unfolding andLoop.simps(2) [of "Suc n" l ts] andLoop.simps(2) [of n l ts]
    by (cases "peek ts"; cases "parseNot n (tl ts)") auto
  show "parseNot (Suc (Suc n)) ts = parseNot (Suc n) ts" if "\<not> oof (parseNot (Suc n) ts)"
    using that unfolding parseNot.simps(2) [of "Suc n" ts] parseNot.simps(2) [of n ts]
    by (cases "peek ts"; cases "parseNot n (tl ts)") auto
  show "parseCompare (Suc (Suc n)) ts = parseCompare (Suc n) ts" if "\<not> oof (parseCompare (Suc n) ts)"
    using that unfolding parseCompare.simps(2) by (cases "peek ts"; cases "parseOr n (tl ts)") auto
qed

lemma parser_stable: "stable_at n"
proof (induction n)
  case (Suc n)
  show ?case unfolding stable_at_def using stable_step [OF Suc] by blast
qed (simp add: stable_at_def)

lemma parser_mono:
  assumes "n \<le> m"
  shows "\<not> oof (parseOr n ts) \<Longrightarrow> parseOr m ts = parseOr n ts"
    and "\<not> oof (orLoop n l ts) \<Longrightarrow> orLoop m l ts = orLoop n l ts"
    and "\<not> oof (parseAnd n ts) \<Longrightarrow> parseAnd m ts = parseAnd n ts"
    and "\<not> oof (andLoop n l ts) \<Longrightarrow> andLoop m l ts = andLoop n l ts"
    and "\<not> oof (parseNot n ts) \<Longrightarrow> parseNot m ts = parseNot n ts"
    and "\<not> oof (parseCompare n ts) \<Longrightarrow> parseCompare m ts = parseCompare n ts"
  using assms
  by (induction m rule: dec_induct; use parser_stable in \<open>auto simp: stable_at_def\<close>)+

lemma parser_mono_Inr:
  assumes "n \<le> m"
  shows "parseOr n ts = Inr x \<Longrightarrow> parseOr m ts = Inr x"
    and "orLoop n l ts = Inr x \<Longrightarrow> orLoop m l ts = Inr x"
    and "parseAnd n ts = Inr x \<Longrightarrow> parseAnd m ts = Inr x"
    and "andLoop n l ts = Inr x \<Longrightarrow> andLoop m l ts = Inr x"
    and "parseNot n ts = Inr x \<Longrightarrow> parseNot m ts = Inr x"
    and "parseCompare n ts = Inr x \<Longrightarrow> parseCompare m ts = Inr x"
  using parser_mono [OF assms] by auto

lemma parser_consumes:
  "parseAnd n ts = Inr (e, r) \<Longrightarrow> length r < length ts"
  "parseNot n ts = Inr (e, r) \<Longrightarrow> length r < length ts"
  using sound_atD(3,5) [OF parser_sound] grammar_no_eof by fastforce+

lemma no_oof_basics: "\<not> oof (peek ts)" "\<not> oof (expect k ts)" "\<not> oof (parsePrimary ts)" "\<not> oof (parseComparison ts)"
proof -
  show p: "\<not> oof (peek ts)" for ts by (simp add: peek_def split: list.splits)
  show "\<not> oof (expect k ts)" using p by (auto simp: expect_def err_simps)
  show pr: "\<not> oof (parsePrimary ts)" for ts
    using p by (auto simp: parsePrimary_def err_simps split: TokenKind.splits)
  show "\<not> oof (parseComparison ts)"
    using p pr by (auto simp: parseComparison_def err_simps split: TokenKind.splits)
qed

lemma peek_Inr_length: "peek ts = Inr t \<Longrightarrow> length ts = Suc (length (tl ts))"
  by (cases ts) (auto simp: peek_def)

lemma parse_fuel_enough:
  "(\<forall>ts. 4 * length ts + 4 \<le> n \<longrightarrow> \<not> oof (parseOr n ts)) \<and>
   (\<forall>l ts. 4 * length ts + 1 \<le> n \<longrightarrow> \<not> oof (orLoop n l ts)) \<and>
   (\<forall>ts. 4 * length ts + 3 \<le> n \<longrightarrow> \<not> oof (parseAnd n ts)) \<and>
   (\<forall>l ts. 4 * length ts + 1 \<le> n \<longrightarrow> \<not> oof (andLoop n l ts)) \<and>
   (\<forall>ts. 4 * length ts + 2 \<le> n \<longrightarrow> \<not> oof (parseNot n ts)) \<and>
   (\<forall>ts. 4 * length ts + 1 \<le> n \<longrightarrow> \<not> oof (parseCompare n ts))"
proof (induction n)
  case (Suc n)
  then have IH: "\<And>ts. oof (parseOr n ts) \<Longrightarrow> n < 4 * length ts + 4"
    "\<And>l ts. oof (orLoop n l ts) \<Longrightarrow> n < 4 * length ts + 1"
    "\<And>ts. oof (parseAnd n ts) \<Longrightarrow> n < 4 * length ts + 3"
    "\<And>l ts. oof (andLoop n l ts) \<Longrightarrow> n < 4 * length ts + 1"
    "\<And>ts. oof (parseNot n ts) \<Longrightarrow> n < 4 * length ts + 2"
    "\<And>ts. oof (parseCompare n ts) \<Longrightarrow> n < 4 * length ts + 1"
    by (meson not_less)+
  show ?case
    by (intro conjI allI impI notI;
        auto simp: parser_step err_simps no_oof_basics split: if_splits dest!: parser_consumes IH)
qed simp

subsection \<open>Completeness\<close>

definition follows :: "TokenKind set \<Rightarrow> Token list \<Rightarrow> bool" where
  "follows K ts \<longleftrightarrow> ts \<noteq> [] \<and> kind (hd ts) \<in> K"

abbreviation "orFollow \<equiv> {KOr, KRparen, KEof}"
abbreviation "andFollow \<equiv> {KAnd, KOr, KRparen, KEof}"

lemma parsePrimary_complete:
  "gPrim us p \<Longrightarrow> rest \<noteq> [] \<Longrightarrow> kind (hd rest) \<noteq> KLparen \<Longrightarrow> parsePrimary (us @ rest) = Inr (p, rest)"
  by (cases rest) (auto elim!: gPrim.cases simp: parsePrimary_def peek_def)

lemma parseComparison_complete:
  assumes "gPrim as l" "kind t = KOp op" "gPrim bs r" "follows andFollow rest"
  shows "parseComparison (as @ t # bs @ rest) = Inr (CompareExpr op l r, rest)"
proof -
  from assms(4) have f: "rest \<noteq> []" "kind (hd rest) \<noteq> KLparen" "\<not> is_op (kind (hd rest))"
    by (auto simp: follows_def is_op_def)
  have "parsePrimary (as @ t # bs @ rest) = Inr (l, t # bs @ rest)"
    using parsePrimary_complete [OF assms(1), of "t # bs @ rest"] assms(2) by simp
  moreover have "parsePrimary (bs @ rest) = Inr (r, rest)"
    by (rule parsePrimary_complete [OF assms(3) f(1,2)])
  ultimately show ?thesis
    using assms(2) f by (cases rest) (auto simp: parseComparison_def peek_def)
qed

lemma orLoop_stop: "follows orFollow rest \<Longrightarrow> kind (hd rest) \<noteq> KOr \<Longrightarrow> orLoop (Suc n) e rest = Inr (e, rest)"
  by (cases rest) (auto simp: follows_def orLoop.simps peek_def)

lemma andLoop_stop: "follows orFollow rest \<Longrightarrow> andLoop (Suc n) e rest = Inr (e, rest)"
  by (cases rest) (auto simp: follows_def andLoop.simps peek_def)

text \<open>What completeness says of each non-terminal, with the loop that continues after it.\<close>

definition cOr :: "Token list \<Rightarrow> Expression \<Rightarrow> bool" where
  "cOr us e \<longleftrightarrow> (\<forall>rest k x. follows orFollow rest \<longrightarrow> orLoop k e rest = Inr x \<longrightarrow> (\<exists>n. parseOr n (us @ rest) = Inr x))"

definition cAnd :: "Token list \<Rightarrow> Expression \<Rightarrow> bool" where
  "cAnd us e \<longleftrightarrow> (\<forall>rest k x. follows andFollow rest \<longrightarrow> andLoop k e rest = Inr x \<longrightarrow> (\<exists>n. parseAnd n (us @ rest) = Inr x))"

definition cNot :: "Token list \<Rightarrow> Expression \<Rightarrow> bool" where
  "cNot us e \<longleftrightarrow> (\<forall>rest. follows andFollow rest \<longrightarrow> (\<exists>n. parseNot n (us @ rest) = Inr (e, rest)))"

definition cCmp :: "Token list \<Rightarrow> Expression \<Rightarrow> bool" where
  "cCmp us e \<longleftrightarrow> (\<forall>rest. follows andFollow rest \<longrightarrow> (\<exists>n. parseCompare n (us @ rest) = Inr (e, rest)))"

lemma cOrD: "cOr us e \<Longrightarrow> follows orFollow rest \<Longrightarrow> orLoop k e rest = Inr x \<Longrightarrow> \<exists>n. parseOr n (us @ rest) = Inr x"
  unfolding cOr_def by blast

lemma cAndD: "cAnd us e \<Longrightarrow> follows andFollow rest \<Longrightarrow> andLoop k e rest = Inr x \<Longrightarrow> \<exists>n. parseAnd n (us @ rest) = Inr x"
  unfolding cAnd_def by blast

lemma cAnd_alone:
  assumes "cAnd us e" "follows orFollow rest"
  shows "\<exists>n. parseAnd n (us @ rest) = Inr (e, rest)"
proof -
  from assms(2) have "follows andFollow rest" by (auto simp: follows_def)
  from cAndD [OF assms(1) this andLoop_stop [OF assms(2), of 0]] show ?thesis .
qed

lemma gCmp_head:
  assumes "gCmp ts e"
  obtains t us where "ts = t # us" "kind t \<noteq> KNot"
  using assms by (cases rule: gCmp.cases) (auto elim!: gPrim.cases)

lemma complete_or_and:
  assumes "cAnd ts e"
  shows "cOr ts e"
  unfolding cOr_def
proof (intro allI impI)
  fix rest k x assume f: "follows orFollow rest" and o: "orLoop k e rest = Inr x"
  from cAnd_alone [OF assms f] obtain n where n: "parseAnd n (ts @ rest) = Inr (e, rest)" ..
  have "parseOr (Suc (max n k)) (ts @ rest) = Inr x"
    using parser_mono_Inr(3) [OF _ n, of "max n k"] parser_mono_Inr(2) [OF _ o, of "max n k"]
    by (simp add: parser_step)
  then show "\<exists>n. parseOr n (ts @ rest) = Inr x" ..
qed

lemma complete_or_or:
  assumes "cOr ts l" "kind t = KOr" "cAnd us r"
  shows "cOr (ts @ t # us) (LogicalExpr LOr l r)"
  unfolding cOr_def
proof (intro allI impI)
  fix rest k x assume f: "follows orFollow rest" and o: "orLoop k (LogicalExpr LOr l r) rest = Inr x"
  from cAnd_alone [OF assms(3) f] obtain n where n: "parseAnd n (us @ rest) = Inr (r, rest)" ..
  have o': "orLoop (Suc (max n k)) l (t # us @ rest) = Inr x"
    using parser_mono_Inr(3) [OF _ n, of "max n k"] parser_mono_Inr(2) [OF _ o, of "max n k"] assms(2)
    by (simp add: parser_step peek_def)
  have "follows orFollow (t # us @ rest)" using assms(2) by (simp add: follows_def)
  from cOrD [OF assms(1) this o'] show "\<exists>n. parseOr n ((ts @ t # us) @ rest) = Inr x" by simp
qed

lemma complete_and_not:
  assumes "cNot ts e"
  shows "cAnd ts e"
  unfolding cAnd_def
proof (intro allI impI)
  fix rest k x assume f: "follows andFollow rest" and o: "andLoop k e rest = Inr x"
  with assms obtain n where n: "parseNot n (ts @ rest) = Inr (e, rest)" unfolding cNot_def by blast
  have "parseAnd (Suc (max n k)) (ts @ rest) = Inr x"
    using parser_mono_Inr(5) [OF _ n, of "max n k"] parser_mono_Inr(4) [OF _ o, of "max n k"]
    by (simp add: parser_step)
  then show "\<exists>n. parseAnd n (ts @ rest) = Inr x" ..
qed

lemma complete_and_and:
  assumes "cAnd ts l" "kind t = KAnd" "cNot us r"
  shows "cAnd (ts @ t # us) (LogicalExpr LAnd l r)"
  unfolding cAnd_def
proof (intro allI impI)
  fix rest k x assume f: "follows andFollow rest" and o: "andLoop k (LogicalExpr LAnd l r) rest = Inr x"
  with assms(3) obtain n where n: "parseNot n (us @ rest) = Inr (r, rest)" unfolding cNot_def by blast
  have o': "andLoop (Suc (max n k)) l (t # us @ rest) = Inr x"
    using parser_mono_Inr(5) [OF _ n, of "max n k"] parser_mono_Inr(4) [OF _ o, of "max n k"] assms(2)
    by (simp add: parser_step peek_def)
  have "follows andFollow (t # us @ rest)" using assms(2) by (simp add: follows_def)
  from cAndD [OF assms(1) this o'] show "\<exists>n. parseAnd n ((ts @ t # us) @ rest) = Inr x" by simp
qed

lemma complete_not_cmp:
  assumes "gCmp ts e" "cCmp ts e"
  shows "cNot ts e"
  unfolding cNot_def
proof (intro allI impI)
  fix rest assume "follows andFollow rest"
  with assms(2) obtain n where n: "parseCompare n (ts @ rest) = Inr (e, rest)" unfolding cCmp_def by blast
  from assms(1) obtain t us where "ts = t # us" "kind t \<noteq> KNot" by (rule gCmp_head)
  with n have "parseNot (Suc n) (ts @ rest) = Inr (e, rest)" by (simp add: parser_step peek_def)
  then show "\<exists>n. parseNot n (ts @ rest) = Inr (e, rest)" ..
qed

lemma complete_not_not:
  assumes "kind t = KNot" "cNot ts e"
  shows "cNot (t # ts) (NotExpr e)"
  unfolding cNot_def
proof (intro allI impI)
  fix rest assume "follows andFollow rest"
  with assms(2) obtain n where n: "parseNot n (ts @ rest) = Inr (e, rest)" unfolding cNot_def by blast
  with assms(1) have "parseNot (Suc n) ((t # ts) @ rest) = Inr (NotExpr e, rest)"
    by (simp add: parser_step peek_def)
  then show "\<exists>n. parseNot n ((t # ts) @ rest) = Inr (NotExpr e, rest)" ..
qed

lemma complete_comparison:
  assumes "gPrim as l" "kind t = KOp op" "gPrim bs r"
  shows "cCmp (as @ t # bs) (CompareExpr op l r)"
  unfolding cCmp_def
proof (intro allI impI)
  fix rest assume "follows andFollow rest"
  from parseComparison_complete [OF assms this]
  have "parseCompare (Suc 0) ((as @ t # bs) @ rest) = Inr (CompareExpr op l r, rest)"
    using assms(1) by (auto elim!: gPrim.cases simp: parser_step peek_def)
  then show "\<exists>n. parseCompare n ((as @ t # bs) @ rest) = Inr (CompareExpr op l r, rest)" ..
qed

lemma complete_paren:
  assumes "kind t = KLparen" "cOr ts e" "kind u = KRparen"
  shows "cCmp (t # ts @ [u]) e"
  unfolding cCmp_def
proof (intro allI impI)
  fix rest assume "follows andFollow rest"
  have f: "follows orFollow (u # rest)" using assms(3) by (simp add: follows_def)
  have "orLoop (Suc 0) e (u # rest) = Inr (e, u # rest)" using orLoop_stop [OF f] assms(3) by simp
  from cOrD [OF assms(2) f this] obtain n where "parseOr n (ts @ u # rest) = Inr (e, u # rest)" ..
  with assms have "parseCompare (Suc n) ((t # ts @ [u]) @ rest) = Inr (e, rest)"
    by (simp add: parser_step peek_def expect_def)
  then show "\<exists>n. parseCompare n ((t # ts @ [u]) @ rest) = Inr (e, rest)" ..
qed

lemma parser_complete:
  "(gOr us e \<longrightarrow> cOr us e) \<and> (gAnd as a \<longrightarrow> cAnd as a) \<and> (gNot ns m \<longrightarrow> cNot ns m) \<and> (gCmp cs c \<longrightarrow> cCmp cs c)"
  by (induction rule: gOr_gAnd_gNot_gCmp.induct)
     (blast intro: complete_or_and complete_or_or complete_and_not complete_and_and complete_not_cmp
        complete_not_not complete_comparison complete_paren)+

lemma parse_tokens_iff:
  assumes "kind z = KEof" "\<forall>t \<in> set ts. kind t \<noteq> KEof"
  shows "parse_tokens (ts @ [z]) = Inr e \<longleftrightarrow> gOr ts e"
proof
  assume "parse_tokens (ts @ [z]) = Inr e"
  then obtain r where p: "parseOr (4 * length (ts @ [z]) + 4) (ts @ [z]) = Inr (e, r)"
    and r: "r \<noteq> []" "kind (hd r) = KEof"
    by (auto simp: parse_tokens_def err_simps split: if_splits)
  from sound_atD(1) [OF parser_sound p] obtain us where us: "ts @ [z] = us @ r" "gOr us e" by blast
  have "butlast r = []"
  proof (rule ccontr)
    assume "butlast r \<noteq> []"
    then have "hd r \<in> set (butlast r)" by (cases r) (auto split: if_splits)
    moreover have "ts = us @ butlast r" using us(1) r(1) by (metis butlast_append butlast_snoc)
    ultimately show False using assms(2) r(2) by auto
  qed
  with r(1) have "length r = 1" by (cases r) (auto split: if_splits)
  with us(1) have "us = ts" by (metis append_eq_append_conv length_Cons list.size(3) One_nat_def)
  with us(2) show "gOr ts e" by simp
next
  assume g: "gOr ts e"
  have f: "follows orFollow [z]" using assms(1) by (simp add: follows_def)
  have "orLoop (Suc 0) e [z] = Inr (e, [z])" using orLoop_stop [OF f] assms(1) by simp
  with parser_complete g f obtain n where n: "parseOr n (ts @ [z]) = Inr (e, [z])"
    using cOrD by blast
  let ?k = "4 * length (ts @ [z]) + 4"
  have "\<not> oof (parseOr ?k (ts @ [z]))" using parse_fuel_enough by blast
  moreover have "parseOr (max n ?k) (ts @ [z]) = Inr (e, [z])"
    by (rule parser_mono_Inr(1) [OF _ n]) simp
  ultimately have "parseOr ?k (ts @ [z]) = Inr (e, [z])"
    using parser_mono(1) [of ?k "max n ?k" "ts @ [z]"] by simp
  then show "parse_tokens (ts @ [z]) = Inr e" using assms(1) by (simp add: parse_tokens_def peek_def)
qed

end
