(* ===== verification/RetryLexer.thy ===== *)
theory RetryLexer
  imports RetryGrammar
begin

text \<open>
  The lexer of \<open>src/lib/retry-condition.ts\<close> and the whole of \<open>validate\<close>: what one token is
  (\<open>lexeme_of\<close>), one step of the lexer, the round trip between token lists and text, the
  characterisation of \<open>validate\<close> by the grammar of \<open>RetryGrammar\<close>, and the errors it cannot raise.
\<close>


lemma scan_number_append: "scan_number st s = Inr (t, r) \<Longrightarrow> s = t @ r"
  by (auto simp: scan_number_def Let_def split: list.splits if_splits)
     (metis append_Cons append_assoc takeWhile_dropWhile_id append_Nil2)+

lemma compare_op_length: "compare_op c r = Some (op, n) \<Longrightarrow> n \<le> Suc (length r) \<and> 0 < n"
  by (auto simp: compare_op_def next_is_def Let_def split: if_splits list.splits)

lemma next_is_length: "next_is P r \<Longrightarrow> Suc (length (drop 1 r)) = length r"
  by (cases r) (auto simp: next_is_def)

lemma word_kind_not_eof: "word_kind w \<noteq> KEof" "word_kind w \<noteq> KNumber v"
  by (auto simp: word_kind_def)

definition ends_eof :: "nat \<Rightarrow> Token list \<Rightarrow> bool" where
  "ends_eof n ts \<longleftrightarrow> (\<exists>us. ts = us @ [tok KEof [] n] \<and> (\<forall>t \<in> set us. kind t \<noteq> KEof))"

lemma ends_eof_single: "ends_eof n [tok KEof [] n]"
  by (simp add: ends_eof_def)

lemma ends_eof_Cons: "ends_eof n ts \<Longrightarrow> kind t \<noteq> KEof \<Longrightarrow> ends_eof n (t # ts)"
  unfolding ends_eof_def by (metis append_Cons set_ConsD)

lemma kind_tok [simp]: "kind (tok k t p) = k" and lexeme_tok [simp]: "lexeme (tok k t p) = t"
  and tpos_tok [simp]: "tpos (tok k t p) = p"
  by (simp_all add: tok_def)

lemma length_take_drop_While: "length (takeWhile P s) + length (dropWhile P s) = length s"
  by (metis length_append takeWhile_dropWhile_id)


declare tokenize.simps(2) [simp del]

definition ident_lexeme :: "string \<Rightarrow> bool" where
  "ident_lexeme w \<longleftrightarrow> w \<noteq> [] \<and> ident_start (hd w) \<and> (\<forall>c \<in> set w. ident_cont c)"

definition unsigned_numeral :: "string \<Rightarrow> bool" where
  "unsigned_numeral w \<longleftrightarrow>
     (let a = takeWhile is_digit w; r = dropWhile is_digit w
      in a \<noteq> [] \<and> (r = [] \<or> hd r = CHR ''.'' \<and> tl r \<noteq> [] \<and> (\<forall>c \<in> set (tl r). is_digit c)))"

definition numeral_lexeme :: "string \<Rightarrow> bool" where
  "numeral_lexeme w \<longleftrightarrow> (if w \<noteq> [] \<and> hd w = CHR ''-'' then unsigned_numeral (tl w) else unsigned_numeral w)"

fun lexeme_of :: "TokenKind \<Rightarrow> string \<Rightarrow> bool" where
  "lexeme_of (KNumber v) w = (numeral_lexeme w \<and> v = js_Number w)"
| "lexeme_of KIdentifier w = (ident_lexeme w \<and> word_kind w = KIdentifier)"
| "lexeme_of KAnd w = (w = ''&&'' \<or> w = ''and'')"
| "lexeme_of KOr w = (w = ''||'' \<or> w = ''or'')"
| "lexeme_of KNot w = (w = ''!'' \<or> w = ''not'')"
| "lexeme_of KLparen w = (w = ''('')"
| "lexeme_of KRparen w = (w = '')'')"
| "lexeme_of (KOp op) w = (w = (case op of OpGt \<Rightarrow> ''>'' | OpGe \<Rightarrow> ''>='' | OpLt \<Rightarrow> ''<'' | OpLe \<Rightarrow> ''<=''
                                | OpEq \<Rightarrow> ''=='' | OpNe \<Rightarrow> ''!=''))"
| "lexeme_of KEof w = False"

lemma not_digit_dot [simp]: "\<not> is_digit CHR ''.''"
  by code_simp

lemma unsigned_numeral_int: "ds \<noteq> [] \<Longrightarrow> \<forall>c \<in> set ds. is_digit c \<Longrightarrow> unsigned_numeral ds"
  by (simp add: unsigned_numeral_def takeWhile_eq_all_conv [THEN iffD2] dropWhile_eq_Nil_conv [THEN iffD2])

lemma unsigned_numeral_frac:
  "ds \<noteq> [] \<Longrightarrow> \<forall>c \<in> set ds. is_digit c \<Longrightarrow> fs \<noteq> [] \<Longrightarrow> \<forall>c \<in> set fs. is_digit c \<Longrightarrow>
   unsigned_numeral (ds @ CHR ''.'' # fs)"
  by (simp add: unsigned_numeral_def takeWhile_append2 dropWhile_append2)

lemma scan_number_numeral:
  assumes "scan_number st s = Inr (t, r)" "next_is is_digit s"
  shows "unsigned_numeral t"
proof -
  have ne: "takeWhile is_digit s \<noteq> []" "\<forall>c \<in> set (takeWhile is_digit s). is_digit c"
    using assms(2) by (auto simp: next_is_def split: list.splits dest: set_takeWhileD)
  have fs: "takeWhile is_digit u \<noteq> []" "\<forall>c \<in> set (takeWhile is_digit u). is_digit c" if "next_is is_digit u" for u
    using that by (auto simp: next_is_def split: list.splits dest: set_takeWhileD)
  show ?thesis
  proof (cases "\<exists>u. dropWhile is_digit s = CHR ''.'' # u")
    case False
    then have "t = takeWhile is_digit s"
      using assms(1) by (auto simp: scan_number_def Let_def split: list.splits if_splits)
    then show ?thesis using ne by (simp add: unsigned_numeral_int)
  next
    case True
    then obtain u where u: "dropWhile is_digit s = CHR ''.'' # u" by blast
    then have "next_is is_digit u" "t = takeWhile is_digit s @ CHR ''.'' # takeWhile is_digit u"
      using assms(1) by (auto simp: scan_number_def Let_def split: if_splits)
    then show ?thesis using ne fs [of u] by (simp add: unsigned_numeral_frac)
  qed
qed

lemma compare_op_lexeme:
  "compare_op c r = Some (op, n) \<Longrightarrow> lexeme_of (KOp op) (take n (c # r)) \<and> (n = 1 \<or> n = 2 \<and> r \<noteq> [])"
  by (auto simp: compare_op_def next_is_def Let_def split: if_splits list.splits)

lemma lexeme_of_word:
  "ident_start c \<Longrightarrow> lexeme_of (word_kind (takeWhile ident_cont (c # r))) (takeWhile ident_cont (c # r))"
  by (auto simp: word_kind_def ident_lexeme_def ident_cont_def dest: set_takeWhileD)

lemma digit_char: "is_digit c \<Longrightarrow> \<not> is_blank c \<and> c \<notin> set ''()&|!<>=-''"
  by (auto simp: is_digit_def is_blank_def less_eq_char_def)
lemma ident_char: "ident_start c \<Longrightarrow> \<not> is_blank c \<and> \<not> is_digit c \<and> c \<notin> set ''()&|!<>=-''"
  by (auto simp: is_digit_def ident_start_def is_blank_def less_eq_char_def)

lemma tokenize_Cons:
  assumes "tokenize i (c # r) = Inr ts"
  shows "(is_blank c \<and> tokenize (i + 1) r = Inr ts) \<or>
    (\<exists>k w s us. c # r = w @ s \<and> w \<noteq> [] \<and> lexeme_of k w \<and> ts = tok k w i # us \<and> tokenize (i + length w) s = Inr us)"
proof -
  have T: ?thesis
    if "c # r = w @ s" "w \<noteq> []" "lexeme_of k w" "push (tok k w i) (tokenize (i + length w) s) = Inr ts" for k w s
    using that by (auto simp: err_simps)
  consider (blank) "is_blank c" | (lp) "c = CHR ''(''" | (rp) "c = CHR '')''"
    | (amp) "c = CHR ''&''" "next_is (\<lambda>x. x = CHR ''&'') r" | (bar) "c = CHR ''|''" "next_is (\<lambda>x. x = CHR ''|'') r"
    | (bang) "c = CHR ''!''" "\<not> next_is (\<lambda>x. x = CHR ''='') r"
    | (cmp) "c \<in> set ''><=!''" "c \<noteq> CHR ''!'' \<or> next_is (\<lambda>x. x = CHR ''='') r"
    | (neg) "c = CHR ''-''" "next_is is_digit r" | (digit) "is_digit c" | (ident) "ident_start c"
    | (bad) "\<not> is_blank c" "\<not> is_digit c" "\<not> ident_start c" "c \<notin> set ''()<>=!''"
        "\<not> (c = CHR ''&'' \<and> next_is (\<lambda>x. x = CHR ''&'') r)" "\<not> (c = CHR ''|'' \<and> next_is (\<lambda>x. x = CHR ''|'') r)"
        "\<not> (c = CHR ''-'' \<and> next_is is_digit r)"
    by auto
  then show ?thesis
  proof cases
    case blank then show ?thesis using assms by (simp add: tokenize.simps(2))
  next
    case lp then show ?thesis using assms by (intro T [of "''(''" r KLparen]) (auto simp: tokenize.simps(2) is_blank_def)
  next
    case rp then show ?thesis using assms by (intro T [of "'')''" r KRparen]) (auto simp: tokenize.simps(2) is_blank_def)
  next
    case amp then show ?thesis using assms
      by (intro T [of "''&&''" "drop 1 r" KAnd]) (auto simp: tokenize.simps(2) is_blank_def next_is_def split: list.splits)
  next
    case bar then show ?thesis using assms
      by (intro T [of "''||''" "drop 1 r" KOr]) (auto simp: tokenize.simps(2) is_blank_def next_is_def split: list.splits)
  next
    case bang then show ?thesis using assms by (intro T [of "''!''" r KNot]) (auto simp: tokenize.simps(2) is_blank_def)
  next
    case cmp
    then have step: "tokenize i (c # r) = (case compare_op c r of None \<Rightarrow> Inl (Unexpected c i)
         | Some (op, n) \<Rightarrow> push (tok (KOp op) (take n (c # r)) i) (tokenize (i + n) (drop (n - 1) r)))"
      by (auto simp: tokenize.simps(2) is_blank_def)
    with assms obtain q n where q: "compare_op c r = Some (q, n)"
      and p: "push (tok (KOp q) (take n (c # r)) i) (tokenize (i + n) (drop (n - 1) r)) = Inr ts"
      by (auto split: option.splits)
    from compare_op_lexeme [OF q] have L: "lexeme_of (KOp q) (take n (c # r))"
      and n: "0 < n" "length (take n (c # r)) = n" by (auto simp del: lexeme_of.simps simp: Suc_le_eq)
    have "c # r = take n (c # r) @ drop (n - 1) r"
      using append_take_drop_id [of n "c # r"] n(1) by (cases n) auto
    with L p n show ?thesis by (intro T [of "take n (c # r)" "drop (n - 1) r" "KOp q"]) (auto simp del: lexeme_of.simps)
  next
    case neg
    with assms obtain t r' where n: "scan_number i r = Inr (t, r')"
      and p: "push (tok (KNumber (js_Number (c # t))) (c # t) i) (tokenize (i + 1 + length t) r') = Inr ts"
      by (auto simp: tokenize.simps(2) is_blank_def err_simps)
    from scan_number_append [OF n] scan_number_numeral [OF n neg(2)] neg(1) p show ?thesis
      by (intro T [of "c # t" r' "KNumber (js_Number (c # t))"]) (auto simp: numeral_lexeme_def)
  next
    case digit
    with assms digit_char [OF digit] obtain t r' where n: "scan_number i (c # r) = Inr (t, r')"
      and p: "push (tok (KNumber (js_Number t)) t i) (tokenize (i + length t) r') = Inr ts"
      by (auto simp: tokenize.simps(2) err_simps)
    have u: "unsigned_numeral t" by (rule scan_number_numeral [OF n]) (simp add: next_is_def digit)
    then have t: "t \<noteq> []" by (auto simp: unsigned_numeral_def)
    with scan_number_append [OF n] digit_char [OF digit] have "hd t \<noteq> CHR ''-''" by (cases t) auto
    with u t scan_number_append [OF n] p show ?thesis
      by (intro T [of t r' "KNumber (js_Number t)"]) (auto simp: numeral_lexeme_def)
  next
    case ident
    have "ident_cont c" using ident by (simp add: ident_cont_def)
    then have "tokenize i (c # r) = push (tok (word_kind (takeWhile ident_cont (c # r))) (takeWhile ident_cont (c # r)) i)
        (tokenize (i + length (takeWhile ident_cont (c # r))) (dropWhile ident_cont (c # r)))"
      using ident_char [OF ident] ident by (auto simp: tokenize.simps(2) Let_def)
    with assms lexeme_of_word [OF ident, of r] \<open>ident_cont c\<close> show ?thesis
      by (intro T [of "takeWhile ident_cont (c # r)" "dropWhile ident_cont (c # r)"]) auto
  next
    case bad then show ?thesis using assms by (auto simp: tokenize.simps(2) split: if_splits)
  qed
qed

lemma lexeme_of_not_eof: "lexeme_of k w \<Longrightarrow> k \<noteq> KEof"
  by auto

lemma tokenize_ends_eof: "tokenize i s = Inr ts \<Longrightarrow> ends_eof (i + length s) ts"
proof (induction s arbitrary: i ts rule: length_induct)
  case (1 s)
  show ?case
  proof (cases s)
    case Nil
    with 1 show ?thesis by (auto simp: ends_eof_single)
  next
    case (Cons c r)
    with "1.prems" have "tokenize i (c # r) = Inr ts" by simp
    from tokenize_Cons [OF this] show ?thesis
    proof (elim disjE exE conjE)
      assume "tokenize (i + 1) r = Inr ts"
      with "1.IH" Cons show ?thesis by fastforce
    next
      fix k w s' us
      assume w: "c # r = w @ s'" "w \<noteq> []" "lexeme_of k w" "ts = tok k w i # us" "tokenize (i + length w) s' = Inr us"
      from w(1,2) Cons have "length s' < length s" "length s = length w + length s'" by (metis length_append length_greater_0_conv less_add_same_cancel2)+
      with "1.IH" w(5) have "ends_eof (i + length s) us" by (metis add.assoc)
      with w show ?thesis by (auto intro!: ends_eof_Cons dest: lexeme_of_not_eof)
    qed
  qed
qed

lemma validate_iff:
  "validate s None = Inr e \<longleftrightarrow>
     js_trim s \<noteq> [] \<and> (\<exists>ts. tokenize 0 s = Inr (ts @ [tok KEof [] (length s)]) \<and> gOr ts e)"
proof -
  have A: "parse_tokens us = Inr e \<longleftrightarrow> (\<exists>ts. us = ts @ [tok KEof [] (length s)] \<and> gOr ts e)" if "tokenize 0 s = Inr us" for us
    using tokenize_ends_eof [OF that] parse_tokens_iff by (auto simp: ends_eof_def)
  show ?thesis by (auto simp: validate_def err_simps A)
qed

subsection \<open>No read past the end of the token array\<close>

definition has_eof :: "Token list \<Rightarrow> bool" where
  "has_eof ts \<longleftrightarrow> ts \<noteq> [] \<and> kind (last ts) = KEof"

lemma has_eof_tl: "has_eof ts \<Longrightarrow> peek ts = Inr t \<Longrightarrow> kind t \<noteq> KEof \<Longrightarrow> has_eof (tl ts)"
  by (cases ts) (auto simp: has_eof_def peek_def split: if_splits)

lemma has_eof_rest: "has_eof (us @ r) \<Longrightarrow> \<forall>t \<in> set us. kind t \<noteq> KEof \<Longrightarrow> has_eof r"
  by (cases "r = []") (auto simp: has_eof_def)

lemma has_eof_parser:
  assumes "has_eof ts"
  shows "parseOr n ts = Inr (e, r) \<Longrightarrow> has_eof r" and "parseAnd n ts = Inr (e, r) \<Longrightarrow> has_eof r"
    and "parseNot n ts = Inr (e, r) \<Longrightarrow> has_eof r" and "parseCompare n ts = Inr (e, r) \<Longrightarrow> has_eof r"
  using assms sound_atD [OF parser_sound] grammar_no_eof has_eof_rest by metis+

definition past :: "RetryError + 'a \<Rightarrow> bool" where
  "past r \<longleftrightarrow> r = Inl PastEnd"

lemma past_then [err_simps]: "past (then_ok r k) \<longleftrightarrow> past r \<or> (\<exists>a. r = Inr a \<and> past (k a))"
  by (auto simp: past_def err_simps)
lemma past_simps [simp]: "\<not> past (Inr a)" "past (Inl e) \<longleftrightarrow> e = PastEnd"
  by (auto simp: past_def)
lemma past_peek [err_simps]: "past (peek ts) \<longleftrightarrow> ts = []"
  by (simp add: past_def peek_def split: list.splits)
lemma past_expect [err_simps]: "past (expect k ts) \<longleftrightarrow> ts = []"
  by (auto simp: expect_def err_simps)
lemma has_eof_simps [simp]: "\<not> has_eof []" "kind t \<noteq> KEof \<Longrightarrow> has_eof (t # us) \<longleftrightarrow> has_eof us"
  by (auto simp: has_eof_def)
lemma past_case_primary [err_simps]:
  "past (case k of KNumber v \<Rightarrow> Inr (f v) | KIdentifier \<Rightarrow> b | _ \<Rightarrow> Inl (ExpectedPrimary t)) \<longleftrightarrow> k = KIdentifier \<and> past b"
  by (cases k) auto
lemma past_case_op [err_simps]:
  "past (case k of KOp op \<Rightarrow> f op | _ \<Rightarrow> Inl (ExpectedComparison t)) \<longleftrightarrow> (\<exists>op. k = KOp op \<and> past (f op))"
  by (cases k) auto

lemma primary_in_range:
  assumes "has_eof ts"
  shows "\<not> past (parsePrimary ts)" "parsePrimary ts = Inr (p, r) \<Longrightarrow> has_eof r"
  using assms by (auto simp: parsePrimary_def err_simps)

lemma comparison_in_range: "has_eof ts \<Longrightarrow> \<not> past (parseComparison ts)"
  by (auto simp: parseComparison_def err_simps dest: primary_in_range(1) dest!: primary_in_range(2) [rotated])

lemma parser_in_range:
  "(\<forall>ts. has_eof ts \<longrightarrow> \<not> past (parseOr n ts)) \<and>
   (\<forall>l ts. has_eof ts \<longrightarrow> \<not> past (orLoop n l ts)) \<and>
   (\<forall>ts. has_eof ts \<longrightarrow> \<not> past (parseAnd n ts)) \<and>
   (\<forall>l ts. has_eof ts \<longrightarrow> \<not> past (andLoop n l ts)) \<and>
   (\<forall>ts. has_eof ts \<longrightarrow> \<not> past (parseNot n ts)) \<and>
   (\<forall>ts. has_eof ts \<longrightarrow> \<not> past (parseCompare n ts))"
proof (induction n)
  case (Suc n)
  then have IH: "\<And>ts. past (parseOr n ts) \<Longrightarrow> \<not> has_eof ts"
    "\<And>l ts. past (orLoop n l ts) \<Longrightarrow> \<not> has_eof ts"
    "\<And>ts. past (parseAnd n ts) \<Longrightarrow> \<not> has_eof ts"
    "\<And>l ts. past (andLoop n l ts) \<Longrightarrow> \<not> has_eof ts"
    "\<And>ts. past (parseNot n ts) \<Longrightarrow> \<not> has_eof ts"
    "\<And>ts. past (parseCompare n ts) \<Longrightarrow> \<not> has_eof ts"
    by blast+
  show ?case
    by (intro conjI allI impI notI;
        auto simp: parser_step err_simps split: if_splits
             dest: IH comparison_in_range dest!: has_eof_parser [rotated])
qed simp

lemma parse_tokens_errors:
  "\<not> oof (parse_tokens ts)" "has_eof ts \<Longrightarrow> \<not> past (parse_tokens ts)"
proof -
  have n: "\<not> oof (parseOr (4 * length ts + 4) ts)" using parse_fuel_enough by blast
  then show "\<not> oof (parse_tokens ts)"
    using no_oof_basics(1) by (auto simp: parse_tokens_def err_simps)
  show "\<not> past (parse_tokens ts)" if "has_eof ts"
    using that parser_in_range by (auto simp: parse_tokens_def err_simps dest!: has_eof_parser(1) [rotated])
qed

lemma tokenize_errors: "tokenize i s \<noteq> Inl OutOfFuel \<and> tokenize i s \<noteq> Inl PastEnd"
  by (induction i s rule: tokenize.induct)
     (auto simp: tokenize.simps(2) err_simps scan_number_def Let_def split: if_splits option.splits list.splits)

lemma validate_total:
  "validate s m \<noteq> Inl OutOfFuel \<and> validate s m \<noteq> Inl PastEnd"
proof -
  have "has_eof ts" if "tokenize 0 s = Inr ts" for ts
    using tokenize_ends_eof [OF that] by (auto simp: ends_eof_def has_eof_def)
  then show ?thesis
    using parse_tokens_errors tokenize_errors [of 0 s]
    by (auto simp: validate_def err_simps past_def split: option.splits)
qed
end
