(* ===== verification/RetrySemantics.thy ===== *)
theory RetrySemantics
  imports RetryLexer
begin

text \<open>
  Printing and lexing back, the meaning of the evaluator of \<open>src/lib/retry-condition.ts\<close> (a
  semantics without the threaded set of missing keys), and the properties of the component.
\<close>

subsection \<open>Printing a token list and lexing it back\<close>

fun unlex :: "(TokenKind \<times> string) list \<Rightarrow> string" where
  "unlex [] = []"
| "unlex ((k, w) # us) = w @ CHR '' '' # unlex us"

fun place :: "nat \<Rightarrow> (TokenKind \<times> string) list \<Rightarrow> Token list" where
  "place i [] = [tok KEof [] i]"
| "place i ((k, w) # us) = tok k w i # place (i + length w + 1) us"

lemma blank_not [simp]: "\<not> is_digit CHR '' ''" "\<not> ident_cont CHR '' ''" "is_blank CHR '' ''"
  by code_simp+

lemma unsigned_numeral_scan:
  "unsigned_numeral w \<Longrightarrow> scan_number i (w @ CHR '' '' # s) = Inr (w, CHR '' '' # s)"
  "unsigned_numeral w \<Longrightarrow> next_is is_digit (w @ CHR '' '' # s)"
proof -
  assume u: "unsigned_numeral w"
  define a where "a = takeWhile is_digit w"
  define r where "r = dropWhile is_digit w"
  have w: "w = a @ r" by (simp add: a_def r_def)
  have a: "\<And>c. c \<in> set a \<Longrightarrow> is_digit c" by (auto simp: a_def dest: set_takeWhileD)
  have n: "a \<noteq> []" "r = [] \<or> hd r = CHR ''.'' \<and> tl r \<noteq> [] \<and> (\<forall>c \<in> set (tl r). is_digit c)"
    using u by (simp_all add: unsigned_numeral_def a_def r_def Let_def)
  from n(1) a show "next_is is_digit (w @ CHR '' '' # s)" by (cases a) (auto simp: w next_is_def)
  show "scan_number i (w @ CHR '' '' # s) = Inr (w, CHR '' '' # s)"
  proof (cases r)
    case Nil
    then show ?thesis using a by (simp add: w scan_number_def takeWhile_append2 dropWhile_append2)
  next
    case (Cons c f)
    then have c: "c = CHR ''.''" "f \<noteq> []" "\<And>x. x \<in> set f \<Longrightarrow> is_digit x" using n(2) by auto
    then have "next_is is_digit (f @ CHR '' '' # s)" by (cases f) (auto simp: next_is_def)
    then show ?thesis using a c Cons by (simp add: w scan_number_def takeWhile_append2 dropWhile_append2)
  qed
qed

lemma lex_one:
  assumes "lexeme_of k w"
  shows "tokenize i (w @ CHR '' '' # s) = push (tok k w i) (tokenize (i + length w + 1) s)"
proof -
  have B: "tokenize j (CHR '' '' # s) = tokenize (j + 1) s" for j by (simp add: tokenize.simps(2))
  have W: "tokenize i (w @ CHR '' '' # s) = push (tok (word_kind w) w i) (tokenize (i + length w + 1) s)"
    if "ident_lexeme w" for w
  proof -
    from that obtain c r where w: "w = c # r" "ident_start c" "ident_cont c" "\<And>x. x \<in> set r \<Longrightarrow> ident_cont x"
      by (cases w) (auto simp: ident_lexeme_def)
    then show ?thesis
      using ident_char [OF w(2)]
      by (auto simp: tokenize.simps(2) [of i c] Let_def takeWhile_append2 dropWhile_append2 B)
  qed
  show ?thesis
  proof (cases k)
    case (KNumber v)
    with assms have v: "numeral_lexeme w" "v = js_Number w" by auto
    show ?thesis
    proof (cases "w \<noteq> [] \<and> hd w = CHR ''-''")
      case True
      then obtain u where u: "w = CHR ''-'' # u" "unsigned_numeral u" using v by (cases w) (auto simp: numeral_lexeme_def)
      then show ?thesis using v KNumber
        by (simp add: tokenize.simps(2) [of i "CHR ''-''"] is_blank_def unsigned_numeral_scan B)
    next
      case False
      then have u: "unsigned_numeral w" using v by (auto simp: numeral_lexeme_def)
      then obtain c r where w: "w = c # r" "is_digit c"
        using unsigned_numeral_scan(2) [OF u] by (cases w) (auto simp: next_is_def)
      have "scan_number i (c # r @ CHR '' '' # s) = Inr (w, CHR '' '' # s)"
        using unsigned_numeral_scan(1) [OF u] by (simp add: w)
      then show ?thesis using digit_char [OF w(2)] w v KNumber
        by (auto simp: tokenize.simps(2) [of i c] B)
    qed
  next
    case KIdentifier
    with assms W [of w] show ?thesis by auto
  next
    case KAnd
    then show ?thesis using assms W [of "''and''"]
      by (auto simp: tokenize.simps(2) [of i "CHR ''&''"] is_blank_def next_is_def B ident_lexeme_def ident_start_def ident_cont_def word_kind_def)
  next
    case KOr
    then show ?thesis using assms W [of "''or''"]
      by (auto simp: tokenize.simps(2) [of i "CHR ''|''"] is_blank_def next_is_def B ident_lexeme_def ident_start_def ident_cont_def word_kind_def)
  next
    case KNot
    then show ?thesis using assms W [of "''not''"]
      by (auto simp: tokenize.simps(2) [of i "CHR ''!''"] is_blank_def next_is_def B ident_lexeme_def ident_start_def ident_cont_def word_kind_def)
  next
    case (KOp op)
    then show ?thesis using assms
      by (cases op) (auto simp: tokenize.simps(2) [of i] is_blank_def next_is_def compare_op_def Let_def B)
  qed (use assms in \<open>auto simp: tokenize.simps(2) [of i] is_blank_def B\<close>)
qed

lemma lex_round_trip:
  "(\<And>k w. (k, w) \<in> set us \<Longrightarrow> lexeme_of k w) \<Longrightarrow> tokenize i (unlex us) = Inr (place i us)"
proof (induction us arbitrary: i rule: unlex.induct)
  case (2 k w us)
  then have "lexeme_of k w" "\<And>i. tokenize i (unlex us) = Inr (place i us)" by auto
  then show ?case by (simp add: lex_one)
qed simp

lemma tokenize_lexemes:
  "tokenize i s = Inr ts \<Longrightarrow> t \<in> set (butlast ts) \<Longrightarrow> lexeme_of (kind t) (lexeme t)"
proof (induction s arbitrary: i ts rule: length_induct)
  case (1 s)
  show ?case
  proof (cases s)
    case Nil
    with 1 show ?thesis by auto
  next
    case (Cons c r)
    with "1.prems" have "tokenize i (c # r) = Inr ts" by simp
    from tokenize_Cons [OF this] show ?thesis
    proof (elim disjE exE conjE)
      assume "tokenize (i + 1) r = Inr ts"
      with 1 Cons show ?thesis by fastforce
    next
      fix k w s' us
      assume w: "c # r = w @ s'" "w \<noteq> []" "lexeme_of k w" "ts = tok k w i # us" "tokenize (i + length w) s' = Inr us"
      from w(1,2) Cons have "length s' < length s" by (metis length_append length_greater_0_conv less_add_same_cancel2)
      with "1.IH" w(5) have "t \<in> set (butlast us) \<Longrightarrow> ?thesis" by blast
      with w(3,4) "1.prems"(2) show ?thesis by (auto split: if_splits)
    qed
  qed
qed

subsection \<open>Evaluator\<close>

fun term_value :: "metrics \<Rightarrow> CompareTerm \<Rightarrow> js_number" where
  "term_value m (NumericLiteral v) = v"
| "term_value m (Identifier x) = (case m x of Some v \<Rightarrow> v | None \<Rightarrow> Fin 0)"

fun holds :: "metrics \<Rightarrow> Expression \<Rightarrow> bool" where
  "holds m (CompareExpr op l r) = compare_values op (term_value m l) (term_value m r)"
| "holds m (LogicalExpr LAnd l r) = (holds m l \<and> holds m r)"
| "holds m (LogicalExpr LOr l r) = (holds m l \<or> holds m r)"
| "holds m (NotExpr e) = (\<not> holds m e)"

fun term_ids :: "CompareTerm \<Rightarrow> string set" where
  "term_ids (NumericLiteral v) = {}" | "term_ids (Identifier x) = {x}"

fun expr_ids :: "Expression \<Rightarrow> string set" where
  "expr_ids (CompareExpr op l r) = term_ids l \<union> term_ids r"
| "expr_ids (LogicalExpr op l r) = expr_ids l \<union> expr_ids r"
| "expr_ids (NotExpr e) = expr_ids e"

lemma add_key_simps [simp]: "set (add_key k ks) = insert k (set ks)" "distinct (add_key k ks) = distinct ks"
  by (auto simp: add_key_def)

lemma resolveTerm_simps [simp]: "fst (resolveTerm t m ks) = term_value m t"
  "set (snd (resolveTerm t m ks)) = set ks \<union> {x \<in> term_ids t. m x = None}"
  "distinct (snd (resolveTerm t m ks)) = distinct ks"
  by (cases t; auto simp: resolveTerm_def split: option.splits)+

lemma evalExpr_value: "fst (evalExpr e m ks) = holds m e"
proof (induction e arbitrary: ks)
  case (LogicalExpr op l r)
  then show ?case by (cases op) (auto simp: Let_def split_def)
qed (auto simp: Let_def split_def)

text \<open>The missing keys that the short-circuit order of the code reaches.\<close>

fun touched :: "metrics \<Rightarrow> Expression \<Rightarrow> string set" where
  "touched m (CompareExpr op l r) = {x \<in> term_ids l \<union> term_ids r. m x = None}"
| "touched m (LogicalExpr op l r) =
     touched m l \<union> (if holds m l = (op = LAnd) then touched m r else {})"
| "touched m (NotExpr e) = touched m e"

lemma evalExpr_keys:
  "set (snd (evalExpr e m ks)) = set ks \<union> touched m e \<and> distinct (snd (evalExpr e m ks)) = distinct ks"
proof (induction e arbitrary: ks)
  case (LogicalExpr op l r)
  then show ?case by (cases op) (auto simp: Let_def split_def evalExpr_value)
qed (auto simp: Let_def split_def)

lemma touched_expr_ids: "touched m e \<subseteq> {x \<in> expr_ids e. m x = None}"
  by (induction e) auto

lemma collectIdentifiers_set: "set (collectIdentifiers e ns) = set ns \<union> expr_ids e"
  and collectIdentifiers_distinct: "distinct (collectIdentifiers e ns) = distinct ns"
  by (induction e arbitrary: ns) (auto simp: collectTermIdentifier_def split: CompareTerm.splits)

lemma holds_cong: "(\<And>x. x \<in> expr_ids e \<Longrightarrow> m x = m' x) \<Longrightarrow> holds m e = holds m' e"
proof (induction e)
  case (CompareExpr op l r)
  then have "term_value m l = term_value m' l" "term_value m r = term_value m' r"
    by (cases l; cases r; simp)+
  then show ?case by simp
next
  case (LogicalExpr op l r)
  then show ?case by (cases op) auto
qed auto


lemma referencedIdentifiers_set: "set (referencedIdentifiers e) = expr_ids e" "distinct (referencedIdentifiers e)"
  by (simp_all add: referencedIdentifiers_def collectIdentifiers_set collectIdentifiers_distinct)

lemma evaluate_simps [simp]:
  "value_of (evaluate e m) = holds m e" "set (missingKeys (evaluate e m)) = touched m e"
  "distinct (missingKeys (evaluate e m))"
  using evalExpr_value [of e m "[]"] evalExpr_keys [of e m "[]"] by (auto simp: evaluate_def split_def)

subsection \<open>Properties\<close>

text \<open>
  C1. \<open>validate\<close> succeeds on a source exactly when the source has a non-blank character, the lexer
  accepts it, and its tokens without the final end-of-file token are a sentence of the published
  grammar (\<open>or\<close> weaker than \<open>and\<close> weaker than \<open>not\<close>, both binary operators left-associative,
  comparisons not chained); the tree it returns is the one the grammar assigns.  Nothing after
  the sentence is ignored and no sentence is refused.
\<close>
theorem validate_accepts_grammar:
  "validate s None = Inr e \<longleftrightarrow>
     js_trim s \<noteq> [] \<and> (\<exists>ts. tokenize 0 s = Inr (ts @ [tok KEof [] (length s)]) \<and> gOr ts e)"
  by (rule validate_iff)

text \<open>
  C2. \<open>validate\<close> is total: on every source and every bound it returns a tree or one of the
  errors the code throws.  The fuel of the recursive descent is never exhausted, so the two
  \<open>while\<close> loops end, and \<open>tokens[pos]\<close> is never read past the end of the array.
\<close>
theorem validate_never_stuck:
  "validate s m \<noteq> Inl OutOfFuel \<and> validate s m \<noteq> Inl PastEnd"
  by (rule validate_total)

text \<open>
  C3. Lexing inverts printing: a list of well-formed lexemes written with a blank after each is
  read back as the same tokens, at the offsets where they were written, and the end-of-file token.
\<close>
theorem tokenize_print:
  assumes "\<forall>(k, w) \<in> set us. lexeme_of k w"
  shows "tokenize i (unlex us) = Inr (place i us)"
  using assms by (intro lex_round_trip) auto

theorem tokenize_print_witness:
  "tokenize 0 (unlex [(KNot, ''not''), (KIdentifier, ''findings_open''), (KOp OpGe, ''>=''), (KRparen, '')'')])
     = Inr (place 0 [(KNot, ''not''), (KIdentifier, ''findings_open''), (KOp OpGe, ''>=''), (KRparen, '')'')])"
  by (rule tokenize_print) (simp add: ident_lexeme_def ident_start_def ident_cont_def word_kind_def)

text \<open>
  C4. \<open>evaluate\<close> returns the Boolean value of the expression with absent metrics read as zero,
  whatever was missing before, and reports without duplicates exactly the absent metrics that the
  short-circuit order reaches, all of them among \<open>referencedIdentifiers\<close> and absent from the
  metrics; metrics outside \<open>referencedIdentifiers\<close> cannot change the value.
\<close>
theorem evaluate_meaning:
  "value_of (evaluate e m) = holds m e \<and>
   distinct (missingKeys (evaluate e m)) \<and> set (missingKeys (evaluate e m)) = touched m e \<and>
   touched m e \<subseteq> {x \<in> set (referencedIdentifiers e). m x = None} \<and>
   value_of (evaluate e (\<lambda>x. if x \<in> set (referencedIdentifiers e) then m x else k x)) = value_of (evaluate e m)"
  using touched_expr_ids [of m e] by (auto simp: referencedIdentifiers_set intro!: holds_cong)

end
