(* ===== verification/RunTypes.thy ===== *)
theory RunTypes
  imports JsNumber
begin

text \<open>
  \<open>src/state/workflow-run.ts\<close> with the shapes it takes from \<open>src/controller/phase.ts\<close> and
  \<open>src/contracts\<close>: the Run record, its status vocabulary and the predicates on it, the phase
  results, overrides, breakpoints and the patches that are pure functions of a Run.  Epoch
  milliseconds and iteration counters are integers; an optional or nullable field is an option.
  Fields that the modelled code only carries along (session identifiers, the execution envelope,
  the Git receipt, transcript mode, error texts) are left out of the record.
\<close>

subsection \<open>Vocabulary\<close>

datatype WorkflowRunStatus = Running | Paused | RunFailed | Completed | Canceled

datatype PhaseOutcome =
    Clean | IssuesRemain | OutFailed | RateLimited | OutTimeout | TransientError | OutSkipped
  | PausedAtBreakpoint | IncompleteTurn

datatype TerminationReason =
    TDeadline | TToken | TOpenQuestions | TRemainingIssues | TIterationCap | TError | TRateLimit
  | TTimeout | TCancel | TPreSpawnRefusal | TIncompleteTurn

datatype DelayedRetryCause = RetryTransient | RetryRateLimit

datatype ManualPauseCause =
    OperatorPaused | QueuePausedMidRun | BreakpointPaused | VerifyPaused | SpendBoundReached

datatype PhaseOverrideAction = OvSkipped | OvDisabled | OvRemoved

datatype RetryCapOutcome = CapFail | CapContinue | CapContinueDegraded

datatype FailureCause =
    CapExhausted | LastPhaseIssuesRemain | IncompleteTurnUnresolved | FatalSignature | PhaseFailed
  | PhaseTimeout | RunnerProbeFailed | AuditEvidenceUnavailable | StartFailed | JudgedMetricsUnchanged

subsection \<open>Records\<close>

record PhaseDef =
  pdId :: string
  retryCondition :: "string option"
  isRequired :: "bool option"
  onRetryCap :: "RetryCapOutcome option"
  forceContinueOnRetryCap :: "bool option"

record PhaseResult =
  prPhase :: string
  prIteration :: int
  prStartedAt :: int
  prEndedAt :: int
  prResult :: PhaseOutcome
  prTermination :: TerminationReason
  prExitCode :: "int option"

record DegradedPhaseEntry =
  dgPhaseId :: string
  dgCondition :: string

record PhaseOverride =
  ovPhaseId :: string
  ovAction :: PhaseOverrideAction
  ovSetAt :: int

record PhaseBreakpoint =
  bpPhaseId :: string
  bpSetAt :: int

record CreditPause =
  pausedAt :: int
  windowStartedAt :: "int option"
  stoppedAt :: "int option"

record RunPlannedTotal =
  phaseCount :: nat
  iterationCapOf :: int
  maxPhaseInvocations :: int

record WorkflowRun =
  runId :: string
  featureId :: string
  runStatus :: WorkflowRunStatus
  currentPhase :: string
  currentIteration :: int
  lastTransitionAt :: int
  phasesCompleted :: "PhaseResult list"
  degradedPhases :: "DegradedPhaseEntry list option"
  failureCause :: "FailureCause option"
  pipeline :: "PhaseDef list option"
  plannedTotal :: "RunPlannedTotal option"
  delayedRetryCount :: int
  pendingRetryAt :: "int option"
  pendingRetryCause :: "DelayedRetryCause option"
  creditPause :: "CreditPause option"
  phaseOverrides :: "PhaseOverride list"
  manualPauseAt :: "int option"
  manualPauseCause :: "ManualPauseCause option"
  phaseBreakpoints :: "PhaseBreakpoint list"
  resumeTargetPhaseId :: "string option"
  resumePrompt :: "string option"
  writtenAtFence :: "int option"

text \<open>\<open>run.pipeline?.phases ?? []\<close>\<close>

definition planPhases :: "WorkflowRun \<Rightarrow> PhaseDef list" where
  "planPhases run = (case pipeline run of None \<Rightarrow> [] | Some ps \<Rightarrow> ps)"

subsection \<open>Status predicates\<close>

definition isTerminalRunStatus :: "WorkflowRunStatus \<Rightarrow> bool" where
  "isTerminalRunStatus s \<longleftrightarrow> s \<in> {Completed, RunFailed, Canceled}"

definition isOperableRunStatus :: "WorkflowRunStatus \<Rightarrow> bool" where
  "isOperableRunStatus s \<longleftrightarrow> s \<notin> {Completed, Canceled}"

definition LIVE_RUN_STATUSES :: "WorkflowRunStatus list" where
  "LIVE_RUN_STATUSES = [Running, Paused]"

definition OPERABLE_RUN_STATUSES :: "WorkflowRunStatus list" where
  "OPERABLE_RUN_STATUSES = [Running, Paused, RunFailed]"

definition isSupersededRun :: "WorkflowRun \<Rightarrow> int \<Rightarrow> bool" where
  "isSupersededRun run liveFence = (case writtenAtFence run of None \<Rightarrow> False | Some f \<Rightarrow> f < liveFence)"

subsection \<open>Patches\<close>

definition canceledRunPatch :: "int \<Rightarrow> WorkflowRun \<Rightarrow> WorkflowRun" where
  "canceledRunPatch now run = run
     \<lparr>runStatus := Canceled, lastTransitionAt := now, manualPauseAt := None, manualPauseCause := None,
      resumeTargetPhaseId := None, pendingRetryAt := None, pendingRetryCause := None,
      creditPause := None, failureCause := None\<rparr>"

definition creditPausedRun :: "WorkflowRun \<Rightarrow> int \<Rightarrow> PhaseResult \<Rightarrow> int \<Rightarrow> WorkflowRun" where
  "creditPausedRun run iter r now = run
     \<lparr>runStatus := Paused, currentIteration := iter, lastTransitionAt := now,
      phasesCompleted := phasesCompleted run @ [r],
      creditPause := Some \<lparr>pausedAt = now, windowStartedAt = None, stoppedAt = None\<rparr>\<rparr>"

record RunPhaseStats =
  phasesTotal :: nat
  phasesCleanCount :: nat
  phasesSkipped :: nat

definition computeRunPhaseStats :: "WorkflowRun \<Rightarrow> RunPhaseStats" where
  "computeRunPhaseStats run =
     \<lparr>phasesTotal = length (planPhases run),
      phasesCleanCount = length (filter (\<lambda>p. prResult p = Clean) (phasesCompleted run)),
      phasesSkipped = length (filter (\<lambda>p. prResult p = OutSkipped) (phasesCompleted run))\<rparr>"

lemma operable_iff: "isOperableRunStatus s \<longleftrightarrow> s \<in> set OPERABLE_RUN_STATUSES"
  by (cases s) (auto simp: isOperableRunStatus_def OPERABLE_RUN_STATUSES_def)

lemma status_sets [simp]:
  "s \<in> set LIVE_RUN_STATUSES \<longleftrightarrow> s = Running \<or> s = Paused"
  "s \<in> set OPERABLE_RUN_STATUSES \<longleftrightarrow> s = Running \<or> s = Paused \<or> s = RunFailed"
  by (auto simp: LIVE_RUN_STATUSES_def OPERABLE_RUN_STATUSES_def)

lemma terminal_not_live: "isTerminalRunStatus s \<Longrightarrow> s \<notin> set LIVE_RUN_STATUSES"
  by (auto simp: isTerminalRunStatus_def)


subsection \<open>Sample data\<close>

text \<open>A fresh Run over the named phases, as the factory creates it; the witnesses are built from it.\<close>

definition samplePhase :: "string \<Rightarrow> PhaseDef" where
  "samplePhase p = \<lparr>pdId = p, retryCondition = None, isRequired = None, onRetryCap = None, forceContinueOnRetryCap = None\<rparr>"

definition sampleRun :: "string list \<Rightarrow> WorkflowRun" where
  "sampleRun ps =
     \<lparr>runId = ''r1'', featureId = ''t1'', runStatus = Running, currentPhase = hd ps, currentIteration = 0,
      lastTransitionAt = 0, phasesCompleted = [], degradedPhases = None, failureCause = None,
      pipeline = Some (map samplePhase ps), plannedTotal = None, delayedRetryCount = 0,
      pendingRetryAt = None, pendingRetryCause = None, creditPause = None, phaseOverrides = [],
      manualPauseAt = None, manualPauseCause = None, phaseBreakpoints = [], resumeTargetPhaseId = None,
      resumePrompt = None, writtenAtFence = None\<rparr>"

end
