(* ===== verification/PhaseTransition.thy ===== *)
theory PhaseTransition
  imports RunTypes RetrySemantics
begin

text \<open>
  \<open>src/controller/phase.ts\<close>: where a Run goes when a phase ends, with the rules it asks:
  \<open>src/contracts/retry-cap-outcome.ts\<close> (what a phase does at its retry cap) and
  \<open>src/contracts/unchanged-comparison-bound.ts\<close> (when a loop whose judged metrics stand still is
  stopped early).  Warnings keep their template and arguments, not their wording.
\<close>

subsection \<open>Retry-cap outcome\<close>

definition resolveRetryCapOutcome :: "PhaseDef option \<Rightarrow> bool option \<Rightarrow> RetryCapOutcome" where
  "resolveRetryCapOutcome d workspaceDefault =
     (case Option.bind d onRetryCap of
        Some out \<Rightarrow> out
      | None \<Rightarrow>
          (case Option.bind d forceContinueOnRetryCap of
             Some b \<Rightarrow> if b then CapContinue else CapFail
           | None \<Rightarrow> if workspaceDefault = Some True then CapContinue else CapFail))"

definition statesRetryCapOutcome :: "PhaseDef option \<Rightarrow> bool" where
  "statesRetryCapOutcome d \<longleftrightarrow> Option.bind d onRetryCap \<noteq> None \<or> Option.bind d forceContinueOnRetryCap \<noteq> None"

subsection \<open>Unchanged-comparison bound\<close>

definition js_int :: "js_number \<Rightarrow> int option" where
  "js_int x = (case x of Fin q \<Rightarrow> if of_int \<lfloor>q\<rfloor> = q then Some \<lfloor>q\<rfloor> else None | _ \<Rightarrow> None)"

text \<open>The setting as read: \<open>None\<close> for anything that is not a number.\<close>

definition normalizeMaxUnchangedComparisons :: "js_number option \<Rightarrow> int" where
  "normalizeMaxUnchangedComparisons raw =
     (case Option.bind raw js_int of
        None \<Rightarrow> 0
      | Some n \<Rightarrow> if 0 \<le> n \<and> n \<le> 49 then n else 0)"

definition failsAtCap :: "RetryCapOutcome option \<Rightarrow> bool" where
  "failsAtCap out \<longleftrightarrow> out = None \<or> out = Some CapFail"

definition stopsOnUnchangedMetrics :: "js_number option \<Rightarrow> RetryCapOutcome option \<Rightarrow> int option \<Rightarrow> bool" where
  "stopsOnUnchangedMetrics raw out stalled =
     (let bound = normalizeMaxUnchangedComparisons raw
      in if bound < 1 then False
         else if \<not> failsAtCap out then False
         else (case stalled of None \<Rightarrow> False | Some n \<Rightarrow> bound \<le> n))"

datatype BoundState = BoundActive | BoundDisabled | InertCapOutcome | InertNoRetryCondition

definition blank :: "string option \<Rightarrow> bool" where
  "blank s = (case s of None \<Rightarrow> True | Some t \<Rightarrow> js_trim t = [])"

definition unchangedComparisonBoundState :: "js_number option \<Rightarrow> RetryCapOutcome \<Rightarrow> string option \<Rightarrow> BoundState" where
  "unchangedComparisonBoundState raw out cond =
     (if normalizeMaxUnchangedComparisons raw = 0 then BoundDisabled
      else if blank cond then InertNoRetryCondition
      else if failsAtCap (Some out) then BoundActive else InertCapOutcome)"

subsection \<open>Successors\<close>

definition LOOP_PHASES :: "string list" where
  "LOOP_PHASES = [''speckit-clarify'', ''speckit-analyze'', ''speckit-implement'', ''speckit-review'']"

definition DONE :: string where "DONE = ''done''"

definition isLoopPhase :: "string \<Rightarrow> PhaseDef option \<Rightarrow> bool" where
  "isLoopPhase ph d =
     (case d of Some def \<Rightarrow> \<not> blank (retryCondition def) | None \<Rightarrow> ph \<in> set LOOP_PHASES)"

text \<open>\<open>findIndex\<close> of the phase and the element after it.\<close>

fun phaseAfter :: "string \<Rightarrow> PhaseDef list \<Rightarrow> string" where
  "phaseAfter ph [] = DONE"
| "phaseAfter ph (p # ps) =
     (if pdId p = ph then (case ps of [] \<Rightarrow> DONE | q # _ \<Rightarrow> pdId q) else phaseAfter ph ps)"

definition legacySuccessors :: "(string \<times> string) list" where
  "legacySuccessors =
     [(''speckit-specify'', ''speckit-clarify''), (''speckit-clarify'', ''speckit-plan''),
      (''speckit-plan'', ''speckit-tasks''), (''speckit-tasks'', ''speckit-checklist''),
      (''speckit-checklist'', ''speckit-analyze''), (''speckit-analyze'', ''speckit-implement''),
      (''speckit-implement'', ''speckit-review''), (''speckit-review'', ''finalize''),
      (''finalize'', ''done'')]"

definition nextSuccessor :: "string \<Rightarrow> PhaseDef list option \<Rightarrow> string" where
  "nextSuccessor ph pl =
     (case pl of
        Some ps \<Rightarrow> phaseAfter ph ps
      | None \<Rightarrow> (case map_of legacySuccessors ph of Some q \<Rightarrow> q | None \<Rightarrow> DONE))"

definition findPhase :: "string \<Rightarrow> PhaseDef list \<Rightarrow> PhaseDef option" where
  "findPhase ph ps = List.find (\<lambda>p. pdId p = ph) ps"

definition successorIteration :: "string \<Rightarrow> PhaseDef list option \<Rightarrow> int" where
  "successorIteration nx pl = (if isLoopPhase nx (Option.bind pl (findPhase nx)) then 1 else 0)"

subsection \<open>The transition function\<close>

datatype Warning =
    OptionalContinuing string PhaseOutcome
  | ForcedContinue string int string "int option"
  | ContinuedDegraded string int string "int option"
  | TruthyAtCap string int "int option"
  | MetricsUnchanged string int int int
  | CapForceAdvancing string int
  | LastPhaseRemaining string
  | ConditionParseError RetryError
  | MissingMetrics "string list"

datatype HaltStatus = HaltFailed | HaltPaused

datatype HaltCause =
    HcBreakpoint | HcRateLimit | HcTransientError | HcIncompleteTurn | HcCapExhausted
  | HcMetricsUnchanged | HcLastPhaseIssues

datatype TransitionResult =
    Advance (nextPhase: string) (nextIteration: int) (twarnings: "Warning list") "DegradedPhaseEntry option"
  | Loop (nextPhase: string) (nextIteration: int) (twarnings: "Warning list")
  | Halt HaltStatus (twarnings: "Warning list") "HaltCause option"

record TransitionInput =
  tiPhase :: string
  tiOutcome :: PhaseOutcome
  tiIteration :: int
  tiCap :: int
  tiPipeline :: "PhaseDef list option"
  tiDef :: "PhaseDef option"
  tiMetrics :: "metrics"
  tiCapOutcome :: "RetryCapOutcome option"
  tiStalled :: "int option"
  tiMaxUnchanged :: "js_number option"

definition PHASE_RETRY_CONDITION_MAX_LEN :: nat where
  "PHASE_RETRY_CONDITION_MAX_LEN = 512"

text \<open>The truth value and the warnings it pushes; a condition that does not parse is false.\<close>

definition evaluateRetryCondition :: "string \<Rightarrow> metrics \<Rightarrow> bool \<times> Warning list" where
  "evaluateRetryCondition source m =
     (case validate source (Some PHASE_RETRY_CONDITION_MAX_LEN) of
        Inl err \<Rightarrow> (False, [ConditionParseError err])
      | Inr e \<Rightarrow>
          (let r = evaluate e m
           in (value_of r, if missingKeys r \<noteq> [] then [MissingMetrics (missingKeys r)] else [])))"

definition stagnation :: "int option \<Rightarrow> int option" where
  "stagnation stalled = (case stalled of Some n \<Rightarrow> if 1 < n then Some n else None | None \<Rightarrow> None)"

definition advance_to :: "TransitionInput \<Rightarrow> (string \<Rightarrow> Warning list) \<Rightarrow> DegradedPhaseEntry option \<Rightarrow> TransitionResult" where
  "advance_to i ws dg =
     (let nx = nextSuccessor (tiPhase i) (tiPipeline i)
      in Advance nx (successorIteration nx (tiPipeline i)) (ws nx) dg)"

definition isOptional :: "TransitionInput \<Rightarrow> bool" where
  "isOptional i \<longleftrightarrow> Option.bind (tiDef i) isRequired = Some False"

text \<open>The part of \<open>transition\<close> for a well-formed outcome under a non-blank condition.\<close>

definition conditionedTransition :: "TransitionInput \<Rightarrow> string \<Rightarrow> TransitionResult" where
  "conditionedTransition i src =
     (let (truthy, ws) = evaluateRetryCondition src (tiMetrics i);
          ph = tiPhase i; cap = tiCap i; st = stagnation (tiStalled i)
      in if truthy then
           (if cap \<le> tiIteration i then
              (case tiCapOutcome i of
                 Some CapContinue \<Rightarrow> advance_to i (\<lambda>nx. ws @ [ForcedContinue ph cap nx st]) None
               | Some CapContinueDegraded \<Rightarrow>
                   advance_to i (\<lambda>nx. ws @ [ContinuedDegraded ph cap nx st])
                     (Some \<lparr>dgPhaseId = ph, dgCondition = src\<rparr>)
               | _ \<Rightarrow> Halt HaltFailed (ws @ [TruthyAtCap ph cap st]) (Some HcCapExhausted))
            else if stopsOnUnchangedMetrics (tiMaxUnchanged i) (tiCapOutcome i) (tiStalled i) then
              Halt HaltFailed
                (ws @ [MetricsUnchanged ph (case tiStalled i of Some n \<Rightarrow> n | None \<Rightarrow> 0) (tiIteration i) cap])
                (Some HcMetricsUnchanged)
            else Loop ph (tiIteration i + 1) ws)
         else advance_to i (\<lambda>_. ws) None)"

text \<open>The part for a well-formed outcome with no condition to consult.\<close>

definition plainTransition :: "TransitionInput \<Rightarrow> TransitionResult" where
  "plainTransition i =
     (if isLoopPhase (tiPhase i) (tiDef i) \<and> tiOutcome i = IssuesRemain then
        (if tiCap i \<le> tiIteration i
         then advance_to i (\<lambda>_. [CapForceAdvancing (tiPhase i) (tiCap i)]) None
         else Loop (tiPhase i) (tiIteration i + 1) [])
      else if tiOutcome i = IssuesRemain \<and> nextSuccessor (tiPhase i) (tiPipeline i) = DONE \<and> \<not> isOptional i
      then Halt HaltFailed [LastPhaseRemaining (tiPhase i)] (Some HcLastPhaseIssues)
      else advance_to i (\<lambda>_. []) None)"

definition transition :: "TransitionInput \<Rightarrow> TransitionResult" where
  "transition i =
     (let out = tiOutcome i in
      if out = OutSkipped then advance_to i (\<lambda>_. []) None
      else if out = PausedAtBreakpoint then Halt HaltPaused [] (Some HcBreakpoint)
      else if out = IncompleteTurn then Halt HaltFailed [] (Some HcIncompleteTurn)
      else if out = OutFailed \<or> out = OutTimeout then
        (if isOptional i then advance_to i (\<lambda>_. [OptionalContinuing (tiPhase i) out]) None
         else Halt HaltFailed [] None)
      else if out = RateLimited then Halt HaltPaused [] (Some HcRateLimit)
      else if out = TransientError then Halt HaltPaused [] (Some HcTransientError)
      else (case Option.bind (tiDef i) retryCondition of
              Some src \<Rightarrow> if js_trim src \<noteq> [] then conditionedTransition i src else plainTransition i
            | None \<Rightarrow> plainTransition i))"

subsection \<open>Shape of the results\<close>

lemma advance_to_simps [simp]:
  "advance_to i ws dg \<noteq> Loop p n w" "advance_to i ws dg \<noteq> Halt h w c"
  "advance_to i ws dg = Advance p n w d \<longleftrightarrow>
     p = nextSuccessor (tiPhase i) (tiPipeline i) \<and> n = successorIteration p (tiPipeline i) \<and> w = ws p \<and> d = dg"
  by (auto simp: advance_to_def Let_def)

lemma conditioned_Loop:
  "conditionedTransition i src = Loop p n w \<Longrightarrow> p = tiPhase i \<and> n = tiIteration i + 1 \<and> tiIteration i < tiCap i"
  by (auto simp: conditionedTransition_def Let_def split: if_splits prod.splits option.splits RetryCapOutcome.splits)

lemma conditioned_Advance:
  "conditionedTransition i src = Advance p n w d \<Longrightarrow>
     p = nextSuccessor (tiPhase i) (tiPipeline i) \<and> n = successorIteration p (tiPipeline i)"
  by (auto simp: conditionedTransition_def Let_def split: if_splits prod.splits option.splits RetryCapOutcome.splits)

lemma conditioned_Halt:
  "conditionedTransition i src = Halt h w c \<Longrightarrow> h = HaltFailed \<and> c \<in> {Some HcCapExhausted, Some HcMetricsUnchanged}"
  by (auto simp: conditionedTransition_def Let_def split: if_splits prod.splits option.splits RetryCapOutcome.splits)

lemma transition_Loop:
  assumes "transition i = Loop p n w"
  shows "p = tiPhase i" "n = tiIteration i + 1" "tiIteration i < tiCap i" "isLoopPhase (tiPhase i) (tiDef i)"
  using assms by (auto simp: transition_def plainTransition_def Let_def isLoopPhase_def blank_def
        split: if_splits option.splits dest!: conditioned_Loop)

lemma transition_Advance:
  assumes "transition i = Advance p n w d"
  shows "p = nextSuccessor (tiPhase i) (tiPipeline i)" "n = successorIteration p (tiPipeline i)"
  using assms by (auto simp: transition_def plainTransition_def Let_def split: if_splits option.splits
        dest!: conditioned_Advance)

lemma transition_Paused:
  assumes "transition i = Halt HaltPaused w c"
  shows "(tiOutcome i = PausedAtBreakpoint \<and> c = Some HcBreakpoint) \<or>
    (tiOutcome i = RateLimited \<and> c = Some HcRateLimit) \<or> (tiOutcome i = TransientError \<and> c = Some HcTransientError)"
  using assms by (auto simp: transition_def plainTransition_def Let_def split: if_splits option.splits
        dest!: conditioned_Halt)


lemma transition_Failed:
  assumes "transition i = Halt HaltFailed w c"
  shows "tiOutcome i \<noteq> Clean \<or> c \<in> {Some HcCapExhausted, Some HcMetricsUnchanged}"
  using assms by (auto simp: transition_def plainTransition_def Let_def split: if_splits option.splits
        dest!: conditioned_Halt)

end
