(* ===== verification/RunPlan.thy ===== *)
theory RunPlan
  imports PhaseTransition
begin

text \<open>
  \<open>src/services/run-planned-total.ts\<close> and \<open>src/services/run-degradation.ts\<close>: the frozen
  denominator of a Run's progress, the numerator, and the patches that carry them.  A spread of
  an empty patch leaves the Run as it is.
\<close>

definition freezeIterationCap :: "js_number option \<Rightarrow> int" where
  "freezeIterationCap raw =
     (case raw of
        Some (Fin q) \<Rightarrow> if \<lfloor>q\<rfloor> < 1 then 1 else if 50 < \<lfloor>q\<rfloor> then 50 else \<lfloor>q\<rfloor>
      | _ \<Rightarrow> 10)"

definition excludedPhaseIds :: "PhaseOverride list \<Rightarrow> string set" where
  "excludedPhaseIds ovs = set (map ovPhaseId ovs)"

definition keptPhases :: "PhaseDef list \<Rightarrow> PhaseOverride list \<Rightarrow> PhaseDef list" where
  "keptPhases phases ovs = filter (\<lambda>p. pdId p \<notin> excludedPhaseIds ovs) phases"

definition computePlannedTotal :: "PhaseDef list \<Rightarrow> PhaseOverride list \<Rightarrow> js_number option \<Rightarrow> RunPlannedTotal" where
  "computePlannedTotal phases ovs cap =
     (let c = freezeIterationCap cap; kept = keptPhases phases ovs
      in \<lparr>phaseCount = length (remdups (map pdId kept)), iterationCapOf = c,
          maxPhaseInvocations = (\<Sum>p\<leftarrow>kept. if isLoopPhase (pdId p) (Some p) then c else 1)\<rparr>)"

definition plannedTotalPatch :: "PhaseOverride list \<Rightarrow> WorkflowRun \<Rightarrow> WorkflowRun" where
  "plannedTotalPatch ovs run =
     (if planPhases run = [] then run
      else run\<lparr>plannedTotal := Some (computePlannedTotal (planPhases run) ovs
             (Some (Fin (of_int (case plannedTotal run of Some t \<Rightarrow> iterationCapOf t | None \<Rightarrow> 10)))))\<rparr>)"

definition settledOutcome :: "PhaseOutcome \<Rightarrow> bool" where
  "settledOutcome r \<longleftrightarrow> r \<in> {Clean, OutSkipped}"

definition countCompletedInPlan :: "WorkflowRun \<Rightarrow> nat" where
  "countCompletedInPlan run =
     length (remdups (map prPhase (filter (\<lambda>r. settledOutcome (prResult r)
        \<and> prPhase r \<notin> excludedPhaseIds (phaseOverrides run)
        \<and> prPhase r \<in> set (map pdId (planPhases run))) (phasesCompleted run))))"

record Progress =
  settledCount :: nat
  totalCount :: nat

definition settledPhaseProgress :: "WorkflowRun option \<Rightarrow> Progress option" where
  "settledPhaseProgress r =
     (case r of
        None \<Rightarrow> None
      | Some run \<Rightarrow>
          (case plannedTotal run of
             None \<Rightarrow> None
           | Some t \<Rightarrow> Some \<lparr>settledCount = countCompletedInPlan run, totalCount = phaseCount t\<rparr>))"

definition degradationPatch :: "WorkflowRun option \<Rightarrow> DegradedPhaseEntry list option" where
  "degradationPatch r =
     (case Option.bind r degradedPhases of None \<Rightarrow> None | Some ds \<Rightarrow> if ds = [] then None else Some ds)"

subsection \<open>The recorded total in step with the overrides\<close>

definition plan_in_step :: "WorkflowRun \<Rightarrow> bool" where
  "plan_in_step run \<longleftrightarrow>
     (\<forall>t. plannedTotal run = Some t \<longrightarrow> phaseCount t = length (remdups (map pdId (keptPhases (planPhases run) (phaseOverrides run)))))"

lemma phaseCount_computePlannedTotal [simp]:
  "phaseCount (computePlannedTotal ps ovs c) = length (remdups (map pdId (keptPhases ps ovs)))"
  by (simp add: computePlannedTotal_def Let_def)

lemma completed_le_kept:
  "countCompletedInPlan run \<le> length (remdups (map pdId (keptPhases (planPhases run) (phaseOverrides run))))"
  unfolding countCompletedInPlan_def keptPhases_def length_remdups_card_conv
  by (rule card_mono) auto

lemma progress_in_step:
  "plan_in_step run \<Longrightarrow> settledPhaseProgress (Some run) = Some p \<Longrightarrow> settledCount p \<le> totalCount p"
  using completed_le_kept [of run] by (auto simp: plan_in_step_def settledPhaseProgress_def split: option.splits)

lemma plannedTotalPatch_simps [simp]:
  "phaseOverrides (plannedTotalPatch ovs run) = phaseOverrides run"
  "pipeline (plannedTotalPatch ovs run) = pipeline run"
  "planPhases (plannedTotalPatch ovs run) = planPhases run"
  "runStatus (plannedTotalPatch ovs run) = runStatus run"
  "phasesCompleted (plannedTotalPatch ovs run) = phasesCompleted run"
  "phaseBreakpoints (plannedTotalPatch ovs run) = phaseBreakpoints run"
  "currentPhase (plannedTotalPatch ovs run) = currentPhase run"
  "runId (plannedTotalPatch ovs run) = runId run"
  "featureId (plannedTotalPatch ovs run) = featureId run"
  "pendingRetryAt (plannedTotalPatch ovs run) = pendingRetryAt run"
  "pendingRetryCause (plannedTotalPatch ovs run) = pendingRetryCause run"
  "manualPauseAt (plannedTotalPatch ovs run) = manualPauseAt run"
  "manualPauseCause (plannedTotalPatch ovs run) = manualPauseCause run"
  "creditPause (plannedTotalPatch ovs run) = creditPause run"
  "delayedRetryCount (plannedTotalPatch ovs run) = delayedRetryCount run"
  "failureCause (plannedTotalPatch ovs run) = failureCause run"
  "resumeTargetPhaseId (plannedTotalPatch ovs run) = resumeTargetPhaseId run"
  by (simp_all add: plannedTotalPatch_def planPhases_def)

lemma plannedTotalPatch_in_step:
  assumes "planPhases run \<noteq> []"
  shows "plannedTotal (plannedTotalPatch ovs run) \<noteq> None"
    "plannedTotal (plannedTotalPatch ovs run) = Some t \<Longrightarrow>
       phaseCount t = length (remdups (map pdId (keptPhases (planPhases run) ovs)))"
  using assms by (auto simp: plannedTotalPatch_def)

lemma freezeIterationCap_bounds: "1 \<le> freezeIterationCap raw \<and> freezeIterationCap raw \<le> 50"
  by (auto simp: freezeIterationCap_def split: option.splits js_number.splits)

lemma freezeIterationCap_fix: "1 \<le> c \<Longrightarrow> c \<le> 50 \<Longrightarrow> freezeIterationCap (Some (Fin (of_int c))) = c"
  by (simp add: freezeIterationCap_def)

end
