(* ===== verification/PhaseSequencer.thy ===== *)
theory PhaseSequencer
  imports RunPlan
begin

text \<open>
  \<open>src/controller/phase-sequencer.ts\<close> with \<open>fail-decision-cause.ts\<close> and
  \<open>rate-limit-backoff.ts\<close>: what the driver does before a phase is dispatched and with its output.
  The runner's output is a record of the fields the sequencer reads; notice texts are left out.
\<close>

subsection \<open>The runner's output\<close>

datatype InvocationResult =
    IrClean "metrics option"
  | IrOpenQuestions "metrics option"
  | IrRemainingIssues "metrics option"
  | IrRateLimited string "int option" "string option" "metrics option"
  | IrTransientError int "metrics option"
  | IrIncompleteTurn "metrics option"
  | IrMalformed "string option"

fun resultMetrics :: "InvocationResult \<Rightarrow> metrics option" where
  "resultMetrics (IrClean m) = m"
| "resultMetrics (IrOpenQuestions m) = m"
| "resultMetrics (IrRemainingIssues m) = m"
| "resultMetrics (IrRateLimited c t msg m) = m"
| "resultMetrics (IrTransientError x m) = m"
| "resultMetrics (IrIncompleteTurn m) = m"
| "resultMetrics (IrMalformed f) = None"

record PhaseRunOutput =
  poResult :: InvocationResult
  poOutcome :: PhaseOutcome
  poTermination :: TerminationReason
  poExitCode :: "int option"
  poStalled :: "int option"

subsection \<open>Backoff\<close>

definition RATE_LIMIT_FAMILY :: "string list" where
  "RATE_LIMIT_FAMILY = [''rate_limit'', ''rate-limit'', ''out-of-usage'', ''credits-exhausted'',
     ''quota-exceeded'', ''out-of-credits'', ''session-limit'']"

definition toDelayedRetryCause :: "string option \<Rightarrow> DelayedRetryCause option" where
  "toDelayedRetryCause cause =
     (if cause = Some ''transient_error'' then Some RetryTransient
      else case cause of None \<Rightarrow> None
         | Some c \<Rightarrow> if c \<in> set RATE_LIMIT_FAMILY then Some RetryRateLimit else None)"

definition TRANSIENT_BACKOFF_MS :: int where "TRANSIENT_BACKOFF_MS = 15 * 60 * 1000"
definition RATE_LIMIT_BACKOFF_MS :: int where "RATE_LIMIT_BACKOFF_MS = 60 * 60 * 1000"
definition RETRY_BUFFER_MS :: int where "RETRY_BUFFER_MS = 60 * 1000"
definition RETRY_FLOOR_MS :: int where "RETRY_FLOOR_MS = 60 * 1000"
definition DELAYED_RETRY_CAP :: int where "DELAYED_RETRY_CAP = 5"

text \<open>A reset time that is absent or not finite is \<open>None\<close>.\<close>

definition backoffForCause :: "DelayedRetryCause \<Rightarrow> int option \<Rightarrow> int \<Rightarrow> string option \<Rightarrow> int" where
  "backoffForCause cause resetsAt now original =
     (if cause \<noteq> RetryRateLimit then TRANSIENT_BACKOFF_MS
      else case resetsAt of
        None \<Rightarrow> RATE_LIMIT_BACKOFF_MS
      | Some t \<Rightarrow>
          if original = Some ''out-of-credits'' \<and> t \<le> now then RATE_LIMIT_BACKOFF_MS
          else max RETRY_FLOOR_MS (t - now + RETRY_BUFFER_MS))"

subsection \<open>Failure cause\<close>

text \<open>The spelling of the halt causes of \<open>transition\<close>.\<close>

fun causeText :: "HaltCause \<Rightarrow> string" where
  "causeText HcBreakpoint = ''breakpoint''"
| "causeText HcRateLimit = ''rate_limit''"
| "causeText HcTransientError = ''transient_error''"
| "causeText HcIncompleteTurn = ''incomplete_turn_unresolved''"
| "causeText HcCapExhausted = ''cap_exhausted''"
| "causeText HcMetricsUnchanged = ''judged_metrics_unchanged''"
| "causeText HcLastPhaseIssues = ''last_phase_issues_remain''"

definition failureCauseOf :: "HaltCause option \<Rightarrow> bool \<Rightarrow> PhaseOutcome \<Rightarrow> TerminationReason \<Rightarrow> FailureCause" where
  "failureCauseOf cause fatalMatched out reason =
     (if cause = Some HcCapExhausted then CapExhausted
      else if cause = Some HcLastPhaseIssues then LastPhaseIssuesRemain
      else if cause = Some HcIncompleteTurn then IncompleteTurnUnresolved
      else if cause = Some HcMetricsUnchanged then JudgedMetricsUnchanged
      else if fatalMatched then FatalSignature
      else if out = OutTimeout \<or> reason = TDeadline then PhaseTimeout
      else PhaseFailed)"

subsection \<open>Before a phase\<close>

datatype PrePhaseDecision =
    SkipPhase PhaseOverride PhaseResult TransitionResult
  | Invoke int "PhaseDef option"

definition isVerificationPhase :: "string \<Rightarrow> bool" where
  "isVerificationPhase ph \<longleftrightarrow> ph \<in> {''bugfix-verify-pre'', ''bugfix-verify-post''}"

definition baseInput :: "WorkflowRun \<Rightarrow> PhaseOutcome \<Rightarrow> int \<Rightarrow> int \<Rightarrow> PhaseDef option \<Rightarrow> TransitionInput" where
  "baseInput run out iter cap d =
     \<lparr>tiPhase = currentPhase run, tiOutcome = out, tiIteration = iter, tiCap = cap,
      tiPipeline = pipeline run, tiDef = d, tiMetrics = (\<lambda>_. None), tiCapOutcome = None,
      tiStalled = None, tiMaxUnchanged = None\<rparr>"

definition entryIteration :: "WorkflowRun \<Rightarrow> int" where
  "entryIteration run = (if currentIteration run = 0 then 1 else currentIteration run)"

definition decideBeforePhase :: "WorkflowRun \<Rightarrow> int \<Rightarrow> int \<Rightarrow> PrePhaseDecision" where
  "decideBeforePhase run cap now =
     (case List.find (\<lambda>ov. ovPhaseId ov = currentPhase run) (phaseOverrides run) of
        Some ov \<Rightarrow>
          (let r = \<lparr>prPhase = currentPhase run, prIteration = entryIteration run, prStartedAt = now,
                    prEndedAt = now, prResult = OutSkipped, prTermination = TCancel, prExitCode = None\<rparr>
           in SkipPhase ov r (transition (baseInput run OutSkipped (prIteration r) cap None)))
      | None \<Rightarrow> Invoke (entryIteration run) (findPhase (currentPhase run) (planPhases run)))"

definition nextOverridesAfterSkip :: "WorkflowRun \<Rightarrow> PhaseOverride \<Rightarrow> PhaseOverride list" where
  "nextOverridesAfterSkip run consumed =
     (if ovAction consumed \<noteq> OvSkipped then phaseOverrides run
      else filter (\<lambda>ov. ovPhaseId ov \<noteq> ovPhaseId consumed) (phaseOverrides run))"

text \<open>\<open>None\<close> stands for the three \<open>throw\<close>s on a caller that misuses the method.\<close>

definition decideAfterOptionalTerminalFailure :: "WorkflowRun \<Rightarrow> PhaseResult \<Rightarrow> PhaseDef \<Rightarrow> int \<Rightarrow> TransitionResult option" where
  "decideAfterOptionalTerminalFailure run r d cap =
     (if isRequired d \<noteq> Some False then None
      else if prResult r \<noteq> OutFailed \<and> prResult r \<noteq> OutTimeout then None
      else case transition ((baseInput run (prResult r) (prIteration r) cap (Some d))\<lparr>tiPhase := prPhase r\<rparr>) of
             Advance p n w dg \<Rightarrow> Some (Advance p n w dg)
           | _ \<Rightarrow> None)"

subsection \<open>After a phase\<close>

datatype PostPhaseDecision =
    PauseBreakpoint string
  | PauseDelayedRetry DelayedRetryCause "string option" "int option" "string option" PhaseResult "Warning list"
  | PauseRateLimit string PhaseResult "Warning list"
  | FailRun PhaseResult "HaltCause option" "string option" FailureCause "int option" "Warning list"
  | PauseVerify PhaseResult "Warning list"
  | PauseManual PhaseResult TransitionResult "Warning list"
  | AdvanceOrLoop PhaseResult TransitionResult "Warning list"
  | BreakUnexpected PhaseResult TransitionResult "Warning list"

text \<open>\<open>evictStagnationTracker\<close>: false exactly while a loop goes on.\<close>

fun evictStagnationTracker :: "PostPhaseDecision \<Rightarrow> bool" where
  "evictStagnationTracker (AdvanceOrLoop r (Loop p n w) ws) = False"
| "evictStagnationTracker d = True"

record PostPhaseInputs =
  ppRun :: WorkflowRun
  ppOutput :: PhaseRunOutput
  ppIteration :: int
  ppCap :: int
  ppDef :: "PhaseDef option"
  ppLatestManualPauseAt :: "int option"
  ppNow :: int
  ppForceContinueDefault :: "bool option"
  ppMaxUnchanged :: "js_number option"

definition liveRetryPolicyOf :: "bool option \<Rightarrow> js_number option \<Rightarrow> bool \<times> js_number" where
  "liveRetryPolicyOf force maxUnchanged =
     (case force of Some b \<Rightarrow> b | None \<Rightarrow> False, case maxUnchanged of Some x \<Rightarrow> x | None \<Rightarrow> Fin 0)"

definition phaseResultOf :: "PostPhaseInputs \<Rightarrow> PhaseResult" where
  "phaseResultOf i =
     \<lparr>prPhase = currentPhase (ppRun i), prIteration = ppIteration i, prStartedAt = ppNow i, prEndedAt = ppNow i,
      prResult = poOutcome (ppOutput i), prTermination = poTermination (ppOutput i),
      prExitCode = poExitCode (ppOutput i)\<rparr>"

definition transitionInputOf :: "PostPhaseInputs \<Rightarrow> TransitionInput" where
  "transitionInputOf i =
     \<lparr>tiPhase = currentPhase (ppRun i), tiOutcome = poOutcome (ppOutput i), tiIteration = ppIteration i,
      tiCap = ppCap i, tiPipeline = pipeline (ppRun i), tiDef = ppDef i,
      tiMetrics = (case resultMetrics (poResult (ppOutput i)) of Some m \<Rightarrow> m | None \<Rightarrow> (\<lambda>_. None)),
      tiCapOutcome = Some (resolveRetryCapOutcome (ppDef i) (ppForceContinueDefault i)),
      tiStalled = poStalled (ppOutput i), tiMaxUnchanged = ppMaxUnchanged i\<rparr>"

definition isMove :: "TransitionResult \<Rightarrow> bool" where
  "isMove t = (case t of Halt h w c \<Rightarrow> False | _ \<Rightarrow> True)"

definition decideAfterPhase :: "PostPhaseInputs \<Rightarrow> PostPhaseDecision" where
  "decideAfterPhase i =
     (let run = ppRun i; out = ppOutput i in
      if poOutcome out = PausedAtBreakpoint then PauseBreakpoint (currentPhase run)
      else
        let r = phaseResultOf i; decision = transition (transitionInputOf i); ws = twarnings decision
        in case decision of
             Halt HaltPaused w cause \<Rightarrow>
               (case toDelayedRetryCause (map_option causeText cause) of
                  Some c \<Rightarrow>
                    (case poResult out of
                       IrRateLimited original resetsAt msg m \<Rightarrow> PauseDelayedRetry c (Some original) resetsAt msg r ws
                     | _ \<Rightarrow> PauseDelayedRetry c (map_option causeText cause) None None r ws)
                | None \<Rightarrow>
                    (case poResult out of
                       IrRateLimited original resetsAt msg m \<Rightarrow> PauseRateLimit original r ws
                     | _ \<Rightarrow> PauseRateLimit ''rate-limit'' r ws))
           | Halt HaltFailed w cause \<Rightarrow>
               if cause = Some HcLastPhaseIssues \<and> isVerificationPhase (currentPhase run) then PauseVerify r ws
               else
                 (let fatal = (case poResult out of IrMalformed f \<Rightarrow> f | _ \<Rightarrow> None)
                  in FailRun r cause fatal (failureCauseOf cause (fatal \<noteq> None) (poOutcome out) (poTermination out))
                       (poStalled out) ws)
           | _ \<Rightarrow>
               if isVerificationPhase (currentPhase run) \<and> poOutcome out \<noteq> Clean then PauseVerify r ws
               else if \<not> isMove decision then BreakUnexpected r decision ws
               else if ppLatestManualPauseAt i \<noteq> None then PauseManual r decision ws
               else AdvanceOrLoop r decision ws)"


subsection \<open>Properties\<close>

lemma delayed_cause_simps [simp]:
  "toDelayedRetryCause (Some ''rate_limit'') = Some RetryRateLimit"
  "toDelayedRetryCause (Some ''transient_error'') = Some RetryTransient"
  by (simp_all add: toDelayedRetryCause_def RATE_LIMIT_FAMILY_def)

lemma tiOutcome_of [simp]: "tiOutcome (transitionInputOf i) = poOutcome (ppOutput i)"
  by (simp add: transitionInputOf_def)

text \<open>What each kind of transition result becomes.\<close>

lemma decideAfter_cases:
  assumes "poOutcome (ppOutput i) \<noteq> PausedAtBreakpoint"
  shows "case transition (transitionInputOf i) of
      Halt HaltPaused w c \<Rightarrow> \<exists>rc oc t m. decideAfterPhase i = PauseDelayedRetry rc oc t m (phaseResultOf i) w \<and>
         poOutcome (ppOutput i) = (if rc = RetryRateLimit then RateLimited else TransientError)
    | Halt HaltFailed w c \<Rightarrow> decideAfterPhase i = PauseVerify (phaseResultOf i) w \<or>
         (\<exists>ft fc. decideAfterPhase i = FailRun (phaseResultOf i) c ft fc (poStalled (ppOutput i)) w)
    | t \<Rightarrow> decideAfterPhase i \<in> {PauseVerify (phaseResultOf i) (twarnings t),
         PauseManual (phaseResultOf i) t (twarnings t), AdvanceOrLoop (phaseResultOf i) t (twarnings t)}"
proof (cases "transition (transitionInputOf i)")
  case (Halt h w c)
  show ?thesis
  proof (cases h)
    case HaltFailed
    with Halt assms show ?thesis by (simp add: decideAfterPhase_def Let_def)
  next
    case HaltPaused
    with transition_Paused [of "transitionInputOf i" w c] Halt assms
    show ?thesis by (auto simp: decideAfterPhase_def Let_def split: InvocationResult.splits)
  qed
qed (use assms in \<open>auto simp: decideAfterPhase_def Let_def isMove_def\<close>)

text \<open>When the retry condition of a phase ends the Run: true at the cap without a continue outcome, or
  true below the cap on metrics that stay unchanged too long.\<close>

definition conditionStops :: "TransitionInput \<Rightarrow> bool" where
  "conditionStops i \<longleftrightarrow>
     (\<exists>src. Option.bind (tiDef i) retryCondition = Some src \<and> js_trim src \<noteq> [] \<and>
        fst (evaluateRetryCondition src (tiMetrics i)) \<and>
        (if tiCap i \<le> tiIteration i then tiCapOutcome i \<notin> {Some CapContinue, Some CapContinueDegraded}
         else stopsOnUnchangedMetrics (tiMaxUnchanged i) (tiCapOutcome i) (tiStalled i)))"

text \<open>A required last phase, with no condition and no iterations of its own, that reports open issues.\<close>

definition endsWithIssues :: "TransitionInput \<Rightarrow> bool" where
  "endsWithIssues i \<longleftrightarrow> tiOutcome i = IssuesRemain \<and> blank (Option.bind (tiDef i) retryCondition) \<and>
     \<not> isLoopPhase (tiPhase i) (tiDef i) \<and> nextSuccessor (tiPhase i) (tiPipeline i) = DONE \<and> \<not> isOptional i"

lemma conditioned_fails:
  "(\<exists>w c. conditionedTransition i src = Halt HaltFailed w c) \<longleftrightarrow>
     fst (evaluateRetryCondition src (tiMetrics i)) \<and>
     (if tiCap i \<le> tiIteration i then tiCapOutcome i \<notin> {Some CapContinue, Some CapContinueDegraded}
      else stopsOnUnchangedMetrics (tiMaxUnchanged i) (tiCapOutcome i) (tiStalled i))"
  by (auto simp: conditionedTransition_def Let_def split: prod.splits option.splits RetryCapOutcome.splits)

lemma conditioned_cause: "conditionedTransition i src = Halt h w c \<Longrightarrow> c \<noteq> Some HcLastPhaseIssues"
  by (auto dest: conditioned_Halt)

text \<open>Exactly the failing outcomes, with the one cause the verification pause takes precedence over.\<close>

lemma transition_fails:
  "(\<exists>w c. transition i = Halt HaltFailed w c \<and> c \<noteq> Some HcLastPhaseIssues) \<longleftrightarrow>
     tiOutcome i = IncompleteTurn \<or> tiOutcome i \<in> {OutFailed, OutTimeout} \<and> \<not> isOptional i \<or>
     tiOutcome i \<in> {Clean, IssuesRemain} \<and> conditionStops i"
  "(\<exists>w. transition i = Halt HaltFailed w (Some HcLastPhaseIssues)) \<longleftrightarrow> endsWithIssues i"
  "(\<exists>w c. transition i = Halt HaltPaused w c) \<longleftrightarrow> tiOutcome i \<in> {PausedAtBreakpoint, RateLimited, TransientError}"
proof -
  have plain: "plainTransition i = Halt h w c \<longleftrightarrow> h = HaltFailed \<and> w = [LastPhaseRemaining (tiPhase i)] \<and>
      c = Some HcLastPhaseIssues \<and> tiOutcome i = IssuesRemain \<and> \<not> isLoopPhase (tiPhase i) (tiDef i) \<and>
      nextSuccessor (tiPhase i) (tiPipeline i) = DONE \<and> \<not> isOptional i" for h w c
    by (auto simp: plainTransition_def)
  show "(\<exists>w c. transition i = Halt HaltFailed w c \<and> c \<noteq> Some HcLastPhaseIssues) \<longleftrightarrow>
     tiOutcome i = IncompleteTurn \<or> tiOutcome i \<in> {OutFailed, OutTimeout} \<and> \<not> isOptional i \<or>
     tiOutcome i \<in> {Clean, IssuesRemain} \<and> conditionStops i"
    using conditioned_fails [of i] conditioned_cause [of i]
    by (cases "tiOutcome i") (auto simp: transition_def Let_def plain conditionStops_def split: option.splits, blast+)
  show "(\<exists>w. transition i = Halt HaltFailed w (Some HcLastPhaseIssues)) \<longleftrightarrow> endsWithIssues i"
    using conditioned_cause [of i]
    by (cases "tiOutcome i") (auto simp: transition_def Let_def plain endsWithIssues_def blank_def split: option.splits)
  show "(\<exists>w c. transition i = Halt HaltPaused w c) \<longleftrightarrow> tiOutcome i \<in> {PausedAtBreakpoint, RateLimited, TransientError}"
    by (cases "tiOutcome i") (auto simp: transition_def Let_def plain split: option.splits dest: conditioned_Halt)
qed

text \<open>
  C8. The classification of a phase's output, in terms of the output and the phase alone.  A fired breakpoint
  is a breakpoint pause; a rate limit and a transient error are the delayed retries of that cause.  The Run
  fails exactly on an unfinished turn, on a failure or timeout of a required phase, on a retry condition that
  stops it, and on a last phase other than a verification phase that ends with open issues.  A verification
  phase pauses for verification on every other outcome that is not clean.  Whatever is left moves the Run by
  the transition, unless the operator has paused it, in which case it is paused with that transition.  No
  other decision is ever made: the credit pause and the unexpected break are unreachable.
\<close>
theorem sequencer_classification:
  "let out = poOutcome (ppOutput i); ti = transitionInputOf i; t = transition ti;
       verify = isVerificationPhase (currentPhase (ppRun i));
       stops = (out = IncompleteTurn \<or> out \<in> {OutFailed, OutTimeout} \<and> \<not> isOptional ti \<or>
                out \<in> {Clean, IssuesRemain} \<and> conditionStops ti);
       ordinary = (out \<in> {Clean, OutSkipped, OutFailed, OutTimeout, IssuesRemain} \<and> \<not> stops);
       moves = (ordinary \<and> (out = Clean \<or> \<not> (verify \<or> endsWithIssues ti)))
   in (decideAfterPhase i = PauseBreakpoint ph \<longleftrightarrow> out = PausedAtBreakpoint \<and> ph = currentPhase (ppRun i)) \<and>
      ((\<exists>oc rs m r ws. decideAfterPhase i = PauseDelayedRetry c oc rs m r ws) \<longleftrightarrow>
         out = (if c = RetryRateLimit then RateLimited else TransientError)) \<and>
      ((\<exists>r hc ft fc st ws. decideAfterPhase i = FailRun r hc ft fc st ws) \<longleftrightarrow> stops \<or> endsWithIssues ti \<and> \<not> verify) \<and>
      (decideAfterPhase i = PauseVerify (phaseResultOf i) (twarnings t) \<longleftrightarrow> ordinary \<and> out \<noteq> Clean \<and> verify) \<and>
      (decideAfterPhase i = PauseManual (phaseResultOf i) t (twarnings t) \<longleftrightarrow> moves \<and> ppLatestManualPauseAt i \<noteq> None) \<and>
      (decideAfterPhase i = AdvanceOrLoop (phaseResultOf i) t (twarnings t) \<longleftrightarrow> moves \<and> ppLatestManualPauseAt i = None) \<and>
      (\<forall>c r ws. decideAfterPhase i \<noteq> PauseRateLimit c r ws) \<and> (\<forall>r d ws. decideAfterPhase i \<noteq> BreakUnexpected r d ws)"
proof -
  note f = transition_fails [of "transitionInputOf i"]
  show ?thesis
  proof (cases "poOutcome (ppOutput i) = PausedAtBreakpoint")
    case True
    then show ?thesis by (auto simp: decideAfterPhase_def Let_def endsWithIssues_def)
  next
    case False
    note c = decideAfter_cases [OF False]
    show ?thesis
    proof (cases "transition (transitionInputOf i)")
      case (Halt h w hc)
      show ?thesis
      proof (cases h)
        case HaltPaused
        with f Halt False have "poOutcome (ppOutput i) \<in> {RateLimited, TransientError}" by auto
        moreover obtain rc oc rs m where "decideAfterPhase i = PauseDelayedRetry rc oc rs m (phaseResultOf i) w"
          "poOutcome (ppOutput i) = (if rc = RetryRateLimit then RateLimited else TransientError)"
          using c Halt HaltPaused by auto
        ultimately show ?thesis by (cases rc; cases c) (auto simp: Let_def endsWithIssues_def)
      next
        case HaltFailed
        have e: "endsWithIssues (transitionInputOf i) \<longleftrightarrow> hc = Some HcLastPhaseIssues"
          and st: "(poOutcome (ppOutput i) = IncompleteTurn \<or> poOutcome (ppOutput i) \<in> {OutFailed, OutTimeout} \<and>
              \<not> isOptional (transitionInputOf i) \<or> poOutcome (ppOutput i) \<in> {Clean, IssuesRemain} \<and>
              conditionStops (transitionInputOf i)) \<longleftrightarrow> hc \<noteq> Some HcLastPhaseIssues"
          using f(1,2) Halt HaltFailed by simp_all
        have o: "poOutcome (ppOutput i) \<notin> {PausedAtBreakpoint, RateLimited, TransientError}"
          using f(3) Halt HaltFailed by simp
        have out: "endsWithIssues (transitionInputOf i) \<longrightarrow> poOutcome (ppOutput i) = IssuesRemain"
          by (simp add: endsWithIssues_def)
        show ?thesis using o out Halt HaltFailed unfolding Let_def st e
          by (cases "poOutcome (ppOutput i)") (auto simp: decideAfterPhase_def Let_def)
      qed
    qed (use f False in \<open>cases "poOutcome (ppOutput i)"; auto simp: decideAfterPhase_def Let_def isMove_def\<close>)+
  qed
qed

definition issuesInput :: "string \<Rightarrow> PostPhaseInputs" where
  "issuesInput ph = \<lparr>ppRun = sampleRun [ph],
     ppOutput = \<lparr>poResult = IrRemainingIssues None, poOutcome = IssuesRemain, poTermination = TToken, poExitCode = Some 0, poStalled = None\<rparr>,
     ppIteration = 1, ppCap = 3, ppDef = Some (samplePhase ph), ppLatestManualPauseAt = None, ppNow = 0,
     ppForceContinueDefault = None, ppMaxUnchanged = None\<rparr>"

text \<open>A last phase that ends with open issues fails the Run, and pauses it when it is a verification phase.\<close>

lemma sequencer_classification_witness:
  "(\<exists>r hc ft fc st ws. decideAfterPhase (issuesInput ''plan'') = FailRun r hc ft fc st ws) \<and>
   (\<exists>r ws. decideAfterPhase (issuesInput ''bugfix-verify-post'') = PauseVerify r ws)"
proof -
  have e: "endsWithIssues (transitionInputOf (issuesInput ph))" "\<not> conditionStops (transitionInputOf (issuesInput ph))"
    if "ph \<noteq> DONE" for ph
    using that by (simp_all add: endsWithIssues_def conditionStops_def transitionInputOf_def issuesInput_def isLoopPhase_def
      samplePhase_def sampleRun_def blank_def isOptional_def nextSuccessor_def)
  show ?thesis
    using sequencer_classification [of "issuesInput ''plan''"] sequencer_classification [of "issuesInput ''bugfix-verify-post''"]
      e [of "''plan''"] e [of "''bugfix-verify-post''"]
    by (auto simp: Let_def issuesInput_def sampleRun_def isVerificationPhase_def DONE_def)
qed
text \<open>
  The delayed-retry backoff is never under a minute; after a rate limit with a known reset
  time it waits until a minute past that time; and an out-of-credits account whose reported reset
  is already past waits the full hour instead of being retried every minute.
\<close>
theorem backoff_bounds:
  "RETRY_FLOOR_MS \<le> backoffForCause c resetsAt now original \<and>
   backoffForCause RetryTransient resetsAt now original = 15 * 60 * 1000 \<and>
   backoffForCause RetryRateLimit None now original = 60 * 60 * 1000 \<and>
   (original = Some ''out-of-credits'' \<longrightarrow> t \<le> now \<longrightarrow> backoffForCause RetryRateLimit (Some t) now original = 60 * 60 * 1000) \<and>
   (now < t \<longrightarrow> now + backoffForCause RetryRateLimit (Some t) now original = t + 60 * 1000)"
  by (auto simp: backoffForCause_def RETRY_FLOOR_MS_def TRANSIENT_BACKOFF_MS_def RATE_LIMIT_BACKOFF_MS_def
      RETRY_BUFFER_MS_def split: option.splits)

theorem backoff_bounds_witness:
  "RETRY_FLOOR_MS \<le> backoffForCause RetryRateLimit (Some 5) 10 (Some ''out-of-credits'') \<and>
   backoffForCause RetryRateLimit (Some 5) 10 (Some ''out-of-credits'') = 3600000 \<and>
   10 + backoffForCause RetryRateLimit (Some 20) 10 None = 60020"
  using backoff_bounds [of RetryRateLimit "Some 5" 10 "Some ''out-of-credits''" 5]
    backoff_bounds [of RetryRateLimit "Some 20" 10 None 20] by simp

end
