(* ===== verification/PhaseDrive.thy ===== *)
theory PhaseDrive
  imports PhaseSequencer
begin

text \<open>
  The drive loop of \<open>src/services/run-driver.ts\<close> at the level of phases: what a dispatch and a
  skip do to the Run's position, with \<open>src/services/run-advance.ts\<close>.  The bound on the number of
  CLI invocations is the one \<open>run-planned-total.ts\<close> records as \<open>maxPhaseInvocations\<close>.
\<close>

definition advancedRun :: "WorkflowRun \<Rightarrow> TransitionResult \<Rightarrow> PhaseResult \<Rightarrow> bool \<Rightarrow> int \<Rightarrow> WorkflowRun" where
  "advancedRun run decision r optionalTerminalContinued now =
     (let run1 = run
        \<lparr>currentPhase := (case decision of Advance nx n w dg \<Rightarrow> nx | _ \<Rightarrow> currentPhase run),
         currentIteration := (case decision of Advance nx n w dg \<Rightarrow> n | Loop ph n w \<Rightarrow> n | _ \<Rightarrow> currentIteration run),
         lastTransitionAt := now, phasesCompleted := phasesCompleted run @ [r],
         degradedPhases := (case decision of
             Advance nx n w (Some dg) \<Rightarrow> Some ((case degradedPhases run of Some ds \<Rightarrow> ds | None \<Rightarrow> []) @ [dg])
           | _ \<Rightarrow> degradedPhases run)\<rparr>
      in if optionalTerminalContinued
         then run1\<lparr>delayedRetryCount := 0, pendingRetryAt := None, pendingRetryCause := None, creditPause := None\<rparr>
         else run1)"

text \<open>The write of the skip branch of the loop.\<close>

definition skippedRun :: "WorkflowRun \<Rightarrow> PhaseOverride \<Rightarrow> PhaseResult \<Rightarrow> TransitionResult \<Rightarrow> int \<Rightarrow> WorkflowRun" where
  "skippedRun run ov r decision now = run
     \<lparr>phaseOverrides := nextOverridesAfterSkip run ov,
      currentPhase := (case decision of Advance nx n w dg \<Rightarrow> nx | _ \<Rightarrow> currentPhase run),
      currentIteration := (case decision of Advance nx n w dg \<Rightarrow> n | _ \<Rightarrow> currentIteration run),
      lastTransitionAt := now, phasesCompleted := phasesCompleted run @ [r]\<rparr>"

text \<open>\<open>continueOptionalFailure\<close>: an optional phase that used up its delayed retries is left behind.\<close>

definition continuedRun :: "WorkflowRun \<Rightarrow> TransitionResult \<Rightarrow> PhaseResult \<Rightarrow> int \<Rightarrow> WorkflowRun" where
  "continuedRun run t r now = run
     \<lparr>currentPhase := nextPhase t, currentIteration := nextIteration t, lastTransitionAt := now,
      phasesCompleted := phasesCompleted run @ [r], pendingRetryAt := None, pendingRetryCause := None,
      creditPause := None, delayedRetryCount := 0\<rparr>"

text \<open>The write of the \<open>pause-manual\<close> branch, on the latest stored Run.\<close>

definition manuallyPausedRun :: "WorkflowRun \<Rightarrow> TransitionResult \<Rightarrow> PhaseResult \<Rightarrow> int \<Rightarrow> WorkflowRun" where
  "manuallyPausedRun latest decision r now = latest
     \<lparr>runStatus := Paused,
      currentPhase := (case decision of Advance nx n w dg \<Rightarrow> nx | _ \<Rightarrow> currentPhase latest),
      currentIteration := (case decision of Advance nx n w dg \<Rightarrow> n | Loop ph n w \<Rightarrow> n | _ \<Rightarrow> currentIteration latest),
      lastTransitionAt := now, phasesCompleted := phasesCompleted latest @ [r]\<rparr>"

definition samePosition :: "WorkflowRun \<Rightarrow> WorkflowRun \<Rightarrow> bool" where
  "samePosition run run' \<longleftrightarrow> pipeline run' = pipeline run \<and> currentPhase run' = currentPhase run \<and>
     entryIteration run' = entryIteration run"

text \<open>
  One step in the life of a Run that is being driven: a skip; a dispatch whose output makes the Run advance or
  loop, at once or from the pause the operator asked for meanwhile; the continuation past an optional phase
  whose retries are used up; or any write that leaves the position in the plan alone, as do the operator's
  overrides and pauses, the dispatch that an override killed and whose Run is read again from the store, the
  pauses at a breakpoint, for a delayed retry and for verification, and the resumptions after them.  The
  counter is the number of dispatches that moved the Run; the iteration cap in force may change from step to
  step below \<open>cap\<close>.
\<close>

inductive drive_step :: "int \<Rightarrow> WorkflowRun \<times> nat \<Rightarrow> WorkflowRun \<times> nat \<Rightarrow> bool" for cap where
  skip: "currentPhase run \<noteq> DONE \<Longrightarrow> runStatus run = Running \<Longrightarrow> c \<le> cap \<Longrightarrow>
         decideBeforePhase run c now = SkipPhase ov r t \<Longrightarrow>
         drive_step cap (run, k) (skippedRun run ov r t now', k)"
| dispatch: "currentPhase run \<noteq> DONE \<Longrightarrow> runStatus run = Running \<Longrightarrow> c \<le> cap \<Longrightarrow>
         decideBeforePhase run c now = Invoke it d \<Longrightarrow>
         ppRun i = run \<Longrightarrow> ppIteration i = it \<Longrightarrow> ppDef i = d \<Longrightarrow> ppCap i = c \<Longrightarrow>
         decideAfterPhase i = AdvanceOrLoop r t ws \<Longrightarrow>
         drive_step cap (run, k) (advancedRun run t r' opt now', Suc k)"
| paused: "currentPhase run \<noteq> DONE \<Longrightarrow> runStatus run = Running \<Longrightarrow> c \<le> cap \<Longrightarrow>
         decideBeforePhase run c now = Invoke it d \<Longrightarrow>
         ppRun i = run \<Longrightarrow> ppIteration i = it \<Longrightarrow> ppDef i = d \<Longrightarrow> ppCap i = c \<Longrightarrow>
         decideAfterPhase i = PauseManual r t ws \<Longrightarrow> samePosition run latest \<Longrightarrow>
         drive_step cap (run, k) (manuallyPausedRun latest t r' now', Suc k)"
| continued: "currentPhase run \<noteq> DONE \<Longrightarrow> runStatus run = Running \<Longrightarrow> c \<le> cap \<Longrightarrow>
         decideBeforePhase run c now = Invoke it (Some d) \<Longrightarrow>
         ppRun i = run \<Longrightarrow> ppIteration i = it \<Longrightarrow> ppDef i = Some d \<Longrightarrow> ppCap i = c \<Longrightarrow>
         decideAfterPhase i = PauseDelayedRetry cause oc resets msg r ws \<Longrightarrow>
         isRequired d = Some False \<Longrightarrow> \<not> isVerificationPhase (currentPhase run) \<Longrightarrow>
         retryCap - 1 \<le> delayedRetryCount run \<Longrightarrow>
         r' = r\<lparr>prStartedAt := started, prResult := OutFailed, prTermination := (if cause = RetryRateLimit then TRateLimit else TError)\<rparr> \<Longrightarrow>
         decideAfterOptionalTerminalFailure run r' d c = Some t \<Longrightarrow>
         drive_step cap (run, k) (continuedRun run t r' now', Suc k)"
| hold: "currentPhase run \<noteq> DONE \<Longrightarrow> samePosition run run' \<Longrightarrow> drive_step cap (run, k) (run', k)"

subsection \<open>Position in the plan\<close>

fun fromPhase :: "string \<Rightarrow> PhaseDef list \<Rightarrow> PhaseDef list" where
  "fromPhase ph [] = []"
| "fromPhase ph (p # ps) = (if pdId p = ph then p # ps else fromPhase ph ps)"

definition phaseWeight :: "int \<Rightarrow> PhaseDef \<Rightarrow> int" where
  "phaseWeight cap p = (if isLoopPhase (pdId p) (Some p) then cap else 1)"

text \<open>Dispatches that can still happen from a position: its own left-over iterations and the phases after it.\<close>

definition invocationsLeft :: "int \<Rightarrow> PhaseDef list \<Rightarrow> string \<Rightarrow> int \<Rightarrow> int" where
  "invocationsLeft cap pl ph it =
     (case fromPhase ph pl of [] \<Rightarrow> 0
      | p # ps \<Rightarrow> phaseWeight cap p - max it 1 + 1 + (\<Sum>q\<leftarrow>ps. phaseWeight cap q))"

definition wellPlaced :: "int \<Rightarrow> PhaseDef list \<Rightarrow> string \<Rightarrow> int \<Rightarrow> bool" where
  "wellPlaced cap pl ph it \<longleftrightarrow>
     ph = DONE \<or> (\<exists>p ps. fromPhase ph pl = p # ps \<and> pdId p = ph \<and> 0 \<le> it \<and> max it 1 \<le> phaseWeight cap p)"

lemma fromPhase_suffix: "\<exists>pre. pl = pre @ fromPhase ph pl"
  by (induction ph pl rule: fromPhase.induct) (auto, metis append_Cons)

lemma fromPhase_hd: "fromPhase ph pl = p # ps \<Longrightarrow> pdId p = ph"
  by (induction ph pl rule: fromPhase.induct) (auto split: if_splits)

lemma fromPhase_find: "fromPhase ph pl = p # ps \<Longrightarrow> findPhase ph pl = Some p"
  by (induction ph pl rule: fromPhase.induct) (auto simp: findPhase_def split: if_splits)

lemma fromPhase_none: "fromPhase ph pl = [] \<longleftrightarrow> findPhase ph pl = None"
  by (induction ph pl rule: fromPhase.induct) (auto simp: findPhase_def split: if_splits)

lemma fromPhase_after: "fromPhase ph pl = p # ps \<Longrightarrow> phaseAfter ph pl = (case ps of [] \<Rightarrow> DONE | q # _ \<Rightarrow> pdId q)"
  by (induction ph pl rule: fromPhase.induct) (auto split: if_splits)

lemma fromPhase_next:
  assumes "distinct (map pdId pl)" "fromPhase ph pl = p # q # qs"
  shows "fromPhase (pdId q) pl = q # qs"
proof -
  obtain pre where pre: "pl = pre @ p # q # qs" using fromPhase_suffix [of pl ph] assms(2) by auto
  have "fromPhase x (us @ v # vs) = v # vs" if "x = pdId v" "x \<notin> set (map pdId us)" for x us v vs
    using that by (induction us) auto
  from this [of "pdId q" q "pre @ [p]" qs] show ?thesis using assms(1) by (auto simp: pre)
qed

lemma phaseWeight_pos: "1 \<le> cap \<Longrightarrow> 1 \<le> phaseWeight cap p"
  by (simp add: phaseWeight_def)

lemma weights_nonneg: "1 \<le> cap \<Longrightarrow> 0 \<le> (\<Sum>q\<leftarrow>qs. phaseWeight cap q)"
  using phaseWeight_pos [of cap] by (intro sum_list_nonneg) (auto intro: order_trans [of 0 1])

lemma invocationsLeft_nonneg:
  "1 \<le> cap \<Longrightarrow> wellPlaced cap pl ph it \<Longrightarrow> 0 \<le> invocationsLeft cap pl ph it \<or> ph = DONE"
  using weights_nonneg [of cap] by (auto simp: wellPlaced_def invocationsLeft_def)

text \<open>An advance lands well placed and leaves at most the weights of the later phases.\<close>

lemma advance_position:
  assumes "distinct (map pdId pl)" "1 \<le> cap" "fromPhase ph pl = p # ps"
    and nx: "nx = nextSuccessor ph (Some pl)" and n: "n = successorIteration nx (Some pl)"
  shows "wellPlaced cap pl nx n \<and> (nx = DONE \<or> invocationsLeft cap pl nx n = (\<Sum>q\<leftarrow>ps. phaseWeight cap q))"
proof (cases ps)
  case Nil
  then show ?thesis using nx fromPhase_after [OF assms(3)] by (simp add: nextSuccessor_def wellPlaced_def)
next
  case (Cons q qs)
  have q: "nx = pdId q" using nx fromPhase_after [OF assms(3)] Cons by (simp add: nextSuccessor_def)
  have f: "fromPhase nx pl = q # qs" using fromPhase_next [OF assms(1), of ph p q qs] assms(3) Cons q by simp
  have "n = (if isLoopPhase nx (Some q) then 1 else 0)"
    using n fromPhase_find [OF f] by (simp add: successorIteration_def)
  then have "max n 1 = 1" "0 \<le> n" by auto
  then show ?thesis
    using f q Cons phaseWeight_pos [OF assms(2), of q] by (auto simp: wellPlaced_def invocationsLeft_def)
qed

subsection \<open>The number of dispatches\<close>

lemma decideBefore_Invoke: "decideBeforePhase run cap now = Invoke it d \<Longrightarrow>
    it = entryIteration run \<and> d = findPhase (currentPhase run) (planPhases run)"
  by (auto simp: decideBeforePhase_def Let_def split: option.splits)

lemma decideBefore_Skip: "decideBeforePhase run cap now = SkipPhase ov r t \<Longrightarrow>
    ov \<in> set (phaseOverrides run) \<and> ovPhaseId ov = currentPhase run \<and> prPhase r = currentPhase run \<and>
    prResult r = OutSkipped \<and> (\<exists>nx n. t = Advance nx n [] None \<and>
      nx = nextSuccessor (currentPhase run) (pipeline run) \<and> n = successorIteration nx (pipeline run))"
  by (auto simp: decideBeforePhase_def Let_def transition_def advance_to_def baseInput_def find_Some_iff
      split: option.splits)

lemma decideAfter_move:
  assumes "decideAfterPhase i = AdvanceOrLoop r t ws \<or> decideAfterPhase i = PauseManual r t ws"
  shows "t = transition (transitionInputOf i) \<and> isMove t \<and> prPhase r = currentPhase (ppRun i)
    \<and> prResult r = poOutcome (ppOutput i)"
  using assms by (auto simp: decideAfterPhase_def Let_def phaseResultOf_def
      split: if_splits TransitionResult.splits HaltStatus.splits option.splits InvocationResult.splits)

lemma decideAfter_delayed: "decideAfterPhase i = PauseDelayedRetry cause oc resets msg r ws \<Longrightarrow> prPhase r = currentPhase (ppRun i)"
  by (auto simp: decideAfterPhase_def Let_def phaseResultOf_def
      split: if_splits TransitionResult.splits HaltStatus.splits option.splits InvocationResult.splits)

lemma optional_advance:
  assumes "decideAfterOptionalTerminalFailure run r d c = Some t"
  shows "nextPhase t = nextSuccessor (prPhase r) (pipeline run) \<and> nextIteration t = successorIteration (nextPhase t) (pipeline run)"
proof -
  let ?ti = "(baseInput run (prResult r) (prIteration r) c (Some d))\<lparr>tiPhase := prPhase r\<rparr>"
  from assms obtain p n w dg where "transition ?ti = Advance p n w dg" "t = Advance p n w dg"
    by (auto simp: decideAfterOptionalTerminalFailure_def split: if_splits TransitionResult.splits)
  from transition_Advance [OF this(1)] this(2) show ?thesis by (simp add: baseInput_def)
qed

lemma advancedRun_simps [simp]:
  "pipeline (advancedRun run t r opt now) = pipeline run"
  "currentPhase (advancedRun run t r opt now) = (case t of Advance nx n w dg \<Rightarrow> nx | _ \<Rightarrow> currentPhase run)"
  "currentIteration (advancedRun run t r opt now) =
     (case t of Advance nx n w dg \<Rightarrow> n | Loop ph n w \<Rightarrow> n | _ \<Rightarrow> currentIteration run)"
  "runStatus (advancedRun run t r opt now) = runStatus run"
  "phaseOverrides (advancedRun run t r opt now) = phaseOverrides run"
  "plannedTotal (advancedRun run t r opt now) = plannedTotal run"
  "phasesCompleted (advancedRun run t r opt now) = phasesCompleted run @ [r]"
  "phaseBreakpoints (advancedRun run t r opt now) = phaseBreakpoints run"
  "manualPauseAt (advancedRun run t r opt now) = manualPauseAt run"
  "manualPauseCause (advancedRun run t r opt now) = manualPauseCause run"
  "resumeTargetPhaseId (advancedRun run t r opt now) = resumeTargetPhaseId run"
  "failureCause (advancedRun run t r opt now) = failureCause run"
  "runId (advancedRun run t r opt now) = runId run"
  by (auto simp: advancedRun_def Let_def)

lemma skippedRun_simps [simp]:
  "pipeline (skippedRun run ov r t now) = pipeline run"
  "runStatus (skippedRun run ov r t now) = runStatus run"
  by (auto simp: skippedRun_def)

text \<open>Every step keeps the position well placed and pays for the dispatch that moves it.\<close>

definition budget :: "int \<Rightarrow> PhaseDef list \<Rightarrow> WorkflowRun \<Rightarrow> int" where
  "budget cap pl run = (if currentPhase run = DONE then 0 else invocationsLeft cap pl (currentPhase run) (currentIteration run))"

definition placed :: "int \<Rightarrow> PhaseDef list \<Rightarrow> WorkflowRun \<Rightarrow> bool" where
  "placed cap pl run \<longleftrightarrow> pipeline run = Some pl \<and> wellPlaced cap pl (currentPhase run) (currentIteration run)"

lemma entryIteration_max: "0 \<le> currentIteration run \<Longrightarrow> entryIteration run = max (currentIteration run) 1"
  by (auto simp: entryIteration_def)

lemma advance_pays:
  assumes "placed cap pl run" "distinct (map pdId pl)" "1 \<le> cap" "currentPhase run \<noteq> DONE"
    and "pipeline run' = Some pl" "currentPhase run' = nextSuccessor (currentPhase run) (Some pl)"
    and "currentIteration run' = successorIteration (currentPhase run') (Some pl)"
  shows "placed cap pl run' \<and> 1 + budget cap pl run' \<le> budget cap pl run"
proof -
  from assms(1,4) obtain p ps where f: "fromPhase (currentPhase run) pl = p # ps"
    and it: "max (currentIteration run) 1 \<le> phaseWeight cap p" by (auto simp: placed_def wellPlaced_def)
  from advance_position [OF assms(2,3) f assms(6) assms(7)] f it weights_nonneg [OF assms(3), of ps] assms(4,5)
  show ?thesis by (auto simp: placed_def budget_def invocationsLeft_def)
qed

lemma move_pays:
  assumes "placed cap pl run" "distinct (map pdId pl)" "1 \<le> cap" "currentPhase run \<noteq> DONE" "c \<le> cap"
    and dec: "decideBeforePhase run c now = Invoke it d"
    and inp: "ppRun i = run" "ppIteration i = it" "ppDef i = d" "ppCap i = c"
    and t: "t = transition (transitionInputOf i)" "isMove t"
    and run': "pipeline run' = Some pl"
      "currentPhase run' = (case t of Advance nx n w dg \<Rightarrow> nx | _ \<Rightarrow> currentPhase run)"
      "\<And>nx n w dg. t = Advance nx n w dg \<Longrightarrow> currentIteration run' = n" "\<And>nx n w. t = Loop nx n w \<Longrightarrow> currentIteration run' = n"
  shows "placed cap pl run' \<and> 1 + budget cap pl run' \<le> budget cap pl run"
proof -
  from assms(1,4) obtain p ps where f: "fromPhase (currentPhase run) pl = p # ps" and ph: "pdId p = currentPhase run"
    and it0: "0 \<le> currentIteration run" and it: "max (currentIteration run) 1 \<le> phaseWeight cap p"
    by (auto simp: placed_def wellPlaced_def)
  have pl: "pipeline run = Some pl" using assms(1) by (simp add: placed_def)
  have d: "ppIteration i = max (currentIteration run) 1" "ppDef i = Some p"
    using decideBefore_Invoke [OF dec] inp pl fromPhase_find [OF f] entryIteration_max [OF it0] by (auto simp: planPhases_def)
  have ti: "tiPhase (transitionInputOf i) = currentPhase run" "tiPipeline (transitionInputOf i) = Some pl"
    "tiIteration (transitionInputOf i) = max (currentIteration run) 1" "tiDef (transitionInputOf i) = Some p"
    "tiCap (transitionInputOf i) = c"
    using d inp pl by (auto simp: transitionInputOf_def)
  show ?thesis
  proof (cases t)
    case (Advance nx n w dg)
    from transition_Advance [OF t(1) [symmetric, unfolded Advance]] Advance run'
    show ?thesis by (intro advance_pays [OF assms(1-4)]) (simp_all add: ti)
  next
    case (Loop q n w)
    from transition_Loop [OF t(1) [symmetric, unfolded Loop]] ph
    have q: "n = max (currentIteration run) 1 + 1" "max (currentIteration run) 1 < c" "isLoopPhase (pdId p) (Some p)"
      by (simp_all add: ti)
    with f ph it assms(4,5) Loop run' show ?thesis
      by (auto simp: placed_def budget_def invocationsLeft_def wellPlaced_def phaseWeight_def)
  next
    case (Halt h w c)
    with t(2) show ?thesis by (simp add: isMove_def)
  qed
qed

lemma samePosition_placed:
  assumes "samePosition run run'" "placed cap pl run" "currentPhase run \<noteq> DONE"
  shows "placed cap pl run'" "budget cap pl run' = budget cap pl run" "currentPhase run' = currentPhase run"
    "entryIteration run' = entryIteration run" "pipeline run' = Some pl"
proof -
  from assms(2,3) have it: "0 \<le> currentIteration run" by (auto simp: placed_def wellPlaced_def)
  with assms(1) have "0 \<le> currentIteration run'" by (auto simp: samePosition_def entryIteration_def split: if_splits)
  with it have "max (currentIteration run') 1 = max (currentIteration run) 1" "0 \<le> currentIteration run'"
    using assms(1) entryIteration_max [of run] entryIteration_max [of run'] by (auto simp: samePosition_def)
  then show "placed cap pl run'" "budget cap pl run' = budget cap pl run" "currentPhase run' = currentPhase run"
    "entryIteration run' = entryIteration run" "pipeline run' = Some pl"
    using assms by (auto simp: samePosition_def placed_def budget_def wellPlaced_def invocationsLeft_def split: list.splits)
qed

lemma drive_step_pays:
  assumes step: "drive_step cap (run, k) (run', k')"
    and pl: "placed cap pl run" "distinct (map pdId pl)" "1 \<le> cap"
  shows "placed cap pl run' \<and> int k' + budget cap pl run' \<le> int k + budget cap pl run"
  using step
proof (cases rule: drive_step.cases)
  case (skip c now ov r t now')
  have p: "pipeline run = Some pl" using pl(1) by (simp add: placed_def)
  from decideBefore_Skip [OF skip(6)] p obtain nx n where t: "t = Advance nx n [] None"
    and nx: "nx = nextSuccessor (currentPhase run) (Some pl)" "n = successorIteration nx (Some pl)" by auto
  from advance_pays [OF pl skip(3), of run'] nx t p show ?thesis by (auto simp: skip(1,2) skippedRun_def)
next
  case (dispatch c now it d i r t ws r' opt now')
  from decideAfter_move [OF disjI1 [OF dispatch(11)]] have t: "t = transition (transitionInputOf i)" "isMove t" by auto
  have "placed cap pl run' \<and> 1 + budget cap pl run' \<le> budget cap pl run"
    by (rule move_pays [OF pl dispatch(3,5,6-10) t])
      (use pl in \<open>simp_all add: dispatch(1) placed_def\<close>)
  then show ?thesis using dispatch(2) by simp
next
  case (paused c now it d i r t ws latest r' now')
  from decideAfter_move [OF disjI2 [OF paused(11)]] have t: "t = transition (transitionInputOf i)" "isMove t" by auto
  note same = samePosition_placed [OF paused(12) pl(1) paused(3)]
  have "placed cap pl run' \<and> 1 + budget cap pl run' \<le> budget cap pl run"
    by (rule move_pays [OF pl paused(3,5,6-10) t])
      (use same in \<open>simp_all add: paused(1) manuallyPausedRun_def split: TransitionResult.split\<close>)
  then show ?thesis using paused(2) by simp
next
  case (continued c now it d i cause oc resets msg r ws retryCap r' started t now')
  have p: "pipeline run = Some pl" using pl(1) by (simp add: placed_def)
  have "prPhase r' = currentPhase run" using decideAfter_delayed [OF continued(11)] continued by simp
  with optional_advance [OF continued(16)] p
  have "placed cap pl run' \<and> 1 + budget cap pl run' \<le> budget cap pl run"
    by (intro advance_pays [OF pl continued(3)]) (simp_all add: continued(1) continuedRun_def)
  then show ?thesis using continued(2) by simp
next
  case hold
  from samePosition_placed [OF hold(3) pl(1) hold(2)] hold(1) show ?thesis by simp
qed

definition paid :: "int \<Rightarrow> PhaseDef list \<Rightarrow> int \<Rightarrow> WorkflowRun \<times> nat \<Rightarrow> bool" where
  "paid cap pl B s \<longleftrightarrow> placed cap pl (fst s) \<and> int (snd s) + budget cap pl (fst s) \<le> B"

lemma drive_step_paid:
  assumes "drive_step cap s s'" "paid cap pl B s" "distinct (map pdId pl)" "1 \<le> cap"
  shows "paid cap pl B s'"
  using drive_step_pays [of cap "fst s" "snd s" "fst s'" "snd s'" pl] assms by (auto simp: paid_def)

lemma drive_steps_paid:
  assumes "(drive_step cap)\<^sup>*\<^sup>* s s'" "paid cap pl B s" "distinct (map pdId pl)" "1 \<le> cap"
  shows "paid cap pl B s'"
  using assms(1) by (induction s' rule: rtranclp_induct) (auto intro: assms(2) drive_step_paid [OF _ _ assms(3,4)])

lemma paid_bound: "paid cap pl B s \<Longrightarrow> 1 \<le> cap \<Longrightarrow> int (snd s) \<le> B"
  using invocationsLeft_nonneg [of cap pl "currentPhase (fst s)" "currentIteration (fst s)"]
  by (auto simp: paid_def placed_def budget_def split: if_splits)

lemma fresh_invocations:
  assumes "1 \<le> cap" "cap \<le> 50"
  shows "invocationsLeft cap (p # ps) (pdId p) 0 = maxPhaseInvocations (computePlannedTotal (p # ps) [] (Some (Fin (of_int cap))))"
  using freezeIterationCap_fix [OF assms]
  by (simp add: invocationsLeft_def computePlannedTotal_def Let_def keptPhases_def excludedPhaseIds_def phaseWeight_def [abs_def])

subsection \<open>A plan that lists a phase twice\<close>

definition running_in :: "PhaseDef list \<Rightarrow> string set \<Rightarrow> WorkflowRun \<Rightarrow> bool" where
  "running_in pl S run \<longleftrightarrow> pipeline run = Some pl \<and> currentPhase run \<in> S"

lemma cycle_step:
  assumes "drive_step cap (run, k) (run', k')" "running_in pl S run"
    and "\<And>ph. ph \<in> S \<Longrightarrow> phaseAfter ph pl \<in> S"
  shows "running_in pl S run'"
proof -
  have moved: "(case t of Advance nx n w dg \<Rightarrow> nx | _ \<Rightarrow> currentPhase run) \<in> S"
    if "t = transition (transitionInputOf i)" "ppRun i = run" for t i
  proof (cases t)
    case (Advance nx n w dg)
    with transition_Advance(1) [OF that(1) [symmetric, unfolded Advance]] that(2) assms(2,3) show ?thesis
      by (auto simp: running_in_def nextSuccessor_def transitionInputOf_def)
  qed (use assms(2) in \<open>auto simp: running_in_def\<close>)
  show ?thesis
    using assms(1)
  proof (cases rule: drive_step.cases)
    case (skip c now ov r t now')
    with decideBefore_Skip [OF skip(6)] assms(2,3) show ?thesis
      by (auto simp: running_in_def skippedRun_def nextSuccessor_def)
  next
    case (dispatch c now it d i r t ws r' opt now')
    from decideAfter_move [OF disjI1 [OF dispatch(11)]] moved [of t i] dispatch assms(2)
    show ?thesis by (auto simp: running_in_def)
  next
    case (paused c now it d i r t ws latest r' now')
    from decideAfter_move [OF disjI2 [OF paused(11)]] moved [of t i] paused assms(2)
    show ?thesis by (auto simp: running_in_def manuallyPausedRun_def samePosition_def split: TransitionResult.splits)
  next
    case (continued c now it d i cause oc resets msg r ws retryCap r' started t now')
    have "prPhase r' = currentPhase run" using decideAfter_delayed [OF continued(11)] continued by simp
    with optional_advance [OF continued(16)] assms(2,3) show ?thesis
      by (auto simp: continued(1) running_in_def continuedRun_def nextSuccessor_def)
  qed (use assms(2) in \<open>auto simp: running_in_def samePosition_def\<close>)
qed

lemma cycle_steps:
  assumes "(drive_step cap)\<^sup>*\<^sup>* (run, k) s'" "running_in pl S run" "\<And>ph. ph \<in> S \<Longrightarrow> phaseAfter ph pl \<in> S"
  shows "running_in pl S (fst s')"
  using assms(1)
proof (induction s' rule: rtranclp_induct)
  case (step s s')
  then show ?case using cycle_step [of cap "fst s" "snd s" "fst s'" "snd s'" pl S] assms(3) by simp
qed (simp add: assms(2))


lemma phaseAfter_mid:
  "map pdId pl = us @ x # y # ws \<Longrightarrow> x \<notin> set us \<Longrightarrow> phaseAfter x pl = y"
proof (induction us arbitrary: pl)
  case Nil
  then show ?case by (auto simp: map_eq_Cons_conv)
next
  case (Cons u us)
  then show ?case by (auto simp: map_eq_Cons_conv)
qed

lemma phaseAfter_cycle:
  assumes "map pdId pl = us @ a # vs @ a # ws" "distinct (us @ a # vs)" "ph \<in> set (a # vs)"
  shows "phaseAfter ph pl \<in> set (a # vs)"
proof -
  obtain pre post where s: "a # vs = pre @ ph # post" using split_list [OF assms(3)] by blast
  have "map pdId pl = (us @ pre) @ ph # post @ a # ws" using assms(1) s by (metis append_Cons append_assoc)
  then have "map pdId pl = (us @ pre) @ ph # hd (post @ [a]) # tl (post @ a # ws)" by (cases post) auto
  moreover have "ph \<notin> set (us @ pre)" using assms(2) by (auto simp: s)
  ultimately have "phaseAfter ph pl = hd (post @ [a])" by (rule phaseAfter_mid)
  moreover have "set post \<subseteq> set (a # vs)" unfolding s by auto
  ultimately show ?thesis by (cases post) auto
qed

subsection \<open>Properties\<close>

text \<open>
  C5. A phase is run again only below its iteration cap and only if it is a loop phase, and then
  at the next iteration; an advance always goes to the successor in the plan and enters it at
  iteration 1 exactly when the successor loops; a Run is paused only by a fired breakpoint, a
  rate limit or a transient error.
\<close>
theorem transition_shape:
  "case transition i of
     Loop ph n w \<Rightarrow> ph = tiPhase i \<and> n = tiIteration i + 1 \<and> n \<le> tiCap i \<and> isLoopPhase (tiPhase i) (tiDef i)
   | Advance nx n w dg \<Rightarrow> nx = nextSuccessor (tiPhase i) (tiPipeline i) \<and>
       n = (if isLoopPhase nx (Option.bind (tiPipeline i) (findPhase nx)) then 1 else 0)
   | Halt HaltPaused w c \<Rightarrow> tiOutcome i \<in> {PausedAtBreakpoint, RateLimited, TransientError} \<and> c \<noteq> None
   | Halt HaltFailed w c \<Rightarrow> tiOutcome i \<noteq> Clean \<or> c \<in> {Some HcCapExhausted, Some HcMetricsUnchanged}"
proof (cases "transition i")
  case (Advance nx n w dg)
  with transition_Advance [OF Advance] show ?thesis by (simp add: successorIteration_def)
next
  case (Loop ph n w)
  with transition_Loop [OF Loop] show ?thesis by simp
next
  case (Halt h w c)
  with transition_Paused [of i w c] transition_Failed [of i w c] show ?thesis by (cases h) auto
qed

text \<open>
  C6. A freshly created Run whose plan lists distinct phases is moved by at most \<open>maxPhaseInvocations\<close>
  dispatches, the ceiling that \<open>computePlannedTotal\<close> freezes at creation, whatever its phases report and
  whatever happens in between that leaves its position alone: overrides and the dispatches they kill, pauses
  and resumptions, delayed retries.  The dispatches counted are those whose output advances or loops the Run,
  at once or from an operator's pause, or leaves an optional phase behind; the caps in force stay below the
  one frozen.  A restart, which sends the Run back to iteration one of a phase, starts a new count.
\<close>
theorem dispatches_bounded:
  assumes "(drive_step cap)\<^sup>*\<^sup>* (run, 0) (run', k)"
    and "pipeline run = Some (p # ps)" "distinct (map pdId (p # ps))" "pdId p \<noteq> DONE"
    and "currentPhase run = pdId p" "currentIteration run = 0" "1 \<le> cap" "cap \<le> 50"
  shows "int k \<le> maxPhaseInvocations (computePlannedTotal (p # ps) [] (Some (Fin (of_int cap))))"
proof -
  have "wellPlaced cap (p # ps) (pdId p) 0"
    using phaseWeight_pos [OF assms(7)] by (auto simp: wellPlaced_def)
  then have "paid cap (p # ps) (invocationsLeft cap (p # ps) (pdId p) 0) (run, 0)"
    using assms by (simp add: paid_def placed_def budget_def)
  from paid_bound [OF drive_steps_paid [OF assms(1) this assms(3,7)] assms(7)] fresh_invocations [OF assms(7,8)]
  show ?thesis by simp
qed

text \<open>
  C7. A plan that lists a phase twice never ends: \<open>nextSuccessor\<close> looks a phase up by its first
  position, so after the second occurrence the Run goes back to what follows the first one.
  Whatever the phases report, no turn of the loop from there ever reaches \<open>done\<close>.
\<close>
theorem repeated_phase_never_done:
  assumes "map pdId pl = us @ a # vs @ a # ws" "distinct (us @ a # vs)" "DONE \<notin> set (a # vs)"
    and "(drive_step cap)\<^sup>*\<^sup>* (run, k) (run', k')" "pipeline run = Some pl" "currentPhase run = a"
  shows "currentPhase run' \<noteq> DONE"
proof -
  have "running_in pl (set (a # vs)) run" using assms(5,6) by (simp add: running_in_def)
  from cycle_steps [OF assms(4) this phaseAfter_cycle [OF assms(1,2)]] assms(3)
  show ?thesis by (auto simp: running_in_def)
qed


text \<open>A clean dispatch of the current phase of a sample Run.\<close>

definition sampleInputs :: "WorkflowRun \<Rightarrow> PostPhaseInputs" where
  "sampleInputs run = \<lparr>ppRun = run,
     ppOutput = \<lparr>poResult = IrClean None, poOutcome = Clean, poTermination = TToken, poExitCode = Some 0, poStalled = None\<rparr>,
     ppIteration = 1, ppCap = 3, ppDef = Some (samplePhase (currentPhase run)), ppLatestManualPauseAt = None, ppNow = 5,
     ppForceContinueDefault = None, ppMaxUnchanged = None\<rparr>"

lemma sample_dispatch:
  assumes "ps = [''plan'', ''build''] \<or> ps = [''plan'', ''build'', ''plan'']"
  shows "drive_step 3 (sampleRun ps, 0) (advancedRun (sampleRun ps) (Advance ''build'' 0 [] None) (phaseResultOf (sampleInputs (sampleRun ps))) False 6, 1)"
proof -
  have "decideAfterPhase (sampleInputs (sampleRun ps)) =
     AdvanceOrLoop (phaseResultOf (sampleInputs (sampleRun ps))) (Advance ''build'' 0 [] None) []"
    using assms by (auto simp: decideAfterPhase_def sampleInputs_def sampleRun_def transitionInputOf_def transition_def samplePhase_def
        plainTransition_def advance_to_def nextSuccessor_def successorIteration_def isLoopPhase_def blank_def findPhase_def Let_def
        isVerificationPhase_def isMove_def)
  from dispatch [OF _ _ _ _ _ _ _ _ this, of "sampleRun ps" 3 3 5 1 "Some (samplePhase ''plan'')" 0 _ False 6] assms show ?thesis
    by (auto simp: sampleRun_def sampleInputs_def decideBeforePhase_def entryIteration_def findPhase_def planPhases_def samplePhase_def DONE_def)
qed

lemma sample_run_step:
  "(drive_step 3)\<^sup>*\<^sup>* (sampleRun [''plan'', ''build''], 0)
     (advancedRun (sampleRun [''plan'', ''build'']) (Advance ''build'' 0 [] None)
        (phaseResultOf (sampleInputs (sampleRun [''plan'', ''build'']))) False 6, 1)"
  by (rule r_into_rtranclp, rule sample_dispatch) simp

lemma sample_cycle_step:
  "(drive_step 3)\<^sup>*\<^sup>* (sampleRun [''plan'', ''build'', ''plan''], 0)
     (advancedRun (sampleRun [''plan'', ''build'', ''plan'']) (Advance ''build'' 0 [] None)
        (phaseResultOf (sampleInputs (sampleRun [''plan'', ''build'', ''plan'']))) False 6, 1)"
  by (rule r_into_rtranclp, rule sample_dispatch) simp

theorem dispatches_bounded_witness:
  "\<exists>run'. (drive_step 3)\<^sup>*\<^sup>* (sampleRun [''plan'', ''build''], 0) (run', 1) \<and>
     int 1 \<le> maxPhaseInvocations (computePlannedTotal (map samplePhase [''plan'', ''build'']) [] (Some (Fin (of_int 3))))"
proof -
  have "int 1 \<le> maxPhaseInvocations (computePlannedTotal (samplePhase ''plan'' # [samplePhase ''build'']) [] (Some (Fin (of_int 3))))"
    by (rule dispatches_bounded [OF sample_run_step]) (simp_all add: sampleRun_def samplePhase_def DONE_def)
  with sample_run_step show ?thesis by auto
qed

theorem repeated_phase_never_done_witness:
  "\<exists>run'. (drive_step 3)\<^sup>*\<^sup>* (sampleRun [''plan'', ''build'', ''plan''], 0) (run', 1) \<and> currentPhase run' \<noteq> DONE"
  using sample_cycle_step
    repeated_phase_never_done [of "map samplePhase [''plan'', ''build'', ''plan'']" "[]" "''plan''" "[''build'']" "[]", OF _ _ _ sample_cycle_step]
  by (auto simp: sampleRun_def samplePhase_def DONE_def)

theorem transition_shape_witness:
  "case transition (transitionInputOf (sampleInputs (sampleRun [''plan'', ''build'']))) of
     Advance nx n w dg \<Rightarrow> nx = ''build'' \<and> n = 0
   | _ \<Rightarrow> False"
proof -
  let ?i = "transitionInputOf (sampleInputs (sampleRun [''plan'', ''build'']))"
  have "\<exists>nx n w dg. transition ?i = Advance nx n w dg"
    by (simp add: sampleInputs_def sampleRun_def transitionInputOf_def transition_def samplePhase_def
        plainTransition_def advance_to_def isLoopPhase_def blank_def Let_def)
  then obtain nx n w dg where t: "transition ?i = Advance nx n w dg" by blast
  with transition_shape [of ?i] show ?thesis
    by (simp add: sampleInputs_def sampleRun_def transitionInputOf_def samplePhase_def nextSuccessor_def
        isLoopPhase_def blank_def findPhase_def)
qed

end
