(* ===== verification/RunStore.thy ===== *)
theory RunStore
  imports PhaseDrive
begin

text \<open>
  The Run half of \<open>src/state/workspace-state.ts\<close>: \<open>validateRunInvariants\<close> (with
  \<open>pending-retry-shape.ts\<close> and \<open>credit-pause-state.ts\<close>), \<open>setRun\<close> and \<open>updateRun\<close>, and the
  commit fence of \<open>ownership-claim.ts\<close>.  The Run map is an association list from queue ids, one
  serialized link of the store is one function, and the ownership record on disk is the parameter
  \<open>verifyFence\<close>.  A refused write returns the refusal and no map: nothing is stored.
\<close>

subsection \<open>Invariants of a stored Run\<close>

datatype RunInvariantError =
    RetryPairSplit | CountdownNotPaused | CapNeedsPaused | CountOutOfRange | ManualPairSplit
  | CreditPauseMisplaced | FailureCauseMisplaced | BreakpointDuplicate string
  | BreakpointNotInPipeline string | BreakpointOverridden string | ResumeTargetMismatch

definition DELAYED_RETRY_COUNT_PERSISTED_CEILING :: int where
  "DELAYED_RETRY_COUNT_PERSISTED_CEILING = 20"

definition pendingRetryShapeOk :: "WorkflowRun \<Rightarrow> WorkflowRun option \<Rightarrow> bool" where
  "pendingRetryShapeOk nxt previous =
     (if pendingRetryAt nxt = None \<and> pendingRetryCause nxt = None then True
      else if runStatus nxt = Paused then True
      else case previous of
        None \<Rightarrow> False
      | Some p \<Rightarrow> runId p = runId nxt \<and> runStatus p \<noteq> Paused \<and>
                  pendingRetryAt p = pendingRetryAt nxt \<and> pendingRetryCause p = pendingRetryCause nxt)"

definition creditPauseShapeOk :: "WorkflowRun \<Rightarrow> bool" where
  "creditPauseShapeOk run =
     (if creditPause run = None then True
      else runStatus run = Paused \<and> pendingRetryAt run = None \<and> pendingRetryCause run = None
        \<and> manualPauseCause run = None)"

fun checkBreakpoints :: "string set option \<Rightarrow> string set \<Rightarrow> string set \<Rightarrow> PhaseBreakpoint list \<Rightarrow> RunInvariantError option" where
  "checkBreakpoints plan overridden seen [] = None"
| "checkBreakpoints plan overridden seen (bp # bps) =
     (if bpPhaseId bp \<in> seen then Some (BreakpointDuplicate (bpPhaseId bp))
      else if (case plan of None \<Rightarrow> False | Some ids \<Rightarrow> bpPhaseId bp \<notin> ids)
        then Some (BreakpointNotInPipeline (bpPhaseId bp))
      else if bpPhaseId bp \<in> overridden then Some (BreakpointOverridden (bpPhaseId bp))
      else checkBreakpoints plan overridden (insert (bpPhaseId bp) seen) bps)"

definition planIds :: "WorkflowRun \<Rightarrow> string set option" where
  "planIds run = map_option (\<lambda>ps. set (map pdId ps)) (pipeline run)"

text \<open>The error thrown, or \<open>None\<close>.  The checks of values that the declared types exclude (an unknown
  transcript mode, a count that is not finite, breakpoints that are not an array) have no counterpart.\<close>

definition validateRunInvariants :: "WorkflowRun \<Rightarrow> WorkflowRun option \<Rightarrow> RunInvariantError option" where
  "validateRunInvariants run previous =
     (if (pendingRetryAt run \<noteq> None) \<noteq> (pendingRetryCause run \<noteq> None) then Some RetryPairSplit
      else if \<not> pendingRetryShapeOk run previous then Some CountdownNotPaused
      else if DELAYED_RETRY_CAP \<le> delayedRetryCount run \<and> runStatus run \<noteq> Paused \<and> runStatus run \<noteq> RunFailed
        then Some CapNeedsPaused
      else if delayedRetryCount run < 0 \<or> DELAYED_RETRY_COUNT_PERSISTED_CEILING < delayedRetryCount run
        then Some CountOutOfRange
      else if (manualPauseAt run \<noteq> None) \<noteq> (manualPauseCause run \<noteq> None) then Some ManualPairSplit
      else if \<not> creditPauseShapeOk run then Some CreditPauseMisplaced
      else if failureCause run \<noteq> None \<and> runStatus run \<noteq> RunFailed then Some FailureCauseMisplaced
      else case checkBreakpoints (planIds run) (excludedPhaseIds (phaseOverrides run)) {} (phaseBreakpoints run) of
        Some e \<Rightarrow> Some e
      | None \<Rightarrow>
          if (resumeTargetPhaseId run \<noteq> None) \<noteq> (manualPauseCause run = Some BreakpointPaused)
          then Some ResumeTargetMismatch else None)"

text \<open>The invariant as one predicate.\<close>

definition breakpoints_ok :: "WorkflowRun \<Rightarrow> bool" where
  "breakpoints_ok run \<longleftrightarrow> distinct (map bpPhaseId (phaseBreakpoints run)) \<and>
     (\<forall>ids. planIds run = Some ids \<longrightarrow> bpPhaseId ` set (phaseBreakpoints run) \<subseteq> ids) \<and>
     bpPhaseId ` set (phaseBreakpoints run) \<inter> excludedPhaseIds (phaseOverrides run) = {}"

definition run_ok :: "WorkflowRun \<Rightarrow> bool" where
  "run_ok run \<longleftrightarrow>
     (pendingRetryAt run = None \<longleftrightarrow> pendingRetryCause run = None) \<and>
     (pendingRetryAt run \<noteq> None \<longrightarrow> runStatus run = Paused) \<and>
     (DELAYED_RETRY_CAP \<le> delayedRetryCount run \<longrightarrow> runStatus run = Paused \<or> runStatus run = RunFailed) \<and>
     0 \<le> delayedRetryCount run \<and> delayedRetryCount run \<le> DELAYED_RETRY_COUNT_PERSISTED_CEILING \<and>
     (manualPauseAt run = None \<longleftrightarrow> manualPauseCause run = None) \<and>
     creditPauseShapeOk run \<and>
     (failureCause run \<noteq> None \<longrightarrow> runStatus run = RunFailed) \<and>
     breakpoints_ok run \<and>
     (resumeTargetPhaseId run \<noteq> None \<longleftrightarrow> manualPauseCause run = Some BreakpointPaused)"

definition run_core_ok :: "WorkflowRun \<Rightarrow> bool" where
  "run_core_ok run \<longleftrightarrow>
     (pendingRetryAt run = None \<longleftrightarrow> pendingRetryCause run = None) \<and>
     (pendingRetryAt run \<noteq> None \<longrightarrow> runStatus run = Paused) \<and>
     (DELAYED_RETRY_CAP \<le> delayedRetryCount run \<longrightarrow> runStatus run = Paused \<or> runStatus run = RunFailed) \<and>
     0 \<le> delayedRetryCount run \<and> delayedRetryCount run \<le> DELAYED_RETRY_COUNT_PERSISTED_CEILING \<and>
     (manualPauseAt run = None \<longleftrightarrow> manualPauseCause run = None) \<and>
     creditPauseShapeOk run \<and>
     (failureCause run \<noteq> None \<longrightarrow> runStatus run = RunFailed) \<and>
     (resumeTargetPhaseId run \<noteq> None \<longleftrightarrow> manualPauseCause run = Some BreakpointPaused)"

lemma run_ok_split: "run_ok run \<longleftrightarrow> run_core_ok run \<and> breakpoints_ok run"
  unfolding run_ok_def run_core_ok_def by argo

lemma run_core_ok_upd [simp]:
  "run_core_ok (run\<lparr>phaseOverrides := x0\<rparr>) = run_core_ok run"
  "run_core_ok (run\<lparr>phaseBreakpoints := x1\<rparr>) = run_core_ok run"
  "run_core_ok (run\<lparr>lastTransitionAt := x2\<rparr>) = run_core_ok run"
  "run_core_ok (run\<lparr>phasesCompleted := x3\<rparr>) = run_core_ok run"
  "run_core_ok (run\<lparr>currentPhase := x4\<rparr>) = run_core_ok run"
  "run_core_ok (run\<lparr>currentIteration := x5\<rparr>) = run_core_ok run"
  "run_core_ok (run\<lparr>plannedTotal := x6\<rparr>) = run_core_ok run"
  "run_core_ok (run\<lparr>degradedPhases := x7\<rparr>) = run_core_ok run"
  "run_core_ok (run\<lparr>pipeline := x8\<rparr>) = run_core_ok run"
  "run_core_ok (run\<lparr>resumePrompt := x9\<rparr>) = run_core_ok run"
  "run_core_ok (run\<lparr>writtenAtFence := x10\<rparr>) = run_core_ok run"
  by (simp_all add: run_core_ok_def creditPauseShapeOk_def)

lemma breakpoints_ok_upd [simp]:
  "breakpoints_ok (run\<lparr>runStatus := x0\<rparr>) = breakpoints_ok run"
  "breakpoints_ok (run\<lparr>currentIteration := x1\<rparr>) = breakpoints_ok run"
  "breakpoints_ok (run\<lparr>currentPhase := x2\<rparr>) = breakpoints_ok run"
  "breakpoints_ok (run\<lparr>lastTransitionAt := x3\<rparr>) = breakpoints_ok run"
  "breakpoints_ok (run\<lparr>phasesCompleted := x4\<rparr>) = breakpoints_ok run"
  "breakpoints_ok (run\<lparr>plannedTotal := x5\<rparr>) = breakpoints_ok run"
  "breakpoints_ok (run\<lparr>degradedPhases := x6\<rparr>) = breakpoints_ok run"
  "breakpoints_ok (run\<lparr>resumePrompt := x7\<rparr>) = breakpoints_ok run"
  "breakpoints_ok (run\<lparr>writtenAtFence := x8\<rparr>) = breakpoints_ok run"
  "breakpoints_ok (run\<lparr>manualPauseAt := x9\<rparr>) = breakpoints_ok run"
  "breakpoints_ok (run\<lparr>manualPauseCause := x10\<rparr>) = breakpoints_ok run"
  "breakpoints_ok (run\<lparr>resumeTargetPhaseId := x11\<rparr>) = breakpoints_ok run"
  "breakpoints_ok (run\<lparr>pendingRetryAt := x12\<rparr>) = breakpoints_ok run"
  "breakpoints_ok (run\<lparr>pendingRetryCause := x13\<rparr>) = breakpoints_ok run"
  "breakpoints_ok (run\<lparr>creditPause := x14\<rparr>) = breakpoints_ok run"
  "breakpoints_ok (run\<lparr>failureCause := x15\<rparr>) = breakpoints_ok run"
  "breakpoints_ok (run\<lparr>delayedRetryCount := x16\<rparr>) = breakpoints_ok run"
  by (simp_all add: breakpoints_ok_def planIds_def)

lemma planned_ok [simp]:
  "run_core_ok (plannedTotalPatch ovs run) = run_core_ok run"
  "breakpoints_ok (plannedTotalPatch ovs run) = breakpoints_ok run"
  "planIds (plannedTotalPatch ovs run) = planIds run"
  by (simp_all add: plannedTotalPatch_def planIds_def)

lemmas core_defs = run_core_ok_def creditPauseShapeOk_def DELAYED_RETRY_CAP_def DELAYED_RETRY_COUNT_PERSISTED_CEILING_def

lemma checkBreakpoints_None:
  "checkBreakpoints plan ov seen bps = None \<longleftrightarrow>
     distinct (map bpPhaseId bps) \<and> bpPhaseId ` set bps \<inter> seen = {} \<and>
     (\<forall>ids. plan = Some ids \<longrightarrow> bpPhaseId ` set bps \<subseteq> ids) \<and> bpPhaseId ` set bps \<inter> ov = {}"
  by (induction bps arbitrary: seen) (auto split: option.splits)

lemma checkBreakpoints_ok:
  "checkBreakpoints (planIds run) (excludedPhaseIds (phaseOverrides run)) {} (phaseBreakpoints run) = None
     \<longleftrightarrow> breakpoints_ok run"
  by (auto simp: checkBreakpoints_None breakpoints_ok_def)

lemma guard_None:
  "(if c then Some e else r) = None \<longleftrightarrow> \<not> c \<and> r = None"
  "(case x of None \<Rightarrow> r | Some e \<Rightarrow> Some e) = None \<longleftrightarrow> x = None \<and> r = None"
  by (auto split: option.splits)

lemma validate_None:
  "validateRunInvariants run previous = None \<longleftrightarrow>
     (pendingRetryAt run \<noteq> None) = (pendingRetryCause run \<noteq> None) \<and> pendingRetryShapeOk run previous \<and>
     \<not> (DELAYED_RETRY_CAP \<le> delayedRetryCount run \<and> runStatus run \<noteq> Paused \<and> runStatus run \<noteq> RunFailed) \<and>
     \<not> (delayedRetryCount run < 0 \<or> DELAYED_RETRY_COUNT_PERSISTED_CEILING < delayedRetryCount run) \<and>
     (manualPauseAt run \<noteq> None) = (manualPauseCause run \<noteq> None) \<and> creditPauseShapeOk run \<and>
     \<not> (failureCause run \<noteq> None \<and> runStatus run \<noteq> RunFailed) \<and> breakpoints_ok run \<and>
     (resumeTargetPhaseId run \<noteq> None) = (manualPauseCause run = Some BreakpointPaused)"
  unfolding validateRunInvariants_def guard_None checkBreakpoints_ok by argo

lemma validate_run_ok:
  assumes "\<And>p. previous = Some p \<Longrightarrow> run_ok p"
  shows "validateRunInvariants run previous = None \<longleftrightarrow> run_ok run"
proof -
  have "pendingRetryShapeOk run previous \<longleftrightarrow>
      (pendingRetryAt run = None \<and> pendingRetryCause run = None) \<or> runStatus run = Paused"
    using assms by (auto simp: pendingRetryShapeOk_def run_ok_def split: option.splits)
  then show ?thesis unfolding validate_None run_ok_def not_le [symmetric] by argo
qed

subsection \<open>The commit fence\<close>

record OwnershipClaim =
  claimResource :: string
  claimOwner :: string
  claimFence :: int

datatype RunCommitClaim = Fenced OwnershipClaim | Unfenced

datatype FenceCheck = FenceValid | FenceRejected | FenceUnavailable

text \<open>\<open>verifyWithin\<close>: a read that fails or does not answer in time is \<open>FenceUnavailable\<close>.\<close>

type_synonym verifier = "string \<Rightarrow> string \<Rightarrow> int \<Rightarrow> FenceCheck"

datatype FenceFailure = WrongResource | Unverifiable | Superseded

definition queueResource :: "string \<Rightarrow> string" where
  "queueResource queueId = ''queue:'' @ queueId"

definition checkCommitFence :: "verifier \<Rightarrow> OwnershipClaim \<Rightarrow> string \<Rightarrow> FenceFailure option" where
  "checkCommitFence verifyFence claim queueId =
     (let expected = queueResource queueId
      in if claimResource claim \<noteq> expected then Some WrongResource
         else case verifyFence expected (claimOwner claim) (claimFence claim) of
           FenceValid \<Rightarrow> None
         | FenceUnavailable \<Rightarrow> Some Unverifiable
         | FenceRejected \<Rightarrow> Some Superseded)"

subsection \<open>Writing a Run\<close>

type_synonym RunMap = "(string \<times> WorkflowRun) list"

datatype 'r RunRefusal =
    StaleRunId | StatusPrecondition WorkflowRunStatus | OwnershipLost | FenceRefused FenceFailure
  | UnknownQueueId | PatchRefused 'r | InvariantViolation RunInvariantError

record StoreEnv =
  verifyFence :: verifier
  tenureLost :: "string \<Rightarrow> bool"
  claimFor :: "string \<Rightarrow> OwnershipClaim option"
  knownQueue :: "string \<Rightarrow> bool"
  primacyHeld :: bool
  clock :: int

definition getRun :: "RunMap \<Rightarrow> string \<Rightarrow> WorkflowRun option" where
  "getRun runs queueId = map_of runs queueId"

definition findRunById :: "RunMap \<Rightarrow> string \<Rightarrow> (string \<times> WorkflowRun) option" where
  "findRunById runs rid = List.find (\<lambda>(q, run). runId run = rid) runs"

definition fenceRefusal :: "StoreEnv \<Rightarrow> string \<Rightarrow> RunCommitClaim \<Rightarrow> FenceFailure option" where
  "fenceRefusal env queueId claim =
     (case claim of Unfenced \<Rightarrow> None | Fenced c \<Rightarrow> checkCommitFence (verifyFence env) c queueId)"

definition stampFence :: "RunCommitClaim \<Rightarrow> WorkflowRun \<Rightarrow> WorkflowRun" where
  "stampFence claim run = (case claim of Unfenced \<Rightarrow> run | Fenced c \<Rightarrow> run\<lparr>writtenAtFence := Some (claimFence c)\<rparr>)"

definition runCommitClaim :: "StoreEnv \<Rightarrow> string \<Rightarrow> 'r RunRefusal + RunCommitClaim" where
  "runCommitClaim env queueId =
     (if tenureLost env queueId then Inl OwnershipLost
      else Inr (case claimFor env queueId of Some c \<Rightarrow> Fenced c | None \<Rightarrow> Unfenced))"

definition setRun :: "StoreEnv \<Rightarrow> RunMap \<Rightarrow> string \<Rightarrow> WorkflowRun option \<Rightarrow> RunCommitClaim \<Rightarrow> 'r RunRefusal + RunMap" where
  "setRun env runs queueId r claim =
     (case r of
        None \<Rightarrow>
          (case fenceRefusal env queueId claim of
             Some f \<Rightarrow> Inl (FenceRefused f)
           | None \<Rightarrow> Inr (AList.delete queueId runs))
      | Some run \<Rightarrow>
          (case validateRunInvariants run (getRun runs queueId) of
             Some e \<Rightarrow> Inl (InvariantViolation e)
           | None \<Rightarrow>
               if \<not> knownQueue env queueId then Inl UnknownQueueId
               else (case fenceRefusal env queueId claim of
                  Some f \<Rightarrow> Inl (FenceRefused f)
                | None \<Rightarrow> Inr (AList.update queueId (stampFence claim run) runs))))"

record 'r RunUpdate =
  updRunId :: string
  updAllowed :: "WorkflowRunStatus list"
  updPatch :: "WorkflowRun \<Rightarrow> 'r + WorkflowRun"

definition updateRun :: "StoreEnv \<Rightarrow> RunMap \<Rightarrow> string \<Rightarrow> 'r RunUpdate \<Rightarrow> RunCommitClaim \<Rightarrow> 'r RunRefusal + WorkflowRun \<times> RunMap" where
  "updateRun env runs queueId u claim =
     (case getRun runs queueId of
        None \<Rightarrow> Inl StaleRunId
      | Some current \<Rightarrow>
          if runId current \<noteq> updRunId u then Inl StaleRunId
          else if runStatus current \<notin> set (updAllowed u) then Inl (StatusPrecondition (runStatus current))
          else if tenureLost env queueId then Inl OwnershipLost
          else case fenceRefusal env queueId claim of
            Some f \<Rightarrow> Inl (FenceRefused f)
          | None \<Rightarrow>
              (case updPatch u current of
                 Inl r \<Rightarrow> Inl (PatchRefused r)
               | Inr merged \<Rightarrow>
                   (case validateRunInvariants merged (Some current) of
                      Some e \<Rightarrow> Inl (InvariantViolation e)
                    | None \<Rightarrow> (let written = stampFence claim merged
                               in Inr (written, AList.update queueId written runs)))))"

definition isRunRaceRefusal :: "'r RunRefusal \<Rightarrow> bool" where
  "isRunRaceRefusal e = (case e of StaleRunId \<Rightarrow> True | StatusPrecondition s \<Rightarrow> True | _ \<Rightarrow> False)"

subsection \<open>What a store operation guarantees\<close>

definition runs_ok :: "RunMap \<Rightarrow> bool" where
  "runs_ok runs \<longleftrightarrow> (\<forall>q run. map_of runs q = Some run \<longrightarrow> run_ok run)"

lemma run_ok_stamp [simp]: "run_ok (stampFence c run) = run_ok run"
  by (auto simp: stampFence_def run_ok_def breakpoints_ok_def creditPauseShapeOk_def planIds_def split: RunCommitClaim.splits)

lemma stampFence_simps [simp]:
  "runStatus (stampFence c run) = runStatus run"
  "currentPhase (stampFence c run) = currentPhase run"
  "currentIteration (stampFence c run) = currentIteration run"
  "delayedRetryCount (stampFence c run) = delayedRetryCount run"
  "pendingRetryAt (stampFence c run) = pendingRetryAt run"
  "pendingRetryCause (stampFence c run) = pendingRetryCause run"
  "manualPauseAt (stampFence c run) = manualPauseAt run"
  "manualPauseCause (stampFence c run) = manualPauseCause run"
  "creditPause (stampFence c run) = creditPause run"
  "failureCause (stampFence c run) = failureCause run"
  "phaseOverrides (stampFence c run) = phaseOverrides run"
  "phaseBreakpoints (stampFence c run) = phaseBreakpoints run"
  "plannedTotal (stampFence c run) = plannedTotal run"
  "phasesCompleted (stampFence c run) = phasesCompleted run"
  "pipeline (stampFence c run) = pipeline run"
  "runId (stampFence c run) = runId run"
  "featureId (stampFence c run) = featureId run"
  "resumeTargetPhaseId (stampFence c run) = resumeTargetPhaseId run"
  by (cases c; simp add: stampFence_def)+

lemma getRun_ok: "runs_ok runs \<Longrightarrow> getRun runs q = Some run \<Longrightarrow> run_ok run"
  by (auto simp: runs_ok_def getRun_def)

lemma updateRun_Inr:
  "updateRun env runs q u claim = Inr (w, runs') \<longleftrightarrow>
     (\<exists>current merged. getRun runs q = Some current \<and> runId current = updRunId u \<and>
        runStatus current \<in> set (updAllowed u) \<and> \<not> tenureLost env q \<and> fenceRefusal env q claim = None \<and>
        updPatch u current = Inr merged \<and> validateRunInvariants merged (Some current) = None \<and>
        w = stampFence claim merged \<and> runs' = AList.update q w runs)"
  by (auto simp: updateRun_def Let_def split: option.splits sum.splits)

lemma updateRun_ok:
  assumes "updateRun env runs q u claim = Inr (w, runs')" "runs_ok runs"
  shows "run_ok w" "runs_ok runs'"
proof -
  from assms(1) obtain c m where c: "getRun runs q = Some c" "validateRunInvariants m (Some c) = None"
    "w = stampFence claim m" "runs' = AList.update q w runs" by (auto simp: updateRun_Inr)
  then show "run_ok w" using validate_run_ok [of "Some c" m] getRun_ok [OF assms(2) c(1)] by simp
  then show "runs_ok runs'" using assms(2) c(4) by (auto simp: runs_ok_def update_conv')
qed

lemma setRun_ok:
  assumes "setRun env runs q r claim = Inr runs'" "runs_ok runs"
  shows "runs_ok runs'"
proof (cases r)
  case None
  with assms show ?thesis by (auto simp: setRun_def runs_ok_def delete_conv' split: option.splits if_splits)
next
  case (Some run)
  with assms(1) have c: "validateRunInvariants run (getRun runs q) = None"
    "runs' = AList.update q (stampFence claim run) runs" by (auto simp: setRun_def split: option.splits if_splits)
  then have "run_ok run" using validate_run_ok [of "getRun runs q" run] getRun_ok [OF assms(2)] by blast
  then show ?thesis using assms(2) c(2) by (auto simp: runs_ok_def update_conv')
qed

end
