(* ===== verification/TaskQueue.thy ===== *)
theory TaskQueue
  imports RunStore
begin

text \<open>
  The queue records and the pure decisions on them: \<open>src/queue/feature-request.ts\<close>,
  \<open>task-transition-decision.ts\<close>, \<open>queue-halt-policy.ts\<close>, \<open>queue-lifecycle-refresh.ts\<close>,
  \<open>queue-reset-settle.ts\<close>, \<open>terminal-capture.ts\<close>, and the normalisation of a persisted queue record in
  \<open>src/state/workspace-state.ts\<close> (\<open>ensureExtendedQueueShape\<close>, \<open>compactRequestPositions\<close>).  An absent
  \<open>queueId\<close> of a row is the empty string.  Fields that are only carried along (the frozen plan, the
  re-run reference, the migration notice, creation times) are left out.
\<close>

subsection \<open>Vocabulary and records\<close>

datatype FeatureRequestStatus = StPending | StInFlight | StPaused | StCompleted | StCanceled | StFailed

definition isTerminalRequestStatus :: "FeatureRequestStatus \<Rightarrow> bool" where
  "isTerminalRequestStatus s \<longleftrightarrow> s \<in> {StCompleted, StCanceled, StFailed}"

datatype QueueLifecycle = LcRunning | LcOperatorPaused | LcIdlePending | LcActiveEmpty

datatype QueuePauseSource = PsOperator | PsCascade | PsRetryCap

datatype QueueFailurePolicy = HaltOnFailure | ContinueOnFailure

datatype FeatureRequestPauseCause = PhasePausedCause | ManuallyPausedTask

datatype ScheduledStartSource =
    OperatorChooser | OperatorRestart | ProgrammaticNow | ProgrammaticScheduled | MigrationDefault
  | SystemRateLimitRecovery

record WorkflowOccurrenceIdentity =
  occRootRunId :: string
  occInvocationId :: string
  occAttemptId :: string

record FeatureRequest =
  frId :: string
  frDescription :: string
  frStatus :: FeatureRequestStatus
  frQueueId :: string
  frPosition :: int
  frRunId :: "string option"
  frRetryCount :: int
  frStartedAt :: "int option"
  frUpdatedAt :: int
  frCompletedAt :: "int option"
  frPauseCause :: "FeatureRequestPauseCause option"
  frLastError :: "string option"
  frPausedReason :: "string option"
  frPhaseProgress :: "Progress option"
  frDegraded :: "DegradedPhaseEntry list option"
  frAttested :: bool
  frOccurrence :: "WorkflowOccurrenceIdentity option"

record QueueState =
  qRequests :: "FeatureRequest list"
  qInFlightId :: "string option"
  qPausedReason :: "string option"
  qUpdatedAt :: int
  qLifecycle :: QueueLifecycle
  qPauseSource :: "QueuePauseSource option"
  qScheduledStartAt :: "int option"
  qScheduledStartSource :: "ScheduledStartSource option"
  qFailurePolicy :: "QueueFailurePolicy option"

text \<open>
  A record as it may lie in the workspace store: written by an earlier release it may lack the
  lifecycle discriminator and carry the retired \<open>paused\<close> mirror.
\<close>

record PersistedQueue =
  pqRequests :: "FeatureRequest list"
  pqInFlightId :: "string option"
  pqPaused :: "bool option"
  pqPausedReason :: "string option"
  pqUpdatedAt :: int
  pqLifecycle :: "QueueLifecycle option"
  pqPauseSource :: "QueuePauseSource option"
  pqScheduledStartAt :: "int option"
  pqScheduledStartSource :: "ScheduledStartSource option"
  pqFailurePolicy :: "QueueFailurePolicy option"

definition MAX_DESCRIPTION_LENGTH :: nat where "MAX_DESCRIPTION_LENGTH = 32000"
definition MAX_PENDING_TASKS_PER_QUEUE :: nat where "MAX_PENDING_TASKS_PER_QUEUE = 100"
definition DEFAULT_QUEUE_ID :: string where "DEFAULT_QUEUE_ID = ''default''"

definition validateDescription :: "string \<Rightarrow> string option" where
  "validateDescription d =
     (let trimmed = js_trim d
      in if trimmed = [] \<or> MAX_DESCRIPTION_LENGTH < length trimmed then None else Some trimmed)"

subsection \<open>Task transitions\<close>

datatype TaskTransitionOperation = OpMarkInFlight | OpPause | OpFinish | OpReturnToPending

datatype TaskTransitionRejection = TaskNotFound | IllegalSourceStatus | InFlightConflict

definition decideTaskTransition :: "TaskTransitionOperation \<Rightarrow> FeatureRequestStatus option \<Rightarrow> FeatureRequestStatus option
    \<Rightarrow> bool \<Rightarrow> bool \<Rightarrow> TaskTransitionRejection option" where
  "decideTaskTransition operation currentStatus targetStatus queueAlreadyHasDifferentInFlight operatorAttested =
     (case currentStatus of
        None \<Rightarrow> Some TaskNotFound
      | Some cur \<Rightarrow>
          (case operation of
             OpMarkInFlight \<Rightarrow>
               if queueAlreadyHasDifferentInFlight then Some InFlightConflict
               else if cur \<in> {StPending, StInFlight, StPaused, StFailed} then None
               else Some IllegalSourceStatus
           | OpPause \<Rightarrow> if cur \<noteq> StInFlight then Some IllegalSourceStatus else None
           | OpFinish \<Rightarrow>
               (case targetStatus of
                  None \<Rightarrow> Some IllegalSourceStatus
                | Some tgt \<Rightarrow>
                    if \<not> isTerminalRequestStatus tgt then Some IllegalSourceStatus
                    else if cur = StInFlight then None
                    else if cur = StPending \<and> tgt = StCanceled then None
                    else if cur = StPending \<and> tgt = StFailed then None
                    else if cur = StFailed \<and> tgt = StCompleted \<and> operatorAttested then None
                    else Some IllegalSourceStatus)
           | OpReturnToPending \<Rightarrow>
               if cur \<in> {StPaused, StFailed, StCanceled} then None else Some IllegalSourceStatus))"

subsection \<open>Halt policy\<close>

definition effectiveQueueFailurePolicy :: "QueueFailurePolicy option \<Rightarrow> QueueFailurePolicy \<Rightarrow> QueueFailurePolicy" where
  "effectiveQueueFailurePolicy stored workspaceDefault = (case stored of Some p \<Rightarrow> p | None \<Rightarrow> workspaceDefault)"

definition isBlockingTaskStatus :: "FeatureRequestStatus \<Rightarrow> bool" where
  "isBlockingTaskStatus s \<longleftrightarrow> s = StFailed"

record QueueHaltVerdict =
  haltTaskId :: string
  haltTaskName :: string

definition evaluateQueueHalt :: "QueueFailurePolicy \<Rightarrow> FeatureRequest list \<Rightarrow> QueueHaltVerdict option" where
  "evaluateQueueHalt policy requests =
     (if policy \<noteq> HaltOnFailure then None
      else case sort_key frPosition (filter (\<lambda>r. isBlockingTaskStatus (frStatus r)) requests) of
        [] \<Rightarrow> None
      | first # rest \<Rightarrow> Some \<lparr>haltTaskId = frId first, haltTaskName = frDescription first\<rparr>)"

subsection \<open>Lifecycle\<close>

definition hasPending :: "QueueState \<Rightarrow> bool" where
  "hasPending queue \<longleftrightarrow> (\<exists>r \<in> set (qRequests queue). frStatus r = StPending)"

definition refreshUnheldLifecycle :: "QueueState \<Rightarrow> QueueLifecycle" where
  "refreshUnheldLifecycle queue =
     (if qLifecycle queue \<noteq> LcRunning \<and> qLifecycle queue \<noteq> LcActiveEmpty then qLifecycle queue
      else if qInFlightId queue \<noteq> None \<or> hasPending queue then LcRunning else LcActiveEmpty)"

definition withRefreshedLifecycle :: "QueueState \<Rightarrow> QueueState" where
  "withRefreshedLifecycle queue = queue\<lparr>qLifecycle := refreshUnheldLifecycle queue\<rparr>"

datatype PauseReleaseMode = ReleasePause | DeferPauseRelease

definition queueReset :: "QueueState \<Rightarrow> int \<Rightarrow> PauseReleaseMode \<Rightarrow> QueueState" where
  "queueReset queue now mode =
     (let keepPause = (mode = DeferPauseRelease \<and> qLifecycle queue = LcOperatorPaused)
      in queue\<lparr>qRequests := [], qInFlightId := None, qPausedReason := None,
           qPauseSource := (if keepPause then qPauseSource queue else None),
           qLifecycle := (if keepPause then LcOperatorPaused else LcActiveEmpty),
           qScheduledStartAt := None, qScheduledStartSource := None, qUpdatedAt := now\<rparr>)"

definition hasResettableQueueState :: "QueueState \<Rightarrow> bool" where
  "hasResettableQueueState queue \<longleftrightarrow>
     0 < length (qRequests queue) \<or> qInFlightId queue \<noteq> None \<or> qLifecycle queue = LcOperatorPaused
     \<or> qLifecycle queue = LcIdlePending \<or> qScheduledStartAt queue \<noteq> None"

subsection \<open>What a Run leaves on its row\<close>

definition terminalCapture :: "WorkflowRun option \<Rightarrow> FeatureRequest \<Rightarrow> FeatureRequest" where
  "terminalCapture run r = r
     \<lparr>frPhaseProgress := (case settledPhaseProgress run of Some p \<Rightarrow> Some p | None \<Rightarrow> frPhaseProgress r),
      frDegraded := (case degradationPatch run of Some ds \<Rightarrow> Some ds | None \<Rightarrow> frDegraded r)\<rparr>"

definition withoutTerminalCapture :: "FeatureRequest \<Rightarrow> FeatureRequest" where
  "withoutTerminalCapture r = r\<lparr>frPhaseProgress := None, frDegraded := None\<rparr>"

subsection \<open>Positions and the shape of a stored record\<close>

definition rowQueueId :: "FeatureRequest \<Rightarrow> string" where
  "rowQueueId r = (if frQueueId r = [] then DEFAULT_QUEUE_ID else frQueueId r)"

definition reposition :: "FeatureRequest list \<Rightarrow> FeatureRequest list" where
  "reposition rs = map (\<lambda>i. (rs ! i)\<lparr>frPosition := int i\<rparr>) [0..<length rs]"

text \<open>Rows by queue in the order of first appearance, each bucket sorted and numbered; a row is then looked up by id.\<close>

definition compactRequestPositions :: "FeatureRequest list \<Rightarrow> FeatureRequest list" where
  "compactRequestPositions requests =
     (let filed = map (\<lambda>r. r\<lparr>frQueueId := rowQueueId r\<rparr>) requests;
          bucketIds = rev (remdups (rev (map frQueueId filed)));
          buckets = map (\<lambda>q. filter (\<lambda>r. frQueueId r = q) filed) bucketIds;
          positioned = concat (map (\<lambda>b. reposition (sort_key frPosition b)) buckets)
      in map (\<lambda>r. case map_of (rev (map (\<lambda>p. (frId p, p)) positioned)) (frId r) of Some p \<Rightarrow> p | None \<Rightarrow> r) requests)"

definition deriveLifecycleFromLegacyShape :: "bool \<Rightarrow> string option \<Rightarrow> nat \<Rightarrow> QueueLifecycle" where
  "deriveLifecycleFromLegacyShape paused inFlightId pendingCount =
     (if inFlightId \<noteq> None then LcRunning
      else if paused then LcOperatorPaused
      else if 0 < pendingCount then LcIdlePending
      else LcActiveEmpty)"

definition normalizePauseSource :: "PersistedQueue \<Rightarrow> QueueLifecycle \<Rightarrow> bool \<Rightarrow> QueuePauseSource option" where
  "normalizePauseSource persisted queueLifecycle legacyPaused =
     (if queueLifecycle \<noteq> LcOperatorPaused \<and> \<not> legacyPaused then None
      else Some (case pqPauseSource persisted of Some s \<Rightarrow> s | None \<Rightarrow> PsOperator))"

definition ensureExtendedQueueShape :: "PersistedQueue \<Rightarrow> QueueState" where
  "ensureExtendedQueueShape persisted =
     (let requests = compactRequestPositions (pqRequests persisted);
          paused = (case pqPaused persisted of Some b \<Rightarrow> b | None \<Rightarrow> False);
          lifecycle = (case pqLifecycle persisted of Some l \<Rightarrow> l
                       | None \<Rightarrow> deriveLifecycleFromLegacyShape paused (pqInFlightId persisted) (length requests));
          source = normalizePauseSource persisted lifecycle paused
      in \<lparr>qRequests = requests, qInFlightId = pqInFlightId persisted,
          qPausedReason = (if source = None then None else pqPausedReason persisted),
          qUpdatedAt = pqUpdatedAt persisted, qLifecycle = lifecycle, qPauseSource = source,
          qScheduledStartAt = (if lifecycle = LcIdlePending then pqScheduledStartAt persisted else None),
          qScheduledStartSource = (if lifecycle = LcIdlePending then pqScheduledStartSource persisted else None),
          qFailurePolicy = pqFailurePolicy persisted\<rparr>)"

text \<open>
  A record and its rows as an earlier release may have written them: fields that came later can be missing,
  the list may not be one (\<open>None\<close>), and the start source may be the retired one.  The read fills the
  fields in before it normalises the shape.
\<close>

datatype StoredStartSource = KnownSource ScheduledStartSource | RetiredWakeUpRunner

record StoredRequest =
  srId :: string
  srDescription :: string
  srStatus :: FeatureRequestStatus
  srEnqueuedAt :: int
  srPosition :: int
  srRunId :: "string option"
  srQueueId :: "string option"
  srRetryCount :: "int option"
  srStartedAt :: "int option"
  srUpdatedAt :: "int option"
  srCompletedAt :: "int option"
  srPauseCause :: "FeatureRequestPauseCause option"
  srLastError :: "string option"
  srPausedReason :: "string option"
  srPhaseProgress :: "Progress option"
  srDegraded :: "DegradedPhaseEntry list option"
  srAttested :: bool
  srOccurrence :: "WorkflowOccurrenceIdentity option"

record StoredQueue =
  sqRequests :: "StoredRequest list option"
  sqInFlightId :: "string option"
  sqPaused :: "bool option"
  sqPausedReason :: "string option"
  sqUpdatedAt :: "int option"
  sqLifecycle :: "QueueLifecycle option"
  sqPauseSource :: "QueuePauseSource option"
  sqScheduledStartAt :: "int option"
  sqScheduledStartSource :: "StoredStartSource option"
  sqFailurePolicy :: "QueueFailurePolicy option"

definition ensureExtendedFeatureRequest :: "StoredRequest \<Rightarrow> FeatureRequest" where
  "ensureExtendedFeatureRequest raw =
     \<lparr>frId = srId raw, frDescription = srDescription raw, frStatus = srStatus raw,
      frQueueId = (case srQueueId raw of Some q \<Rightarrow> q | None \<Rightarrow> ''default''), frPosition = srPosition raw,
      frRunId = srRunId raw, frRetryCount = (case srRetryCount raw of Some n \<Rightarrow> n | None \<Rightarrow> 0),
      frStartedAt = srStartedAt raw, frUpdatedAt = (case srUpdatedAt raw of Some t \<Rightarrow> t | None \<Rightarrow> srEnqueuedAt raw),
      frCompletedAt = srCompletedAt raw, frPauseCause = srPauseCause raw, frLastError = srLastError raw,
      frPausedReason = srPausedReason raw, frPhaseProgress = srPhaseProgress raw, frDegraded = srDegraded raw,
      frAttested = srAttested raw, frOccurrence = srOccurrence raw\<rparr>"

fun coerceRetiredStartSource :: "StoredStartSource \<Rightarrow> ScheduledStartSource" where
  "coerceRetiredStartSource (KnownSource s) = s"
| "coerceRetiredStartSource RetiredWakeUpRunner = ProgrammaticScheduled"

definition fillIn :: "int \<Rightarrow> StoredQueue \<Rightarrow> PersistedQueue" where
  "fillIn now stored =
     \<lparr>pqRequests = (case sqRequests stored of Some rs \<Rightarrow> map ensureExtendedFeatureRequest rs | None \<Rightarrow> []),
      pqInFlightId = sqInFlightId stored, pqPaused = sqPaused stored, pqPausedReason = sqPausedReason stored,
      pqUpdatedAt = (case sqUpdatedAt stored of Some t \<Rightarrow> t | None \<Rightarrow> now), pqLifecycle = sqLifecycle stored,
      pqPauseSource = sqPauseSource stored, pqScheduledStartAt = sqScheduledStartAt stored,
      pqScheduledStartSource = map_option coerceRetiredStartSource (sqScheduledStartSource stored),
      pqFailurePolicy = sqFailurePolicy stored\<rparr>"

definition readStoredQueue :: "int \<Rightarrow> StoredQueue \<Rightarrow> QueueState" where
  "readStoredQueue now stored = ensureExtendedQueueShape (fillIn now stored)"

text \<open>What the store writes: the normalised record, without the retired mirror.\<close>

definition persist :: "QueueState \<Rightarrow> PersistedQueue" where
  "persist q = \<lparr>pqRequests = qRequests q, pqInFlightId = qInFlightId q, pqPaused = None,
     pqPausedReason = qPausedReason q, pqUpdatedAt = qUpdatedAt q, pqLifecycle = Some (qLifecycle q),
     pqPauseSource = qPauseSource q, pqScheduledStartAt = qScheduledStartAt q,
     pqScheduledStartSource = qScheduledStartSource q, pqFailurePolicy = qFailurePolicy q\<rparr>"

definition bornEmptyQueue :: "int \<Rightarrow> QueueState" where
  "bornEmptyQueue now = \<lparr>qRequests = [], qInFlightId = None, qPausedReason = None, qUpdatedAt = now,
     qLifecycle = LcActiveEmpty, qPauseSource = None, qScheduledStartAt = None, qScheduledStartSource = None,
     qFailurePolicy = None\<rparr>"

end
