(* ===== verification/QueueStore.thy ===== *)
theory QueueStore
  imports TaskQueue
begin

text \<open>
  The queue half of \<open>src/state/workspace-state.ts\<close>: reading a queue, the serialized and fenced writers
  \<open>updateQueue\<close> and \<open>updateQueueMap\<close>, and the writers of single tasks built on them.  A mutation is a
  function from the queue as read to a rejection or the new queue with a result; a rejection writes
  nothing.  The queue map is an association list from queue ids, in insertion order.
\<close>

datatype QueueReject =
    QUnknownQueueId | PositionOutOfRange | TaskCapReached | TaskNotInPendingState | InvalidDescription
  | QOwnershipLost | QFenceRefused FenceFailure | Transition TaskTransitionRejection

type_synonym QueueMap = "(string \<times> PersistedQueue) list"

type_synonym 'r Mutation = "QueueState \<Rightarrow> QueueReject + QueueState \<times> 'r"

subsection \<open>Reading\<close>

definition getQueue :: "int \<Rightarrow> QueueMap \<Rightarrow> string \<Rightarrow> QueueState" where
  "getQueue now qm queueId =
     (case map_of qm queueId of None \<Rightarrow> bornEmptyQueue now | Some p \<Rightarrow> ensureExtendedQueueShape p)"

definition findRequest :: "string \<Rightarrow> FeatureRequest list \<Rightarrow> FeatureRequest option" where
  "findRequest taskId rs = List.find (\<lambda>r. frId r = taskId) rs"

definition findTaskOwner :: "QueueMap \<Rightarrow> string \<Rightarrow> (string \<times> FeatureRequest) option" where
  "findTaskOwner qm taskId =
     (case List.find (\<lambda>(q, p). findRequest taskId (pqRequests p) \<noteq> None) qm of
        None \<Rightarrow> None
      | Some (q, p) \<Rightarrow> map_option (\<lambda>r. (q, r)) (findRequest taskId (pqRequests p)))"

definition pendingRows :: "QueueState \<Rightarrow> FeatureRequest list" where
  "pendingRows queue = sort_key frPosition (filter (\<lambda>r. frStatus r = StPending) (qRequests queue))"

subsection \<open>Writing\<close>

text \<open>The record that \<open>updateQueue\<close> commits for a mutated queue.\<close>

definition commitQueue :: "int \<Rightarrow> QueueState \<Rightarrow> PersistedQueue" where
  "commitQueue now queue = persist (ensureExtendedQueueShape (persist
     (queue\<lparr>qRequests := compactRequestPositions (qRequests queue), qUpdatedAt := now\<rparr>)))"

definition updateQueue :: "StoreEnv \<Rightarrow> QueueMap \<Rightarrow> string \<Rightarrow> RunCommitClaim \<Rightarrow> 'r Mutation \<Rightarrow> QueueReject + 'r \<times> QueueMap" where
  "updateQueue env qm queueId claim mutate =
     (case fenceRefusal env queueId claim of
        Some f \<Rightarrow> Inl (QFenceRefused f)
      | None \<Rightarrow>
          then_ok (mutate (getQueue (clock env) qm queueId))
            (\<lambda>(queue, result). Inr (result, AList.update queueId (commitQueue (clock env) queue) qm)))"

text \<open>\<open>updateQueue\<close> under the claim of \<open>runCommitClaim\<close>, as the task writers and the manager call it.\<close>

definition commitMutation :: "StoreEnv \<Rightarrow> QueueMap \<Rightarrow> string \<Rightarrow> 'r Mutation \<Rightarrow> QueueReject + 'r \<times> QueueMap" where
  "commitMutation env qm queueId mutate =
     (case runCommitClaim env queueId :: unit RunRefusal + RunCommitClaim of
        Inl e \<Rightarrow> Inl QOwnershipLost
      | Inr claim \<Rightarrow> updateQueue env qm queueId claim mutate)"

definition verifyQueueOwnershipForCommit :: "StoreEnv \<Rightarrow> string \<Rightarrow> QueueReject option" where
  "verifyQueueOwnershipForCommit env queueId =
     (if tenureLost env queueId then Some QOwnershipLost
      else case claimFor env queueId of
        None \<Rightarrow> None
      | Some c \<Rightarrow> map_option QFenceRefused (checkCommitFence (verifyFence env) c queueId))"

fun firstRefusal :: "QueueReject option list \<Rightarrow> QueueReject option" where
  "firstRefusal [] = None"
| "firstRefusal (Some e # es) = Some e"
| "firstRefusal (None # es) = firstRefusal es"

definition updateQueueMap :: "StoreEnv \<Rightarrow> QueueMap \<Rightarrow> string list
    \<Rightarrow> ((string \<times> QueueState) list \<Rightarrow> QueueReject + (string \<times> QueueState) list \<times> 'r) \<Rightarrow> QueueReject + 'r \<times> QueueMap" where
  "updateQueueMap env qm touchedIds mutate =
     (if \<not> primacyHeld env then Inl QOwnershipLost
      else case firstRefusal (map (verifyQueueOwnershipForCommit env) touchedIds) of
        Some e \<Rightarrow> Inl e
      | None \<Rightarrow>
          then_ok (mutate (map (\<lambda>(q, p). (q, ensureExtendedQueueShape p)) qm))
            (\<lambda>(states, result). Inr (result, map (\<lambda>(q, s). (q, commitQueue (clock env) s)) states)))"

subsection \<open>Single tasks\<close>

definition shiftRow :: "(string \<Rightarrow> int option) \<Rightarrow> int \<Rightarrow> int \<Rightarrow> FeatureRequest \<Rightarrow> FeatureRequest" where
  "shiftRow denseIndex insertAt now item =
     (let dense = (case denseIndex (frId item) of Some i \<Rightarrow> i | None \<Rightarrow> frPosition item);
          repositioned = (if insertAt \<le> dense then dense + 1 else dense)
      in if repositioned = frPosition item then item else item\<lparr>frPosition := repositioned, frUpdatedAt := now\<rparr>)"

definition insertMutation :: "string \<Rightarrow> FeatureRequest \<Rightarrow> int option \<Rightarrow> int \<Rightarrow> FeatureRequest Mutation" where
  "insertMutation queueId request position now queue =
     (let n = int (length (qRequests queue));
          insertAt = (case position of Some p \<Rightarrow> p | None \<Rightarrow> n)
      in if MAX_PENDING_TASKS_PER_QUEUE \<le> length (pendingRows queue) then Inl TaskCapReached
         else if insertAt < 0 \<or> n < insertAt then Inl PositionOutOfRange
         else
           let nextRequest = request\<lparr>frQueueId := queueId, frPosition := insertAt, frPauseCause := None, frUpdatedAt := now\<rparr>;
               allInTarget = sort_key frPosition (qRequests queue);
               denseIndex = map_of (rev (zip (map frId allInTarget) (map int [0..<length allInTarget])));
               shifted = map (shiftRow denseIndex insertAt now) (qRequests queue)
           in Inr (queue\<lparr>qRequests := shifted @ [nextRequest]\<rparr>, nextRequest))"

definition targetQueue :: "string \<Rightarrow> string option \<Rightarrow> string" where
  "targetQueue defaultQueueId target = (case target of Some q \<Rightarrow> q | None \<Rightarrow> defaultQueueId)"

definition insertPendingRequest :: "StoreEnv \<Rightarrow> string \<Rightarrow> QueueMap \<Rightarrow> FeatureRequest \<Rightarrow> string option \<Rightarrow> int option
    \<Rightarrow> QueueReject + FeatureRequest \<times> QueueMap" where
  "insertPendingRequest env defaultQueueId qm request target position =
     (let queueId = targetQueue defaultQueueId target
      in if \<not> knownQueue env queueId then Inl QUnknownQueueId
         else commitMutation env qm queueId (insertMutation queueId request position (clock env)))"

text \<open>A writer that addresses a task: find its queue, then mutate the row found there again.\<close>

definition withRow :: "string \<Rightarrow> (FeatureRequest \<Rightarrow> 'r Mutation) \<Rightarrow> 'r Mutation" where
  "withRow taskId body queue =
     (case findRequest taskId (qRequests queue) of
        None \<Rightarrow> Inl (Transition TaskNotFound)
      | Some target \<Rightarrow> body target queue)"

definition onOwner :: "StoreEnv \<Rightarrow> QueueMap \<Rightarrow> string \<Rightarrow> (FeatureRequest \<Rightarrow> 'r Mutation) \<Rightarrow> QueueReject + 'r \<times> QueueMap" where
  "onOwner env qm taskId body =
     (case findTaskOwner qm taskId of
        None \<Rightarrow> Inl (Transition TaskNotFound)
      | Some (queueId, row) \<Rightarrow> commitMutation env qm queueId (withRow taskId body))"

definition removeMutation :: "string \<Rightarrow> FeatureRequest \<Rightarrow> FeatureRequest Mutation" where
  "removeMutation taskId target queue =
     Inr (withRefreshedLifecycle (queue
            \<lparr>qInFlightId := (if qInFlightId queue = Some taskId then None else qInFlightId queue),
             qRequests := filter (\<lambda>r. frId r \<noteq> taskId) (qRequests queue)\<rparr>), target)"

definition removeRequest :: "StoreEnv \<Rightarrow> QueueMap \<Rightarrow> string \<Rightarrow> QueueReject + FeatureRequest \<times> QueueMap" where
  "removeRequest env qm taskId = onOwner env qm taskId (removeMutation taskId)"

definition modifyMutation :: "string \<Rightarrow> string \<Rightarrow> int \<Rightarrow> FeatureRequest \<Rightarrow> FeatureRequest Mutation" where
  "modifyMutation taskId description now target queue =
     (if frStatus target \<noteq> StPending then Inl TaskNotInPendingState
      else case validateDescription description of
        None \<Rightarrow> Inl InvalidDescription
      | Some d \<Rightarrow>
          (let nextTarget = target\<lparr>frDescription := d, frUpdatedAt := now\<rparr>
           in Inr (queue\<lparr>qRequests := map (\<lambda>r. if frId r = taskId then nextTarget else r) (qRequests queue)\<rparr>, nextTarget)))"

definition modifyPendingRequest :: "StoreEnv \<Rightarrow> QueueMap \<Rightarrow> string \<Rightarrow> string \<Rightarrow> QueueReject + FeatureRequest \<times> QueueMap" where
  "modifyPendingRequest env qm taskId description =
     onOwner env qm taskId (modifyMutation taskId description (clock env))"

definition insertAtIndex :: "nat \<Rightarrow> 'a \<Rightarrow> 'a list \<Rightarrow> 'a list" where
  "insertAtIndex k x xs = take k xs @ [x] @ drop k xs"

definition reorderMutation :: "string \<Rightarrow> int \<Rightarrow> int \<Rightarrow> FeatureRequest \<Rightarrow> FeatureRequest Mutation" where
  "reorderMutation taskId position now target queue =
     (if frStatus target \<noteq> StPending then Inl TaskNotInPendingState
      else
        let pendingPeers = pendingRows queue
        in if position < 0 \<or> int (length pendingPeers) \<le> position then Inl PositionOutOfRange
           else
             let pendingSlots = map frPosition pendingPeers;
                 reordered = insertAtIndex (nat position) target (filter (\<lambda>r. frId r \<noteq> taskId) pendingPeers);
                 moved = map (\<lambda>(r, slot). if frPosition r = slot then r else r\<lparr>frPosition := slot, frUpdatedAt := now\<rparr>)
                   (zip reordered pendingSlots);
                 newRow = map_of (rev (map (\<lambda>r. (frId r, r)) moved))
             in Inr (queue\<lparr>qRequests := map (\<lambda>r. case newRow (frId r) of Some r' \<Rightarrow> r' | None \<Rightarrow> r) (qRequests queue)\<rparr>,
                     case newRow taskId of Some r' \<Rightarrow> r' | None \<Rightarrow> target))"

definition reorderPendingRequest :: "StoreEnv \<Rightarrow> QueueMap \<Rightarrow> string \<Rightarrow> int \<Rightarrow> QueueReject + FeatureRequest \<times> QueueMap" where
  "reorderPendingRequest env qm taskId position =
     onOwner env qm taskId (reorderMutation taskId position (clock env))"

definition queueIn :: "int \<Rightarrow> (string \<times> QueueState) list \<Rightarrow> string \<Rightarrow> QueueState" where
  "queueIn now current q = (case map_of current q of Some s \<Rightarrow> s | None \<Rightarrow> bornEmptyQueue now)"

definition insertSlot :: "QueueState \<Rightarrow> int \<Rightarrow> int" where
  "insertSlot destination insertAt =
     (let targetPending = pendingRows destination
      in if nat insertAt < length targetPending then frPosition (targetPending ! nat insertAt)
         else if targetPending = [] then int (length (qRequests destination))
         else frPosition (last targetPending) + 1)"

definition makeRoom :: "int \<Rightarrow> int \<Rightarrow> FeatureRequest \<Rightarrow> FeatureRequest" where
  "makeRoom slot now r = (if slot \<le> frPosition r then r\<lparr>frPosition := frPosition r + 1, frUpdatedAt := now\<rparr> else r)"

definition moveMutation :: "StoreEnv \<Rightarrow> string \<Rightarrow> string \<Rightarrow> string \<Rightarrow> int option \<Rightarrow> (string \<times> QueueState) list
    \<Rightarrow> QueueReject + (string \<times> QueueState) list \<times> FeatureRequest" where
  "moveMutation env taskId sourceId targetId position current =
     (if \<not> knownQueue env targetId then Inl QUnknownQueueId
      else
        let source = queueIn (clock env) current sourceId
        in case findRequest taskId (qRequests source) of
             None \<Rightarrow> Inl (Transition TaskNotFound)
           | Some freshTarget \<Rightarrow>
               if frStatus freshTarget \<noteq> StPending then Inl TaskNotInPendingState
               else
                 let destination = queueIn (clock env) current targetId;
                     targetPending = pendingRows destination;
                     maxPosition = int (length targetPending);
                     insertAt = (case position of Some p \<Rightarrow> p | None \<Rightarrow> maxPosition)
                 in if MAX_PENDING_TASKS_PER_QUEUE \<le> length targetPending then Inl TaskCapReached
                    else if insertAt < 0 \<or> maxPosition < insertAt then Inl PositionOutOfRange
                    else
                      let slot = insertSlot destination insertAt;
                          moved = freshTarget\<lparr>frQueueId := targetId, frPosition := slot, frUpdatedAt := clock env\<rparr>;
                          left = source\<lparr>qRequests := filter (\<lambda>r. frId r \<noteq> taskId) (qRequests source)\<rparr>;
                          entered = destination\<lparr>qRequests := map (makeRoom slot (clock env)) (qRequests destination) @ [moved]\<rparr>
                      in Inr (AList.update targetId entered (AList.update sourceId left current), moved))"

definition movePendingRequest :: "StoreEnv \<Rightarrow> QueueMap \<Rightarrow> string \<Rightarrow> string \<Rightarrow> int option \<Rightarrow> QueueReject + FeatureRequest \<times> QueueMap" where
  "movePendingRequest env qm taskId targetId position =
     (if \<not> knownQueue env targetId then Inl QUnknownQueueId
      else case findTaskOwner qm taskId of
        None \<Rightarrow> Inl (Transition TaskNotFound)
      | Some (sourceId, row) \<Rightarrow>
          if frStatus row \<noteq> StPending then Inl TaskNotInPendingState
          else if sourceId = targetId then
            (let maxPosition = int (length (pendingRows (getQueue (clock env) qm targetId))) - 1;
                 insertAt = (case position of Some p \<Rightarrow> p | None \<Rightarrow> maxPosition)
             in if insertAt < 0 \<or> maxPosition < insertAt then Inl PositionOutOfRange
                else reorderPendingRequest env qm taskId insertAt)
          else updateQueueMap env qm [sourceId, targetId] (moveMutation env taskId sourceId targetId position))"

end
