(* ===== verification/QueueOrder.thy ===== *)
theory QueueOrder
  imports QueueStore
begin

text \<open>
  The abstract view of a queue: the list of its rows in position order.  Renumbering keeps that
  list and makes positions \<open>0, 1, 2, \<dots>\<close>; every later statement about an operation on positions is a
  statement about this list.
\<close>

subsection \<open>Stable sorting with distinct keys\<close>

lemma sort_key_unique:
  assumes "mset ys = mset xs" "distinct (map f xs)" "sorted (map f ys)"
  shows "sort_key f xs = ys"
proof -
  have ms: "mset (map f ys) = mset (map f (sort_key f xs))" using assms(1) by simp
  have "mset (map f ys) = mset (map f xs)" using assms(1) by simp
  then have d: "distinct (map f ys)" using assms(2) by (metis distinct_count_atmost_1 mset_eq_setD)
  have "map f (sort_key f xs) = map f ys"
    using ms assms(3) by (metis properties_for_sort sorted_sort_key)
  moreover have "inj_on f (set ys)" using d by (simp add: distinct_map)
  moreover have "set (sort_key f xs) = set ys" using assms(1) by (metis set_mset_mset set_sort)
  ultimately show ?thesis by (metis map_inj_on Un_absorb)
qed

subsection \<open>Rows in position order\<close>

definition rows :: "FeatureRequest list \<Rightarrow> FeatureRequest list" where
  "rows rs = sort_key frPosition rs"

definition queueOrder :: "QueueState \<Rightarrow> string list" where
  "queueOrder q = map frId (rows (qRequests q))"

definition pendingOrder :: "QueueState \<Rightarrow> string list" where
  "pendingOrder q = map frId (filter (\<lambda>r. frStatus r = StPending) (rows (qRequests q)))"

text \<open>Rows filed under one queue, with distinct ids.\<close>

definition filed :: "string \<Rightarrow> FeatureRequest list \<Rightarrow> bool" where
  "filed qid rs \<longleftrightarrow> qid \<noteq> [] \<and> distinct (map frId rs) \<and> (\<forall>r \<in> set rs. frQueueId r = qid)"

definition dense :: "FeatureRequest list \<Rightarrow> bool" where
  "dense rs \<longleftrightarrow> map frPosition (rows rs) = map int [0..<length rs]"

lemma rows_simps [simp]: "mset (rows rs) = mset rs" "set (rows rs) = set rs" "length (rows rs) = length rs"
  "sorted (map frPosition (rows rs))" "rows [] = []"
  by (simp_all add: rows_def)

lemma distinct_rows [simp]: "distinct (map frId (rows rs)) = distinct (map frId rs)"
  by (rule mset_eq_imp_distinct_iff) simp

lemma reposition_simps [simp]:
  "length (reposition rs) = length rs" "map frId (reposition rs) = map frId rs"
  "map frPosition (reposition rs) = map int [0..<length rs]" "map frStatus (reposition rs) = map frStatus rs"
  by (auto simp: reposition_def intro: nth_equalityI)

lemma in_reposition: "p \<in> set (reposition rs) \<longleftrightarrow> (\<exists>i < length rs. p = (rs ! i)\<lparr>frPosition := int i\<rparr>)"
  by (auto simp: reposition_def)

text \<open>Looking rows up by id.\<close>

definition byId :: "FeatureRequest list \<Rightarrow> string \<Rightarrow> FeatureRequest option" where
  "byId ps i = map_of (map (\<lambda>p. (frId p, p)) ps) i"

lemma byId_in [simp]: "distinct (map frId ps) \<Longrightarrow> p \<in> set ps \<Longrightarrow> byId ps (frId p) = Some p"
  by (induction ps) (auto simp: byId_def image_iff)

lemma byId_Some: "distinct (map frId ps) \<Longrightarrow> byId ps i = Some p \<longleftrightarrow> p \<in> set ps \<and> frId p = i"
  by (induction ps) (auto simp: byId_def image_iff)

lemma byId_rev: "distinct (map frId ps) \<Longrightarrow> byId (rev ps) i = byId ps i"
  by (cases "byId ps i"; cases "byId (rev ps) i") (auto simp: byId_Some rev_map [symmetric])

lemma byId_defined: "i \<in> set (map frId ps) \<Longrightarrow> \<exists>p. byId ps i = Some p"
  by (induction ps) (auto simp: byId_def)

lemma remdups_const: "xs \<noteq> [] \<Longrightarrow> \<forall>x \<in> set xs. x = a \<Longrightarrow> remdups xs = [a]"
proof (induction xs)
  case (Cons x xs)
  then show ?case by (cases xs) auto
qed simp

text \<open>Renumbering the rows of one queue: the same rows in the same array order, each at its rank.\<close>

lemma compact_filed:
  assumes "filed qid rs"
  shows "compactRequestPositions rs = map (\<lambda>r. the (byId (reposition (rows rs)) (frId r))) rs"
proof (cases "rs = []")
  case True
  then show ?thesis by (simp add: compactRequestPositions_def)
next
  case False
  have q: "\<And>r. r \<in> set rs \<Longrightarrow> frQueueId r = qid" and nz: "qid \<noteq> []" and d: "distinct (map frId rs)"
    using assms by (auto simp: filed_def)
  have f: "map (\<lambda>r. r\<lparr>frQueueId := rowQueueId r\<rparr>) rs = rs"
    using q nz by (intro map_idI) (simp add: rowQueueId_def)
  have b: "rev (remdups (rev (map frQueueId rs))) = [qid]"
    using False q by (simp add: remdups_const [of _ qid])
  have fl: "filter (\<lambda>r. frQueueId r = qid) rs = rs" using q by simp
  let ?ps = "reposition (rows rs)"
  have dp: "distinct (map frId ?ps)" using d by simp
  have m: "map_of (rev (map (\<lambda>p. (frId p, p)) ?ps)) i = byId ?ps i" for i
    using byId_rev [OF dp, of i] by (simp add: byId_def rev_map)
  have "\<exists>p. byId ?ps (frId r) = Some p" if "r \<in> set rs" for r
    using that by (intro byId_defined) simp
  then show ?thesis
    unfolding compactRequestPositions_def Let_def f b
    by (fastforce simp: fl rows_def [symmetric] m split: option.split)
qed

lemma mset_lookup_perm:
  assumes "distinct (map frId ps)" "mset (map frId ps) = mset (map frId rs)"
  shows "mset (map (\<lambda>r. the (byId ps (frId r))) rs) = mset ps"
proof -
  let ?g = "\<lambda>i. the (byId ps i)"
  have "mset (map (\<lambda>r. ?g (frId r)) rs) = image_mset ?g (mset (map frId rs))"
    by (simp add: image_mset.compositionality comp_def)
  also have "\<dots> = image_mset ?g (mset (map frId ps))" by (simp only: assms(2))
  also have "\<dots> = mset (map (\<lambda>p. ?g (frId p)) ps)"
    by (simp add: image_mset.compositionality comp_def)
  also have "map (\<lambda>p. ?g (frId p)) ps = ps"
    using assms(1) by (intro map_idI) simp
  finally show ?thesis .
qed

theorem compact_rows:
  assumes "filed qid rs"
  shows "rows (compactRequestPositions rs) = reposition (rows rs)"
    and "map frId (compactRequestPositions rs) = map frId rs"
    and "filed qid (compactRequestPositions rs)" "dense (compactRequestPositions rs)"
proof -
  let ?c = "compactRequestPositions rs" and ?ps = "reposition (rows rs)"
  have d: "distinct (map frId ?ps)" using assms by (simp add: filed_def)
  have ms: "mset (map frId ?ps) = mset (map frId rs)" by simp
  note c = compact_filed [OF assms]
  have cm: "mset ?c = mset ?ps" unfolding c by (rule mset_lookup_perm [OF d ms])
  have pos: "distinct (map frPosition ?ps)" by (simp add: distinct_map)
  then have dpos: "distinct (map frPosition ?c)" using cm by (metis mset_map mset_eq_imp_distinct_iff)
  have sp: "sorted (map frPosition ?ps)" by (simp add: sorted_iff_nth_mono)
  show rc: "rows ?c = ?ps" using sort_key_unique [OF cm [symmetric] dpos sp] by (simp add: rows_def)
  have "frId (the (byId ?ps (frId r))) = frId r" if r: "r \<in> set rs" for r
  proof -
    obtain p where p: "byId ?ps (frId r) = Some p" using byId_defined [of "frId r" ?ps] r by auto
    then have "frId p = frId r" using byId_Some [OF d] by blast
    then show ?thesis by (simp add: p)
  qed
  then show ids: "map frId ?c = map frId rs" unfolding c by simp
  have "set ?c = set ?ps" using cm by (rule mset_eq_setD)
  moreover have "frQueueId p = qid" if "p \<in> set ?ps" for p
    using that assms by (auto simp: in_reposition filed_def) (metis nth_mem rows_simps(2,3))
  ultimately show "filed qid ?c" using assms by (simp add: filed_def ids)
  show "dense ?c" using arg_cong [OF cm, of size] by (simp add: dense_def rc)
qed

lemma rows_eqI:
  assumes "mset ys = mset xs" "sorted_wrt (<) (map frPosition ys)"
  shows "rows xs = ys"
proof -
  have d: "distinct (map frPosition ys)" using assms(2) by (simp add: strict_sorted_iff)
  then have "distinct (map frPosition xs)" using assms(1) by (metis mset_map mset_eq_imp_distinct_iff)
  moreover have "sorted (map frPosition ys)" using assms(2) by (simp add: strict_sorted_imp_sorted)
  ultimately show ?thesis unfolding rows_def by (intro sort_key_unique assms(1))
qed

lemma rows_filter: "rows (filter P rs) = filter P (rows rs)"
  by (simp add: rows_def filter_sort)

lemma insort_key_map: "(\<And>x. f (g x) = f x) \<Longrightarrow> insort_key f (g x) (map g xs) = map g (insort_key f x xs)"
  by (induction xs) auto

lemma rows_map: "(\<And>r. frPosition (g r) = frPosition r) \<Longrightarrow> rows (map g rs) = map g (rows rs)"
  unfolding rows_def by (induction rs) (simp_all add: insort_key_map)

lemma pendingRows_rows: "pendingRows q = filter (\<lambda>r. frStatus r = StPending) (rows (qRequests q))"
  by (simp add: pendingRows_def rows_def filter_sort)

lemma dense_nth: "dense rs \<Longrightarrow> i < length rs \<Longrightarrow> frPosition (rows rs ! i) = int i"
  unfolding dense_def by (metis (no_types, lifting) add_0 diff_zero length_map length_upt nth_map nth_upt rows_simps(3))

lemma dense_sorted: "dense rs \<Longrightarrow> sorted_wrt (<) (map frPosition (rows rs))"
  by (simp add: dense_def sorted_wrt_map strict_sorted_iff)

lemma dense_reposition: "dense rs \<Longrightarrow> reposition (rows rs) = rows rs"
  by (rule nth_equalityI) (auto simp: reposition_def dense_nth)

lemma compact_dense:
  assumes "filed qid rs" "dense rs"
  shows "compactRequestPositions rs = rs"
proof -
  have "distinct (map frId (rows rs))" using assms(1) by (simp add: filed_def)
  then show ?thesis unfolding compact_filed [OF assms(1)] dense_reposition [OF assms(2)]
    by (intro map_idI) simp
qed

text \<open>Renumbering changes nothing else of a row.\<close>

lemma compact_row:
  assumes "filed qid rs"
  shows "map (\<lambda>r. r\<lparr>frPosition := 0\<rparr>) (compactRequestPositions rs) = map (\<lambda>r. r\<lparr>frPosition := 0\<rparr>) rs"
proof -
  let ?ps = "reposition (rows rs)"
  have d: "distinct (map frId ?ps)" "distinct (map frId rs)" using assms by (simp_all add: filed_def)
  have "(the (byId ?ps (frId r)))\<lparr>frPosition := 0\<rparr> = r\<lparr>frPosition := 0\<rparr>" if r: "r \<in> set rs" for r
  proof -
    obtain i where i: "i < length rs" "rows rs ! i = r" using r by (metis in_set_conv_nth rows_simps(2,3))
    let ?p = "r\<lparr>frPosition := int i\<rparr>"
    have "?p \<in> set ?ps" using i by (auto simp: in_reposition)
    then have "byId ?ps (frId ?p) = Some ?p" by (rule byId_in [OF d(1)])
    then show ?thesis by simp
  qed
  then show ?thesis unfolding compact_filed [OF assms] by simp
qed

subsection \<open>Insertion\<close>

lemma upt_strict: "sorted_wrt (<) (map int [a..<b])" "sorted_wrt (<) (map (\<lambda>i. int i + 1) [a..<b])"
  by (induction b) (auto simp: sorted_wrt_append)

lemma denseIndex_eq:
  assumes "dense rs" "distinct (map frId rs)" "item \<in> set rs"
  shows "map_of (rev (zip (map frId (rows rs)) (map int [0..<length (rows rs)]))) (frId item) = Some (frPosition item)"
proof -
  obtain i where i: "i < length rs" "rows rs ! i = item" using assms(3) by (metis in_set_conv_nth rows_simps(2,3))
  have "(frId item, frPosition item) \<in> set (zip (map frId (rows rs)) (map int [0..<length (rows rs)]))"
    using i assms(1) by (auto simp: set_zip dense_nth intro!: exI [of _ i])
  then show ?thesis using assms(2) by (intro map_of_is_SomeI) (simp_all add: rev_map [symmetric])
qed

lemma insert_rows:
  assumes "dense rs" "frPosition x = int k" "k \<le> length rs"
    and sh: "\<And>r. frPosition (sh r) = (if int k \<le> frPosition r then frPosition r + 1 else frPosition r)"
  shows "rows (map sh rs @ [x]) = map sh (take k (rows rs)) @ [x] @ map sh (drop k (rows rs))" (is "_ = ?ys")
proof (rule rows_eqI)
  have "mset ?ys = mset (map sh (take k (rows rs) @ drop k (rows rs))) + {#x#}"
    unfolding map_append mset_append by simp
  then have "mset ?ys = mset (map sh (rows rs)) + {#x#}" by (simp only: append_take_drop_id)
  also have "\<dots> = mset (map sh rs @ [x])" by (simp only: mset_map rows_simps(1) mset_append) simp
  finally show "mset ?ys = mset (map sh rs @ [x])" .
  let ?n = "length rs"
  have a: "map (frPosition \<circ> sh) (take k (rows rs)) = map int [0..<k]"
    using assms by (intro nth_equalityI) (auto simp: dense_nth)
  have b: "map (frPosition \<circ> sh) (drop k (rows rs)) = map (\<lambda>i. int i + 1) [k..<?n]"
    using assms by (intro nth_equalityI) (auto simp: dense_nth)
  show "sorted_wrt (<) (map frPosition ?ys)"
    using upt_strict by (auto simp: a b assms(2) sorted_wrt_append)
qed

subsection \<open>Reordering the pending rows within their slots\<close>

fun refill :: "('a \<Rightarrow> bool) \<Rightarrow> 'a list \<Rightarrow> 'a list \<Rightarrow> 'a list" where
  "refill P [] ys = []"
| "refill P (x # xs) [] = x # xs"
| "refill P (x # xs) (y # ys) = (if P x then y # refill P xs ys else x # refill P xs (y # ys))"

lemma refill_mset: "length ys = length (filter P xs) \<Longrightarrow> mset (refill P xs ys) = mset (filter (\<lambda>x. \<not> P x) xs) + mset ys"
proof (induction P xs ys rule: refill.induct)
  case (2 P x xs)
  then have "filter (\<lambda>x. \<not> P x) (x # xs) = x # xs" by (intro filter_True) (auto simp: filter_empty_conv split: if_splits)
  then show ?case by (simp del: filter.simps)
qed auto

lemma refill_map: "map f ys = map f (filter P xs) \<Longrightarrow> map f (refill P xs ys) = map f xs"
  by (induction P xs ys rule: refill.induct) (auto split: if_splits)

lemma refill_length [simp]: "length (refill P xs ys) = length xs"
  by (induction P xs ys rule: refill.induct) auto

lemma refill_filter: "length ys = length (filter P xs) \<Longrightarrow> \<forall>y \<in> set ys. P y \<Longrightarrow> filter P (refill P xs ys) = ys"
  by (induction P xs ys rule: refill.induct) (auto simp: filter_empty_conv split: if_splits)

lemma refill_other: "i < length xs \<Longrightarrow> \<not> P (xs ! i) \<Longrightarrow> refill P xs ys ! i = xs ! i"
  by (induction P xs ys arbitrary: i rule: refill.induct) (auto simp: nth_Cons split: nat.splits if_splits)

end

