(* ===== verification/QueueManager.thy ===== *)
theory QueueManager
  imports QueueStore
begin

text \<open>
  \<open>src/queue/queue-manager.ts\<close>: what is dispatched next, the task transitions and retry.  What an
  operation throws or returns as a refusal is a value of \<open>Outcome\<close>; the maps it has written so far are
  returned in every case.  Timers, logging and audit hooks are not part of the state.
\<close>

datatype DetailReason =
    Rejected QueueReject | RunWrite "unit RunRefusal" | AlreadyPaused | NotPausedQ | PolicyUnchanged
  | NotFoundR | IllegalState | NoPeer | AtEdge | WorkflowAttemptEnded | BoundToConnectedRun

datatype Outcome = Ok | NotOk DetailReason | Thrown DetailReason

subsection \<open>Queries\<close>

definition queueIdForTask :: "QueueMap \<Rightarrow> string \<Rightarrow> string" where
  "queueIdForTask qm taskId = (case findTaskOwner qm taskId of Some (q, r) \<Rightarrow> rowQueueId r | None \<Rightarrow> DEFAULT_QUEUE_ID)"

fun peekBest :: "FeatureRequest option \<Rightarrow> FeatureRequest list \<Rightarrow> FeatureRequest option" where
  "peekBest best [] = best"
| "peekBest best (r # rs) =
     (if frStatus r \<noteq> StPending then peekBest best rs
      else case best of
        None \<Rightarrow> peekBest (Some r) rs
      | Some b \<Rightarrow> peekBest (if frPosition r < frPosition b then Some r else Some b) rs)"

definition peekNextPending :: "StoreEnv \<Rightarrow> QueueMap \<Rightarrow> string \<Rightarrow> FeatureRequest option" where
  "peekNextPending env qm queueId =
     (if \<not> knownQueue env queueId then None
      else let queue = getQueue (clock env) qm queueId
           in if qLifecycle queue = LcOperatorPaused then None else peekBest None (qRequests queue))"

definition inFlightRows :: "QueueState \<Rightarrow> nat" where
  "inFlightRows queue = length (filter (\<lambda>r. frStatus r = StInFlight) (qRequests queue))"

definition inFlightCount :: "StoreEnv \<Rightarrow> QueueMap \<Rightarrow> string option \<Rightarrow> nat" where
  "inFlightCount env qm target =
     (case target of
        Some q \<Rightarrow> inFlightRows (getQueue (clock env) qm q)
      | None \<Rightarrow> sum_list (map (\<lambda>(q, p). inFlightRows (ensureExtendedQueueShape p)) qm))"

definition PER_QUEUE_CAPACITY :: nat where "PER_QUEUE_CAPACITY = 1"

definition hasQueueCapacity :: "StoreEnv \<Rightarrow> QueueMap \<Rightarrow> string \<Rightarrow> bool" where
  "hasQueueCapacity env qm q \<longleftrightarrow> inFlightCount env qm (Some q) < PER_QUEUE_CAPACITY"

definition hasWorkspaceCapacity :: "StoreEnv \<Rightarrow> QueueMap \<Rightarrow> nat \<Rightarrow> bool" where
  "hasWorkspaceCapacity env qm globalCap \<longleftrightarrow> inFlightCount env qm None < globalCap"

subsection \<open>Enqueue\<close>

definition sameOccurrence :: "WorkflowOccurrenceIdentity \<Rightarrow> FeatureRequest \<Rightarrow> bool" where
  "sameOccurrence occ r \<longleftrightarrow> frStatus r \<noteq> StCanceled \<and>
     (case frOccurrence r of None \<Rightarrow> False
      | Some o' \<Rightarrow> occRootRunId o' = occRootRunId occ \<and> occInvocationId o' = occInvocationId occ
                  \<and> occAttemptId o' = occAttemptId occ)"

definition newRequest :: "string \<Rightarrow> string \<Rightarrow> string \<Rightarrow> int option \<Rightarrow> WorkflowOccurrenceIdentity option \<Rightarrow> int \<Rightarrow> FeatureRequest" where
  "newRequest uuid description queueId position occ now =
     \<lparr>frId = uuid, frDescription = description, frStatus = StPending, frQueueId = queueId,
      frPosition = (case position of Some p \<Rightarrow> p | None \<Rightarrow> 0), frRunId = None, frRetryCount = 0,
      frStartedAt = None, frUpdatedAt = now, frCompletedAt = None, frPauseCause = None, frLastError = None,
      frPausedReason = None, frPhaseProgress = None, frDegraded = None, frAttested = False, frOccurrence = occ\<rparr>"

definition existingOccurrence :: "WorkflowOccurrenceIdentity option \<Rightarrow> FeatureRequest list \<Rightarrow> FeatureRequest option" where
  "existingOccurrence occ rs = (case occ of None \<Rightarrow> None | Some o' \<Rightarrow> List.find (sameOccurrence o') rs)"

text \<open>\<open>uuid\<close> is what \<open>randomUUID\<close> returns.\<close>

definition enqueue :: "StoreEnv \<Rightarrow> string \<Rightarrow> QueueMap \<Rightarrow> string \<Rightarrow> string \<Rightarrow> string option \<Rightarrow> int option
    \<Rightarrow> WorkflowOccurrenceIdentity option \<Rightarrow> QueueReject + FeatureRequest \<times> QueueMap" where
  "enqueue env defaultQueueId qm uuid description target position occ =
     (case validateDescription description of
        None \<Rightarrow> Inl InvalidDescription
      | Some validated \<Rightarrow>
          let targetQueueId = targetQueue defaultQueueId target
          in case existingOccurrence occ (qRequests (getQueue (clock env) qm targetQueueId)) of
               Some r \<Rightarrow> Inr (r, qm)
             | None \<Rightarrow> insertPendingRequest env defaultQueueId qm
                 (newRequest uuid validated targetQueueId position occ (clock env)) target position)"

subsection \<open>Task transitions\<close>

definition setRow :: "string \<Rightarrow> (FeatureRequest \<Rightarrow> FeatureRequest) \<Rightarrow> QueueState \<Rightarrow> QueueState" where
  "setRow taskId f queue = queue\<lparr>qRequests := map (\<lambda>r. if frId r = taskId then f r else r) (qRequests queue)\<rparr>"

text \<open>Decide on the row as it is now, then rewrite it and refresh the lifecycle.\<close>

definition transitionRow :: "TaskTransitionOperation \<Rightarrow> FeatureRequestStatus option \<Rightarrow> bool \<Rightarrow> bool \<Rightarrow> string
    \<Rightarrow> (QueueState \<Rightarrow> QueueState) \<Rightarrow> unit Mutation" where
  "transitionRow operation targetStatus slotMatters attested taskId body queue =
     (case decideTaskTransition operation (map_option frStatus (findRequest taskId (qRequests queue))) targetStatus
             (slotMatters \<and> qInFlightId queue \<noteq> None \<and> qInFlightId queue \<noteq> Some taskId) attested of
        Some e \<Rightarrow> Inl (Transition e)
      | None \<Rightarrow> Inr (withRefreshedLifecycle (body queue), ()))"

definition markMutation :: "string \<Rightarrow> string \<Rightarrow> int \<Rightarrow> unit Mutation" where
  "markMutation taskId rid now =
     transitionRow OpMarkInFlight None True False taskId (\<lambda>queue.
       (setRow taskId (\<lambda>r. r\<lparr>frStatus := StInFlight, frRunId := Some rid,
          frStartedAt := (case frStartedAt r of Some t \<Rightarrow> Some t | None \<Rightarrow> Some now), frUpdatedAt := now\<rparr>) queue)
       \<lparr>qInFlightId := Some taskId\<rparr>)"

definition markInFlight :: "StoreEnv \<Rightarrow> QueueMap \<Rightarrow> string \<Rightarrow> string \<Rightarrow> QueueReject + unit \<times> QueueMap" where
  "markInFlight env qm taskId rid =
     commitMutation env qm (queueIdForTask qm taskId) (markMutation taskId rid (clock env))"

text \<open>\<open>runTaskTransitionMutation\<close>: a transition rejection is a result, anything else propagates.\<close>

definition taskTransition :: "QueueMap \<Rightarrow> QueueReject + unit \<times> QueueMap \<Rightarrow> Outcome \<times> QueueMap" where
  "taskTransition qm res =
     (case res of
        Inr (u, qm') \<Rightarrow> (Ok, qm')
      | Inl (Transition e) \<Rightarrow> (NotOk (Rejected (Transition e)), qm)
      | Inl e \<Rightarrow> (Thrown (Rejected e), qm))"

definition findRunByTask :: "RunMap \<Rightarrow> string \<Rightarrow> (string \<times> WorkflowRun) option" where
  "findRunByTask runs taskId = List.find (\<lambda>(q, run). featureId run = taskId) runs"

definition finishMutation :: "string \<Rightarrow> FeatureRequestStatus \<Rightarrow> string option \<Rightarrow> WorkflowRun option \<Rightarrow> int \<Rightarrow> unit Mutation" where
  "finishMutation taskId status err run now =
     transitionRow OpFinish (Some status) False False taskId (\<lambda>queue.
       (setRow taskId (\<lambda>r. terminalCapture run (r\<lparr>frStatus := status, frCompletedAt := Some now, frUpdatedAt := now,
          frLastError := (if status = StFailed then err else frLastError r)\<rparr>)) queue)
       \<lparr>qInFlightId := (if qInFlightId queue = Some taskId then None else qInFlightId queue)\<rparr>)"

definition finish :: "StoreEnv \<Rightarrow> QueueMap \<Rightarrow> RunMap \<Rightarrow> string \<Rightarrow> FeatureRequestStatus \<Rightarrow> string option \<Rightarrow> Outcome \<times> QueueMap" where
  "finish env qm runs taskId status err =
     taskTransition qm (commitMutation env qm (queueIdForTask qm taskId)
       (finishMutation taskId status err (map_option snd (findRunByTask runs taskId)) (clock env)))"

definition attestMutation :: "string \<Rightarrow> int \<Rightarrow> unit Mutation" where
  "attestMutation taskId now =
     transitionRow OpFinish (Some StCompleted) False True taskId
       (setRow taskId (\<lambda>r. r\<lparr>frStatus := StCompleted, frAttested := True, frUpdatedAt := now\<rparr>))"

definition attestCompleted :: "StoreEnv \<Rightarrow> QueueMap \<Rightarrow> string \<Rightarrow> Outcome \<times> QueueMap" where
  "attestCompleted env qm taskId =
     taskTransition qm (commitMutation env qm (queueIdForTask qm taskId) (attestMutation taskId (clock env)))"

fun updateFirst :: "('a \<Rightarrow> bool) \<Rightarrow> ('a \<Rightarrow> 'a) \<Rightarrow> 'a list \<Rightarrow> 'a list" where
  "updateFirst P f [] = []"
| "updateFirst P f (x # xs) = (if P x then f x # xs else x # updateFirst P f xs)"

definition pauseMutation :: "string \<Rightarrow> FeatureRequestPauseCause option \<Rightarrow> bool \<Rightarrow> int \<Rightarrow> unit Mutation" where
  "pauseMutation taskId cause preserveInFlightForRestore now =
     transitionRow OpPause None False False taskId (\<lambda>queue. queue
       \<lparr>qRequests := updateFirst (\<lambda>r. frId r = taskId)
          (\<lambda>r. r\<lparr>frStatus := StPaused, frPauseCause := cause, frUpdatedAt := now\<rparr>) (qRequests queue),
        qInFlightId := (if qInFlightId queue = Some taskId \<and> \<not> preserveInFlightForRestore then None
                        else qInFlightId queue)\<rparr>)"

definition pause :: "StoreEnv \<Rightarrow> QueueMap \<Rightarrow> string \<Rightarrow> FeatureRequestPauseCause option \<Rightarrow> bool \<Rightarrow> Outcome \<times> QueueMap" where
  "pause env qm taskId cause preserveInFlightForRestore =
     taskTransition qm (commitMutation env qm (queueIdForTask qm taskId)
       (pauseMutation taskId cause preserveInFlightForRestore (clock env)))"

text \<open>\<open>retry\<close> reorders by array index, not by position, and renumbers.\<close>

definition retriedRow :: "FeatureRequest \<Rightarrow> WorkflowRun option \<Rightarrow> int \<Rightarrow> FeatureRequest" where
  "retriedRow target activeRun now =
     (let canResume = (frStatus target = StFailed \<and>
            (case (frRunId target, activeRun) of
               (Some rid, Some run) \<Rightarrow> runId run = rid \<and> runStatus run \<in> {RunFailed, Paused}
             | _ \<Rightarrow> False))
      in (withoutTerminalCapture target)\<lparr>frStatus := StPending, frRetryCount := frRetryCount target + 1,
           frPausedReason := None, frCompletedAt := None,
           frStartedAt := (if canResume then frStartedAt target else None), frUpdatedAt := now,
           frRunId := (if canResume then frRunId target else None)\<rparr>)"

definition retryIndex :: "FeatureRequest list \<Rightarrow> nat" where
  "retryIndex without =
     (let inFlightIdx = length (takeWhile (\<lambda>r. frStatus r \<noteq> StInFlight) without)
      in if inFlightIdx = length without then 0 else inFlightIdx + 1)"

definition retryMutation :: "string \<Rightarrow> WorkflowRun option \<Rightarrow> int \<Rightarrow> unit Mutation" where
  "retryMutation taskId activeRun now queue =
     (case findRequest taskId (qRequests queue) of
        None \<Rightarrow> Inl (Transition TaskNotFound)
      | Some target \<Rightarrow>
          (case decideTaskTransition OpReturnToPending (Some (frStatus target)) None False False of
             Some e \<Rightarrow> Inl (Transition e)
           | None \<Rightarrow>
               let without = remove1 target (qRequests queue)
               in Inr (withRefreshedLifecycle (queue
                    \<lparr>qRequests := reposition (insertAtIndex (retryIndex without) (retriedRow target activeRun now) without)\<rparr>), ())))"

definition retry :: "StoreEnv \<Rightarrow> QueueMap \<Rightarrow> RunMap \<Rightarrow> string \<Rightarrow> bool \<Rightarrow> Outcome \<times> QueueMap" where
  "retry env qm runs taskId workflowAttemptEnded =
     (if workflowAttemptEnded then (NotOk WorkflowAttemptEnded, qm)
      else case commitMutation env qm (queueIdForTask qm taskId)
             (retryMutation taskId (map_option snd (findRunByTask runs taskId)) (clock env)) of
        Inr (u, qm') \<Rightarrow> (Ok, qm')
      | Inl (Transition TaskNotFound) \<Rightarrow> (NotOk NotFoundR, qm)
      | Inl (Transition e) \<Rightarrow> (NotOk IllegalState, qm)
      | Inl e \<Rightarrow> (Thrown (Rejected e), qm))"

end
