(* ===== verification/QueueControl.thy ===== *)
theory QueueControl
  imports QueueManager
begin

text \<open>
  The part of \<open>src/queue/queue-manager.ts\<close> that holds, releases, reorders and empties whole queues:
  \<open>setQueuePausedState\<close> with the Run the queue drives, the cascaded pause and resume, the failure policy,
  reordering in the unified list, clearing by status and \<open>clearQueue\<close>.
\<close>

subsection \<open>Pause and resume\<close>

definition pausedFields :: "QueuePauseSource \<Rightarrow> string option \<Rightarrow> QueueState \<Rightarrow> QueueState" where
  "pausedFields source reason queue = queue\<lparr>qLifecycle := LcOperatorPaused, qPauseSource := Some source,
     qPausedReason := reason, qScheduledStartAt := None, qScheduledStartSource := None\<rparr>"

definition releasedLifecycle :: "QueueState \<Rightarrow> QueueLifecycle" where
  "releasedLifecycle queue =
     (if qInFlightId queue \<noteq> None then LcRunning else if hasPending queue then LcIdlePending else LcActiveEmpty)"

definition releasedFields :: "QueueLifecycle \<Rightarrow> QueueState \<Rightarrow> QueueState" where
  "releasedFields lifecycle queue = queue\<lparr>qLifecycle := lifecycle, qPauseSource := None, qPausedReason := None,
     qScheduledStartAt := None, qScheduledStartSource := None\<rparr>"

definition matchingRunForQueue :: "QueueMap \<Rightarrow> WorkflowRun option \<Rightarrow> string \<Rightarrow> WorkflowRun option" where
  "matchingRunForQueue qm run queueId =
     (case run of
        None \<Rightarrow> None
      | Some r \<Rightarrow>
          (case findTaskOwner qm (featureId r) of
             None \<Rightarrow> None
           | Some (q, feature) \<Rightarrow>
               if rowQueueId feature \<noteq> queueId then None
               else if frStatus feature \<noteq> StInFlight then None
               else Some r))"

definition patchMatchingRun :: "StoreEnv \<Rightarrow> RunMap \<Rightarrow> string \<Rightarrow> string \<Rightarrow> (WorkflowRun \<Rightarrow> WorkflowRun) \<Rightarrow> unit RunRefusal + RunMap" where
  "patchMatchingRun env runs queueId rid patch =
     (case runCommitClaim env queueId of
        Inl e \<Rightarrow> Inl e
      | Inr claim \<Rightarrow>
          (case updateRun env runs queueId
                  \<lparr>updRunId = rid, updAllowed = OPERABLE_RUN_STATUSES, updPatch = (\<lambda>c. Inr (patch c))\<rparr> claim of
             Inr (w, runs') \<Rightarrow> Inr runs'
           | Inl e \<Rightarrow> if isRunRaceRefusal e then Inr runs else Inl e))"

definition queuePausePatch :: "int \<Rightarrow> WorkflowRun \<Rightarrow> WorkflowRun" where
  "queuePausePatch now c =
     (if manualPauseAt c \<noteq> None then c
      else c\<lparr>manualPauseAt := Some now, manualPauseCause := Some QueuePausedMidRun\<rparr>)"

definition queueResumePatch :: "int \<Rightarrow> string option \<Rightarrow> WorkflowRun \<Rightarrow> WorkflowRun" where
  "queueResumePatch now prompt c =
     (if manualPauseCause c \<noteq> Some QueuePausedMidRun then c
      else c\<lparr>runStatus := (if runStatus c = Paused then Running else runStatus c), manualPauseAt := None,
             manualPauseCause := None, lastTransitionAt := now, resumePrompt := prompt\<rparr>)"

definition pauseMatchingRunForQueue :: "StoreEnv \<Rightarrow> QueueMap \<Rightarrow> RunMap \<Rightarrow> string \<Rightarrow> unit RunRefusal + RunMap" where
  "pauseMatchingRunForQueue env qm runs queueId =
     (case matchingRunForQueue qm (getRun runs queueId) queueId of
        None \<Rightarrow> Inr runs
      | Some run \<Rightarrow>
          if manualPauseAt run \<noteq> None then Inr runs
          else patchMatchingRun env runs queueId (runId run) (queuePausePatch (clock env)))"

definition resumeMatchingRunForQueue :: "StoreEnv \<Rightarrow> QueueMap \<Rightarrow> RunMap \<Rightarrow> string \<Rightarrow> string option \<Rightarrow> unit RunRefusal + RunMap" where
  "resumeMatchingRunForQueue env qm runs queueId prompt =
     (case matchingRunForQueue qm (getRun runs queueId) queueId of
        None \<Rightarrow> Inr runs
      | Some run \<Rightarrow>
          if manualPauseCause run \<noteq> Some QueuePausedMidRun then Inr runs
          else patchMatchingRun env runs queueId (runId run) (queueResumePatch (clock env) prompt))"

definition holdMutation :: "bool \<Rightarrow> QueuePauseSource \<Rightarrow> string option \<Rightarrow> QueueLifecycle \<Rightarrow> unit Mutation" where
  "holdMutation paused source reason nextLifecycle current =
     Inr (if paused then pausedFields source reason current else releasedFields nextLifecycle current, ())"

definition matchRun :: "StoreEnv \<Rightarrow> QueueMap \<Rightarrow> RunMap \<Rightarrow> bool \<Rightarrow> string \<Rightarrow> string option \<Rightarrow> unit RunRefusal + RunMap" where
  "matchRun env qm runs paused queueId prompt =
     (if paused then pauseMatchingRunForQueue env qm runs queueId
      else resumeMatchingRunForQueue env qm runs queueId prompt)"

definition setQueuePausedState :: "StoreEnv \<Rightarrow> QueueMap \<Rightarrow> RunMap \<Rightarrow> bool \<Rightarrow> string \<Rightarrow> string option \<Rightarrow> QueuePauseSource
    \<Rightarrow> string option \<Rightarrow> Outcome \<times> QueueMap \<times> RunMap" where
  "setQueuePausedState env qm runs paused queueId reason source prompt =
     (if \<not> knownQueue env queueId then (NotOk (Rejected QUnknownQueueId), qm, runs)
      else
        let queue = getQueue (clock env) qm queueId;
            alreadyPaused = (qLifecycle queue = LcOperatorPaused);
            nextLifecycle = releasedLifecycle queue
        in if paused \<and> alreadyPaused \<and> qPauseSource queue = Some source then (NotOk AlreadyPaused, qm, runs)
           else if \<not> paused \<and> \<not> alreadyPaused then (NotOk NotPausedQ, qm, runs)
           else
             case commitMutation env qm queueId (holdMutation paused source reason nextLifecycle) of
               Inl e \<Rightarrow> (NotOk (Rejected e), qm, runs)
             | Inr (u, qm') \<Rightarrow>
                 (case matchRun env qm' runs paused queueId prompt of
                    Inl e \<Rightarrow> (NotOk (RunWrite e), qm', runs)
                  | Inr runs' \<Rightarrow> (Ok, qm', runs')))"

definition cascadedPause :: "StoreEnv \<Rightarrow> QueueMap \<Rightarrow> string \<Rightarrow> Outcome \<times> QueueMap" where
  "cascadedPause env qm queueId =
     (if \<not> knownQueue env queueId then (NotOk (Rejected QUnknownQueueId), qm)
      else if qLifecycle (getQueue (clock env) qm queueId) = LcOperatorPaused then (Ok, qm)
      else case commitMutation env qm queueId (\<lambda>queue. Inr (pausedFields PsCascade None queue, ())) of
        Inl e \<Rightarrow> (NotOk (Rejected e), qm)
      | Inr (u, qm') \<Rightarrow> (Ok, qm'))"

definition cascadedResume :: "StoreEnv \<Rightarrow> QueueMap \<Rightarrow> string \<Rightarrow> Outcome \<times> QueueMap" where
  "cascadedResume env qm queueId =
     (if \<not> knownQueue env queueId then (NotOk (Rejected QUnknownQueueId), qm)
      else
        let existing = getQueue (clock env) qm queueId
        in if qLifecycle existing \<noteq> LcOperatorPaused \<or> qPauseSource existing \<noteq> Some PsCascade then (Ok, qm)
           else case commitMutation env qm queueId (\<lambda>queue. Inr (releasedFields (releasedLifecycle existing) queue, ())) of
             Inl e \<Rightarrow> (NotOk (Rejected e), qm)
           | Inr (u, qm') \<Rightarrow> (Ok, qm'))"

definition setFailurePolicy :: "StoreEnv \<Rightarrow> QueueMap \<Rightarrow> string \<Rightarrow> QueueFailurePolicy option \<Rightarrow> Outcome \<times> QueueMap" where
  "setFailurePolicy env qm queueId policy =
     (if \<not> knownQueue env queueId then (NotOk (Rejected QUnknownQueueId), qm)
      else if qFailurePolicy (getQueue (clock env) qm queueId) = policy then (NotOk PolicyUnchanged, qm)
      else case commitMutation env qm queueId (\<lambda>queue. Inr (queue\<lparr>qFailurePolicy := policy\<rparr>, ())) of
        Inl e \<Rightarrow> (NotOk (Rejected e), qm)
      | Inr (u, qm') \<Rightarrow> (Ok, qm'))"

subsection \<open>Reordering in the unified list\<close>

datatype ReorderCause = TaskNotPendingC | InvalidPositionC | NoOpC

definition rowsInOrder :: "QueueState \<Rightarrow> FeatureRequest list" where
  "rowsInOrder queue = sort_key frPosition (qRequests queue)"

definition indexWhere :: "('a \<Rightarrow> bool) \<Rightarrow> 'a list \<Rightarrow> int" where
  "indexWhere P xs = (let k = length (takeWhile (\<lambda>x. \<not> P x) xs) in if k < length xs then int k else -1)"

definition reorderTaskInUnifiedQueue :: "StoreEnv \<Rightarrow> QueueMap \<Rightarrow> string \<Rightarrow> int \<Rightarrow> (ReorderCause + string list) \<times> QueueMap" where
  "reorderTaskInUnifiedQueue env qm taskId newPosition =
     (let ownerQueueId = queueIdForTask qm taskId;
          queue = getQueue (clock env) qm ownerQueueId;
          sortedAll = rowsInOrder queue;
          sortedPending = filter (\<lambda>r. frStatus r = StPending) sortedAll;
          fromPendingIdx = indexWhere (\<lambda>r. frId r = taskId) sortedPending
      in case findRequest taskId (qRequests queue) of
           None \<Rightarrow> (Inl InvalidPositionC, qm)
         | Some target \<Rightarrow>
             if frStatus target \<noteq> StPending then (Inl TaskNotPendingC, qm)
             else if newPosition < 0 \<or> int (length sortedAll) \<le> newPosition then (Inl InvalidPositionC, qm)
             else
               let nonPendingBefore = length (filter (\<lambda>r. frStatus r \<noteq> StPending) (take (nat newPosition) sortedAll));
                   translated = newPosition - int nonPendingBefore
               in if translated < 0 \<or> int (length sortedPending) \<le> translated then (Inl InvalidPositionC, qm)
                  else if translated = fromPendingIdx then (Inl NoOpC, qm)
                  else case reorderPendingRequest env qm taskId translated of
                    Inr (r, qm') \<Rightarrow> (Inr (map frId (rowsInOrder (getQueue (clock env) qm' ownerQueueId))), qm')
                  | Inl TaskNotInPendingState \<Rightarrow> (Inl TaskNotPendingC, qm)
                  | Inl e \<Rightarrow> (Inl InvalidPositionC, qm))"

definition move :: "StoreEnv \<Rightarrow> QueueMap \<Rightarrow> string \<Rightarrow> int \<Rightarrow> Outcome \<times> QueueMap" where
  "move env qm taskId direction =
     (let sortedAll = rowsInOrder (getQueue (clock env) qm (queueIdForTask qm taskId));
          fromGlobalIdx = indexWhere (\<lambda>r. frId r = taskId) sortedAll
      in if fromGlobalIdx = -1 then (NotOk NotFoundR, qm)
         else if frStatus (sortedAll ! nat fromGlobalIdx) \<noteq> StPending then (NotOk IllegalState, qm)
         else if length (filter (\<lambda>r. frStatus r = StPending) sortedAll) < 2 then (NotOk NoPeer, qm)
         else
           let newGlobalIdx = fromGlobalIdx + direction
           in if newGlobalIdx < 0 \<or> int (length sortedAll) \<le> newGlobalIdx then (NotOk AtEdge, qm)
              else case reorderTaskInUnifiedQueue env qm taskId newGlobalIdx of
                (Inr order, qm') \<Rightarrow> (Ok, qm')
              | (Inl NoOpC, qm') \<Rightarrow> (NotOk AtEdge, qm')
              | (Inl c, qm') \<Rightarrow> (NotOk IllegalState, qm'))"

definition moveTask :: "StoreEnv \<Rightarrow> QueueMap \<Rightarrow> string \<Rightarrow> string \<Rightarrow> int option \<Rightarrow> bool \<Rightarrow> Outcome \<times> QueueMap" where
  "moveTask env qm taskId targetQueueId position ownedByConnectedRun =
     (if ownedByConnectedRun then (NotOk BoundToConnectedRun, qm)
      else case movePendingRequest env qm taskId targetQueueId position of
        Inr (r, qm') \<Rightarrow> (Ok, qm')
      | Inl e \<Rightarrow> (NotOk (Rejected e), qm))"

subsection \<open>Clearing\<close>

definition clearMutation :: "FeatureRequestStatus \<Rightarrow> nat Mutation" where
  "clearMutation status queue =
     (let filtered = filter (\<lambda>r. frStatus r \<noteq> status \<or> Some (frId r) = qInFlightId queue) (qRequests queue);
          removed = length (qRequests queue) - length filtered
      in Inr (if removed = 0 then queue else queue\<lparr>qRequests := reposition filtered\<rparr>, removed))"

definition clearByStatus :: "StoreEnv \<Rightarrow> QueueMap \<Rightarrow> RunMap \<Rightarrow> FeatureRequestStatus \<Rightarrow> string \<Rightarrow> (QueueReject + nat) \<times> QueueMap \<times> RunMap" where
  "clearByStatus env qm runs status queueId =
     (case commitMutation env qm queueId (clearMutation status) of
        Inl e \<Rightarrow> (Inl e, qm, runs)
      | Inr (removed, qm') \<Rightarrow>
          if removed = 0 then (Inr 0, qm', runs)
          else if inFlightCount env qm' (Some queueId) = 0 \<and> qLifecycle (getQueue (clock env) qm' queueId) = LcOperatorPaused
            then (case setQueuePausedState env qm' runs False queueId None PsOperator None of
                    (out, qm'', runs') \<Rightarrow> (Inr removed, qm'', runs'))
          else (Inr removed, qm', runs))"

definition clearRunSnapshot :: "StoreEnv \<Rightarrow> string \<Rightarrow> RunMap \<Rightarrow> unit RunRefusal + RunMap" where
  "clearRunSnapshot env queueId runs = then_ok (runCommitClaim env queueId) (setRun env runs queueId None)"

definition clearRunSnapshots :: "StoreEnv \<Rightarrow> string list \<Rightarrow> RunMap \<Rightarrow> unit RunRefusal + RunMap" where
  "clearRunSnapshots env queueIds runs = foldl (\<lambda>acc q. then_ok acc (clearRunSnapshot env q)) (Inr runs) queueIds"

text \<open>
  \<open>probe\<close> is the caller's acknowledgement wait.  The runner and other commands may write queues and Runs
  while it lasts, so it maps the state it is handed to an acknowledgement and the state it leaves.
\<close>

type_synonym Probe = "QueueMap \<times> RunMap \<Rightarrow> bool \<times> QueueMap \<times> RunMap"

definition clearWait :: "Probe option \<Rightarrow> bool \<Rightarrow> QueueMap \<times> RunMap \<Rightarrow> QueueMap \<times> RunMap" where
  "clearWait probe inflightBefore st =
     (case (if inflightBefore then probe else None) of Some p \<Rightarrow> snd (p st) | None \<Rightarrow> st)"

definition inflightNow :: "QueueState \<Rightarrow> bool" where
  "inflightNow before \<longleftrightarrow> qInFlightId before \<noteq> None \<or> (\<exists>r \<in> set (qRequests before). frStatus r = StInFlight)"

definition clearQueue :: "StoreEnv \<Rightarrow> QueueMap \<Rightarrow> RunMap \<Rightarrow> string \<Rightarrow> Probe option \<Rightarrow> Outcome \<times> QueueMap \<times> RunMap" where
  "clearQueue env qm runs queueId probe =
     (if \<not> knownQueue env queueId then (NotOk (Rejected QUnknownQueueId), qm, runs)
      else
        let before = getQueue (clock env) qm queueId;
            activeRunBefore = (getRun runs queueId \<noteq> None)
        in if \<not> hasResettableQueueState before \<and> \<not> activeRunBefore then (Ok, qm, runs)
           else case commitMutation env qm queueId (\<lambda>queue. Inr (queueReset queue (clock env) ReleasePause, ())) of
             Inl e \<Rightarrow> (Thrown (Rejected e), qm, runs)
           | Inr (u, qm1) \<Rightarrow>
               (case (if activeRunBefore then clearRunSnapshots env [queueId] runs else Inr runs) of
                  Inl e \<Rightarrow> (Thrown (RunWrite e), qm1, runs)
                | Inr runs1 \<Rightarrow>
                    (case clearWait probe (inflightNow before) (qm1, runs1) of
                       (qm2, runs2) \<Rightarrow>
                         (case (if activeRunBefore then clearRunSnapshots env [queueId] runs2 else Inr runs2) of
                            Inl e \<Rightarrow> (Thrown (RunWrite e), qm2, runs2)
                          | Inr runs3 \<Rightarrow> (Ok, qm2, runs3)))))"

end
