(* ===== verification/QueueInvariant.thy ===== *)
theory QueueInvariant
  imports QueueOrder QueueControl
begin

text \<open>
  The invariant of the queue map.  Every stored record is a normalised queue: rows filed under the
  queue's own id with distinct task ids and positions \<open>0, 1, 2, \<dots>\<close>; the pause source, pause reason and
  armed start agree with the lifecycle; a row in flight is the one named by \<open>inFlightId\<close>; and no task is
  in two queues.  The locale \<open>task_mutation\<close> is the contract of a mutation handed to \<open>updateQueue\<close>, and
  the mutations of the manager are its interpretations.
\<close>

subsection \<open>One queue\<close>

definition lifecycle_ok :: "QueueState \<Rightarrow> bool" where
  "lifecycle_ok q \<longleftrightarrow> (qPauseSource q = None \<longleftrightarrow> qLifecycle q \<noteq> LcOperatorPaused) \<and>
     (qLifecycle q \<noteq> LcOperatorPaused \<longrightarrow> qPausedReason q = None) \<and>
     (qLifecycle q \<noteq> LcIdlePending \<longrightarrow> qScheduledStartAt q = None \<and> qScheduledStartSource q = None)"

definition slot_ok :: "QueueState \<Rightarrow> bool" where
  "slot_ok q \<longleftrightarrow> (\<forall>r \<in> set (qRequests q). frStatus r = StInFlight \<longrightarrow> qInFlightId q = Some (frId r))"

definition queue_shape :: "string \<Rightarrow> QueueState \<Rightarrow> bool" where
  "queue_shape qid q \<longleftrightarrow> filed qid (qRequests q) \<and> dense (qRequests q) \<and> lifecycle_ok q"

definition written :: "int \<Rightarrow> QueueState \<Rightarrow> QueueState" where
  "written now q = ensureExtendedQueueShape (persist (q\<lparr>qRequests := compactRequestPositions (qRequests q), qUpdatedAt := now\<rparr>))"

lemma commitQueue_written: "commitQueue now q = persist (written now q)"
  by (simp add: commitQueue_def written_def)

lemma persist_simps [simp]: "pqRequests (persist q) = qRequests q" "pqInFlightId (persist q) = qInFlightId q"
  "pqLifecycle (persist q) = Some (qLifecycle q)" "pqPaused (persist q) = None" "pqPauseSource (persist q) = qPauseSource q"
  by (simp_all add: persist_def)

lemma read_persist [simp]: "queue_shape qid q \<Longrightarrow> ensureExtendedQueueShape (persist q) = q"
  by (cases q) (auto simp: queue_shape_def lifecycle_ok_def ensureExtendedQueueShape_def persist_def compact_dense
      normalizePauseSource_def Let_def split: option.split)

lemma compact_twice: "filed qid rs \<Longrightarrow> compactRequestPositions (compactRequestPositions rs) = compactRequestPositions rs"
  using compact_rows [of qid rs] compact_dense by blast

lemma written_simps:
  assumes "filed qid (qRequests q)"
  shows "qRequests (written now q) = compactRequestPositions (qRequests q)" "qInFlightId (written now q) = qInFlightId q"
    "qLifecycle (written now q) = qLifecycle q" "qFailurePolicy (written now q) = qFailurePolicy q"
  by (simp_all add: written_def ensureExtendedQueueShape_def Let_def compact_twice [OF assms] persist_def)

lemma written_shape:
  assumes "filed qid (qRequests q)"
  shows "queue_shape qid (written now q)"
  using compact_rows [OF assms] assms unfolding queue_shape_def written_simps [OF assms]
  by (auto simp: lifecycle_ok_def written_def ensureExtendedQueueShape_def Let_def normalizePauseSource_def)

lemma ids_by_status: "map frId (filter (\<lambda>r. P (frStatus r)) xs) = map fst (filter (\<lambda>p. P (snd p)) (zip (map frId xs) (map frStatus xs)))"
  by (induction xs) auto

lemma reposition_status: "map frId (filter (\<lambda>r. P (frStatus r)) (reposition xs)) = map frId (filter (\<lambda>r. P (frStatus r)) xs)"
  by (simp only: ids_by_status reposition_simps)

lemma written_order:
  assumes "filed qid (qRequests q)"
  shows "queueOrder (written now q) = map frId (rows (qRequests q))"
    "pendingOrder (written now q) = map frId (filter (\<lambda>r. frStatus r = StPending) (rows (qRequests q)))"
proof -
  let ?rs = "rows (qRequests q)"
  have r: "rows (qRequests (written now q)) = reposition ?rs" by (simp add: written_simps [OF assms] compact_rows [OF assms])
  show "queueOrder (written now q) = map frId ?rs" by (simp add: queueOrder_def r)
  show "pendingOrder (written now q) = map frId (filter (\<lambda>r. frStatus r = StPending) ?rs)"
    by (simp add: pendingOrder_def r reposition_status [of "\<lambda>s. s = StPending"])
qed

text \<open>Renumbering keeps every other field, so what holds of all rows holds after it.\<close>

lemma compact_ball:
  assumes "filed qid rs" "\<And>r k. P (r\<lparr>frPosition := k\<rparr>) = P r"
  shows "(\<forall>r \<in> set (compactRequestPositions rs). P r) \<longleftrightarrow> (\<forall>r \<in> set rs. P r)"
proof -
  have "(\<forall>r \<in> set xs. P r) \<longleftrightarrow> (\<forall>r \<in> set (map (\<lambda>r. r\<lparr>frPosition := 0\<rparr>) xs). P r)" for xs
    by (simp add: assms(2))
  then show ?thesis by (metis compact_row [OF assms(1)])
qed

lemma written_slot: "filed qid (qRequests q) \<Longrightarrow> slot_ok (written now q) = slot_ok q"
  unfolding slot_ok_def written_simps by (subst compact_ball) auto

lemma slot_one_in_flight:
  assumes "slot_ok q" "distinct (map frId (qRequests q))"
  shows "inFlightRows q \<le> 1"
proof -
  let ?f = "filter (\<lambda>r. frStatus r = StInFlight) (qRequests q)"
  have "distinct (map frId ?f)" using assms(2) by (simp add: distinct_map_filter)
  moreover have "set (map frId ?f) \<subseteq> {the (qInFlightId q)}" using assms(1) by (auto simp: slot_ok_def)
  ultimately have "card (set (map frId ?f)) = length ?f" by (metis distinct_card length_map)
  moreover have "card (set (map frId ?f)) \<le> card {the (qInFlightId q)}"
    by (rule card_mono) (use \<open>set (map frId ?f) \<subseteq> _\<close> in auto)
  ultimately show ?thesis by (simp add: inFlightRows_def)
qed

subsection \<open>The map\<close>

definition taskIds :: "PersistedQueue \<Rightarrow> string set" where
  "taskIds p = frId ` set (pqRequests p)"

definition store_ok :: "QueueMap \<Rightarrow> bool" where
  "store_ok qm \<longleftrightarrow> distinct (map fst qm) \<and>
     (\<forall>q p. map_of qm q = Some p \<longrightarrow> (\<exists>s. p = persist s \<and> queue_shape q s \<and> slot_ok s)) \<and>
     (\<forall>q q' p p'. map_of qm q = Some p \<longrightarrow> map_of qm q' = Some p' \<longrightarrow> taskIds p \<inter> taskIds p' \<noteq> {} \<longrightarrow> q = q')"

lemma bornEmpty_ok [simp]: "q \<noteq> [] \<Longrightarrow> queue_shape q (bornEmptyQueue now)" "slot_ok (bornEmptyQueue now)"
  "qRequests (bornEmptyQueue now) = []"
  by (simp_all add: queue_shape_def bornEmptyQueue_def filed_def dense_def lifecycle_ok_def slot_ok_def)

lemma getQueue_ok:
  assumes "store_ok qm" "q \<noteq> []"
  shows "queue_shape q (getQueue now qm q)" "slot_ok (getQueue now qm q)"
proof -
  have "queue_shape q (getQueue now qm q) \<and> slot_ok (getQueue now qm q)"
  proof (cases "map_of qm q")
    case None
    then show ?thesis using assms(2) by (simp add: getQueue_def)
  next
    case (Some p)
    then obtain s where "p = persist s" "queue_shape q s" "slot_ok s" using assms(1) unfolding store_ok_def by blast
    then show ?thesis using Some by (simp add: getQueue_def)
  qed
  then show "queue_shape q (getQueue now qm q)" "slot_ok (getQueue now qm q)" by simp_all
qed

lemma getQueue_Some: "store_ok qm \<Longrightarrow> map_of qm q = Some p \<Longrightarrow> p = persist (getQueue now qm q)"
  by (auto simp: store_ok_def getQueue_def dest!: spec [of _ q])

lemma getQueue_ids:
  assumes "store_ok qm" "q \<noteq> []" "i \<in> frId ` set (qRequests (getQueue now qm q))"
  shows "\<exists>p. map_of qm q = Some p \<and> i \<in> taskIds p"
proof (cases "map_of qm q")
  case (Some p)
  then show ?thesis using getQueue_Some [OF assms(1) Some, of now] assms(3) by (auto simp: taskIds_def)
qed (use assms(3) in \<open>simp add: getQueue_def\<close>)

text \<open>Reading back what a commit wrote.\<close>

lemma getQueue_update:
  assumes "filed q (qRequests s)"
  shows "getQueue now (AList.update q (commitQueue now' s) qm) q = written now' s"
    and "q' \<noteq> q \<Longrightarrow> getQueue now (AList.update q c qm) q' = getQueue now qm q'"
  using written_shape [OF assms, of now'] by (simp_all add: getQueue_def update_conv' commitQueue_written)

lemma commitMutation_Inr:
  "commitMutation env qm q mut = Inr (r, qm') \<longleftrightarrow>
     (\<exists>s. mut (getQueue (clock env) qm q) = Inr (s, r) \<and> qm' = AList.update q (commitQueue (clock env) s) qm \<and>
       \<not> tenureLost env q \<and> fenceRefusal env q (case claimFor env q of Some c \<Rightarrow> Fenced c | None \<Rightarrow> Unfenced) = None)"
  by (auto simp: commitMutation_def updateQueue_def runCommitClaim_def err_simps split: option.splits)

lemma store_ok_update:
  assumes "store_ok qm" "filed q (qRequests s)" "slot_ok s"
    and "\<And>i q' p'. i \<in> frId ` set (qRequests s) \<Longrightarrow> map_of qm q' = Some p' \<Longrightarrow> i \<in> taskIds p' \<Longrightarrow> q' = q"
  shows "store_ok (AList.update q (commitQueue now s) qm)"
proof -
  have ids: "taskIds (commitQueue now s) = frId ` set (qRequests s)"
    using compact_rows(2) [OF assms(2)] by (metis commitQueue_written list.set_map persist_simps(1) taskIds_def written_simps(1) [OF assms(2)])
  have "\<exists>t. commitQueue now s = persist t \<and> queue_shape q t \<and> slot_ok t"
    using written_shape [OF assms(2)] written_slot [OF assms(2)] assms(3) commitQueue_written by blast
  then show ?thesis
    using assms(1,4) unfolding store_ok_def update_conv'
    by (auto simp: distinct_update ids split: if_splits)
qed

locale task_mutation =
  fixes mut :: "QueueState \<Rightarrow> QueueReject + QueueState \<times> 'r" and new :: "string set"
  assumes keeps_filed: "filed qid (qRequests q) \<Longrightarrow> mut q = Inr (q', r) \<Longrightarrow> filed qid (qRequests q')"
    and keeps_ids: "mut q = Inr (q', r) \<Longrightarrow> frId ` set (qRequests q') \<subseteq> frId ` set (qRequests q) \<union> new"
    and keeps_slot: "filed qid (qRequests q) \<Longrightarrow> slot_ok q \<Longrightarrow> mut q = Inr (q', r) \<Longrightarrow> slot_ok q'"
begin

lemma commit_ok:
  assumes "store_ok qm" "qid \<noteq> []" "commitMutation env qm qid mut = Inr (r, qm')"
    and fresh: "\<And>q p. map_of qm q = Some p \<Longrightarrow> taskIds p \<inter> new = {}"
  shows "store_ok qm'"
proof -
  obtain s where s: "mut (getQueue (clock env) qm qid) = Inr (s, r)" "qm' = AList.update qid (commitQueue (clock env) s) qm"
    using assms(3) by (auto simp: commitMutation_Inr)
  note g = getQueue_ok [OF assms(1,2), of "clock env"]
  have "filed qid (qRequests s)" using g(1) s(1) keeps_filed by (auto simp: queue_shape_def)
  moreover have "slot_ok s" using g s(1) keeps_slot by (auto simp: queue_shape_def)
  moreover have "q' = qid" if "i \<in> frId ` set (qRequests s)" "map_of qm q' = Some p'" "i \<in> taskIds p'" for i q' p'
  proof -
    have "i \<notin> new" using fresh [OF that(2)] that(3) by blast
    then have "i \<in> frId ` set (qRequests (getQueue (clock env) qm qid))" using keeps_ids [OF s(1)] that(1) by blast
    from getQueue_ids [OF assms(1,2) this] obtain p where "map_of qm qid = Some p" "i \<in> taskIds p" by blast
    with assms(1) that(2,3) show ?thesis unfolding store_ok_def by blast
  qed
  ultimately show ?thesis unfolding s(2) by (intro store_ok_update assms(1)) blast+
qed

end

subsection \<open>The mutations keep the contract\<close>

lemma filed_map:
  assumes "filed qid rs" "\<And>r. r \<in> set rs \<Longrightarrow> frId (f r) = frId r \<and> frQueueId (f r) = frQueueId r"
  shows "filed qid (map f rs)"
proof -
  have "map frId (map f rs) = map frId rs" using assms(2) by simp
  with assms show ?thesis unfolding filed_def by (simp only:) simp
qed

lemma filed_mset: "filed qid rs \<Longrightarrow> mset (map frId rs') = mset (map frId rs) \<Longrightarrow> (\<forall>r \<in> set rs'. frQueueId r = qid) \<Longrightarrow> filed qid rs'"
  unfolding filed_def using mset_eq_imp_distinct_iff by blast

lemma filed_filter: "filed qid rs \<Longrightarrow> filed qid (filter P rs)"
  by (auto simp: filed_def distinct_map_filter)

lemma refreshed_simps [simp]: "qRequests (withRefreshedLifecycle q) = qRequests q" "qInFlightId (withRefreshedLifecycle q) = qInFlightId q"
  "slot_ok (withRefreshedLifecycle q) = slot_ok q"
  by (simp_all add: withRefreshedLifecycle_def slot_ok_def)

lemma transitionRow_Inr:
  "transitionRow op tgt sl att t body q = Inr (q', u) \<longleftrightarrow>
     decideTaskTransition op (map_option frStatus (findRequest t (qRequests q))) tgt
       (sl \<and> qInFlightId q \<noteq> None \<and> qInFlightId q \<noteq> Some t) att = None \<and> q' = withRefreshedLifecycle (body q)"
  by (auto simp: transitionRow_def split: option.splits)

lemma setRow_requests [simp]: "qRequests (setRow t f q) = map (\<lambda>r. if frId r = t then f r else r) (qRequests q)"
  "qInFlightId (setRow t f q) = qInFlightId q"
  by (simp_all add: setRow_def)

lemma setRow_filed:
  "(\<And>r. frId (f r) = frId r \<and> frQueueId (f r) = frQueueId r) \<Longrightarrow> filed qid (qRequests q) \<Longrightarrow>
     filed qid (map (\<lambda>r. if frId r = t then f r else r) (qRequests q))"
  by (rule filed_map) auto

lemma capture_simps [simp]: "frId (terminalCapture run r) = frId r" "frQueueId (terminalCapture run r) = frQueueId r"
  "frStatus (terminalCapture run r) = frStatus r"
  by (simp_all add: terminalCapture_def)

lemma updateFirst_ids [simp]: "(\<And>x. g (f x) = g x) \<Longrightarrow> map g (updateFirst P f xs) = map g xs"
  by (induction xs) auto

lemma updateFirst_in: "y \<in> set (updateFirst P f xs) \<Longrightarrow> \<exists>x \<in> set xs. y = x \<or> P x \<and> y = f x"
  by (induction xs) (auto split: if_splits)

lemma updateFirst_map: "distinct (map frId rs) \<Longrightarrow> updateFirst (\<lambda>r. frId r = t) f rs = map (\<lambda>r. if frId r = t then f r else r) rs"
proof (induction rs)
  case (Cons r rs)
  then have "map (\<lambda>r. if frId r = t then f r else r) rs = rs" if "frId r = t" using that by (intro map_idI) (auto simp: image_iff)
  with Cons show ?case by auto
qed simp

lemma mset_insertAtIndex [simp]: "mset (insertAtIndex k x xs) = add_mset x (mset xs)"
proof -
  have "mset (take k xs) + mset (drop k xs) = mset xs" by (metis append_take_drop_id mset_append)
  then show ?thesis by (simp add: insertAtIndex_def)
qed

lemma set_insertAtIndex [simp]: "set (insertAtIndex k x xs) = insert x (set xs)"
  by (metis mset_insertAtIndex set_mset_add_mset_insert set_mset_mset)

lemma reposition_ball: "(\<And>r k. P (r\<lparr>frPosition := k\<rparr>) = P r) \<Longrightarrow> (\<forall>r \<in> set (reposition rs). P r) \<longleftrightarrow> (\<forall>r \<in> set rs. P r)"
  by (auto simp: reposition_def all_set_conv_all_nth)

lemma reposition_ids [simp]: "frId ` set (reposition rs) = frId ` set rs"
  by (metis list.set_map reposition_simps(2))

lemma reposition_filed [simp]: "filed qid (reposition rs) = filed qid rs"
  unfolding filed_def by (subst reposition_ball) auto

lemma reposition_slot [simp]: "slot_ok (q\<lparr>qRequests := reposition rs\<rparr>) = slot_ok (q\<lparr>qRequests := rs\<rparr>)"
  unfolding slot_ok_def by simp (rule reposition_ball, simp)

lemma find_in: "findRequest t rs = Some r \<Longrightarrow> r \<in> set rs \<and> frId r = t"
  by (auto simp: findRequest_def find_Some_iff)

lemma slot_subset: "slot_ok q \<Longrightarrow> set rs \<subseteq> set (qRequests q) \<Longrightarrow> slot_ok (q\<lparr>qRequests := rs\<rparr>)"
  by (auto simp: slot_ok_def)

interpretation mark: task_mutation "markMutation t rid now" "{}"
proof
  fix qid q q' u
  assume "markMutation t rid now q = Inr (q', u)"
  then have q': "q' = withRefreshedLifecycle ((setRow t (\<lambda>r. r\<lparr>frStatus := StInFlight, frRunId := Some rid,
          frStartedAt := (case frStartedAt r of Some t \<Rightarrow> Some t | None \<Rightarrow> Some now), frUpdatedAt := now\<rparr>) q)\<lparr>qInFlightId := Some t\<rparr>)"
    and free: "qInFlightId q = None \<or> qInFlightId q = Some t"
    by (auto simp: markMutation_def transitionRow_Inr decideTaskTransition_def split: option.splits if_splits)
  show "filed qid (qRequests q) \<Longrightarrow> filed qid (qRequests q')" unfolding q' by (simp add: setRow_filed)
  show "frId ` set (qRequests q') \<subseteq> frId ` set (qRequests q) \<union> {}" unfolding q' by auto
  show "filed qid (qRequests q) \<Longrightarrow> slot_ok q \<Longrightarrow> slot_ok q'" unfolding q' using free by (auto simp: slot_ok_def)
qed

interpretation finish_m: task_mutation "finishMutation t st err run now" "{}"
  by unfold_locales (auto simp: finishMutation_def transitionRow_Inr setRow_filed slot_ok_def decideTaskTransition_def
      isTerminalRequestStatus_def split: option.splits if_splits)

interpretation attest: task_mutation "attestMutation t now" "{}"
  by unfold_locales (auto simp: attestMutation_def transitionRow_Inr setRow_filed slot_ok_def)

interpretation clear_m: task_mutation "clearMutation st" "{}"
  by unfold_locales (auto simp: clearMutation_def Let_def filed_filter slot_subset split: if_splits)

interpretation pause_m: task_mutation "pauseMutation t c keep now" "{}"
proof
  fix qid u and q q' :: QueueState
  let ?f = "\<lambda>r. r\<lparr>frStatus := StPaused, frPauseCause := c, frUpdatedAt := now\<rparr>"
  let ?rs = "updateFirst (\<lambda>r. frId r = t) ?f (qRequests q)"
  assume "pauseMutation t c keep now q = Inr (q', u)"
  then have rs: "qRequests q' = ?rs"
    and fl: "qInFlightId q' = (if qInFlightId q = Some t \<and> \<not> keep then None else qInFlightId q)"
    by (auto simp: pauseMutation_def transitionRow_Inr)
  have ids: "map frId ?rs = map frId (qRequests q)" by simp
  show "filed qid (qRequests q) \<Longrightarrow> filed qid (qRequests q')"
    unfolding rs filed_def ids by (auto dest: updateFirst_in)
  show "frId ` set (qRequests q') \<subseteq> frId ` set (qRequests q) \<union> {}"
    unfolding rs by (metis Un_empty_right ids list.set_map order_refl)
  show "filed qid (qRequests q) \<Longrightarrow> slot_ok q \<Longrightarrow> slot_ok q'"
    unfolding slot_ok_def rs fl filed_def by (auto simp: updateFirst_map)
qed

interpretation retry_m: task_mutation "retryMutation t run now" "{}"
proof
  fix qid u and q q' :: QueueState
  assume "retryMutation t run now q = Inr (q', u)"
  then obtain tg k up where tg: "findRequest t (qRequests q) = Some tg"
    and up': "up = retriedRow tg run now"
    and q': "q' = withRefreshedLifecycle (q\<lparr>qRequests := reposition (insertAtIndex k up (remove1 tg (qRequests q)))\<rparr>)"
    by (auto simp: retryMutation_def Let_def split: option.splits)
  have up: "frId up = frId tg" "frQueueId up = frQueueId tg" "frStatus up = StPending"
    by (simp_all add: up' retriedRow_def Let_def withoutTerminalCapture_def)
  let ?rs = "insertAtIndex k up (remove1 tg (qRequests q))"
  note m = find_in [OF tg]
  have ms: "mset ?rs = add_mset up (mset (qRequests q) - {#tg#})"
    by simp
  have st: "set ?rs \<subseteq> insert up (set (qRequests q))"
    by (auto intro: notin_set_remove1)
  have "frId tg \<in># image_mset frId (mset (qRequests q))" using m by auto
  then have "mset (map frId ?rs) = mset (map frId (qRequests q))"
    using ms m up(1) by (simp add: image_mset_Diff insert_DiffM)
  then show "filed qid (qRequests q')" if f: "filed qid (qRequests q)"
  proof -
    have "\<forall>r \<in> set ?rs. frQueueId r = qid" using st up(2) m f by (auto simp: filed_def)
    from filed_mset [OF f \<open>mset (map frId ?rs) = _\<close> this] show ?thesis by (simp add: q')
  qed
  show "frId ` set (qRequests q') \<subseteq> frId ` set (qRequests q) \<union> {}"
    using mset_eq_setD [OF \<open>mset (map frId ?rs) = _\<close>] by (simp add: q')
  show "filed qid (qRequests q) \<Longrightarrow> slot_ok q \<Longrightarrow> slot_ok q'"
    unfolding q' refreshed_simps reposition_slot using st up(3) by (auto simp: slot_ok_def)
qed

interpretation pausing: task_mutation "\<lambda>q. Inr (pausedFields src reason q, u)" "{}"
  by unfold_locales (auto simp: pausedFields_def slot_ok_def)

interpretation releasing: task_mutation "\<lambda>q. Inr (releasedFields lc q, u)" "{}"
  by unfold_locales (auto simp: releasedFields_def slot_ok_def)

interpretation hold_m: task_mutation "holdMutation b src reason lc" "{}"
  by unfold_locales (auto simp: holdMutation_def pausedFields_def releasedFields_def slot_ok_def split: if_splits)

interpretation policy_m: task_mutation "\<lambda>q. Inr (q\<lparr>qFailurePolicy := pol\<rparr>, u)" "{}"
  by unfold_locales (auto simp: slot_ok_def)

interpretation reset_m: task_mutation "\<lambda>q. Inr (queueReset q now mode, u)" "{}"
  by unfold_locales (auto simp: queueReset_def Let_def slot_ok_def filed_def)

lemma shiftRow_simps [simp]: "frId (shiftRow d k now r) = frId r" "frQueueId (shiftRow d k now r) = frQueueId r"
  "frStatus (shiftRow d k now r) = frStatus r"
  by (simp_all add: shiftRow_def Let_def)

lemma insertMutation_Inr:
  "insertMutation qid req pos now q = Inr (q', r) \<Longrightarrow>
     \<exists>f k. qRequests q' = map f (qRequests q) @ [r] \<and> qInFlightId q' = qInFlightId q \<and>
       (\<forall>x. frId (f x) = frId x \<and> frQueueId (f x) = frQueueId x \<and> frStatus (f x) = frStatus x) \<and>
       r = req\<lparr>frQueueId := qid, frPosition := k, frPauseCause := None, frUpdatedAt := now\<rparr>"
  by (auto simp: insertMutation_def Let_def split: if_splits intro!: exI [of _ "shiftRow _ _ _"])

lemma insert_contract:
  assumes "insertMutation qid req pos now q = Inr (q', r)" "frStatus req \<noteq> StInFlight"
  shows "filed qid (qRequests q) \<Longrightarrow> frId req \<notin> frId ` set (qRequests q) \<Longrightarrow> filed qid (qRequests q')"
    "frId ` set (qRequests q') = insert (frId req) (frId ` set (qRequests q))" "slot_ok q \<Longrightarrow> slot_ok q'"
proof -
  obtain f k where f: "qRequests q' = map f (qRequests q) @ [r]" "qInFlightId q' = qInFlightId q"
    "\<And>x. frId (f x) = frId x \<and> frQueueId (f x) = frQueueId x \<and> frStatus (f x) = frStatus x"
    "r = req\<lparr>frQueueId := qid, frPosition := k, frPauseCause := None, frUpdatedAt := now\<rparr>"
    using insertMutation_Inr [OF assms(1)] by blast
  show "filed qid (qRequests q) \<Longrightarrow> frId req \<notin> frId ` set (qRequests q) \<Longrightarrow> filed qid (qRequests q')"
    by (auto simp: filed_def f comp_def)
  show "frId ` set (qRequests q') = insert (frId req) (frId ` set (qRequests q))" using f by (auto simp: image_image)
  show "slot_ok q \<Longrightarrow> slot_ok q'" using f assms(2) by (auto simp: slot_ok_def)
qed

lemma reorder_rows:
  assumes "reorderMutation t pos now tg q = Inr (q', x)" "tg \<in> set (qRequests q)"
  shows "\<exists>g. qRequests q' = map g (qRequests q) \<and> qInFlightId q' = qInFlightId q \<and>
    (\<forall>r. g r = r \<or> (\<exists>p \<in> set (qRequests q). frId p = frId r \<and> frId (g r) = frId r \<and> frStatus (g r) = StPending \<and>
       frQueueId (g r) = frQueueId p))"
proof -
  let ?peers = "pendingRows q"
  let ?moved = "map (\<lambda>(r, slot). if frPosition r = slot then r else r\<lparr>frPosition := slot, frUpdatedAt := now\<rparr>)
     (zip (insertAtIndex (nat pos) tg (filter (\<lambda>r. frId r \<noteq> t) ?peers)) (map frPosition ?peers))"
  let ?new = "map_of (rev (map (\<lambda>r. (frId r, r)) ?moved))"
  let ?g = "\<lambda>r. case ?new (frId r) of Some r' \<Rightarrow> r' | None \<Rightarrow> r"
  have st: "frStatus tg = StPending" and q': "qRequests q' = map ?g (qRequests q)" "qInFlightId q' = qInFlightId q"
    using assms(1) by (auto simp: reorderMutation_def Let_def split: if_splits)
  have "?g r = r \<or> (\<exists>p \<in> set (qRequests q). frId p = frId r \<and> frId (?g r) = frId r \<and> frStatus (?g r) = StPending \<and>
       frQueueId (?g r) = frQueueId p)" for r
  proof (cases "?new (frId r)")
    case (Some r')
    then have m: "r' \<in> set ?moved" "frId r' = frId r" by (auto dest!: map_of_SomeD)
    then obtain p slot where "(p, slot) \<in> set (zip (insertAtIndex (nat pos) tg (filter (\<lambda>r. frId r \<noteq> t) ?peers)) (map frPosition ?peers))"
      "r' = (if frPosition p = slot then p else p\<lparr>frPosition := slot, frUpdatedAt := now\<rparr>)" by auto
    then have p: "p \<in> set (insertAtIndex (nat pos) tg (filter (\<lambda>r. frId r \<noteq> t) ?peers))"
      "frId r' = frId p" "frStatus r' = frStatus p" "frQueueId r' = frQueueId p"
      by (auto dest: set_zip_leftD split: if_splits)
    then have "p \<in> set (qRequests q) \<and> frStatus p = StPending" using st assms(2) by (auto simp: pendingRows_def)
    then show ?thesis using Some p m(2) by auto
  qed simp
  then show ?thesis using q' by blast
qed

interpretation reorder_m: task_mutation "withRow t (reorderMutation t pos now)" "{}"
proof
  fix qid r and q q' :: QueueState
  assume "withRow t (reorderMutation t pos now) q = Inr (q', r)"
  then obtain tg where tg: "tg \<in> set (qRequests q)" "reorderMutation t pos now tg q = Inr (q', r)"
    using find_in by (fastforce simp: withRow_def split: option.splits)
  obtain g where g: "qRequests q' = map g (qRequests q)" "qInFlightId q' = qInFlightId q"
    "\<And>r. g r = r \<or> (\<exists>p \<in> set (qRequests q). frId p = frId r \<and> frId (g r) = frId r \<and> frStatus (g r) = StPending \<and> frQueueId (g r) = frQueueId p)"
    using reorder_rows [OF tg(2,1)] by blast
  have gid: "frId (g r) = frId r" for r using g(3) [of r] by auto
  show "filed qid (qRequests q')" if f: "filed qid (qRequests q)"
  proof -
    have "frQueueId (g r) = qid" if "r \<in> set (qRequests q)" for r using g(3) [of r] f that by (auto simp: filed_def)
    then show ?thesis using f by (simp add: g(1) gid filed_def comp_def)
  qed
  show "frId ` set (qRequests q') \<subseteq> frId ` set (qRequests q) \<union> {}" by (auto simp: g(1) gid)
  show "slot_ok q'" if sl: "slot_ok q"
  proof -
    have "qInFlightId q = Some (frId (g r))" if "r \<in> set (qRequests q)" "frStatus (g r) = StInFlight" for r
      using g(3) [of r] that sl by (auto simp: slot_ok_def)
    then show ?thesis by (auto simp: slot_ok_def g(1,2))
  qed
qed

interpretation remove_m: task_mutation "withRow t (removeMutation t)" "{}"
  by unfold_locales (auto simp: withRow_def removeMutation_def filed_filter slot_ok_def split: option.splits)

interpretation modify_m: task_mutation "withRow t (modifyMutation t d now)" "{}"
proof
  fix qid r and q q' :: QueueState
  assume "withRow t (modifyMutation t d now) q = Inr (q', r)"
  then obtain tg d' where tg: "tg \<in> set (qRequests q)" "frId tg = t" "frStatus tg = StPending"
    and q': "q' = q\<lparr>qRequests := map (\<lambda>r. if frId r = t then tg\<lparr>frDescription := d', frUpdatedAt := now\<rparr> else r) (qRequests q)\<rparr>"
    using find_in by (fastforce simp: withRow_def modifyMutation_def Let_def split: option.splits if_splits)
  show "filed qid (qRequests q) \<Longrightarrow> filed qid (qRequests q')"
    unfolding q' using tg by (simp, intro filed_map) (auto simp: filed_def)
  show "frId ` set (qRequests q') \<subseteq> frId ` set (qRequests q) \<union> {}" unfolding q' using tg by auto
  show "slot_ok q \<Longrightarrow> slot_ok q'" unfolding q' using tg by (auto simp: slot_ok_def)
qed

subsection \<open>Finding the queue of a task\<close>

lemma findTaskOwner_ok:
  assumes "store_ok qm" "findTaskOwner qm t = Some (q, r)"
  shows "q \<noteq> []" "rowQueueId r = q" "frId r = t" "r \<in> set (qRequests (getQueue now qm q))"
proof -
  obtain p where p: "(q, p) \<in> set qm" "findRequest t (pqRequests p) = Some r"
    using assms(2) by (auto simp: findTaskOwner_def find_Some_iff split: option.splits) (metis nth_mem)
  have m: "map_of qm q = Some p" using p(1) assms(1) by (simp add: store_ok_def)
  then obtain s where s: "p = persist s" "queue_shape q s" using assms(1) unfolding store_ok_def by blast
  have r: "r \<in> set (qRequests s)" "frId r = t" using find_in [OF p(2)] by (simp_all add: s(1))
  have f: "filed q (qRequests s)" using s(2) by (simp add: queue_shape_def)
  show "q \<noteq> []" using f by (simp add: filed_def)
  show "rowQueueId r = q" using f r(1) by (auto simp: filed_def rowQueueId_def)
  show "frId r = t" by (rule r(2))
  show "r \<in> set (qRequests (getQueue now qm q))" using r(1) s m by (simp add: getQueue_def)
qed

lemma queueIdForTask_ne: "store_ok qm \<Longrightarrow> queueIdForTask qm t \<noteq> []"
  using findTaskOwner_ok(1,2) by (fastforce simp: queueIdForTask_def DEFAULT_QUEUE_ID_def split: option.splits)

lemma onOwner_ok:
  assumes "store_ok qm" "onOwner env qm t body = Inr (x, qm')" "task_mutation (withRow t body) {}"
  shows "store_ok qm'"
proof -
  obtain q r where q: "findTaskOwner qm t = Some (q, r)" "commitMutation env qm q (withRow t body) = Inr (x, qm')"
    using assms(2) by (auto simp: onOwner_def split: option.splits)
  show ?thesis by (rule task_mutation.commit_ok [OF assms(3,1) findTaskOwner_ok(1) [OF assms(1) q(1)] q(2)]) simp
qed

text \<open>A move takes the task out of one queue and files it in the other.\<close>

lemma moveMutation_Inr:
  assumes "moveMutation env t src tgt pos cur = Inr (states, x)"
  shows "\<exists>fresh k. let source = queueIn (clock env) cur src; dest = queueIn (clock env) cur tgt; slot = insertSlot dest k in
     findRequest t (qRequests source) = Some fresh \<and> frStatus fresh = StPending \<and> knownQueue env tgt \<and>
     0 \<le> k \<and> k \<le> int (length (pendingRows dest)) \<and> (\<forall>p. pos = Some p \<longrightarrow> k = p) \<and> (pos = None \<longrightarrow> k = int (length (pendingRows dest))) \<and>
     x = fresh\<lparr>frQueueId := tgt, frPosition := slot, frUpdatedAt := clock env\<rparr> \<and>
     states = AList.update tgt (dest\<lparr>qRequests := map (makeRoom slot (clock env)) (qRequests dest) @ [x]\<rparr>)
       (AList.update src (source\<lparr>qRequests := filter (\<lambda>r. frId r \<noteq> t) (qRequests source)\<rparr>) cur)"
  using assms by (auto simp: moveMutation_def Let_def split: if_splits option.splits)

lemma makeRoom_simps [simp]: "frId (makeRoom s now r) = frId r" "frQueueId (makeRoom s now r) = frQueueId r"
  "frStatus (makeRoom s now r) = frStatus r"
  by (simp_all add: makeRoom_def)

lemma queueIn_getQueue: "queueIn now (map (\<lambda>(q, p). (q, ensureExtendedQueueShape p)) qm) q = getQueue now qm q"
  by (simp add: queueIn_def getQueue_def map_of_map [unfolded comp_def] split: option.split)

lemma updateQueueMap_move:
  assumes "updateQueueMap env qm ids (moveMutation env t src tgt pos) = Inr (x, qm')"
  shows "\<exists>fresh k. let source = getQueue (clock env) qm src; dest = getQueue (clock env) qm tgt; slot = insertSlot dest k in
     findRequest t (qRequests source) = Some fresh \<and> frStatus fresh = StPending \<and> knownQueue env tgt \<and>
     0 \<le> k \<and> k \<le> int (length (pendingRows dest)) \<and> (\<forall>p. pos = Some p \<longrightarrow> k = p) \<and> (pos = None \<longrightarrow> k = int (length (pendingRows dest))) \<and>
     x = fresh\<lparr>frQueueId := tgt, frPosition := slot, frUpdatedAt := clock env\<rparr> \<and>
     qm' = map (\<lambda>(q, s). (q, commitQueue (clock env) s)) (AList.update tgt (dest\<lparr>qRequests := map (makeRoom slot (clock env)) (qRequests dest) @ [x]\<rparr>)
       (AList.update src (source\<lparr>qRequests := filter (\<lambda>r. frId r \<noteq> t) (qRequests source)\<rparr>)
         (map (\<lambda>(q, p). (q, ensureExtendedQueueShape p)) qm)))"
proof -
  obtain states where st: "moveMutation env t src tgt pos (map (\<lambda>(q, p). (q, ensureExtendedQueueShape p)) qm) = Inr (states, x)"
    and qm': "qm' = map (\<lambda>(q, s). (q, commitQueue (clock env) s)) states"
    using assms by (auto simp: updateQueueMap_def err_simps split: if_splits option.splits)
  from moveMutation_Inr [OF st] show ?thesis unfolding qm' Let_def queueIn_getQueue by blast
qed


lemma commit_ids: "filed q (qRequests s) \<Longrightarrow> taskIds (commitQueue now s) = frId ` set (qRequests s)"
  using compact_rows(2) by (metis commitQueue_written list.set_map persist_simps(1) taskIds_def written_simps(1))

lemma map_of_commit: "map_of (map (\<lambda>(q, s). (q, commitQueue now s)) states) q = map_option (commitQueue now) (map_of states q)"
  by (simp add: map_of_map [unfolded comp_def])

lemma commit_states_ok:
  assumes "distinct (map fst states)"
    and f: "\<And>q s. map_of states q = Some s \<Longrightarrow> filed q (qRequests s) \<and> slot_ok s"
    and d: "\<And>q q' s s' i. map_of states q = Some s \<Longrightarrow> map_of states q' = Some s' \<Longrightarrow>
      i \<in> frId ` set (qRequests s) \<Longrightarrow> i \<in> frId ` set (qRequests s') \<Longrightarrow> q = q'"
  shows "store_ok (map (\<lambda>(q, s). (q, commitQueue now s)) states)"
proof -
  have "\<exists>t. commitQueue now s = persist t \<and> queue_shape q t \<and> slot_ok t" if "map_of states q = Some s" for q s
    using f [OF that] written_shape [of q s now] written_slot [of q s now] commitQueue_written by blast
  moreover have "q = q'" if m: "map_of states q = Some s" "map_of states q' = Some s'"
    and ne: "taskIds (commitQueue now s) \<inter> taskIds (commitQueue now s') \<noteq> {}" for q q' s s'
  proof -
    obtain i where "i \<in> taskIds (commitQueue now s)" "i \<in> taskIds (commitQueue now s')" using ne by blast
    then show ?thesis
      using d [OF m] commit_ids [of q s now] commit_ids [of q' s' now] f [OF m(1)] f [OF m(2)] by simp
  qed
  moreover have "distinct (map fst (map (\<lambda>(q, s). (q, commitQueue now s)) states))"
    using assms(1) by (simp add: comp_def case_prod_beta')
  ultimately show ?thesis unfolding store_ok_def map_of_commit map_option_eq_Some by blast
qed

lemma read_states:
  assumes "store_ok qm" "map_of (map (\<lambda>(q, p). (q, ensureExtendedQueueShape p)) qm) q = Some s"
  shows "queue_shape q s" "slot_ok s" "\<exists>p. map_of qm q = Some p \<and> taskIds p = frId ` set (qRequests s)"
proof -
  obtain p where p: "map_of qm q = Some p" "s = ensureExtendedQueueShape p"
    using assms(2) by (auto simp: map_of_map [unfolded comp_def])
  obtain t where t: "p = persist t" "queue_shape q t" "slot_ok t" using assms(1) p(1) unfolding store_ok_def by blast
  then have "s = t" using p(2) by simp
  then show "queue_shape q s" "slot_ok s" "\<exists>p. map_of qm q = Some p \<and> taskIds p = frId ` set (qRequests s)"
    using t p(1) by (auto simp: taskIds_def)
qed

lemma move_ok:
  assumes ok: "store_ok qm" and ne: "src \<noteq> tgt" "src \<noteq> []" "tgt \<noteq> []"
    and mv: "updateQueueMap env qm ids (moveMutation env t src tgt pos) = Inr (x, qm')"
  shows "store_ok qm'"
proof -
  define S where "S = getQueue (clock env) qm src"
  define D where "D = getQueue (clock env) qm tgt"
  define R where "R = map (\<lambda>(q, p). (q, ensureExtendedQueueShape p)) qm"
  obtain fresh slot where f: "findRequest t (qRequests S) = Some fresh" "frStatus fresh = StPending"
    and x: "x = fresh\<lparr>frQueueId := tgt, frPosition := slot, frUpdatedAt := clock env\<rparr>"
    and qm': "qm' = map (\<lambda>(q, s). (q, commitQueue (clock env) s))
       (AList.update tgt (D\<lparr>qRequests := map (makeRoom slot (clock env)) (qRequests D) @ [x]\<rparr>)
         (AList.update src (S\<lparr>qRequests := filter (\<lambda>r. frId r \<noteq> t) (qRequests S)\<rparr>) R))"
    using updateQueueMap_move [OF mv] unfolding Let_def S_def D_def R_def by blast
  note fr = find_in [OF f(1)]
  note SS = getQueue_ok [OF ok ne(2), of "clock env", folded S_def]
  note DD = getQueue_ok [OF ok ne(3), of "clock env", folded D_def]
  have uniq: "q = src" if m: "map_of R q = Some s" and i: "t \<in> frId ` set (qRequests s)" for q s
  proof -
    obtain p where p: "map_of qm q = Some p" "t \<in> taskIds p"
      using read_states(3) [OF ok m [unfolded R_def]] i by auto
    have "t \<in> frId ` set (qRequests S)" using fr by auto
    then obtain p' where p': "map_of qm src = Some p'" "t \<in> taskIds p'"
      using getQueue_ids [OF ok ne(2), of t "clock env"] by (auto simp: S_def)
    show ?thesis using ok p p' unfolding store_ok_def by blast
  qed
  have tD: "t \<notin> frId ` set (qRequests D)"
  proof
    assume "t \<in> frId ` set (qRequests D)"
    then obtain p where p: "map_of qm tgt = Some p" "t \<in> taskIds p"
      using getQueue_ids [OF ok ne(3), of t "clock env"] by (auto simp: D_def)
    have "map_of R tgt = Some D" using p(1) by (simp add: R_def D_def getQueue_def map_of_map [unfolded comp_def])
    from uniq [OF this \<open>t \<in> frId ` set (qRequests D)\<close>] ne(1) show False by simp
  qed
  show ?thesis unfolding qm'
  proof (rule commit_states_ok)
    show "distinct (map fst (AList.update tgt (D\<lparr>qRequests := map (makeRoom slot (clock env)) (qRequests D) @ [x]\<rparr>)
         (AList.update src (S\<lparr>qRequests := filter (\<lambda>r. frId r \<noteq> t) (qRequests S)\<rparr>) R)))"
      using ok by (intro distinct_update) (simp_all add: R_def store_ok_def comp_def case_prod_beta')
  next
    fix q s
    assume "map_of (AList.update tgt (D\<lparr>qRequests := map (makeRoom slot (clock env)) (qRequests D) @ [x]\<rparr>)
         (AList.update src (S\<lparr>qRequests := filter (\<lambda>r. frId r \<noteq> t) (qRequests S)\<rparr>) R)) q = Some s"
    then show "filed q (qRequests s) \<and> slot_ok s"
      using SS DD tD fr f(2) read_states [OF ok, of q s] ne(1)
      by (auto simp: update_conv' R_def queue_shape_def filed_filter slot_subset split: if_splits)
         (auto simp: filed_def x comp_def slot_ok_def)
  next
    fix q q' s s' i
    let ?T = "AList.update tgt (D\<lparr>qRequests := map (makeRoom slot (clock env)) (qRequests D) @ [x]\<rparr>)
         (AList.update src (S\<lparr>qRequests := filter (\<lambda>r. frId r \<noteq> t) (qRequests S)\<rparr>) R)"
    assume "map_of ?T q = Some s" "map_of ?T q' = Some s'" "i \<in> frId ` set (qRequests s)" "i \<in> frId ` set (qRequests s')"
    moreover have "map_of ?T q = Some s \<Longrightarrow> i \<in> frId ` set (qRequests s) \<Longrightarrow>
        (if i = t then q = tgt else \<exists>p. map_of qm q = Some p \<and> i \<in> taskIds p)" for q s
      using getQueue_ids [OF ok ne(2), of i "clock env"] getQueue_ids [OF ok ne(3), of i "clock env"] uniq [of q s]
        read_states(3) [OF ok, of q s] fr x
      by (auto simp: update_conv' S_def D_def R_def split: if_splits) (metis image_eqI)
    ultimately show "q = q'" using ok unfolding store_ok_def by (metis IntI empty_iff)
  qed
qed

end
