(* ===== verification/QueueSteps.thy ===== *)
theory QueueSteps
  imports QueueInvariant
begin

text \<open>
  The operations of the queue manager as steps on the queue map, each with the lemma that it keeps
  the invariant.  \<open>env\<close> may change from step to step: claims, fences, primacy, the registry and the
  clock are whatever they are when the operation runs.
\<close>

definition names_ok :: "StoreEnv \<Rightarrow> bool" where
  "names_ok env \<longleftrightarrow> (\<forall>q. knownQueue env q \<longrightarrow> q \<noteq> [])"

definition freshTask :: "QueueMap \<Rightarrow> string \<Rightarrow> bool" where
  "freshTask qm i \<longleftrightarrow> (\<forall>q p. map_of qm q = Some p \<longrightarrow> i \<notin> taskIds p)"

lemma enqueue_Inr:
  "enqueue env dq qm uuid d tgt pos occ = Inr (r, qm') \<longleftrightarrow>
     (let qid = targetQueue dq tgt; found = existingOccurrence occ (qRequests (getQueue (clock env) qm qid)) in
      \<exists>v. validateDescription d = Some v \<and>
        (found = Some r \<and> qm' = qm \<or> found = None \<and> knownQueue env qid \<and>
         commitMutation env qm qid (insertMutation qid (newRequest uuid v qid pos occ (clock env)) pos (clock env)) = Inr (r, qm')))"
  by (auto simp: enqueue_def insertPendingRequest_def Let_def split: option.splits)

lemma newRequest_simps [simp]: "frId (newRequest uuid v qid pos occ now) = uuid" "frStatus (newRequest uuid v qid pos occ now) = StPending"
  by (simp_all add: newRequest_def)

lemma enqueue_ok:
  assumes ok: "store_ok qm" and "names_ok env" "freshTask qm uuid" "enqueue env dq qm uuid d tgt pos occ = Inr (r, qm')"
  shows "store_ok qm'"
proof (cases "qm' = qm")
  case False
  then obtain qid req where q: "qid \<noteq> []" "frId req = uuid" "frStatus req = StPending"
    "commitMutation env qm qid (insertMutation qid req pos (clock env)) = Inr (r, qm')"
    using assms(2,4) unfolding enqueue_Inr Let_def names_ok_def by (metis newRequest_simps)
  then obtain s where s: "insertMutation qid req pos (clock env) (getQueue (clock env) qm qid) = Inr (s, r)"
    "qm' = AList.update qid (commitQueue (clock env) s) qm"
    by (auto simp: commitMutation_Inr)
  note g = getQueue_ok [OF ok q(1), of "clock env"]
  have nw: "uuid \<notin> frId ` set (qRequests (getQueue (clock env) qm qid))"
    using getQueue_ids [OF ok q(1)] assms(3) unfolding freshTask_def by blast
  have st: "frStatus req \<noteq> StInFlight" using q(3) by simp
  note ins = insert_contract [OF s(1) st]
  show ?thesis unfolding s(2)
  proof (rule store_ok_update [OF ok])
    show "filed qid (qRequests s)" using ins(1) g(1) nw q(2) by (simp add: queue_shape_def)
    show "slot_ok s" using ins(3) g(2) by simp
    fix i q' p' assume i: "i \<in> frId ` set (qRequests s)" "map_of qm q' = Some p'" "i \<in> taskIds p'"
    then have "i \<noteq> uuid" using assms(3) by (auto simp: freshTask_def)
    then have "i \<in> frId ` set (qRequests (getQueue (clock env) qm qid))" using i(1) ins(2) q(2) by auto
    then obtain p where "map_of qm qid = Some p" "i \<in> taskIds p" using getQueue_ids [OF ok q(1)] by blast
    then show "q' = qid" using ok i(2,3) unfolding store_ok_def by blast
  qed
qed (use ok in simp)

text \<open>A commit of a mutation that adds no task.\<close>

lemma commit_keeps:
  assumes "task_mutation mut {}" "store_ok qm" "q \<noteq> []" "commitMutation env qm q mut = Inr (r, qm')"
  shows "store_ok qm'"
  by (rule task_mutation.commit_ok [OF assms]) simp

lemma taskTransition_ok:
  assumes "store_ok qm" "task_mutation mut {}"
    "taskTransition qm (commitMutation env qm (queueIdForTask qm t) mut) = (out, qm')"
  shows "store_ok qm'"
  using assms(3) commit_keeps [OF assms(2,1) queueIdForTask_ne [OF assms(1)]] assms(1)
  by (auto simp: taskTransition_def split: sum.splits prod.splits QueueReject.splits)

lemma transitions_ok:
  assumes "store_ok qm"
  shows "markInFlight env qm t rid = Inr (u, qm') \<Longrightarrow> store_ok qm'"
    "finish env qm runs t st err = (out, qm') \<Longrightarrow> store_ok qm'"
    "attestCompleted env qm t = (out, qm') \<Longrightarrow> store_ok qm'"
    "pause env qm t c keep = (out, qm') \<Longrightarrow> store_ok qm'"
    "retry env qm runs t ended = (out, qm') \<Longrightarrow> store_ok qm'"
proof -
  note ne = queueIdForTask_ne [OF assms]
  show "markInFlight env qm t rid = Inr (u, qm') \<Longrightarrow> store_ok qm'"
    unfolding markInFlight_def by (rule commit_keeps [OF mark.task_mutation_axioms assms ne])
  show "finish env qm runs t st err = (out, qm') \<Longrightarrow> store_ok qm'"
    unfolding finish_def by (rule taskTransition_ok [OF assms finish_m.task_mutation_axioms])
  show "attestCompleted env qm t = (out, qm') \<Longrightarrow> store_ok qm'"
    unfolding attestCompleted_def by (rule taskTransition_ok [OF assms attest.task_mutation_axioms])
  show "pause env qm t c keep = (out, qm') \<Longrightarrow> store_ok qm'"
    unfolding pause_def by (rule taskTransition_ok [OF assms pause_m.task_mutation_axioms])
  show "retry env qm runs t ended = (out, qm') \<Longrightarrow> store_ok qm'"
    using assms commit_keeps [OF retry_m.task_mutation_axioms assms ne]
    by (auto simp: retry_def split: if_splits sum.splits prod.splits QueueReject.splits TaskTransitionRejection.splits)
qed

lemma task_writers_ok:
  assumes "store_ok qm"
  shows "removeRequest env qm t = Inr (r, qm') \<Longrightarrow> store_ok qm'"
    "modifyPendingRequest env qm t d = Inr (r, qm') \<Longrightarrow> store_ok qm'"
    "reorderPendingRequest env qm t k = Inr (r, qm') \<Longrightarrow> store_ok qm'"
  unfolding removeRequest_def modifyPendingRequest_def reorderPendingRequest_def
  by (erule onOwner_ok [OF assms], rule remove_m.task_mutation_axioms,
      erule onOwner_ok [OF assms], rule modify_m.task_mutation_axioms,
      erule onOwner_ok [OF assms], rule reorder_m.task_mutation_axioms)

lemma move_task_ok:
  assumes "store_ok qm" "names_ok env" "movePendingRequest env qm t tgt pos = Inr (r, qm')"
  shows "store_ok qm'"
proof -
  have ne: "tgt \<noteq> []" using assms(2,3) by (auto simp: movePendingRequest_def names_ok_def split: if_splits)
  obtain src row where o: "findTaskOwner qm t = Some (src, row)"
    using assms(3) by (auto simp: movePendingRequest_def split: if_splits option.splits)
  show ?thesis
    using assms(3) o task_writers_ok(3) [OF assms(1)] move_ok [OF assms(1) _ findTaskOwner_ok(1) [OF assms(1) o] ne]
    by (auto simp: movePendingRequest_def Let_def split: if_splits) 
qed

lemma setQueuePausedState_map:
  "setQueuePausedState env qm runs b q reason src pr = (out, qm', runs') \<Longrightarrow>
     qm' = qm \<or> knownQueue env q \<and> (\<exists>lc u. commitMutation env qm q (holdMutation b src reason lc) = Inr (u, qm'))"
  by (auto simp: setQueuePausedState_def Let_def split: if_splits sum.splits prod.splits)

lemma queue_writers_ok:
  assumes "store_ok qm" "names_ok env"
  shows "setQueuePausedState env qm runs b q reason src pr = (out, qm', runs') \<Longrightarrow> store_ok qm'"
    "cascadedPause env qm q = (out, qm') \<Longrightarrow> store_ok qm'"
    "cascadedResume env qm q = (out, qm') \<Longrightarrow> store_ok qm'"
    "setFailurePolicy env qm q pol = (out, qm') \<Longrightarrow> store_ok qm'"
proof -
  have pz: "commitMutation env qm q (\<lambda>c. Inr (pausedFields s r c, ())) = Inr (u, m) \<Longrightarrow> store_ok m" if "q \<noteq> []" for s r u m
    by (rule commit_keeps [OF pausing.task_mutation_axioms assms(1) that])
  have rl: "commitMutation env qm q (\<lambda>c. Inr (releasedFields lc c, ())) = Inr (u, m) \<Longrightarrow> store_ok m" if "q \<noteq> []" for lc u m
    by (rule commit_keeps [OF releasing.task_mutation_axioms assms(1) that])
  have po: "commitMutation env qm q (\<lambda>c. Inr (c\<lparr>qFailurePolicy := pol\<rparr>, ())) = Inr (u, m) \<Longrightarrow> store_ok m" if "q \<noteq> []" for u m
    by (rule commit_keeps [OF policy_m.task_mutation_axioms assms(1) that])
  show "setQueuePausedState env qm runs b q reason src pr = (out, qm', runs') \<Longrightarrow> store_ok qm'"
    using setQueuePausedState_map [of env qm runs b q reason src pr out qm' runs'] assms
      commit_keeps [OF hold_m.task_mutation_axioms assms(1)] by (auto simp: names_ok_def)
  show "cascadedPause env qm q = (out, qm') \<Longrightarrow> store_ok qm'"
    using assms pz by (auto simp: cascadedPause_def names_ok_def split: if_splits sum.splits prod.splits)
  show "cascadedResume env qm q = (out, qm') \<Longrightarrow> store_ok qm'"
    using assms rl by (auto simp: cascadedResume_def Let_def names_ok_def split: if_splits sum.splits prod.splits)
  show "setFailurePolicy env qm q pol = (out, qm') \<Longrightarrow> store_ok qm'"
    using assms po by (auto simp: setFailurePolicy_def names_ok_def split: if_splits sum.splits prod.splits)
qed

lemma clearByStatus_ok:
  assumes "store_ok qm" "names_ok env" "knownQueue env q" "clearByStatus env qm runs st q = (res, qm', runs')"
  shows "store_ok qm'"
proof (cases "commitMutation env qm q (clearMutation st)")
  case (Inr x)
  obtain n m where x: "x = (n, m)" by force
  have "q \<noteq> []" using assms(2,3) by (simp add: names_ok_def)
  then have m: "store_ok m" using commit_keeps [OF clear_m.task_mutation_axioms assms(1)] Inr x by blast
  have "store_ok m2" if "setQueuePausedState env m runs False q None PsOperator None = (o2, m2, r2)" for o2 m2 r2
    by (rule queue_writers_ok(1) [OF m assms(2) that])
  then show ?thesis using assms(4) Inr x m by (auto simp: clearByStatus_def split: if_splits prod.splits)
qed (use assms in \<open>simp add: clearByStatus_def\<close>)

lemma clearQueue_map:
  "clearQueue env qm runs q probe = (out, qm', runs') \<Longrightarrow> qm' = qm \<or> knownQueue env q \<and>
     (\<exists>u qm1. commitMutation env qm q (\<lambda>queue. Inr (queueReset queue (clock env) ReleasePause, ())) = Inr (u, qm1) \<and>
        (qm' = qm1 \<or> (\<exists>p runs1. probe = Some p \<and> qm' = fst (snd (p (qm1, runs1))))))"
  by (auto simp: clearQueue_def clearWait_def Let_def split: if_splits sum.splits prod.splits option.splits) (metis fst_conv snd_conv)+

text \<open>The clear keeps the queue map sound when the wait does.\<close>

lemma clearQueue_ok:
  assumes "store_ok qm" "names_ok env" "clearQueue env qm runs q probe = (out, qm', runs')"
    and wait: "\<And>p m r. probe = Some p \<Longrightarrow> store_ok m \<Longrightarrow> store_ok (fst (snd (p (m, r))))"
  shows "store_ok qm'"
proof (cases "qm' = qm")
  case False
  then obtain u qm1 where k: "knownQueue env q" and
    u: "commitMutation env qm q (\<lambda>queue. Inr (queueReset queue (clock env) ReleasePause, ())) = Inr (u, qm1)" and
    w: "qm' = qm1 \<or> (\<exists>p runs1. probe = Some p \<and> qm' = fst (snd (p (qm1, runs1))))"
    using clearQueue_map [OF assms(3)] by blast
  have "q \<noteq> []" using assms(2) k by (simp add: names_ok_def)
  then have "store_ok qm1" by (rule commit_keeps [OF reset_m.task_mutation_axioms assms(1) _ u])
  then show ?thesis using w wait by blast
qed (use assms(1) in simp)

lemma reorder_ok:
  assumes "store_ok qm"
  shows "reorderTaskInUnifiedQueue env qm t k = (res, qm') \<Longrightarrow> store_ok qm'"
    "move env qm t k = (out, qm') \<Longrightarrow> store_ok qm'"
proof -
  have "snd (reorderTaskInUnifiedQueue env qm t k) = qm \<or> (\<exists>j r. reorderPendingRequest env qm t j = Inr (r, snd (reorderTaskInUnifiedQueue env qm t k)))" for k
    by (auto simp: reorderTaskInUnifiedQueue_def Let_def split: option.splits sum.splits prod.splits QueueReject.splits)
  then have r: "store_ok (snd (reorderTaskInUnifiedQueue env qm t k))" for k
    using task_writers_ok(3) [OF assms] assms by metis
  show "reorderTaskInUnifiedQueue env qm t k = (res, qm') \<Longrightarrow> store_ok qm'" using r [of k] by simp
  have "snd (move env qm t k) = qm \<or> (\<exists>j. snd (move env qm t k) = snd (reorderTaskInUnifiedQueue env qm t j))"
    by (auto simp: move_def Let_def split: sum.splits prod.splits ReorderCause.splits) (metis snd_conv)+
  then show "move env qm t k = (out, qm') \<Longrightarrow> store_ok qm'" using r assms by (metis snd_conv)
qed

subsection \<open>The step relation\<close>

text \<open>While \<open>clearQueue\<close> waits for the runner's acknowledgement, other steps may run.\<close>

inductive queue_step :: "QueueMap \<Rightarrow> QueueMap \<Rightarrow> bool" where
  enqueue: "names_ok env \<Longrightarrow> freshTask qm uuid \<Longrightarrow> enqueue env dq qm uuid d tgt pos occ = Inr (r, qm') \<Longrightarrow> queue_step qm qm'"
| mark: "markInFlight env qm t rid = Inr (u, qm') \<Longrightarrow> queue_step qm qm'"
| finish: "finish env qm runs t st err = (out, qm') \<Longrightarrow> queue_step qm qm'"
| attest: "attestCompleted env qm t = (out, qm') \<Longrightarrow> queue_step qm qm'"
| pause: "pause env qm t c keep = (out, qm') \<Longrightarrow> queue_step qm qm'"
| retry: "retry env qm runs t ended = (out, qm') \<Longrightarrow> queue_step qm qm'"
| remove: "removeRequest env qm t = Inr (r, qm') \<Longrightarrow> queue_step qm qm'"
| modify: "modifyPendingRequest env qm t d = Inr (r, qm') \<Longrightarrow> queue_step qm qm'"
| reorder: "reorderTaskInUnifiedQueue env qm t k = (res, qm') \<Longrightarrow> queue_step qm qm'"
| move_by: "move env qm t k = (out, qm') \<Longrightarrow> queue_step qm qm'"
| move_to: "names_ok env \<Longrightarrow> moveTask env qm t tgt pos owned = (out, qm') \<Longrightarrow> queue_step qm qm'"
| hold: "names_ok env \<Longrightarrow> setQueuePausedState env qm runs b q reason src pr = (out, qm', runs') \<Longrightarrow> queue_step qm qm'"
| cascade_pause: "names_ok env \<Longrightarrow> cascadedPause env qm q = (out, qm') \<Longrightarrow> queue_step qm qm'"
| cascade_resume: "names_ok env \<Longrightarrow> cascadedResume env qm q = (out, qm') \<Longrightarrow> queue_step qm qm'"
| policy: "names_ok env \<Longrightarrow> setFailurePolicy env qm q pol = (out, qm') \<Longrightarrow> queue_step qm qm'"
| clear_status: "names_ok env \<Longrightarrow> knownQueue env q \<Longrightarrow> clearByStatus env qm runs st q = (res, qm', runs') \<Longrightarrow> queue_step qm qm'"
| clear_queue: "names_ok env \<Longrightarrow> (\<And>p m r. probe = Some p \<Longrightarrow> queue_step\<^sup>*\<^sup>* m (fst (snd (p (m, r)))))
    \<Longrightarrow> clearQueue env qm runs q probe = (out, qm', runs') \<Longrightarrow> queue_step qm qm'"

lemma moveTask_ok: "store_ok qm \<Longrightarrow> names_ok env \<Longrightarrow> moveTask env qm t tgt pos owned = (out, qm') \<Longrightarrow> store_ok qm'"
  using move_task_ok by (fastforce simp: moveTask_def split: if_splits sum.splits prod.splits)

lemma keeps_steps: "(\<lambda>a b. queue_step a b \<and> (store_ok a \<longrightarrow> store_ok b))\<^sup>*\<^sup>* m m' \<Longrightarrow> store_ok m \<Longrightarrow> store_ok m'"
  by (induction rule: rtranclp_induct) auto

lemma queue_step_ok: "queue_step qm qm' \<Longrightarrow> store_ok qm \<Longrightarrow> store_ok qm'"
proof (induction rule: queue_step.induct)
  case (clear_queue env probe qm runs q out qm' runs')
  then show ?case by (intro clearQueue_ok [of qm env runs q probe out qm' runs']) (blast intro: keeps_steps)+
qed (blast intro: enqueue_ok transitions_ok task_writers_ok reorder_ok moveTask_ok queue_writers_ok clearByStatus_ok)+

lemma queue_steps_ok: "queue_step\<^sup>*\<^sup>* qm qm' \<Longrightarrow> store_ok qm \<Longrightarrow> store_ok qm'"
  by (induction rule: rtranclp_induct) (auto intro: queue_step_ok)

lemma store_ok_empty [simp]: "store_ok []"
  by (simp add: store_ok_def)

end
