(* ===== verification/QueueRefinement.thy ===== *)
theory QueueRefinement
  imports QueueSteps
begin

text \<open>
  The operations refine operations on the abstract view of a queue, the list of task ids in position
  order: an insertion is an insertion into that list, a removal a removal, a reordering permutes the
  pending tasks within their places, and a status change leaves it alone.
\<close>

lemma shift_dense:
  assumes "dense rs" "distinct (map frId rs)"
  shows "map (shiftRow (map_of (rev (zip (map frId (sort_key frPosition rs)) (map int [0..<length (sort_key frPosition rs)])))) k now) rs
    = map (makeRoom k now) rs"
  using denseIndex_eq [OF assms] by (intro map_cong) (auto simp: shiftRow_def makeRoom_def rows_def)

lemma makeRoom_position: "frPosition (makeRoom (int k) now r) = (if int k \<le> frPosition r then frPosition r + 1 else frPosition r)"
  by (simp add: makeRoom_def)

lemma room_rows:
  assumes "dense rs" "frPosition x = int k" "k \<le> length rs"
  shows "rows (map (makeRoom (int k) now) rs @ [x]) = map (makeRoom (int k) now) (take k (rows rs)) @ [x] @ map (makeRoom (int k) now) (drop k (rows rs))"
  by (rule insert_rows [OF assms makeRoom_position])

lemma insertMutation_order:
  assumes q: "queue_shape qid q" and ins: "insertMutation qid req pos now q = Inr (q', r)"
    and new: "frId req \<notin> frId ` set (qRequests q)" "frStatus req \<noteq> StInFlight"
  defines "k \<equiv> (case pos of Some p \<Rightarrow> nat p | None \<Rightarrow> length (qRequests q))"
  shows "queueOrder (written now' q') = insertAtIndex k (frId req) (queueOrder q)"
proof -
  have f: "filed qid (qRequests q')" using insert_contract(1) [OF ins new(2)] q new(1) by (simp add: queue_shape_def)
  have d: "dense (qRequests q)" "distinct (map frId (qRequests q))" using q by (auto simp: queue_shape_def filed_def)
  have rs: "qRequests q' = map (makeRoom (int k) now) (qRequests q) @ [r]" "frPosition r = int k" "frId r = frId req" "k \<le> length (qRequests q)"
    using ins unfolding insertMutation_def Let_def shift_dense [OF d]
    by (auto simp: k_def split: if_splits option.splits)
  show ?thesis
    unfolding written_order(1) [OF f] rs(1) room_rows [OF d(1) rs(2,4)]
    by (simp add: insertAtIndex_def queueOrder_def take_map drop_map rs(3) comp_def)
qed

lemma filter_nth_place:
  "k < length (filter P s) \<Longrightarrow> \<exists>j < length s. s ! j = filter P s ! k \<and> P (s ! j) \<and> filter P (take j s) = take k (filter P s)"
proof (induction s arbitrary: k)
  case (Cons x s)
  show ?case
  proof (cases "P x")
    case True
    show ?thesis
    proof (cases k)
      case 0
      then show ?thesis using True by (intro exI [of _ 0]) simp
    next
      case (Suc k')
      then obtain j where "j < length s" "s ! j = filter P s ! k'" "P (s ! j)" "filter P (take j s) = take k' (filter P s)"
        using Cons.IH [of k'] Cons.prems True by auto
      then show ?thesis using True Suc by (intro exI [of _ "Suc j"]) simp
    qed
  next
    case False
    then obtain j where "j < length s" "s ! j = filter P s ! k" "P (s ! j)" "filter P (take j s) = take k (filter P s)"
      using Cons.IH [of k] Cons.prems by auto
    then show ?thesis using False by (intro exI [of _ "Suc j"]) simp
  qed
qed simp

lemma filter_drop_place: "filter P (take j s) = take k (filter P s) \<Longrightarrow> k \<le> length (filter P s) \<Longrightarrow> filter P (drop j s) = drop k (filter P s)"
  by (metis append_eq_conv_conj append_take_drop_id filter_append length_take min.absorb2)

text \<open>The slot of the k-th pending place splits the rows into those before and after it.\<close>

lemma insertSlot_place:
  assumes "dense (qRequests q)" "0 \<le> k" "k \<le> int (length (pendingRows q))"
  shows "\<exists>j. insertSlot q k = int j \<and> j \<le> length (qRequests q) \<and>
    filter (\<lambda>r. frStatus r = StPending) (take j (rows (qRequests q))) = take (nat k) (pendingRows q)"
proof -
  let ?P = "\<lambda>r. frStatus r = StPending" and ?s = "rows (qRequests q)"
  have pr: "pendingRows q = filter ?P ?s" by (rule pendingRows_rows)
  consider (at) "nat k < length (pendingRows q)" | (none) "pendingRows q = []" | (last) "nat k = length (pendingRows q)" "pendingRows q \<noteq> []"
    using assms(3) by linarith
  then show ?thesis
  proof cases
    case at
    then obtain j where j: "j < length ?s" "?s ! j = pendingRows q ! nat k" "filter ?P (take j ?s) = take (nat k) (pendingRows q)"
      using filter_nth_place [of "nat k" ?P ?s] pr by auto
    have "frPosition (?s ! j) = int j" using j(1) assms(1) by (intro dense_nth) simp_all
    then show ?thesis using at j by (intro exI [of _ j]) (simp add: insertSlot_def)
  next
    case none
    then show ?thesis using pr assms(3) by (intro exI [of _ "length (qRequests q)"]) (simp add: insertSlot_def)
  next
    case last
    let ?l = "length (pendingRows q) - 1"
    obtain j where j: "j < length ?s" "?s ! j = pendingRows q ! ?l" "?P (?s ! j)" "filter ?P (take j ?s) = take ?l (pendingRows q)"
      using filter_nth_place [of ?l ?P ?s] pr last(2) by auto
    have "frPosition (?s ! j) = int j" using j(1) assms(1) by (intro dense_nth) simp_all
    moreover have "filter ?P (take (Suc j) ?s) = pendingRows q"
    proof -
      have "filter ?P (take (Suc j) ?s) = take ?l (pendingRows q) @ [pendingRows q ! ?l]"
        using j by (simp add: take_Suc_conv_app_nth)
      also have "\<dots> = pendingRows q" using last(2) by (simp add: take_Suc_conv_app_nth [symmetric])
      finally show ?thesis .
    qed
    ultimately show ?thesis using last j(1,2)
      by (intro exI [of _ "Suc j"]) (simp add: insertSlot_def last_conv_nth)
  qed
qed

subsection \<open>Reordering\<close>

abbreviation pend :: "FeatureRequest \<Rightarrow> bool" where
  "pend r \<equiv> frStatus r = StPending"

lemma remove_by_id:
  assumes d: "distinct (map frId rs)" and x: "x \<in> set rs"
  shows "mset rs = add_mset x (mset (filter (\<lambda>r. frId r \<noteq> frId x) rs))"
proof -
  obtain ys zs where rs: "rs = ys @ x # zs" using x by (meson split_list)
  let ?P = "\<lambda>r. frId r \<noteq> frId x"
  have "\<forall>y \<in> set ys. ?P y" "\<forall>z \<in> set zs. ?P z" using d unfolding rs by (auto simp: image_iff)
  then have f: "filter ?P ys = ys" "filter ?P zs = zs" by (blast intro: filter_True)+
  have "mset rs = add_mset x (mset (ys @ zs))" by (simp add: rs)
  moreover have "filter ?P rs = filter ?P ys @ filter ?P zs" by (simp add: rs)
  ultimately show ?thesis by (simp only: f)
qed

lemma mset_partition: "mset (filter P rs) + mset (filter (\<lambda>r. \<not> P r) rs) = mset rs"
  by (induction rs) auto

lemma replace_rows:
  assumes d: "distinct (map frId rs)" "distinct (map frId moved)"
    and ids: "mset (map frId moved) = mset (map frId (filter P rs))"
  shows "mset (map (\<lambda>r. case byId moved (frId r) of Some r' \<Rightarrow> r' | None \<Rightarrow> r) rs) = mset (filter (\<lambda>r. \<not> P r) rs) + mset moved"
proof -
  let ?g = "\<lambda>r. case byId moved (frId r) of Some r' \<Rightarrow> r' | None \<Rightarrow> r"
  have sid: "set (map frId moved) = set (map frId (filter P rs))" using ids by (rule mset_eq_setD)
  have "?g r = r" if "r \<in> set (filter (\<lambda>r. \<not> P r) rs)" for r
  proof (cases "byId moved (frId r)")
    case (Some r')
    then have "r' \<in> set moved" "frId r' = frId r" using byId_Some [OF d(2)] by simp_all
    then have "frId r \<in> set (map frId moved)" by (metis imageI set_map)
    then have "frId r \<in> set (map frId (filter P rs))" by (simp only: sid)
    then obtain r2 where "r2 \<in> set rs" "P r2" "frId r2 = frId r" by auto
    then have "r2 = r" using d(1) that by (auto simp: distinct_map inj_on_def)
    then show ?thesis using that \<open>P r2\<close> by simp
  qed simp
  then have a: "map ?g (filter (\<lambda>r. \<not> P r) rs) = filter (\<lambda>r. \<not> P r) rs" by (rule map_idI)
  have g: "?g r = the (byId moved (frId r))" if "r \<in> set (filter P rs)" for r
    using byId_defined [of "frId r" moved] sid that by auto
  have "map ?g (filter P rs) = map (\<lambda>r. the (byId moved (frId r))) (filter P rs)" by (rule map_cong [OF refl g])
  then have b: "mset (map ?g (filter P rs)) = mset moved" by (simp only: mset_lookup_perm [OF d(2) ids])
  have "mset (map ?g rs) = image_mset ?g (mset (filter P rs) + mset (filter (\<lambda>r. \<not> P r) rs))"
    by (simp only: mset_partition mset_map)
  also have "\<dots> = mset (map ?g (filter P rs)) + mset (map ?g (filter (\<lambda>r. \<not> P r) rs))"
    by (simp only: image_mset_union mset_map)
  finally show ?thesis by (simp only: a b add.commute)
qed

lemma reorder_rows_in_order:
  assumes q: "queue_shape qid q" and tg: "tg \<in> set (qRequests q)" "frId tg = t"
    and re: "reorderMutation t pos now tg q = Inr (q', x)"
  shows "\<exists>moved. rows (qRequests q') = refill pend (rows (qRequests q)) moved \<and> length moved = length (pendingRows q) \<and>
    (\<forall>r \<in> set moved. pend r) \<and> map frId moved = insertAtIndex (nat pos) t (filter (\<lambda>i. i \<noteq> t) (pendingOrder q))"
proof -
  define s where "s = rows (qRequests q)"
  define peers where "peers = pendingRows q"
  define R where "R = insertAtIndex (nat pos) tg (filter (\<lambda>r. frId r \<noteq> t) peers)"
  define mv :: "FeatureRequest \<times> int \<Rightarrow> FeatureRequest" where "mv = (\<lambda>(r, slot). if frPosition r = slot then r else r\<lparr>frPosition := slot, frUpdatedAt := now\<rparr>)"
  define moved where "moved = map mv (zip R (map frPosition peers))"
  have d: "distinct (map frId (qRequests q))" "dense (qRequests q)" using q by (auto simp: queue_shape_def filed_def)
  have pe: "peers = filter pend s" by (simp add: peers_def s_def pendingRows_rows)
  have st: "pend tg" and q': "qRequests q' = map (\<lambda>r. case map_of (rev (map (\<lambda>r. (frId r, r)) moved)) (frId r) of Some r' \<Rightarrow> r' | None \<Rightarrow> r) (qRequests q)"
    using re by (auto simp: reorderMutation_def Let_def moved_def R_def peers_def mv_def split: if_splits)
  have tp: "tg \<in> set peers" using st tg(1) by (simp add: pe s_def)
  have dp: "distinct (map frId peers)" using d(1) by (simp add: pe s_def distinct_map_filter)
  have mR: "mset R = mset peers" using remove_by_id [OF dp tp] tg(2) by (simp add: R_def)
  have lR: "length R = length peers" using mR by (metis size_mset)
  have ids: "map frId moved = map frId R"
    by (rule nth_equalityI) (auto simp: moved_def lR mv_def)
  have posn: "map frPosition moved = map frPosition peers"
    by (rule nth_equalityI) (auto simp: moved_def lR mv_def)
  have "pend r" if "r \<in> set R" for r using that mset_eq_setD [OF mR] by (simp add: pe)
  then have pm: "\<forall>r \<in> set moved. pend r" by (auto simp: moved_def mv_def dest: set_zip_leftD)
  have mi: "mset (map frId moved) = mset (map frId peers)" using mR by (simp add: ids)
  have dm: "distinct (map frId moved)" using mi dp mset_eq_imp_distinct_iff by blast
  have bi: "map_of (rev (map (\<lambda>r. (frId r, r)) moved)) i = byId moved i" for i
    using byId_rev [OF dm, of i] by (simp add: byId_def rev_map)
  have mf: "mset (filter pend (qRequests q)) = mset peers" "mset (filter (\<lambda>r. \<not> pend r) (qRequests q)) = mset (filter (\<lambda>r. \<not> pend r) s)"
    by (simp_all add: pe s_def)
  have "mset (map frId moved) = mset (map frId (filter pend (qRequests q)))" using mi mf(1) by simp
  then have ms: "mset (qRequests q') = mset (filter (\<lambda>r. \<not> pend r) s) + mset moved"
    using replace_rows [OF d(1) dm, of pend] mf(2) by (simp add: q' bi)
  have len: "length moved = length (filter pend s)" by (simp add: moved_def lR pe)
  have "rows (qRequests q') = refill pend s moved"
  proof (rule rows_eqI)
    show "mset (refill pend s moved) = mset (qRequests q')" using refill_mset [OF len] ms by simp
    have "map frPosition (refill pend s moved) = map frPosition s" by (rule refill_map) (simp add: posn pe)
    then show "sorted_wrt (<) (map frPosition (refill pend s moved))" using dense_sorted [OF d(2)] by (simp add: s_def)
  qed
  moreover have "map frId R = insertAtIndex (nat pos) t (filter (\<lambda>i. i \<noteq> t) (pendingOrder q))"
    by (simp add: R_def insertAtIndex_def tg(2) pendingOrder_def pe s_def take_map drop_map filter_map comp_def)
  ultimately show ?thesis using pm ids len by (intro exI [of _ moved]) (simp add: s_def pendingRows_rows)
qed

subsection \<open>Moving a task to another queue\<close>

lemma written_same_order:
  assumes "queue_shape q s"
  shows "queueOrder (written now s) = queueOrder s" "pendingOrder (written now s) = pendingOrder s"
  using written_order [of q s now] assms by (simp_all add: queue_shape_def queueOrder_def pendingOrder_def)

lemma getQueue_commit_all:
  "getQueue now' (map (\<lambda>(q, s). (q, commitQueue now s)) states) q
     = (case map_of states q of None \<Rightarrow> bornEmptyQueue now' | Some s \<Rightarrow> ensureExtendedQueueShape (persist (written now s)))"
  by (cases "map_of states q") (simp_all add: getQueue_def map_of_commit, simp add: commitQueue_written)

lemma insertAtIndex_filter_place:
  assumes "filter P (take j s) = take k (filter P s)" "k \<le> length (filter P s)" "P x"
  shows "filter P (take j s @ [x] @ drop j s) = insertAtIndex k x (filter P s)"
  using filter_drop_place [OF assms(1,2)] assms by (simp add: insertAtIndex_def)

lemma map_insertAtIndex: "map f (insertAtIndex k x xs) = insertAtIndex k (f x) (map f xs)"
  by (simp add: insertAtIndex_def take_map drop_map)

lemma entered_order:
  assumes D: "queue_shape tgt D" and x: "frId x \<notin> frId ` set (qRequests D)" "frQueueId x = tgt" "frStatus x = StPending"
    "frPosition x = insertSlot D k" and k: "0 \<le> k" "k \<le> int (length (pendingRows D))"
  shows "\<exists>j \<le> length (qRequests D).
      queueOrder (written now' (D\<lparr>qRequests := map (makeRoom (insertSlot D k) now) (qRequests D) @ [x]\<rparr>)) = insertAtIndex j (frId x) (queueOrder D)"
    "pendingOrder (written now' (D\<lparr>qRequests := map (makeRoom (insertSlot D k) now) (qRequests D) @ [x]\<rparr>)) = insertAtIndex (nat k) (frId x) (pendingOrder D)"
proof -
  let ?rs = "qRequests D" and ?f = "makeRoom (insertSlot D k) now"
  let ?e = "D\<lparr>qRequests := map ?f ?rs @ [x]\<rparr>"
  have d: "dense ?rs" "filed tgt ?rs" using D by (simp_all add: queue_shape_def)
  have fe: "filed tgt (qRequests ?e)" using d(2) x(1,2) by (auto simp: filed_def comp_def)
  obtain j where j: "insertSlot D k = int j" "j \<le> length ?rs" "filter pend (take j (rows ?rs)) = take (nat k) (pendingRows D)"
    using insertSlot_place [OF d(1) k] by blast
  have r: "rows (map ?f ?rs @ [x]) = map ?f (take j (rows ?rs)) @ [x] @ map ?f (drop j (rows ?rs))"
    using room_rows [OF d(1) _ j(2), of x now] x(4) j(1) by simp
  have "queueOrder (written now' ?e) = insertAtIndex j (frId x) (queueOrder D)"
    unfolding written_order(1) [OF fe] by (simp add: r insertAtIndex_def queueOrder_def take_map drop_map comp_def)
  then show "\<exists>j \<le> length ?rs. queueOrder (written now' ?e) = insertAtIndex j (frId x) (queueOrder D)" using j(2) by blast
  have pk: "pendingRows D = filter pend (rows ?rs)" by (rule pendingRows_rows)
  have nk: "nat k \<le> length (filter pend (rows ?rs))" using k by (simp add: pk nat_le_iff)
  have "filter pend (take j (rows ?rs)) = take (nat k) (filter pend (rows ?rs))" using j(3) by (simp add: pk)
  then have dr: "filter pend (drop j (rows ?rs)) = drop (nat k) (filter pend (rows ?rs))" by (rule filter_drop_place [OF _ nk])
  have "map frId (filter pend (rows (map ?f ?rs @ [x])))
      = map frId (filter pend (take j (rows ?rs))) @ [frId x] @ map frId (filter pend (drop j (rows ?rs)))"
    by (simp add: r x(3) filter_map comp_def)
  then show "pendingOrder (written now' ?e) = insertAtIndex (nat k) (frId x) (pendingOrder D)"
    unfolding written_order(2) [OF fe] dr j(3) by (simp add: insertAtIndex_def pendingOrder_def pk take_map drop_map)
qed

lemma move_orders:
  assumes ok: "store_ok qm" and ne: "src \<noteq> tgt" "src \<noteq> []" "tgt \<noteq> []"
    and mv: "updateQueueMap env qm [src, tgt] (moveMutation env t src tgt pos) = Inr (x, qm')"
  defines "S \<equiv> getQueue (clock env) qm src" and "D \<equiv> getQueue (clock env) qm tgt"
  defines "k \<equiv> (case pos of Some p \<Rightarrow> nat p | None \<Rightarrow> length (pendingOrder D))"
  shows "queueOrder (getQueue now qm' src) = filter (\<lambda>i. i \<noteq> t) (queueOrder S)"
    "pendingOrder (getQueue now qm' tgt) = insertAtIndex k t (pendingOrder D)"
    "\<exists>j \<le> length (queueOrder D). queueOrder (getQueue now qm' tgt) = insertAtIndex j t (queueOrder D)"
    "q \<noteq> src \<Longrightarrow> q \<noteq> tgt \<Longrightarrow> queueOrder (getQueue now qm' q) = queueOrder (getQueue now qm q)"
proof -
  define R where "R = map (\<lambda>(q, p). (q, ensureExtendedQueueShape p)) qm"
  obtain fresh i where f: "findRequest t (qRequests S) = Some fresh" "frStatus fresh = StPending"
    and i: "0 \<le> i" "i \<le> int (length (pendingRows D))" "\<forall>p. pos = Some p \<longrightarrow> i = p" "pos = None \<longrightarrow> i = int (length (pendingRows D))"
    and x: "x = fresh\<lparr>frQueueId := tgt, frPosition := insertSlot D i, frUpdatedAt := clock env\<rparr>"
    and qm': "qm' = map (\<lambda>(q, s). (q, commitQueue (clock env) s))
       (AList.update tgt (D\<lparr>qRequests := map (makeRoom (insertSlot D i) (clock env)) (qRequests D) @ [x]\<rparr>)
         (AList.update src (S\<lparr>qRequests := filter (\<lambda>r. frId r \<noteq> t) (qRequests S)\<rparr>) R))"
    using updateQueueMap_move [OF mv] unfolding Let_def S_def D_def R_def by blast
  note fr = find_in [OF f(1)]
  have SS: "queue_shape src S" and DD: "queue_shape tgt D" using getQueue_ok(1) [OF ok] ne by (simp_all add: S_def D_def)
  have "t \<notin> frId ` set (qRequests D)"
  proof
    assume "t \<in> frId ` set (qRequests D)"
    then have "\<exists>p. map_of qm tgt = Some p \<and> t \<in> taskIds p" using getQueue_ids [OF ok ne(3)] by (simp add: D_def)
    moreover have "\<exists>p. map_of qm src = Some p \<and> t \<in> taskIds p"
      using getQueue_ids [OF ok ne(2), of t "clock env"] fr by (force simp: S_def)
    ultimately show False using ok ne(1) unfolding store_ok_def by blast
  qed
  then have xx: "frId x \<notin> frId ` set (qRequests D)" "frQueueId x = tgt" "frStatus x = StPending" "frPosition x = insertSlot D i" "frId x = t"
    using x f(2) fr by simp_all
  have k: "k = nat i" using i by (simp add: k_def pendingOrder_def pendingRows_rows split: option.split)
  let ?e = "D\<lparr>qRequests := map (makeRoom (insertSlot D i) (clock env)) (qRequests D) @ [x]\<rparr>"
  have fe: "filed tgt (qRequests ?e)" using DD xx(1,2) by (auto simp: queue_shape_def filed_def comp_def)
  have T: "getQueue now qm' tgt = written (clock env) ?e"
    unfolding qm' getQueue_commit_all using read_persist [OF written_shape [OF fe]] by (simp add: update_conv')
  show "pendingOrder (getQueue now qm' tgt) = insertAtIndex k t (pendingOrder D)"
    using entered_order(2) [OF DD xx(1-4) i(1,2)] by (simp add: T k xx(5))
  show "\<exists>j \<le> length (queueOrder D). queueOrder (getQueue now qm' tgt) = insertAtIndex j t (queueOrder D)"
    using entered_order(1) [OF DD xx(1-4) i(1,2), of "clock env" "clock env"] by (simp add: T xx(5) queueOrder_def)
  let ?l = "S\<lparr>qRequests := filter (\<lambda>r. frId r \<noteq> t) (qRequests S)\<rparr>"
  have fl: "filed src (qRequests ?l)" using SS by (simp add: queue_shape_def filed_filter)
  have "getQueue now qm' src = written (clock env) ?l"
    unfolding qm' getQueue_commit_all using read_persist [OF written_shape [OF fl]] ne(1) by (simp add: update_conv')
  then show "queueOrder (getQueue now qm' src) = filter (\<lambda>i. i \<noteq> t) (queueOrder S)"
    using written_order(1) [OF fl] by (simp add: queueOrder_def rows_filter filter_map comp_def)
  show "queueOrder (getQueue now qm' q) = queueOrder (getQueue now qm q)" if "q \<noteq> src" "q \<noteq> tgt"
  proof (cases "map_of R q")
    case None
    then have "map_of qm q = None" by (simp add: R_def map_of_map [unfolded comp_def])
    then show ?thesis using that None unfolding qm' getQueue_commit_all by (simp add: update_conv' getQueue_def)
  next
    case (Some s)
    note rs = read_states [OF ok, of q s] 
    have sh: "queue_shape q s" using Some rs(1) by (simp add: R_def)
    then have "filed q (qRequests s)" by (simp add: queue_shape_def)
    then have "getQueue now qm' q = written (clock env) s"
      using that Some read_persist [OF written_shape] unfolding qm' getQueue_commit_all by (simp add: update_conv')
    moreover have "getQueue now qm q = s" using Some by (auto simp: R_def map_of_map [unfolded comp_def] getQueue_def)
    ultimately show ?thesis using written_same_order [OF sh] by simp
  qed
qed

end
