(* ===== verification/RunControl.thy ===== *)
theory RunControl
  imports RunStore
begin

text \<open>
  Operator control of a Run: the classifier of \<open>src/controller/phase-control-decision.ts\<close>, the
  writers of \<open>phase-control-service.ts\<close>, cancellation (\<open>src/commands/cancel.ts\<close>), the manual
  retry override and the resume admission (\<open>manual-retry-override.ts\<close>,
  \<open>resume-pause-fields.ts\<close>, \<open>src/services/unattended-eligibility.ts\<close>).  Each writer maps the Run
  map to an outcome and the new map; what it does besides (timers, the driver's abort signal,
  audit rows, the queue cascade, the release of a queue that was paused at the retry cap) does not
  touch the map and is not modelled here.
\<close>

subsection \<open>The classifier\<close>

datatype PhaseControlOperation =
    CtlPause | CtlResume | CtlRestart | CtlSkip | CtlDisable | CtlEnable | CtlDelete
  | CtlSetBreakpoint | CtlClearBreakpoint

datatype PhaseControlReason =
    NoRunInFlight | RunAlreadyPaused | RunNotPaused | PhaseNotInSnapshot | RunNotInFlight
  | PhaseUnknown | PhaseInFlight | PhaseAlreadyCompleted | PhaseOverridden | BreakpointAlreadySet
  | BreakpointNotSet | RunTerminal | PhaseNotActive | PhaseAlreadyStarted | PhaseNotFuture
  | NoDisabledOverride | RunHasFailed
  | NoActiveRunForTask | UnknownPhaseId | PhaseAlreadyRemoved
  | NoActiveRun | NotPendingRetry | AlreadyRetrying

definition phaseExists :: "WorkflowRun \<Rightarrow> string \<Rightarrow> bool" where
  "phaseExists run ph \<longleftrightarrow> (\<exists>p \<in> set (planPhases run). pdId p = ph)"

definition isRunInRetryCountdown :: "WorkflowRun \<Rightarrow> bool" where
  "isRunInRetryCountdown run \<longleftrightarrow> runStatus run = Paused \<and> pendingRetryAt run \<noteq> None"

definition isPhaseFuture :: "WorkflowRun \<Rightarrow> string \<Rightarrow> bool" where
  "isPhaseFuture run ph =
     (if currentPhase run = ph then False
      else if (\<exists>e \<in> set (phasesCompleted run). prPhase e = ph) then False
      else if (\<exists>ov \<in> set (phaseOverrides run). ovPhaseId ov = ph \<and> ovAction ov = OvRemoved) then False
      else True)"

definition restartRefusal :: "WorkflowRun \<Rightarrow> string \<Rightarrow> PhaseControlReason option" where
  "restartRefusal run ph =
     (if \<not> isOperableRunStatus (runStatus run) then Some RunTerminal
      else if ph \<noteq> currentPhase run then Some PhaseNotActive else None)"

definition isRestartExposed :: "WorkflowRun \<Rightarrow> bool" where
  "isRestartExposed run \<longleftrightarrow> restartRefusal run (currentPhase run) = None"

text \<open>The refusal, or \<open>None\<close> when the operation is eligible.\<close>

definition decidePhaseControl :: "PhaseControlOperation \<Rightarrow> WorkflowRun option \<Rightarrow> string \<Rightarrow> PhaseControlReason option" where
  "decidePhaseControl op r ph =
     (case op of
        CtlPause \<Rightarrow> (case r of None \<Rightarrow> Some NoRunInFlight | Some run \<Rightarrow>
          if runStatus run \<noteq> Running \<and> \<not> isRunInRetryCountdown run then Some NoRunInFlight
          else if manualPauseAt run \<noteq> None then Some RunAlreadyPaused else None)
      | CtlResume \<Rightarrow> (case r of None \<Rightarrow> Some NoRunInFlight | Some run \<Rightarrow>
          if manualPauseAt run = None \<and> pendingRetryAt run = None \<and> creditPause run = None
          then Some RunNotPaused else None)
      | CtlRestart \<Rightarrow> (case r of None \<Rightarrow> Some NoRunInFlight | Some run \<Rightarrow> restartRefusal run ph)
      | CtlSkip \<Rightarrow> (case r of None \<Rightarrow> Some NoRunInFlight | Some run \<Rightarrow>
          if \<not> phaseExists run ph then Some PhaseNotInSnapshot
          else if \<not> isOperableRunStatus (runStatus run) then Some RunTerminal
          else if runStatus run = RunFailed then Some RunHasFailed
          else if ph \<noteq> currentPhase run then Some PhaseNotActive else None)
      | CtlDisable \<Rightarrow> (case r of None \<Rightarrow> Some NoRunInFlight | Some run \<Rightarrow>
          if \<not> phaseExists run ph then Some PhaseNotInSnapshot
          else if \<not> isPhaseFuture run ph then Some PhaseAlreadyStarted else None)
      | CtlEnable \<Rightarrow> (case r of None \<Rightarrow> Some NoRunInFlight | Some run \<Rightarrow>
          if \<not> phaseExists run ph then Some PhaseNotInSnapshot
          else (case List.find (\<lambda>ov. ovPhaseId ov = ph) (phaseOverrides run) of
                  None \<Rightarrow> Some NoDisabledOverride
                | Some ov \<Rightarrow> if ovAction ov \<noteq> OvDisabled then Some NoDisabledOverride
                              else if \<not> isPhaseFuture run ph then Some PhaseNotFuture else None))
      | CtlDelete \<Rightarrow> None
      | CtlSetBreakpoint \<Rightarrow> (case r of None \<Rightarrow> Some RunNotInFlight | Some run \<Rightarrow>
          if \<not> phaseExists run ph then Some PhaseUnknown
          else if currentPhase run = ph then Some PhaseInFlight
          else if (\<exists>e \<in> set (phasesCompleted run). prPhase e = ph) then Some PhaseAlreadyCompleted
          else if (\<exists>ov \<in> set (phaseOverrides run). ovPhaseId ov = ph) then Some PhaseOverridden
          else if (\<exists>bp \<in> set (phaseBreakpoints run). bpPhaseId bp = ph) then Some BreakpointAlreadySet
          else None)
      | CtlClearBreakpoint \<Rightarrow> (case r of None \<Rightarrow> Some RunNotInFlight | Some run \<Rightarrow>
          if \<not> (\<exists>bp \<in> set (phaseBreakpoints run). bpPhaseId bp = ph) then Some BreakpointNotSet else None))"

subsection \<open>The writers' patches\<close>

type_synonym RunPatch = "WorkflowRun \<Rightarrow> PhaseControlReason + WorkflowRun"

definition admit :: "PhaseControlOperation \<Rightarrow> string \<Rightarrow> (WorkflowRun \<Rightarrow> WorkflowRun) \<Rightarrow> RunPatch" where
  "admit op ph k current = (case decidePhaseControl op (Some current) ph of Some r \<Rightarrow> Inl r | None \<Rightarrow> Inr (k current))"

definition pausePatch :: "int \<Rightarrow> RunPatch" where
  "pausePatch now current =
     admit CtlPause (currentPhase current)
       (\<lambda>c. c\<lparr>manualPauseAt := Some now, manualPauseCause := Some OperatorPaused\<rparr>) current"

definition resumePatch :: "string option \<Rightarrow> RunPatch" where
  "resumePatch prompt current =
     admit CtlResume (currentPhase current)
       (\<lambda>c. c\<lparr>runStatus := Running, manualPauseAt := None, manualPauseCause := None, resumeTargetPhaseId := None,
              pendingRetryAt := None, pendingRetryCause := None, creditPause := None, failureCause := None,
              delayedRetryCount := (if pendingRetryAt c \<noteq> None then 0 else delayedRetryCount c),
              resumePrompt := (case prompt of Some p \<Rightarrow> if p = [] then resumePrompt c else Some p | None \<Rightarrow> resumePrompt c)\<rparr>) current"

definition restartPatch :: "string \<Rightarrow> int \<Rightarrow> RunPatch" where
  "restartPatch ph now =
     admit CtlRestart ph
       (\<lambda>c. let nextOverrides = filter (\<lambda>ov. ovPhaseId ov \<noteq> currentPhase c) (phaseOverrides c)
            in (plannedTotalPatch nextOverrides c)
              \<lparr>runStatus := Running, currentIteration := 1, manualPauseAt := None, manualPauseCause := None,
               resumeTargetPhaseId := None, pendingRetryAt := None, pendingRetryCause := None,
               creditPause := None, failureCause := None, delayedRetryCount := 0,
               phaseOverrides := nextOverrides, lastTransitionAt := now\<rparr>)"

definition overridePatch :: "PhaseOverrideAction \<Rightarrow> string \<Rightarrow> int \<Rightarrow> RunPatch" where
  "overridePatch action ph now =
     admit (if action = OvSkipped then CtlSkip else CtlDisable) ph
       (\<lambda>c. let nextOverrides = filter (\<lambda>ov. ovPhaseId ov \<noteq> ph) (phaseOverrides c)
                  @ [\<lparr>ovPhaseId = ph, ovAction = action, ovSetAt = now\<rparr>]
            in (plannedTotalPatch nextOverrides c)
              \<lparr>phaseOverrides := nextOverrides,
               phaseBreakpoints := filter (\<lambda>bp. bpPhaseId bp \<noteq> ph) (phaseBreakpoints c),
               lastTransitionAt := now\<rparr>)"

definition enablePatch :: "string \<Rightarrow> int \<Rightarrow> RunPatch" where
  "enablePatch ph now =
     admit CtlEnable ph
       (\<lambda>c. let nextOverrides = filter (\<lambda>ov. ovPhaseId ov \<noteq> ph) (phaseOverrides c)
            in (plannedTotalPatch nextOverrides c)\<lparr>phaseOverrides := nextOverrides, lastTransitionAt := now\<rparr>)"

definition setBreakpointPatch :: "string \<Rightarrow> int \<Rightarrow> RunPatch" where
  "setBreakpointPatch ph now =
     admit CtlSetBreakpoint ph
       (\<lambda>c. c\<lparr>phaseBreakpoints := phaseBreakpoints c @ [\<lparr>bpPhaseId = ph, bpSetAt = now\<rparr>], lastTransitionAt := now\<rparr>)"

definition clearBreakpointPatch :: "string \<Rightarrow> int \<Rightarrow> RunPatch" where
  "clearBreakpointPatch ph now =
     admit CtlClearBreakpoint ph
       (\<lambda>c. c\<lparr>phaseBreakpoints := filter (\<lambda>bp. bpPhaseId bp \<noteq> ph) (phaseBreakpoints c), lastTransitionAt := now\<rparr>)"

definition removePatch :: "string \<Rightarrow> string \<Rightarrow> int \<Rightarrow> RunPatch" where
  "removePatch taskId ph now current =
     (if featureId current \<noteq> taskId then Inl NoActiveRunForTask
      else if \<not> phaseExists current ph then Inl UnknownPhaseId
      else if (\<exists>ov \<in> set (phaseOverrides current). ovPhaseId ov = ph \<and> ovAction ov = OvRemoved)
        then Inl PhaseAlreadyRemoved
      else
        let nextOverrides = filter (\<lambda>ov. ovPhaseId ov \<noteq> ph) (phaseOverrides current)
              @ [\<lparr>ovPhaseId = ph, ovAction = OvRemoved, ovSetAt = now\<rparr>]
        in Inr ((plannedTotalPatch nextOverrides current)
                 \<lparr>phaseOverrides := nextOverrides, lastTransitionAt := now\<rparr>))"

subsection \<open>The service\<close>

datatype ControlOutcome = Done | Refused PhaseControlReason | Threw "PhaseControlReason RunRefusal"

definition patchRun :: "StoreEnv \<Rightarrow> RunMap \<Rightarrow> string \<Rightarrow> string \<Rightarrow> WorkflowRunStatus list \<Rightarrow> RunPatch
    \<Rightarrow> PhaseControlReason \<Rightarrow> PhaseControlReason \<Rightarrow> ControlOutcome \<times> RunMap" where
  "patchRun env runs q rid allowed patch statusReason goneReason =
     (case runCommitClaim env q of
        Inl e \<Rightarrow> (Threw e, runs)
      | Inr claim \<Rightarrow>
          (case updateRun env runs q \<lparr>updRunId = rid, updAllowed = allowed, updPatch = patch\<rparr> claim of
             Inr (w, runs') \<Rightarrow> (Done, runs')
           | Inl e \<Rightarrow> (case e of PatchRefused r \<Rightarrow> (Refused r, runs)
                        | StaleRunId \<Rightarrow> (Refused goneReason, runs)
                        | StatusPrecondition s \<Rightarrow> (Refused statusReason, runs)
                        | _ \<Rightarrow> (Threw e, runs))))"

definition pauseActivePhase :: "StoreEnv \<Rightarrow> RunMap \<Rightarrow> string \<Rightarrow> ControlOutcome \<times> RunMap" where
  "pauseActivePhase env runs q =
     (case getRun runs q of None \<Rightarrow> (Refused NoRunInFlight, runs) | Some run \<Rightarrow>
       (case decidePhaseControl CtlPause (Some run) (currentPhase run) of Some r \<Rightarrow> (Refused r, runs) | None \<Rightarrow>
          patchRun env runs q (runId run) LIVE_RUN_STATUSES (pausePatch (clock env)) NoRunInFlight NoRunInFlight))"

definition resumeActivePhase :: "StoreEnv \<Rightarrow> RunMap \<Rightarrow> string \<Rightarrow> string option \<Rightarrow> ControlOutcome \<times> RunMap" where
  "resumeActivePhase env runs q prompt =
     (case getRun runs q of None \<Rightarrow> (Refused NoRunInFlight, runs) | Some run \<Rightarrow>
       (case decidePhaseControl CtlResume (Some run) (currentPhase run) of Some r \<Rightarrow> (Refused r, runs) | None \<Rightarrow>
          patchRun env runs q (runId run) OPERABLE_RUN_STATUSES (resumePatch prompt) RunTerminal NoRunInFlight))"

definition restartActivePhase :: "StoreEnv \<Rightarrow> RunMap \<Rightarrow> string \<Rightarrow> ControlOutcome \<times> RunMap" where
  "restartActivePhase env runs q =
     (case getRun runs q of None \<Rightarrow> (Refused NoRunInFlight, runs) | Some run \<Rightarrow>
       (case decidePhaseControl CtlRestart (Some run) (currentPhase run) of Some r \<Rightarrow> (Refused r, runs) | None \<Rightarrow>
          patchRun env runs q (runId run) OPERABLE_RUN_STATUSES
            (restartPatch (currentPhase run) (clock env)) RunTerminal NoRunInFlight))"

definition setPhaseOverride :: "StoreEnv \<Rightarrow> RunMap \<Rightarrow> string \<Rightarrow> string \<Rightarrow> string \<Rightarrow> PhaseOverrideAction \<Rightarrow> ControlOutcome \<times> RunMap" where
  "setPhaseOverride env runs q rid ph action =
     patchRun env runs q rid OPERABLE_RUN_STATUSES (overridePatch action ph (clock env)) RunTerminal NoRunInFlight"

definition matchedRun :: "RunMap \<Rightarrow> string \<Rightarrow> string \<Rightarrow> WorkflowRun option" where
  "matchedRun runs q rid =
     (case getRun runs q of Some run \<Rightarrow> if runId run = rid then Some run else None | None \<Rightarrow> None)"

definition skipPhase :: "StoreEnv \<Rightarrow> RunMap \<Rightarrow> string \<Rightarrow> string \<Rightarrow> string \<Rightarrow> ControlOutcome \<times> RunMap" where
  "skipPhase env runs q rid ph =
     (case decidePhaseControl CtlSkip (matchedRun runs q rid) ph of Some r \<Rightarrow> (Refused r, runs) | None \<Rightarrow>
       (case setPhaseOverride env runs q rid ph OvSkipped of
          (Done, runs1) \<Rightarrow>
            (case getRun runs1 q of
               None \<Rightarrow> (Done, runs1)
             | Some after \<Rightarrow>
                 if runId after \<noteq> rid \<or> currentPhase after \<noteq> ph then (Done, runs1)
                 else if runStatus after = Paused then
                   (case resumeActivePhase env runs1 q None of
                      (Threw e, runs2) \<Rightarrow> (Threw e, runs2)
                    | (_, runs2) \<Rightarrow> (Done, runs2))
                 else (Done, runs1))
        | other \<Rightarrow> other))"

definition disablePhase :: "StoreEnv \<Rightarrow> RunMap \<Rightarrow> string \<Rightarrow> string \<Rightarrow> ControlOutcome \<times> RunMap" where
  "disablePhase env runs q ph =
     (case decidePhaseControl CtlDisable (getRun runs q) ph of Some r \<Rightarrow> (Refused r, runs) | None \<Rightarrow>
       (case getRun runs q of None \<Rightarrow> (Refused NoRunInFlight, runs) | Some run \<Rightarrow>
          setPhaseOverride env runs q (runId run) ph OvDisabled))"

definition enablePhase :: "StoreEnv \<Rightarrow> RunMap \<Rightarrow> string \<Rightarrow> string \<Rightarrow> ControlOutcome \<times> RunMap" where
  "enablePhase env runs q ph =
     (case getRun runs q of None \<Rightarrow> (Refused NoRunInFlight, runs) | Some run \<Rightarrow>
       (case decidePhaseControl CtlEnable (Some run) ph of Some r \<Rightarrow> (Refused r, runs) | None \<Rightarrow>
          patchRun env runs q (runId run) OPERABLE_RUN_STATUSES (enablePatch ph (clock env)) RunTerminal NoRunInFlight))"

definition setPhaseBreakpoint :: "StoreEnv \<Rightarrow> RunMap \<Rightarrow> string \<Rightarrow> string \<Rightarrow> string \<Rightarrow> ControlOutcome \<times> RunMap" where
  "setPhaseBreakpoint env runs q rid ph =
     (case decidePhaseControl CtlSetBreakpoint (matchedRun runs q rid) ph of Some r \<Rightarrow> (Refused r, runs) | None \<Rightarrow>
        patchRun env runs q rid OPERABLE_RUN_STATUSES (setBreakpointPatch ph (clock env)) RunTerminal RunNotInFlight)"

definition clearPhaseBreakpoint :: "StoreEnv \<Rightarrow> RunMap \<Rightarrow> string \<Rightarrow> string \<Rightarrow> string \<Rightarrow> ControlOutcome \<times> RunMap" where
  "clearPhaseBreakpoint env runs q rid ph =
     (case decidePhaseControl CtlClearBreakpoint (matchedRun runs q rid) ph of Some r \<Rightarrow> (Refused r, runs) | None \<Rightarrow>
        patchRun env runs q rid OPERABLE_RUN_STATUSES (clearBreakpointPatch ph (clock env)) RunTerminal RunNotInFlight)"

definition removeTaskPhase :: "StoreEnv \<Rightarrow> RunMap \<Rightarrow> string \<Rightarrow> string \<Rightarrow> string \<Rightarrow> ControlOutcome \<times> RunMap" where
  "removeTaskPhase env runs q taskId ph =
     (case decidePhaseControl CtlDelete (getRun runs q) ph of Some r \<Rightarrow> (Refused r, runs) | None \<Rightarrow>
       (case getRun runs q of None \<Rightarrow> (Refused NoRunInFlight, runs) | Some run \<Rightarrow>
         (case removePatch taskId ph (clock env) run of Inl r \<Rightarrow> (Refused r, runs) | Inr _ \<Rightarrow>
            patchRun env runs q (runId run) OPERABLE_RUN_STATUSES (removePatch taskId ph (clock env)) RunTerminal NoRunInFlight)))"

text \<open>\<open>markCanceled\<close> of the cancel command: a lost race is no error.\<close>

definition markCanceled :: "StoreEnv \<Rightarrow> RunMap \<Rightarrow> string \<Rightarrow> string \<Rightarrow> ControlOutcome \<times> RunMap" where
  "markCanceled env runs q rid =
     (case runCommitClaim env q of Inl e \<Rightarrow> (Threw e, runs) | Inr claim \<Rightarrow>
       (case updateRun env runs q
               \<lparr>updRunId = rid, updAllowed = LIVE_RUN_STATUSES, updPatch = (\<lambda>c. Inr (canceledRunPatch (clock env) c))\<rparr> claim of
          Inr (w, runs') \<Rightarrow> (Done, runs')
        | Inl e \<Rightarrow> if isRunRaceRefusal e then (Done, runs) else (Threw e, runs)))"

text \<open>The Run part of \<open>applyManualRetryOverride\<close>; \<open>driving\<close> is the session's \<open>driver.running\<close>.\<close>

definition manualRetryPatch :: RunPatch where
  "manualRetryPatch current =
     (if pendingRetryAt current = None then Inl NotPendingRetry
      else Inr (current\<lparr>delayedRetryCount := 0, pendingRetryAt := None, pendingRetryCause := None, creditPause := None\<rparr>))"

definition applyManualRetryOverride :: "StoreEnv \<Rightarrow> RunMap \<Rightarrow> string \<Rightarrow> bool \<Rightarrow> ControlOutcome \<times> RunMap" where
  "applyManualRetryOverride env runs q driving =
     (case getRun runs q of None \<Rightarrow> (Refused NoActiveRun, runs) | Some run \<Rightarrow>
        if pendingRetryAt run = None \<or> pendingRetryCause run = None then (Refused NotPendingRetry, runs)
        else if driving then (Refused AlreadyRetrying, runs)
        else patchRun env runs q (runId run) OPERABLE_RUN_STATUSES manualRetryPatch NotPendingRetry NoActiveRun)"

subsection \<open>Resume admission\<close>

datatype UnattendedWakeup = CreditsRestored | BackoffElapsed

datatype UnattendedIneligibility =
    NoRun | NotPaused | ManualPause | CauseMismatch | BackoffPending | DeadlineNotReached | CreditPollingStopped

definition decideUnattendedEligibility :: "WorkflowRun option \<Rightarrow> UnattendedWakeup \<Rightarrow> int \<Rightarrow> UnattendedIneligibility option" where
  "decideUnattendedEligibility r wakeup now =
     (case r of None \<Rightarrow> Some NoRun | Some run \<Rightarrow>
        if runStatus run \<noteq> Paused then Some NotPaused
        else if manualPauseCause run \<noteq> None then Some ManualPause
        else (case wakeup of
          BackoffElapsed \<Rightarrow>
            (case pendingRetryAt run of
               None \<Rightarrow> Some CauseMismatch
             | Some due \<Rightarrow> if pendingRetryCause run = None then Some CauseMismatch
                           else if now < due then Some DeadlineNotReached else None)
        | CreditsRestored \<Rightarrow>
            if pendingRetryAt run \<noteq> None then Some BackoffPending
            else (case creditPause run of
                    None \<Rightarrow> Some CauseMismatch
                  | Some cp \<Rightarrow> if stoppedAt cp \<noteq> None then Some CreditPollingStopped else None)))"

definition clearedPauseFieldsOnResume :: "WorkflowRun \<Rightarrow> WorkflowRun \<Rightarrow> WorkflowRun" where
  "clearedPauseFieldsOnResume current run =
     (if manualPauseCause current = Some VerifyPaused \<or> manualPauseCause current = Some SpendBoundReached
      then run\<lparr>manualPauseAt := None, manualPauseCause := None\<rparr> else run)"

definition shouldContinueConversation :: "WorkflowRun \<Rightarrow> bool" where
  "shouldContinueConversation run \<longleftrightarrow> pendingRetryCause run \<noteq> None \<or>
     (manualPauseCause run \<noteq> None \<and> manualPauseCause run \<noteq> Some VerifyPaused)"

definition resumeAdmissionPatch :: "PhaseDef list option \<Rightarrow> UnattendedWakeup option \<Rightarrow> WorkflowRun \<Rightarrow> WorkflowRun" where
  "resumeAdmissionPatch plan unattended current =
     (let base = current\<lparr>runStatus := Running, pipeline := plan, pendingRetryAt := None, pendingRetryCause := None,
                         creditPause := None, failureCause := None\<rparr>;
          failedPart = (if runStatus current = RunFailed
             then (if unattended = None then base\<lparr>delayedRetryCount := 0\<rparr> else base)
                    \<lparr>manualPauseAt := None, manualPauseCause := None, resumeTargetPhaseId := None\<rparr>
             else base)
      in clearedPauseFieldsOnResume current failedPart)"

datatype ResumeOutcome = Resumed | ResumeIneligible | ResumeLostRace | ResumeThrew "UnattendedIneligibility RunRefusal"

definition patchRunForResumeAdmission :: "StoreEnv \<Rightarrow> RunMap \<Rightarrow> string \<Rightarrow> WorkflowRun \<Rightarrow> UnattendedWakeup option \<Rightarrow> ResumeOutcome \<times> RunMap" where
  "patchRunForResumeAdmission env runs q run unattended =
     (case runCommitClaim env q of Inl e \<Rightarrow> (ResumeThrew e, runs) | Inr claim \<Rightarrow>
       (case updateRun env runs q
               \<lparr>updRunId = runId run, updAllowed = OPERABLE_RUN_STATUSES,
                updPatch = (\<lambda>c. case unattended of
                    None \<Rightarrow> Inr (resumeAdmissionPatch (pipeline run) unattended c)
                  | Some wk \<Rightarrow> (case decideUnattendedEligibility (Some c) wk (clock env) of
                       Some r \<Rightarrow> Inl r
                     | None \<Rightarrow> Inr (resumeAdmissionPatch (pipeline run) unattended c)))\<rparr> claim of
          Inr (w, runs') \<Rightarrow> (Resumed, runs')
        | Inl e \<Rightarrow> (case e of PatchRefused r \<Rightarrow> (ResumeIneligible, runs)
                     | StaleRunId \<Rightarrow> (ResumeLostRace, runs)
                     | StatusPrecondition s \<Rightarrow> (ResumeLostRace, runs)
                     | _ \<Rightarrow> (ResumeThrew e, runs))))"

end
