(* ===== verification/RunControlSafety.thy ===== *)
theory RunControlSafety
  imports RunControl
begin

text \<open>
  What the control writers guarantee.  The interface \<open>run_writer\<close> is the contract of a patch handed
  to \<open>updateRun\<close>: from a valid Run it yields a valid Run, so the store's validation can never throw
  on it.  Seven of the writers satisfy it; for resume, delete, cancel and the resume admission the
  exact condition is proved under which the store throws instead of writing.
\<close>

subsection \<open>The contract of a patch\<close>

locale run_writer =
  fixes patch :: "WorkflowRun \<Rightarrow> 'r + WorkflowRun"
  assumes keeps_ok: "run_ok run \<Longrightarrow> patch run = Inr run' \<Longrightarrow> run_ok run'"
begin

lemma no_violation:
  assumes "runs_ok runs"
  shows "updateRun env runs q \<lparr>updRunId = rid, updAllowed = allowed, updPatch = patch\<rparr> claim \<noteq> Inl (InvariantViolation e)"
proof
  assume "updateRun env runs q \<lparr>updRunId = rid, updAllowed = allowed, updPatch = patch\<rparr> claim = Inl (InvariantViolation e)"
  then obtain c m where "getRun runs q = Some c" "patch c = Inr m" "validateRunInvariants m (Some c) = Some e"
    by (auto simp: updateRun_def Let_def split: option.splits sum.splits if_splits)
  with keeps_ok getRun_ok [OF assms] validate_run_ok [of "Some c" m] show False by auto
qed

end

locale control_writer = run_writer patch for patch :: RunPatch
begin

lemma patchRun_safe:
  assumes "runs_ok runs"
  shows "fst (patchRun env runs q rid allowed patch sr gr) \<noteq> Threw (InvariantViolation e)"
proof -
  have "updateRun env runs q \<lparr>updRunId = rid, updAllowed = allowed, updPatch = patch\<rparr> claim \<noteq> Inl (InvariantViolation e)" for claim
    by (rule no_violation [OF assms])
  then show ?thesis
    by (auto simp: patchRun_def runCommitClaim_def split: sum.splits RunRefusal.splits if_splits)
qed

end

lemma patchRun_runs_ok: "runs_ok runs \<Longrightarrow> runs_ok (snd (patchRun env runs q rid al p sr gr))"
  by (auto simp: patchRun_def split: sum.splits RunRefusal.splits dest: updateRun_ok(2))

lemma patchRun_other: "q' \<noteq> q \<Longrightarrow> getRun (snd (patchRun env runs q rid al p sr gr)) q' = getRun runs q'"
  by (auto simp: patchRun_def updateRun_Inr getRun_def update_conv' split: sum.splits RunRefusal.splits)

subsection \<open>The writers that satisfy it\<close>

lemma admit_Inr: "admit op ph k c = Inr r \<longleftrightarrow> decidePhaseControl op (Some c) ph = None \<and> r = k c"
  by (auto simp: admit_def split: option.splits)

lemma excluded_simps [simp]:
  "excludedPhaseIds (filter (\<lambda>ov. ovPhaseId ov \<noteq> ph) ovs) = excludedPhaseIds ovs - {ph}"
  "excludedPhaseIds (ovs @ [ov]) = insert (ovPhaseId ov) (excludedPhaseIds ovs)"
  by (auto simp: excludedPhaseIds_def)

lemma pausePatch_ok: "run_ok run \<Longrightarrow> pausePatch now run = Inr run' \<Longrightarrow> run_ok run'"
  by (auto simp: pausePatch_def admit_Inr decidePhaseControl_def isRunInRetryCountdown_def run_ok_split core_defs
      split: if_splits)

lemma restartPatch_ok: "run_ok run \<Longrightarrow> restartPatch ph now run = Inr run' \<Longrightarrow> run_ok run'"
  by (auto simp: restartPatch_def admit_Inr Let_def run_ok_split core_defs breakpoints_ok_def planIds_def)

lemma overridePatch_ok: "run_ok run \<Longrightarrow> overridePatch a ph now run = Inr run' \<Longrightarrow> run_ok run'"
  by (auto simp: overridePatch_def admit_Inr Let_def run_ok_split breakpoints_ok_def planIds_def distinct_map_filter)

lemma enablePatch_ok: "run_ok run \<Longrightarrow> enablePatch ph now run = Inr run' \<Longrightarrow> run_ok run'"
  by (auto simp: enablePatch_def admit_Inr Let_def run_ok_split breakpoints_ok_def planIds_def)

lemma decide_setBreakpoint:
  "decidePhaseControl CtlSetBreakpoint (Some c) ph = None \<longleftrightarrow>
     phaseExists c ph \<and> currentPhase c \<noteq> ph \<and> ph \<notin> prPhase ` set (phasesCompleted c) \<and>
     ph \<notin> excludedPhaseIds (phaseOverrides c) \<and> ph \<notin> bpPhaseId ` set (phaseBreakpoints c)"
  by (auto simp: decidePhaseControl_def guard_None excludedPhaseIds_def)

lemma phaseExists_planIds: "phaseExists c ph \<Longrightarrow> planIds c = Some S \<Longrightarrow> ph \<in> S"
  by (auto simp: phaseExists_def planIds_def planPhases_def split: option.splits)

lemma breakpoints_ok_append:
  assumes "breakpoints_ok run" "phaseExists run ph" "ph \<notin> excludedPhaseIds (phaseOverrides run)"
    "ph \<notin> bpPhaseId ` set (phaseBreakpoints run)"
  shows "breakpoints_ok (run\<lparr>phaseBreakpoints := phaseBreakpoints run @ [\<lparr>bpPhaseId = ph, bpSetAt = now\<rparr>]\<rparr>)"
  using assms phaseExists_planIds [OF assms(2)] by (simp add: breakpoints_ok_def planIds_def)

lemma setBreakpointPatch_ok:
  assumes "run_ok run" "setBreakpointPatch ph now run = Inr run'"
  shows "run_ok run'"
proof -
  from assms(2) have d: "decidePhaseControl CtlSetBreakpoint (Some run) ph = None"
    and r: "run' = run\<lparr>phaseBreakpoints := phaseBreakpoints run @ [\<lparr>bpPhaseId = ph, bpSetAt = now\<rparr>], lastTransitionAt := now\<rparr>"
    by (simp_all add: setBreakpointPatch_def admit_Inr)
  show ?thesis unfolding r run_ok_split
    using assms(1) d breakpoints_ok_append [of run ph now] by (simp add: run_ok_split decide_setBreakpoint)
qed

lemma clearBreakpointPatch_ok: "run_ok run \<Longrightarrow> clearBreakpointPatch ph now run = Inr run' \<Longrightarrow> run_ok run'"
  by (auto simp: clearBreakpointPatch_def admit_Inr run_ok_split breakpoints_ok_def planIds_def distinct_map_filter)

lemma manualRetryPatch_ok:
  assumes "run_ok run" "manualRetryPatch run = Inr run'"
  shows "run_ok run'"
proof -
  from assms(2) have "run' = run\<lparr>delayedRetryCount := 0, pendingRetryAt := None, pendingRetryCause := None, creditPause := None\<rparr>"
    by (simp add: manualRetryPatch_def split: if_splits)
  then show ?thesis using assms(1) by (simp add: run_ok_split core_defs)
qed

interpretation pause_w: control_writer "pausePatch now" by unfold_locales (rule pausePatch_ok)
interpretation restart_w: control_writer "restartPatch ph now" by unfold_locales (rule restartPatch_ok)
interpretation override_w: control_writer "overridePatch a ph now" by unfold_locales (rule overridePatch_ok)
interpretation enable_w: control_writer "enablePatch ph now" by unfold_locales (rule enablePatch_ok)
interpretation set_bp_w: control_writer "setBreakpointPatch ph now" by unfold_locales (rule setBreakpointPatch_ok)
interpretation clear_bp_w: control_writer "clearBreakpointPatch ph now" by unfold_locales (rule clearBreakpointPatch_ok)
interpretation manual_retry_w: control_writer manualRetryPatch by unfold_locales (rule manualRetryPatch_ok)


subsection \<open>Commits that are not refused by ownership\<close>

definition commit_open :: "StoreEnv \<Rightarrow> string \<Rightarrow> bool" where
  "commit_open env q \<longleftrightarrow> \<not> tenureLost env q \<and>
     (\<forall>c. claimFor env q = Some c \<longrightarrow> checkCommitFence (verifyFence env) c q = None)"

definition claimOf :: "StoreEnv \<Rightarrow> string \<Rightarrow> RunCommitClaim" where
  "claimOf env q = (case claimFor env q of Some c \<Rightarrow> Fenced c | None \<Rightarrow> Unfenced)"

lemma commit_open_simps:
  "commit_open env q \<Longrightarrow> runCommitClaim env q = Inr (claimOf env q)"
  "commit_open env q \<Longrightarrow> fenceRefusal env q (claimOf env q) = None"
  "commit_open env q \<Longrightarrow> \<not> tenureLost env q"
  by (auto simp: commit_open_def claimOf_def runCommitClaim_def fenceRefusal_def split: option.splits)

lemma updateRun_open:
  assumes "commit_open env q" "getRun runs q = Some run" "updPatch u run = Inr m"
    "runId run = updRunId u" "runStatus run \<in> set (updAllowed u)"
  shows "updateRun env runs q u (claimOf env q) =
    (case validateRunInvariants m (Some run) of
       Some e \<Rightarrow> Inl (InvariantViolation e)
     | None \<Rightarrow> Inr (stampFence (claimOf env q) m, AList.update q (stampFence (claimOf env q) m) runs))"
  using assms commit_open_simps [OF assms(1)] by (simp add: updateRun_def Let_def split: option.split)

lemma patchRun_open:
  assumes "commit_open env q" "getRun runs q = Some run" "patch run = Inr m"
    "runId run = rid" "runStatus run \<in> set allowed"
  shows "patchRun env runs q rid allowed patch sr gr =
    (case validateRunInvariants m (Some run) of
       Some e \<Rightarrow> (Threw (InvariantViolation e), runs)
     | None \<Rightarrow> (Done, AList.update q (stampFence (claimOf env q) m) runs))"
  using updateRun_open [of env q runs run "\<lparr>updRunId = rid, updAllowed = allowed, updPatch = patch\<rparr>" m] assms
  by (cases "validateRunInvariants m (Some run)") (simp_all add: patchRun_def commit_open_simps(1) [OF assms(1)])

lemma validate_cap:
  assumes "run_core_ok (m\<lparr>delayedRetryCount := 0\<rparr>)" "runStatus m \<noteq> Paused" "runStatus m \<noteq> RunFailed" "5 \<le> delayedRetryCount m"
  shows "validateRunInvariants m p = Some CapNeedsPaused"
  using assms by (auto simp: validateRunInvariants_def core_defs pendingRetryShapeOk_def)

subsection \<open>Properties\<close>

text \<open>
  C9. The store never holds an invalid Run: from a map of valid Runs, every accepted
  \<open>updateRun\<close> or \<open>setRun\<close> leaves a map of valid Runs, an update is accepted only for the Run the
  queue holds now and in an allowed status, and it changes no other queue's Run.
\<close>
theorem store_keeps_runs_valid:
  assumes "runs_ok runs"
  shows "(\<forall>w runs'. updateRun env runs q u claim = Inr (w, runs') \<longrightarrow>
            runs_ok runs' \<and> getRun runs' q = Some w \<and> (\<forall>q'. q' \<noteq> q \<longrightarrow> getRun runs' q' = getRun runs q') \<and>
            (\<exists>cur. getRun runs q = Some cur \<and> runId cur = updRunId u \<and> runStatus cur \<in> set (updAllowed u))) \<and>
         (\<forall>runs'. setRun env runs q r claim = Inr runs' \<longrightarrow> runs_ok runs' \<and> (\<forall>q'. q' \<noteq> q \<longrightarrow> getRun runs' q' = getRun runs q'))"
proof -
  have "q' \<noteq> q \<Longrightarrow> setRun env runs q r claim = Inr runs' \<Longrightarrow> getRun runs' q' = getRun runs q'" for q' runs'
    by (auto simp: setRun_def getRun_def update_conv' delete_conv' split: option.splits if_splits)
  moreover have "runs_ok runs' \<and> getRun runs' q = Some w \<and> (\<forall>q'. q' \<noteq> q \<longrightarrow> getRun runs' q' = getRun runs q') \<and>
      (\<exists>cur. getRun runs q = Some cur \<and> runId cur = updRunId u \<and> runStatus cur \<in> set (updAllowed u))"
    if u: "updateRun env runs q u claim = Inr (w, runs')" for w runs'
    using updateRun_ok(2) [OF u assms] u unfolding updateRun_Inr by (auto simp: getRun_def update_conv')
  ultimately show ?thesis using setRun_ok [OF _ assms] by blast
qed

text \<open>
  C15. Pause, restart, skip and disable overrides, enable, both breakpoint controls and the manual
  retry override can never leave half of a pause or retry pair, a breakpoint on an overridden
  phase, or any other invalid Run: on a map of valid Runs the store's validation never throws on
  what they write.
\<close>
theorem controls_never_invalid:
  assumes "runs_ok runs"
  shows "fst (pauseActivePhase env runs q) \<noteq> Threw (InvariantViolation e) \<and>
    fst (restartActivePhase env runs q) \<noteq> Threw (InvariantViolation e) \<and>
    fst (setPhaseOverride env runs q rid ph a) \<noteq> Threw (InvariantViolation e) \<and>
    fst (disablePhase env runs q ph) \<noteq> Threw (InvariantViolation e) \<and>
    fst (enablePhase env runs q ph) \<noteq> Threw (InvariantViolation e) \<and>
    fst (setPhaseBreakpoint env runs q rid ph) \<noteq> Threw (InvariantViolation e) \<and>
    fst (clearPhaseBreakpoint env runs q rid ph) \<noteq> Threw (InvariantViolation e) \<and>
    fst (applyManualRetryOverride env runs q driving) \<noteq> Threw (InvariantViolation e)"
  using pause_w.patchRun_safe [OF assms] restart_w.patchRun_safe [OF assms] override_w.patchRun_safe [OF assms]
    enable_w.patchRun_safe [OF assms] set_bp_w.patchRun_safe [OF assms] clear_bp_w.patchRun_safe [OF assms]
    manual_retry_w.patchRun_safe [OF assms]
  by (auto simp: pauseActivePhase_def restartActivePhase_def setPhaseOverride_def disablePhase_def enablePhase_def
      setPhaseBreakpoint_def clearPhaseBreakpoint_def applyManualRetryOverride_def split: option.splits)

definition sampleEnv :: StoreEnv where
  "sampleEnv = \<lparr>verifyFence = (\<lambda>r o_id f. FenceValid), tenureLost = (\<lambda>q. False), claimFor = (\<lambda>q. None),
     knownQueue = (\<lambda>q. True), primacyHeld = True, clock = 100\<rparr>"

lemma sampleEnv_open [simp]: "commit_open sampleEnv q" "clock sampleEnv = 100"
  by (simp_all add: sampleEnv_def commit_open_def)

lemma sampleRun_ok: "ps \<noteq> [] \<Longrightarrow> run_ok (sampleRun ps)"
  by (simp add: sampleRun_def run_ok_split core_defs breakpoints_ok_def)

lemma runs_ok_single: "run_ok run \<Longrightarrow> runs_ok [(q, run)]"
  by (simp add: runs_ok_def)

text \<open>A Run paused at the delayed-retry cap, and the operator's earlier pause request on it.\<close>

definition cappedRun :: "int option \<Rightarrow> WorkflowRun" where
  "cappedRun pauseAt = (sampleRun [''plan'', ''build''])
     \<lparr>runStatus := Paused, delayedRetryCount := 5, manualPauseAt := pauseAt,
      manualPauseCause := map_option (\<lambda>_. OperatorPaused) pauseAt\<rparr>"

lemma cappedRun_ok: "run_ok (cappedRun p)"
  by (cases p) (simp_all add: cappedRun_def sampleRun_def run_ok_split core_defs breakpoints_ok_def)

lemma cappedRun_simps [simp]:
  "runs_ok [(q, cappedRun p)]" "runStatus (cappedRun p) = Paused" "delayedRetryCount (cappedRun p) = 5"
  "manualPauseAt (cappedRun p) = p" "pendingRetryAt (cappedRun p) = None" "runId (cappedRun p) = ''r1''"
  by (simp_all add: runs_ok_single cappedRun_ok) (simp_all add: cappedRun_def sampleRun_def)

text \<open>
  C16. The operator's Resume of a Run that carries a pause: it clears every pause and retry field
  and sets the Run running, except when the delayed-retry count is at the cap of five and no
  countdown is pending.  Then the store refuses the write it has built, with the internal error
  of \<open>validateRunInvariants\<close>, because Resume keeps the count unless a countdown was pending.
\<close>
theorem resume_control_exact:
  assumes "runs_ok runs" "commit_open env q" "getRun runs q = Some run" "isOperableRunStatus (runStatus run)"
    and "manualPauseAt run \<noteq> None \<or> pendingRetryAt run \<noteq> None \<or> creditPause run \<noteq> None"
  shows "if 5 \<le> delayedRetryCount run \<and> pendingRetryAt run = None
    then resumeActivePhase env runs q prompt = (Threw (InvariantViolation CapNeedsPaused), runs)
    else \<exists>w. resumeActivePhase env runs q prompt = (Done, AList.update q w runs) \<and> runStatus w = Running \<and>
           manualPauseAt w = None \<and> pendingRetryAt w = None \<and> creditPause w = None \<and> run_ok w"
proof -
  define m where "m = run\<lparr>runStatus := Running, manualPauseAt := None, manualPauseCause := None, resumeTargetPhaseId := None,
     pendingRetryAt := None, pendingRetryCause := None, creditPause := None, failureCause := None,
     delayedRetryCount := (if pendingRetryAt run \<noteq> None then 0 else delayedRetryCount run),
     resumePrompt := (case prompt of Some p \<Rightarrow> if p = [] then resumePrompt run else Some p | None \<Rightarrow> resumePrompt run)\<rparr>"
  have ok: "run_ok run" by (rule getRun_ok [OF assms(1,3)])
  have d: "decidePhaseControl CtlResume (Some run) ph = None" for ph using assms(5) by (auto simp: decidePhaseControl_def)
  have p: "resumePatch prompt run = Inr m" by (simp add: resumePatch_def admit_def d m_def)
  have eq: "resumeActivePhase env runs q prompt = (case validateRunInvariants m (Some run) of
       Some e \<Rightarrow> (Threw (InvariantViolation e), runs)
     | None \<Rightarrow> (Done, AList.update q (stampFence (claimOf env q) m) runs))"
    using assms(3,4) d p patchRun_open [OF assms(2,3), of "resumePatch prompt" m "runId run" OPERABLE_RUN_STATUSES]
    by (simp add: resumeActivePhase_def operable_iff)
  have v: "validateRunInvariants m (Some run) = None \<longleftrightarrow> run_ok m" by (rule validate_run_ok) (simp add: ok)
  have ms: "runStatus m = Running" "manualPauseAt m = None" "pendingRetryAt m = None" "creditPause m = None"
    by (simp_all add: m_def)
  show ?thesis
  proof (cases "5 \<le> delayedRetryCount run \<and> pendingRetryAt run = None")
    case True
    then have "validateRunInvariants m (Some run) = Some CapNeedsPaused"
      by (intro validate_cap) (auto simp: m_def core_defs)
    with True eq show ?thesis by simp
  next
    case False
    have "run_ok m" using False ok by (auto simp: m_def run_ok_split core_defs)
    then show ?thesis unfolding if_not_P [OF False]
      by (intro exI [of _ "stampFence (claimOf env q) m"]) (simp add: eq v [THEN iffD2] ms)
  qed
qed


theorem resume_control_exact_witness:
  "resumeActivePhase sampleEnv [(''q'', cappedRun (Some 7))] ''q'' None
     = (Threw (InvariantViolation CapNeedsPaused), [(''q'', cappedRun (Some 7))])"
  using resume_control_exact [of "[(''q'', cappedRun (Some 7))]" sampleEnv "''q''" "cappedRun (Some 7)" None]
  by (simp add: getRun_def isOperableRunStatus_def)

text \<open>
  C17. Restart is admitted on every operable Run whatever pause, retry count or failure it
  carries: it is written, and leaves the Run running at iteration 1 of its current phase with a
  fresh retry budget, no pause and no override on that phase.
\<close>
theorem restart_recovers:
  assumes "runs_ok runs" "commit_open env q" "getRun runs q = Some run" "isOperableRunStatus (runStatus run)"
  shows "\<exists>w. restartActivePhase env runs q = (Done, AList.update q w runs) \<and> run_ok w \<and> runStatus w = Running \<and>
    currentPhase w = currentPhase run \<and> currentIteration w = 1 \<and> delayedRetryCount w = 0 \<and> pendingRetryAt w = None \<and>
    manualPauseAt w = None \<and> creditPause w = None \<and> failureCause w = None \<and>
    currentPhase w \<notin> excludedPhaseIds (phaseOverrides w)"
proof -
  have ok: "run_ok run" by (rule getRun_ok [OF assms(1,3)])
  have d: "decidePhaseControl CtlRestart (Some run) (currentPhase run) = None"
    using assms(4) by (simp add: decidePhaseControl_def restartRefusal_def)
  obtain m where p: "restartPatch (currentPhase run) (clock env) run = Inr m"
    and m: "runStatus m = Running" "currentPhase m = currentPhase run" "currentIteration m = 1" "delayedRetryCount m = 0"
      "pendingRetryAt m = None" "manualPauseAt m = None" "creditPause m = None" "failureCause m = None"
      "currentPhase m \<notin> excludedPhaseIds (phaseOverrides m)"
    using d by (simp add: restartPatch_def admit_def Let_def)
  have v: "validateRunInvariants m (Some run) = None"
    using restartPatch_ok [OF ok p] validate_run_ok [of "Some run" m] ok by simp
  have "restartActivePhase env runs q = (Done, AList.update q (stampFence (claimOf env q) m) runs)"
    using assms(3,4) d p v patchRun_open [OF assms(2,3), of "restartPatch (currentPhase run) (clock env)" m "runId run" OPERABLE_RUN_STATUSES]
    by (simp add: restartActivePhase_def operable_iff)
  then show ?thesis
    using m restartPatch_ok [OF ok p] by (intro exI [of _ "stampFence (claimOf env q) m"]) auto
qed

theorem restart_recovers_witness:
  "\<exists>w. restartActivePhase sampleEnv [(''q'', cappedRun None)] ''q'' = (Done, [(''q'', w)]) \<and> delayedRetryCount w = 0"
  using restart_recovers [of "[(''q'', cappedRun None)]" sampleEnv "''q''" "cappedRun None"]
  by (auto simp: getRun_def isOperableRunStatus_def)

text \<open>
  C18. Cancel of a live Run stores it as canceled with its pause and retry fields cleared, except
  for a Run paused at the delayed-retry cap: \<open>canceledRunPatch\<close> does not reset the count, and a
  count of five beside \<open>canceled\<close> is refused by the store, so the cancel throws and the Run stays.
\<close>
theorem cancel_exact:
  assumes "runs_ok runs" "commit_open env q" "getRun runs q = Some run" "runStatus run \<in> set LIVE_RUN_STATUSES"
  shows "if 5 \<le> delayedRetryCount run
    then markCanceled env runs q (runId run) = (Threw (InvariantViolation CapNeedsPaused), runs)
    else \<exists>w. markCanceled env runs q (runId run) = (Done, AList.update q w runs) \<and> runStatus w = Canceled \<and> run_ok w"
proof -
  define m where "m = canceledRunPatch (clock env) run"
  have ok: "run_ok run" by (rule getRun_ok [OF assms(1,3)])
  have eq: "markCanceled env runs q (runId run) = (case validateRunInvariants m (Some run) of
       Some e \<Rightarrow> (Threw (InvariantViolation e), runs)
     | None \<Rightarrow> (Done, AList.update q (stampFence (claimOf env q) m) runs))"
    using assms(4) updateRun_open [OF assms(2,3), of "\<lparr>updRunId = runId run, updAllowed = LIVE_RUN_STATUSES, updPatch = (\<lambda>c. Inr (canceledRunPatch (clock env) c) :: PhaseControlReason + WorkflowRun)\<rparr>" m]
    by (cases "validateRunInvariants m (Some run)")
       (simp_all add: markCanceled_def commit_open_simps(1) [OF assms(2)] m_def isRunRaceRefusal_def)
  have v: "validateRunInvariants m (Some run) = None \<longleftrightarrow> run_ok m" by (rule validate_run_ok) (simp add: ok)
  have ms: "runStatus m = Canceled" by (simp add: m_def canceledRunPatch_def)
  show ?thesis
  proof (cases "5 \<le> delayedRetryCount run")
    case True
    then have "validateRunInvariants m (Some run) = Some CapNeedsPaused"
      by (intro validate_cap) (auto simp: m_def core_defs canceledRunPatch_def)
    with True eq show ?thesis by simp
  next
    case False
    have "run_ok m" using False ok by (auto simp: m_def canceledRunPatch_def run_ok_split core_defs)
    then show ?thesis unfolding if_not_P [OF False]
      by (intro exI [of _ "stampFence (claimOf env q) m"]) (simp add: eq v [THEN iffD2] ms)
  qed
qed

theorem cancel_exact_witness:
  "markCanceled sampleEnv [(''q'', cappedRun None)] ''q'' ''r1''
     = (Threw (InvariantViolation CapNeedsPaused), [(''q'', cappedRun None)])"
  using cancel_exact [of "[(''q'', cappedRun None)]" sampleEnv "''q''" "cappedRun None"]
  by (simp add: getRun_def isOperableRunStatus_def)

text \<open>
  C19. The resume admission of \<open>resumeExistingOnQueue\<close> sets every operable Run running, except a
  Run paused at the delayed-retry cap: it resets the count for a failed Run only, so for a paused
  one the store's validation throws and the palette's Resume cannot admit it.
\<close>
theorem resume_admission_exact:
  assumes "runs_ok runs" "commit_open env q" "getRun runs q = Some run" "isOperableRunStatus (runStatus run)"
  shows "if 5 \<le> delayedRetryCount run \<and> runStatus run \<noteq> RunFailed
    then patchRunForResumeAdmission env runs q run None = (ResumeThrew (InvariantViolation CapNeedsPaused), runs)
    else \<exists>w. patchRunForResumeAdmission env runs q run None = (Resumed, AList.update q w runs) \<and> runStatus w = Running \<and> run_ok w"
proof -
  define m where "m = resumeAdmissionPatch (pipeline run) None run"
  have ok: "run_ok run" by (rule getRun_ok [OF assms(1,3)])
  have eq: "patchRunForResumeAdmission env runs q run None = (case validateRunInvariants m (Some run) of
       Some e \<Rightarrow> (ResumeThrew (InvariantViolation e), runs)
     | None \<Rightarrow> (Resumed, AList.update q (stampFence (claimOf env q) m) runs))"
    using assms(4) updateRun_open [OF assms(2,3), where m = m and u = "\<lparr>updRunId = runId run, updAllowed = OPERABLE_RUN_STATUSES,
        updPatch = (\<lambda>c. case None :: UnattendedWakeup option of None \<Rightarrow> Inr (resumeAdmissionPatch (pipeline run) None c)
          | Some wk \<Rightarrow> (case decideUnattendedEligibility (Some c) wk (clock env) of
                       Some r \<Rightarrow> Inl r | None \<Rightarrow> Inr (resumeAdmissionPatch (pipeline run) None c)))\<rparr>"]
    by (cases "validateRunInvariants m (Some run)")
       (simp_all add: patchRunForResumeAdmission_def commit_open_simps(1) [OF assms(2)] m_def operable_iff)
  have v: "validateRunInvariants m (Some run) = None \<longleftrightarrow> run_ok m" by (rule validate_run_ok) (simp add: ok)
  have ms: "runStatus m = Running" "delayedRetryCount m = (if runStatus run = RunFailed then 0 else delayedRetryCount run)"
    "pendingRetryAt m = None" "pendingRetryCause m = None" "creditPause m = None" "failureCause m = None"
    "resumeTargetPhaseId m = (if runStatus run = RunFailed then None else resumeTargetPhaseId run)"
    "manualPauseCause m = (if runStatus run = RunFailed \<or> manualPauseCause run \<in> {Some VerifyPaused, Some SpendBoundReached} then None else manualPauseCause run)"
    "manualPauseAt m = (if runStatus run = RunFailed \<or> manualPauseCause run \<in> {Some VerifyPaused, Some SpendBoundReached} then None else manualPauseAt run)"
    by (auto simp: m_def resumeAdmissionPatch_def clearedPauseFieldsOnResume_def Let_def)
  have bp: "breakpoints_ok m = breakpoints_ok run"
    by (auto simp: m_def resumeAdmissionPatch_def clearedPauseFieldsOnResume_def Let_def breakpoints_ok_def planIds_def)
  show ?thesis
  proof (cases "5 \<le> delayedRetryCount run \<and> runStatus run \<noteq> RunFailed")
    case True
    then have "validateRunInvariants m (Some run) = Some CapNeedsPaused"
      using ok by (intro validate_cap) (auto simp: ms run_ok_split core_defs)
    with True eq show ?thesis by simp
  next
    case False
    have "run_ok m" using False ok by (auto simp: ms bp run_ok_split core_defs)
    then show ?thesis unfolding if_not_P [OF False]
      by (intro exI [of _ "stampFence (claimOf env q) m"]) (simp add: eq v [THEN iffD2] ms)
  qed
qed

theorem resume_admission_exact_witness:
  "patchRunForResumeAdmission sampleEnv [(''q'', cappedRun None)] ''q'' (cappedRun None) None
     = (ResumeThrew (InvariantViolation CapNeedsPaused), [(''q'', cappedRun None)])"
  using resume_admission_exact [of "[(''q'', cappedRun None)]" sampleEnv "''q''" "cappedRun None"]
  by (simp add: getRun_def isOperableRunStatus_def)


text \<open>
  Removing a phase of a Run succeeds and records the override, except when the operator has
  set a breakpoint on that phase: unlike skip and disable, the removal keeps the breakpoint, and
  the store refuses a Run with a breakpoint on an overridden phase.
\<close>
theorem remove_phase_exact:
  assumes "runs_ok runs" "commit_open env q" "getRun runs q = Some run" "isOperableRunStatus (runStatus run)"
    and "featureId run = taskId" "phaseExists run ph"
    and "\<not> (\<exists>ov \<in> set (phaseOverrides run). ovPhaseId ov = ph \<and> ovAction ov = OvRemoved)"
  shows "if ph \<in> bpPhaseId ` set (phaseBreakpoints run)
    then \<exists>e. removeTaskPhase env runs q taskId ph = (Threw (InvariantViolation e), runs)
    else \<exists>w. removeTaskPhase env runs q taskId ph = (Done, AList.update q w runs) \<and> run_ok w \<and>
           ph \<in> excludedPhaseIds (phaseOverrides w)"
proof -
  obtain m where p: "removePatch taskId ph (clock env) run = Inr m"
    and m: "excludedPhaseIds (phaseOverrides m) = insert ph (excludedPhaseIds (phaseOverrides run))"
      "phaseBreakpoints m = phaseBreakpoints run" "planIds m = planIds run" "run_core_ok m = run_core_ok run"
    using assms(5-7) by (simp add: removePatch_def Let_def insert_absorb planIds_def)
  have ok: "run_ok run" by (rule getRun_ok [OF assms(1,3)])
  have eq: "removeTaskPhase env runs q taskId ph = (case validateRunInvariants m (Some run) of
       Some e \<Rightarrow> (Threw (InvariantViolation e), runs)
     | None \<Rightarrow> (Done, AList.update q (stampFence (claimOf env q) m) runs))"
    using assms(3,4) p patchRun_open [OF assms(2,3), of "removePatch taskId ph (clock env)" m "runId run" OPERABLE_RUN_STATUSES]
    by (simp add: removeTaskPhase_def decidePhaseControl_def operable_iff)
  have v: "validateRunInvariants m (Some run) = None \<longleftrightarrow> run_ok m" by (rule validate_run_ok) (simp add: ok)
  have r: "run_ok m \<longleftrightarrow> ph \<notin> bpPhaseId ` set (phaseBreakpoints run)"
    using ok by (auto simp: run_ok_split breakpoints_ok_def m)
  show ?thesis
  proof (cases "ph \<in> bpPhaseId ` set (phaseBreakpoints run)")
    case True
    then show ?thesis using eq v r by (cases "validateRunInvariants m (Some run)") auto
  next
    case False
    then have "run_ok m" using r by simp
    then show ?thesis unfolding if_not_P [OF False]
      by (intro exI [of _ "stampFence (claimOf env q) m"]) (simp add: eq v [THEN iffD2] m)
  qed
qed

definition markedRun :: WorkflowRun where
  "markedRun = (sampleRun [''plan'', ''build''])\<lparr>phaseBreakpoints := [\<lparr>bpPhaseId = ''build'', bpSetAt = 1\<rparr>]\<rparr>"

lemma markedRun_ok: "run_ok markedRun"
  by (simp add: markedRun_def sampleRun_def run_ok_split core_defs breakpoints_ok_def planIds_def samplePhase_def excludedPhaseIds_def)

theorem remove_phase_exact_witness:
  "\<exists>e. removeTaskPhase sampleEnv [(''q'', markedRun)] ''q'' ''t1'' ''build'' = (Threw (InvariantViolation e), [(''q'', markedRun)])"
  using remove_phase_exact [of "[(''q'', markedRun)]" sampleEnv "''q''" markedRun "''t1''" "''build''"]
    runs_ok_single [OF markedRun_ok, of "''q''"]
  by (simp add: getRun_def markedRun_def sampleRun_def isOperableRunStatus_def phaseExists_def planPhases_def samplePhase_def)

subsection \<open>Progress\<close>

text \<open>The patch records the total of the plan under the given overrides, at the cap it held before.\<close>

lemma planned_total_written:
  assumes "planPhases run \<noteq> []" "r = plannedTotalPatch ovs run"
  shows "plannedTotal r = Some (computePlannedTotal (planPhases run) ovs
     (Some (Fin (of_int (case plannedTotal run of Some t \<Rightarrow> iterationCapOf t | None \<Rightarrow> 10)))))"
  using assms by (simp add: plannedTotalPatch_def)

lemma kept_card: "length (remdups (map pdId (keptPhases ps ovs))) = card (set (map pdId ps) - excludedPhaseIds ovs)"
  unfolding length_remdups_card_conv by (rule arg_cong [where f = card]) (auto simp: keptPhases_def)

text \<open>What each control that writes overrides makes of a Run, and the phases that are left out of the plan after it.\<close>

definition overrideWrites :: "WorkflowRun \<Rightarrow> string \<Rightarrow> int \<Rightarrow> PhaseOverrideAction \<Rightarrow> string \<Rightarrow> ((PhaseControlReason + WorkflowRun) \<times> string set) set" where
  "overrideWrites run ph now a taskId =
     {(overridePatch a ph now run, insert ph (excludedPhaseIds (phaseOverrides run))),
      (removePatch taskId ph now run, insert ph (excludedPhaseIds (phaseOverrides run))),
      (enablePatch ph now run, excludedPhaseIds (phaseOverrides run) - {ph}),
      (restartPatch ph now run, excludedPhaseIds (phaseOverrides run) - {currentPhase run})}"

definition wroteOverrides :: "WorkflowRun \<Rightarrow> string set \<Rightarrow> WorkflowRun \<Rightarrow> bool" where
  "wroteOverrides run left_out run' \<longleftrightarrow> excludedPhaseIds (phaseOverrides run') = left_out \<and> pipeline run' = pipeline run \<and>
     plannedTotal run' = plannedTotal (plannedTotalPatch (phaseOverrides run') run)"

lemma override_writes:
  "overridePatch a ph now run = Inr run' \<Longrightarrow> wroteOverrides run (insert ph (excludedPhaseIds (phaseOverrides run))) run'"
  "removePatch taskId ph now run = Inr run' \<Longrightarrow> wroteOverrides run (insert ph (excludedPhaseIds (phaseOverrides run))) run'"
  "enablePatch ph now run = Inr run' \<Longrightarrow> wroteOverrides run (excludedPhaseIds (phaseOverrides run) - {ph}) run'"
  "restartPatch ph now run = Inr run' \<Longrightarrow> wroteOverrides run (excludedPhaseIds (phaseOverrides run) - {currentPhase run}) run'"
  by (auto simp: overridePatch_def removePatch_def enablePatch_def restartPatch_def admit_Inr Let_def wroteOverrides_def
      excludedPhaseIds_def split: if_splits)

lemma override_write:
  assumes "(Inr run', left_out) \<in> overrideWrites run ph now a taskId" "planPhases run \<noteq> []"
  shows "excludedPhaseIds (phaseOverrides run') = left_out" "planPhases run' = planPhases run"
    "plannedTotal run' = Some (computePlannedTotal (planPhases run) (phaseOverrides run')
       (Some (Fin (of_int (case plannedTotal run of Some t \<Rightarrow> iterationCapOf t | None \<Rightarrow> 10)))))"
proof -
  have "wroteOverrides run left_out run'"
    using assms(1) override_writes [where run = run and run' = run'] unfolding overrideWrites_def
    by (elim insertE emptyE) (simp_all, (metis+)?)
  then show "excludedPhaseIds (phaseOverrides run') = left_out" "planPhases run' = planPhases run"
    "plannedTotal run' = Some (computePlannedTotal (planPhases run) (phaseOverrides run')
       (Some (Fin (of_int (case plannedTotal run of Some t \<Rightarrow> iterationCapOf t | None \<Rightarrow> 10)))))"
    using planned_total_written [OF assms(2) refl] by (simp_all add: wroteOverrides_def planPhases_def)
qed

text \<open>
  C20. Every control that writes overrides (skip, disable, enable, restart, remove) leaves out of the plan
  exactly the phases its name says and refreshes the recorded total in the same write, whether or not it was
  in step before: the total counts the distinct phases of the plan that are not overridden, and the ceiling
  on invocations is their weight at the iteration cap recorded before.  The progress reported after it is
  out of that total and never above it.
\<close>
theorem control_progress_within_total:
  assumes "(Inr run', left_out) \<in>
     {(overridePatch a ph now run, insert ph (excludedPhaseIds (phaseOverrides run))),
      (removePatch taskId ph now run, insert ph (excludedPhaseIds (phaseOverrides run))),
      (enablePatch ph now run, excludedPhaseIds (phaseOverrides run) - {ph}),
      (restartPatch ph now run, excludedPhaseIds (phaseOverrides run) - {currentPhase run})}"
    and "planPhases run \<noteq> []"
  defines "cap \<equiv> freezeIterationCap (Some (Fin (of_int (case plannedTotal run of Some t \<Rightarrow> iterationCapOf t | None \<Rightarrow> 10))))"
  shows "excludedPhaseIds (phaseOverrides run') = left_out \<and>
    plannedTotal run' = Some \<lparr>phaseCount = card (set (map pdId (planPhases run)) - left_out), iterationCapOf = cap,
      maxPhaseInvocations = (\<Sum>p\<leftarrow>filter (\<lambda>p. pdId p \<notin> left_out) (planPhases run). if isLoopPhase (pdId p) (Some p) then cap else 1)\<rparr> \<and>
    (\<exists>p. settledPhaseProgress (Some run') = Some p \<and> settledCount p \<le> totalCount p \<and>
       totalCount p = card (set (map pdId (planPhases run)) - left_out))"
proof -
  note w = override_write [OF assms(1) [folded overrideWrites_def] assms(2)]
  have t: "plannedTotal run' = Some \<lparr>phaseCount = card (set (map pdId (planPhases run)) - left_out), iterationCapOf = cap,
      maxPhaseInvocations = (\<Sum>p\<leftarrow>filter (\<lambda>p. pdId p \<notin> left_out) (planPhases run). if isLoopPhase (pdId p) (Some p) then cap else 1)\<rparr>"
    using w(3) kept_card [of "planPhases run" "phaseOverrides run'"]
    by (simp add: computePlannedTotal_def Let_def keptPhases_def w(1) flip: cap_def)
  have "countCompletedInPlan run' \<le> card (set (map pdId (planPhases run)) - left_out)"
    using completed_le_kept [of run'] unfolding kept_card w(1,2) .
  with t w(1) show ?thesis by (simp add: settledPhaseProgress_def)
qed

definition plannedRun :: WorkflowRun where
  "plannedRun = (sampleRun [''plan'', ''build''])
     \<lparr>plannedTotal := Some (computePlannedTotal (map samplePhase [''plan'', ''build'']) [] (Some (Fin 10)))\<rparr>"

lemma plannedRun_in_step: "plan_in_step plannedRun"
  by (simp add: plan_in_step_def plannedRun_def sampleRun_def planPhases_def)

text \<open>\<open>plannedRun\<close> after the operator skipped its first phase, and after the driver consumed the skip.\<close>

definition skipRequested :: WorkflowRun where
  "skipRequested = (case overridePatch OvSkipped ''plan'' 5 plannedRun of Inr r \<Rightarrow> r | Inl e \<Rightarrow> plannedRun)"

definition skipConsumed :: WorkflowRun where
  "skipConsumed = (case decideBeforePhase skipRequested 10 6 of
      SkipPhase ov r t \<Rightarrow> skippedRun skipRequested ov r t 6 | Invoke i d \<Rightarrow> skipRequested)"

definition buildDone :: WorkflowRun where
  "buildDone = advancedRun skipConsumed (Advance DONE 0 [] None)
     \<lparr>prPhase = ''build'', prIteration = 1, prStartedAt = 7, prEndedAt = 8, prResult = Clean, prTermination = TToken, prExitCode = Some 0\<rparr>
     False 8"

lemmas sample_defs = plannedRun_def skipRequested_def skipConsumed_def buildDone_def sampleRun_def samplePhase_def
  overridePatch_def admit_def decidePhaseControl_def phaseExists_def planPhases_def isOperableRunStatus_def
  plannedTotalPatch_def computePlannedTotal_def keptPhases_def excludedPhaseIds_def decideBeforePhase_def
  transition_def baseInput_def advance_to_def nextSuccessor_def successorIteration_def skippedRun_def
  nextOverridesAfterSkip_def entryIteration_def Let_def findPhase_def isLoopPhase_def blank_def
  freezeIterationCap_def

theorem control_progress_within_total_witness:
  "excludedPhaseIds (phaseOverrides skipRequested) = {''plan''} \<and>
   (\<exists>p. settledPhaseProgress (Some skipRequested) = Some p \<and> settledCount p \<le> totalCount p \<and> totalCount p = 1)"
proof -
  have o: "overridePatch OvSkipped ''plan'' 5 plannedRun = Inr skipRequested" by (simp add: sample_defs)
  from control_progress_within_total [of skipRequested "insert ''plan'' (excludedPhaseIds (phaseOverrides plannedRun))" OvSkipped "''plan''" 5 plannedRun "''t1''"]
  show ?thesis by (simp add: o) (simp add: sample_defs)
qed

text \<open>
  Progress can exceed its total.  When the driver reaches a skipped phase it consumes the
  override (\<open>nextOverridesAfterSkip\<close>) without refreshing the recorded total, so the phase counts
  as settled while the total still leaves it out: a Run of two phases whose first one was skipped
  reports two settled phases of one.
\<close>
theorem skip_progress_exceeds_total:
  "settledPhaseProgress (Some buildDone) = Some \<lparr>settledCount = 2, totalCount = 1\<rparr> \<and> currentPhase buildDone = DONE"
  by (simp add: settledPhaseProgress_def countCompletedInPlan_def advancedRun_def settledOutcome_def sample_defs)

theorem store_keeps_runs_valid_witness:
  "\<exists>w runs'. updateRun sampleEnv [(''q'', sampleRun [''plan''])] ''q''
      \<lparr>updRunId = ''r1'', updAllowed = LIVE_RUN_STATUSES, updPatch = pausePatch 9\<rparr> Unfenced = Inr (w, runs') \<and> runs_ok runs'"
proof -
  have r: "runs_ok [(''q'', sampleRun [''plan''])]" by (simp add: runs_ok_single sampleRun_ok)
  have "\<exists>w runs'. updateRun sampleEnv [(''q'', sampleRun [''plan''])] ''q''
      \<lparr>updRunId = ''r1'', updAllowed = LIVE_RUN_STATUSES, updPatch = pausePatch 9\<rparr> Unfenced = Inr (w, runs')"
    by (simp add: updateRun_Inr getRun_def sampleRun_def sampleEnv_def fenceRefusal_def pausePatch_def admit_def
        decidePhaseControl_def validate_None pendingRetryShapeOk_def creditPauseShapeOk_def breakpoints_ok_def
        DELAYED_RETRY_CAP_def DELAYED_RETRY_COUNT_PERSISTED_CEILING_def)
  then show ?thesis using store_keeps_runs_valid [OF r] by blast
qed

theorem controls_never_invalid_witness:
  "fst (pauseActivePhase sampleEnv [(''q'', sampleRun [''plan''])] ''q'') \<noteq> Threw (InvariantViolation ManualPairSplit)"
  using controls_never_invalid [OF runs_ok_single [OF sampleRun_ok, of "[''plan'']" "''q''"], where env = sampleEnv and q = "''q''" and e = ManualPairSplit] by simp

end
