(* ===== verification/QueueSafety.thy ===== *)
theory QueueSafety
  imports QueueRefinement RunControlSafety
begin

text \<open>
  What the queue manager promises, over the definitions of the operations: the invariant of the queue
  map under any sequence of them, and the abstract effect of every operation on the list of tasks.
\<close>

subsection \<open>Soundness of the queue map\<close>

text \<open>
  C21. Whatever sequence of queue-manager operations runs, in whatever environment each one runs,
  every queue stays sound: task ids are distinct and positions are \<open>0, 1, 2, \<dots>\<close>; a pause source is recorded
  exactly while the queue is operator-paused, a reason only then and an armed start only while
  idle-pending; at most one row is in flight and it is the one the queue names; no task is in two queues.
\<close>
theorem queues_stay_sound:
  fixes now :: int
  assumes "store_ok qm" "queue_step\<^sup>*\<^sup>* qm qm'" "q \<noteq> []"
  defines "Q \<equiv> getQueue now qm' q"
  shows "distinct (queueOrder Q) \<and> map frPosition (rows (qRequests Q)) = map int [0..<length (qRequests Q)] \<and>
    (qPauseSource Q = None \<longleftrightarrow> qLifecycle Q \<noteq> LcOperatorPaused) \<and>
    (qPausedReason Q \<noteq> None \<longrightarrow> qLifecycle Q = LcOperatorPaused) \<and>
    (qScheduledStartAt Q \<noteq> None \<longrightarrow> qLifecycle Q = LcIdlePending) \<and>
    inFlightRows Q \<le> 1 \<and>
    (\<forall>r \<in> set (qRequests Q). frStatus r = StInFlight \<longrightarrow> qInFlightId Q = Some (frId r)) \<and>
    (\<forall>q'. q' \<noteq> [] \<longrightarrow> set (queueOrder Q) \<inter> set (queueOrder (getQueue now qm' q')) \<noteq> {} \<longrightarrow> q' = q)"
proof -
  have ok: "store_ok qm'" using queue_steps_ok assms(1,2) by blast
  note g = getQueue_ok [OF ok assms(3), of now, folded Q_def]
  have a: "distinct (queueOrder Q) \<and> map frPosition (rows (qRequests Q)) = map int [0..<length (qRequests Q)] \<and>
      lifecycle_ok Q \<and> inFlightRows Q \<le> 1"
    using g slot_one_in_flight [OF g(2)] by (auto simp: queue_shape_def filed_def queueOrder_def dense_def)
  have b: "q' = q" if q': "q' \<noteq> []" and i: "set (queueOrder Q) \<inter> set (queueOrder (getQueue now qm' q')) \<noteq> {}" for q'
  proof -
    obtain i where "i \<in> frId ` set (qRequests Q)" "i \<in> frId ` set (qRequests (getQueue now qm' q'))"
      using i by (auto simp: queueOrder_def)
    then obtain p p' where "map_of qm' q = Some p" "i \<in> taskIds p" "map_of qm' q' = Some p'" "i \<in> taskIds p'"
      using getQueue_ids [OF ok assms(3)] getQueue_ids [OF ok q'] unfolding Q_def by meson
    then show ?thesis using ok unfolding store_ok_def by blast
  qed
  show ?thesis using a b g(2) by (auto simp: lifecycle_ok_def slot_ok_def)
qed

definition queueEnv :: StoreEnv where
  "queueEnv = sampleEnv\<lparr>knownQueue := (\<lambda>q. q \<noteq> [])\<rparr>"

lemma queueEnv_simps [simp]: "knownQueue queueEnv q = (q \<noteq> [])" "tenureLost queueEnv q = False" "claimFor queueEnv q = None"
  "primacyHeld queueEnv" "clock queueEnv = 100" "names_ok queueEnv" "commit_open queueEnv q"
  by (simp_all add: queueEnv_def sampleEnv_def names_ok_def commit_open_def)

lemma commit_queueEnv [simp]: "commitMutation queueEnv qm q mut =
    then_ok (mut (getQueue 100 qm q)) (\<lambda>(s, r). Inr (r, AList.update q (commitQueue 100 s) qm))"
  by (simp add: commitMutation_def updateQueue_def runCommitClaim_def fenceRefusal_def)

definition plainTask :: "string \<Rightarrow> int \<Rightarrow> FeatureRequest" where
  "plainTask i k = (newRequest i ''task'' ''q'' (Some k) None 100)"

definition plainQueue :: "FeatureRequest list \<Rightarrow> QueueState" where
  "plainQueue rs = (bornEmptyQueue 100)\<lparr>qRequests := rs, qLifecycle := LcRunning\<rparr>"

definition plainStore :: "FeatureRequest list \<Rightarrow> QueueMap" where
  "plainStore rs = [(''q'', persist (plainQueue rs))]"

lemma task_description [simp]: "validateDescription ''task'' = Some ''task''"
  by code_simp

lemma plain_enqueue: "\<exists>qm. enqueue queueEnv ''q'' [] ''t1'' ''task'' None None None = Inr (plainTask ''t1'' 0, qm)"
  by (simp add: enqueue_def targetQueue_def existingOccurrence_def insertPendingRequest_def insertMutation_def
      pendingRows_def MAX_PENDING_TASKS_PER_QUEUE_def getQueue_def bornEmptyQueue_def plainTask_def newRequest_def Let_def)

lemma queues_stay_sound_witness:
  "\<exists>qm. enqueue queueEnv ''q'' [] ''t1'' ''task'' None None None = Inr (plainTask ''t1'' 0, qm) \<and> inFlightRows (getQueue 100 qm ''q'') \<le> 1"
proof -
  obtain qm where e: "enqueue queueEnv ''q'' [] ''t1'' ''task'' None None None = Inr (plainTask ''t1'' 0, qm)"
    using plain_enqueue by blast
  have "queue_step [] qm" by (rule queue_step.enqueue [OF _ _ e]) (simp_all add: freshTask_def)
  then show ?thesis using e queues_stay_sound [OF store_ok_empty, of qm "''q''" 100] by (auto intro: exI [of _ qm])
qed


subsection \<open>Operations on the list of tasks\<close>

lemma commit_read:
  assumes "store_ok qm" "q \<noteq> []" "commitMutation env qm q mut = Inr (r, qm')"
    and filed: "\<And>s. mut (getQueue (clock env) qm q) = Inr (s, r) \<Longrightarrow> filed q (qRequests s)"
  shows "\<exists>s. mut (getQueue (clock env) qm q) = Inr (s, r) \<and> filed q (qRequests s) \<and>
    getQueue now qm' q = written (clock env) s \<and> (\<forall>q'. q' \<noteq> q \<longrightarrow> getQueue now qm' q' = getQueue now qm q')"
proof -
  obtain s where s: "mut (getQueue (clock env) qm q) = Inr (s, r)" "qm' = AList.update q (commitQueue (clock env) s) qm"
    using assms(3) by (auto simp: commitMutation_Inr)
  have f: "filed q (qRequests s)" by (rule filed [OF s(1)])
  have "getQueue now qm' q = written (clock env) s" unfolding s(2) by (rule getQueue_update(1) [OF f])
  moreover have "getQueue now qm' q' = getQueue now qm q'" if "q' \<noteq> q" for q'
    unfolding s(2) by (rule getQueue_update(2) [OF f that])
  ultimately show ?thesis using s(1) f by blast
qed

text \<open>
  C22. A task admitted by \<open>enqueue\<close> is pending, is inserted into the order of its queue at the position
  asked for (at the end when none is), after a check that the position is one of \<open>0..n\<close> and that fewer
  than a hundred tasks were pending; the other queues are untouched.
\<close>
theorem enqueue_inserts:
  fixes now :: int
  assumes "store_ok qm" "names_ok env" "freshTask qm uuid" "enqueue env dq qm uuid d target pos None = Inr (r, qm')"
  defines "q \<equiv> targetQueue dq target" and "Q \<equiv> getQueue (clock env) qm (targetQueue dq target)"
  shows "frId r = uuid \<and> frStatus r = StPending \<and> Some (frDescription r) = validateDescription d \<and>
    length (pendingOrder Q) < MAX_PENDING_TASKS_PER_QUEUE \<and>
    (\<exists>k \<le> length (queueOrder Q). (case pos of Some p \<Rightarrow> p = int k | None \<Rightarrow> k = length (queueOrder Q)) \<and>
       queueOrder (getQueue now qm' q) = insertAtIndex k uuid (queueOrder Q)) \<and>
    (\<forall>q'. q' \<noteq> q \<longrightarrow> getQueue now qm' q' = getQueue now qm q')"
proof -
  obtain v where v: "validateDescription d = Some v" "knownQueue env q"
    "commitMutation env qm q (insertMutation q (newRequest uuid v q pos None (clock env)) pos (clock env)) = Inr (r, qm')"
    using assms(4) unfolding enqueue_Inr Let_def q_def existingOccurrence_def by auto
  let ?req = "newRequest uuid v q pos None (clock env)"
  have ne: "q \<noteq> []" using assms(2) v(2) by (simp add: names_ok_def)
  note g = getQueue_ok [OF assms(1) ne, of "clock env", folded Q_def]
  have Q: "Q = getQueue (clock env) qm q" by (simp add: Q_def q_def)
  have new: "frId ?req \<notin> frId ` set (qRequests Q)" "frStatus ?req \<noteq> StInFlight"
    using getQueue_ids [OF assms(1) ne] assms(3) unfolding freshTask_def Q by fastforce+
  obtain s where s: "insertMutation q ?req pos (clock env) Q = Inr (s, r)"
    "getQueue now qm' q = written (clock env) s" "\<forall>q'. q' \<noteq> q \<longrightarrow> getQueue now qm' q' = getQueue now qm q'"
    using commit_read [OF assms(1) ne v(3), where now = now] insert_contract(1) [OF _ new(2)] g new(1)
    unfolding Q [symmetric] queue_shape_def by blast
  have sh: "queue_shape q Q" using g by (simp add: Q)
  let ?k = "case pos of Some p \<Rightarrow> nat p | None \<Rightarrow> length (qRequests Q)"
  have "queueOrder (getQueue now qm' q) = insertAtIndex ?k uuid (queueOrder Q)"
    unfolding s(2) using insertMutation_order [OF sh s(1) new] by simp
  moreover have "length (pendingOrder Q) < MAX_PENDING_TASKS_PER_QUEUE \<and> ?k \<le> length (queueOrder Q) \<and>
      (case pos of Some p \<Rightarrow> p = int ?k | None \<Rightarrow> ?k = length (queueOrder Q)) \<and>
      frId r = uuid \<and> frStatus r = StPending \<and> frDescription r = v"
    using s(1) by (auto simp: insertMutation_def Let_def pendingOrder_def pendingRows_rows queueOrder_def newRequest_def
        split: if_splits option.splits)
  ultimately show ?thesis using v(1) s(3) by auto
qed

lemma enqueue_inserts_witness:
  "\<exists>qm. queueOrder (getQueue 100 qm ''q'') = [''t1'']"
proof -
  obtain qm where "enqueue queueEnv ''q'' [] ''t1'' ''task'' None None None = Inr (plainTask ''t1'' 0, qm)"
    using plain_enqueue by blast
  moreover have "queueOrder (getQueue 100 [] ''q'') = []" by (simp add: getQueue_def queueOrder_def)
  ultimately have "queueOrder (getQueue 100 qm ''q'') = [''t1'']"
    using enqueue_inserts [of "[]" queueEnv "''t1''" "''q''" "''task''" None None _ qm 100]
    by (auto simp: freshTask_def targetQueue_def insertAtIndex_def)
  then show ?thesis by blast
qed


lemma refill_ids: "(\<And>x. x \<in> set xs \<Longrightarrow> P x = P' (f x)) \<Longrightarrow> map f (refill P xs ys) = refill P' (map f xs) (map f ys)"
  by (induction P xs ys rule: refill.induct) auto

lemma pending_ids:
  assumes "distinct (map frId (qRequests q))" "r \<in> set (qRequests q)"
  shows "frId r \<in> set (pendingOrder q) \<longleftrightarrow> pend r"
  using assms by (auto simp: pendingOrder_def distinct_map inj_on_def)

lemma pendingOrder_subset: "set (pendingOrder q) \<subseteq> set (queueOrder q)"
  by (auto simp: pendingOrder_def queueOrder_def)

lemma owner_commit: "findTaskOwner qm t = Some (q, row) \<Longrightarrow> onOwner env qm t body = commitMutation env qm q (withRow t body)"
  by (simp add: onOwner_def)

text \<open>
  C23. Reordering a pending task moves it to the place asked for among the pending tasks of its queue
  and moves nothing else: the places of the queue that hold pending tasks hold them in the new order,
  and every task that is not pending stays where it was.
\<close>
theorem reorder_permutes_pending:
  fixes now :: int
  assumes "store_ok qm" "findTaskOwner qm t = Some (q, row)" "reorderPendingRequest env qm t pos = Inr (r, qm')"
  defines "Q \<equiv> getQueue (clock env) qm q"
  shows "0 \<le> pos \<and> pos < int (length (pendingOrder Q)) \<and>
    pendingOrder (getQueue now qm' q) = insertAtIndex (nat pos) t (filter (\<lambda>i. i \<noteq> t) (pendingOrder Q)) \<and>
    queueOrder (getQueue now qm' q) = refill (\<lambda>i. i \<in> set (pendingOrder Q)) (queueOrder Q) (pendingOrder (getQueue now qm' q)) \<and>
    (\<forall>q'. q' \<noteq> q \<longrightarrow> getQueue now qm' q' = getQueue now qm q')"
proof -
  have ne: "q \<noteq> []" by (rule findTaskOwner_ok(1) [OF assms(1,2)])
  have c: "commitMutation env qm q (withRow t (reorderMutation t pos (clock env))) = Inr (r, qm')"
    using assms(3) by (simp add: reorderPendingRequest_def owner_commit [OF assms(2)])
  note g = getQueue_ok [OF assms(1) ne, of "clock env", folded Q_def]
  have dist: "distinct (map frId (qRequests Q))" using g(1) by (simp add: queue_shape_def filed_def)
  have keeps: "filed q (qRequests s)" if "withRow t (reorderMutation t pos (clock env)) (getQueue (clock env) qm q) = Inr (s, r)" for s
    using reorder_m.keeps_filed that g(1) unfolding Q_def queue_shape_def by blast
  obtain s where s: "withRow t (reorderMutation t pos (clock env)) Q = Inr (s, r)" "filed q (qRequests s)"
    "getQueue now qm' q = written (clock env) s" "\<forall>q'. q' \<noteq> q \<longrightarrow> getQueue now qm' q' = getQueue now qm q'"
    using commit_read [OF assms(1) ne c keeps, where now = now] unfolding Q_def by blast
  obtain tg where tg: "tg \<in> set (qRequests Q)" "frId tg = t" "reorderMutation t pos (clock env) tg Q = Inr (s, r)"
    using s(1) find_in by (fastforce simp: withRow_def split: option.splits)
  obtain moved where mv: "rows (qRequests s) = refill pend (rows (qRequests Q)) moved" "length moved = length (pendingRows Q)"
    "\<forall>r \<in> set moved. pend r" "map frId moved = insertAtIndex (nat pos) t (filter (\<lambda>i. i \<noteq> t) (pendingOrder Q))"
    using reorder_rows_in_order [OF g(1) tg] by blast
  have "pendingOrder (getQueue now qm' q) = map frId moved"
    using mv(2,3) by (simp add: s(3) written_order(2) [OF s(2)] mv(1) refill_filter pendingRows_rows)
  moreover have "queueOrder (getQueue now qm' q) = refill (\<lambda>i. i \<in> set (pendingOrder Q)) (queueOrder Q) (map frId moved)"
    unfolding s(3) written_order(1) [OF s(2)] mv(1) unfolding queueOrder_def
    by (rule refill_ids) (simp add: pending_ids [OF dist])
  moreover have "0 \<le> pos \<and> pos < int (length (pendingOrder Q))"
    using tg(3) by (auto simp: reorderMutation_def Let_def pendingRows_rows pendingOrder_def split: if_splits)
  ultimately show ?thesis using s(4) mv(4) by simp
qed

definition twoTasks :: QueueMap where
  "twoTasks = plainStore [plainTask ''t1'' 0, plainTask ''t2'' 1]"

lemma plainQueue_ok: "filed ''q'' rs \<Longrightarrow> dense rs \<Longrightarrow> \<forall>r \<in> set rs. frStatus r \<noteq> StInFlight \<Longrightarrow>
    queue_shape ''q'' (plainQueue rs) \<and> slot_ok (plainQueue rs)"
  by (auto simp: queue_shape_def plainQueue_def bornEmptyQueue_def lifecycle_ok_def slot_ok_def)

lemma plainStore_ok: "queue_shape ''q'' (plainQueue rs) \<Longrightarrow> slot_ok (plainQueue rs) \<Longrightarrow> store_ok (plainStore rs)"
  by (auto simp: store_ok_def plainStore_def split: if_splits)

lemma two_ok: "queue_shape ''q'' (plainQueue [plainTask ''t1'' 0, plainTask ''t2'' 1])" "slot_ok (plainQueue [plainTask ''t1'' 0, plainTask ''t2'' 1])"
  by (auto simp: plainTask_def newRequest_def filed_def dense_def rows_def plainQueue_def queue_shape_def slot_ok_def bornEmptyQueue_def lifecycle_ok_def)

lemma two_store [simp]: "store_ok twoTasks"
  unfolding twoTasks_def by (rule plainStore_ok [OF two_ok])

lemma two_read [simp]: "getQueue now twoTasks ''q'' = plainQueue [plainTask ''t1'' 0, plainTask ''t2'' 1]"
  by (simp add: getQueue_def twoTasks_def plainStore_def read_persist [OF two_ok(1)])

lemma two_owner [simp]: "findTaskOwner twoTasks ''t2'' = Some (''q'', plainTask ''t2'' 1)"
  by code_simp

lemma two_order [simp]: "pendingOrder (plainQueue [plainTask ''t1'' 0, plainTask ''t2'' 1]) = [''t1'', ''t2'']"
  "queueOrder (plainQueue [plainTask ''t1'' 0, plainTask ''t2'' 1]) = [''t1'', ''t2'']"
  by (simp_all add: pendingOrder_def queueOrder_def plainQueue_def bornEmptyQueue_def plainTask_def newRequest_def rows_def)

lemma reorder_permutes_pending_witness:
  "\<exists>r qm. reorderPendingRequest queueEnv twoTasks ''t2'' 0 = Inr (r, qm) \<and> queueOrder (getQueue 100 qm ''q'') = [''t2'', ''t1'']"
proof -
  have "isl (reorderPendingRequest queueEnv twoTasks ''t2'' 0) = False" by code_simp
  then obtain r qm where e: "reorderPendingRequest queueEnv twoTasks ''t2'' 0 = Inr (r, qm)"
    by (metis isl_def surj_pair sum.exhaust)
  have "queueOrder (getQueue 100 qm ''q'') = [''t2'', ''t1'']"
    using reorder_permutes_pending [OF two_store two_owner e, of 100] by (simp add: insertAtIndex_def)
  then show ?thesis using e by blast
qed

text \<open>
  C24. Moving a pending task to another queue takes it out of the order of its own queue, inserts it
  into the pending order of the target at the place asked for (at the end when none is) without moving
  any other task, and leaves the order of every other queue alone.
\<close>
theorem move_between_queues:
  fixes now :: int
  assumes "store_ok qm" "names_ok env" "findTaskOwner qm t = Some (src, row)" "src \<noteq> tgt"
    "movePendingRequest env qm t tgt pos = Inr (r, qm')"
  defines "S \<equiv> getQueue (clock env) qm src" and "D \<equiv> getQueue (clock env) qm tgt"
  shows "queueOrder (getQueue now qm' src) = filter (\<lambda>i. i \<noteq> t) (queueOrder S) \<and>
    pendingOrder (getQueue now qm' tgt) = insertAtIndex (case pos of Some p \<Rightarrow> nat p | None \<Rightarrow> length (pendingOrder D)) t (pendingOrder D) \<and>
    (\<exists>j \<le> length (queueOrder D). queueOrder (getQueue now qm' tgt) = insertAtIndex j t (queueOrder D)) \<and>
    length (pendingOrder D) < MAX_PENDING_TASKS_PER_QUEUE \<and>
    (\<forall>q. q \<noteq> src \<longrightarrow> q \<noteq> tgt \<longrightarrow> queueOrder (getQueue now qm' q) = queueOrder (getQueue now qm q))"
proof -
  have ne: "src \<noteq> []" "tgt \<noteq> []"
    using findTaskOwner_ok(1) [OF assms(1,3)] assms(2,5) by (auto simp: movePendingRequest_def names_ok_def split: if_splits)
  have mv: "updateQueueMap env qm [src, tgt] (moveMutation env t src tgt pos) = Inr (r, qm')"
    using assms(3-5) by (auto simp: movePendingRequest_def split: if_splits)
  then have "length (pendingRows D) < MAX_PENDING_TASKS_PER_QUEUE"
    unfolding D_def queueIn_getQueue [symmetric]
    by (auto simp: updateQueueMap_def moveMutation_def Let_def err_simps split: if_splits option.splits)
  then have "length (pendingOrder D) < MAX_PENDING_TASKS_PER_QUEUE" by (simp add: pendingOrder_def pendingRows_rows)
  then show ?thesis
    using move_orders [OF assms(1,4) ne mv, where now = now] unfolding S_def D_def by blast
qed

lemma move_between_queues_witness:
  "\<exists>r qm. movePendingRequest queueEnv twoTasks ''t2'' ''p'' None = Inr (r, qm) \<and> queueOrder (getQueue 100 qm ''q'') = [''t1'']"
proof -
  have "isl (movePendingRequest queueEnv twoTasks ''t2'' ''p'' None) = False" by code_simp
  then obtain r qm where e: "movePendingRequest queueEnv twoTasks ''t2'' ''p'' None = Inr (r, qm)"
    by (metis isl_def surj_pair sum.exhaust)
  have "queueOrder (getQueue 100 qm ''q'') = [''t1'']"
    using move_between_queues [OF two_store _ two_owner _ e, of 100] by simp
  then show ?thesis using e by blast
qed


lemma order_now: "queueOrder (getQueue now qm q) = queueOrder (getQueue now' qm q)"
  by (simp add: getQueue_def queueOrder_def bornEmptyQueue_def split: option.split)

lemma commit_keeps_order:
  assumes "store_ok qm" "qid \<noteq> []" "commitMutation env qm qid mut = Inr (r, qm')"
    and g: "\<And>s. filed qid (qRequests (getQueue (clock env) qm qid)) \<Longrightarrow> mut (getQueue (clock env) qm qid) = Inr (s, r) \<Longrightarrow>
      \<exists>g. qRequests s = map g (qRequests (getQueue (clock env) qm qid)) \<and>
        (\<forall>x. frId (g x) = frId x \<and> frPosition (g x) = frPosition x) \<and>
        (\<forall>x \<in> set (qRequests (getQueue (clock env) qm qid)). frQueueId (g x) = frQueueId x)"
  shows "queueOrder (getQueue now qm' q) = queueOrder (getQueue now qm q)"
proof -
  let ?Q = "getQueue (clock env) qm qid"
  have f: "filed qid (qRequests ?Q)" using getQueue_ok(1) [OF assms(1,2)] by (simp add: queue_shape_def)
  have fl: "filed qid (qRequests s)" if "mut ?Q = Inr (s, r)" for s using g [OF f that] f by (auto simp: filed_def comp_def)
  obtain s where s: "mut ?Q = Inr (s, r)" "filed qid (qRequests s)" "getQueue now qm' qid = written (clock env) s"
    "\<forall>q'. q' \<noteq> qid \<longrightarrow> getQueue now qm' q' = getQueue now qm q'"
    using commit_read [OF assms(1-3) fl, where now = now] by blast
  obtain g where g: "qRequests s = map g (qRequests ?Q)" "\<And>x. frId (g x) = frId x" "\<And>x. frPosition (g x) = frPosition x"
    using g [OF f s(1)] by blast
  have "queueOrder (getQueue now qm' qid) = queueOrder ?Q"
    unfolding s(3) written_order(1) [OF s(2)] unfolding queueOrder_def g(1) rows_map [of g, OF g(3)] by (simp add: g(2) comp_def)
  then show ?thesis using s(4) order_now [of now qm qid "clock env"] by (cases "q = qid") auto
qed

lemma transition_order:
  assumes "store_ok qm" "commitMutation env qm (queueIdForTask qm t) (transitionRow op tst b a t body) = Inr (u, qm')"
    and "\<And>q. distinct (map frId (qRequests q)) \<Longrightarrow> qRequests (body q) = map (\<lambda>r. if frId r = t then f r else r) (qRequests q)"
    and "\<And>r. frId (f r) = frId r \<and> frQueueId (f r) = frQueueId r \<and> frPosition (f r) = frPosition r"
  shows "queueOrder (getQueue now qm' q) = queueOrder (getQueue now qm q)"
proof (rule commit_keeps_order [OF assms(1) queueIdForTask_ne [OF assms(1)] assms(2)])
  let ?Q = "getQueue (clock env) qm (queueIdForTask qm t)"
  fix s assume "filed (queueIdForTask qm t) (qRequests ?Q)" and s: "transitionRow op tst b a t body ?Q = Inr (s, u)"
  then have "distinct (map frId (qRequests ?Q))" by (simp add: filed_def)
  from assms(3) [OF this] have "qRequests s = map (\<lambda>r. if frId r = t then f r else r) (qRequests ?Q)"
    using s by (auto simp: transitionRow_def split: option.splits)
  then show "\<exists>g. qRequests s = map g (qRequests ?Q) \<and> (\<forall>x. frId (g x) = frId x \<and> frPosition (g x) = frPosition x) \<and>
      (\<forall>x \<in> set (qRequests ?Q). frQueueId (g x) = frQueueId x)"
    using assms(4) by (intro exI [of _ "\<lambda>r. if frId r = t then f r else r"]) auto
qed

lemma capture_position [simp]: "frPosition (terminalCapture run r) = frPosition r"
  by (simp add: terminalCapture_def)

lemma modify_order:
  assumes "store_ok qm" "modifyPendingRequest env qm t d = Inr (r, qm')"
  shows "queueOrder (getQueue now qm' q) = queueOrder (getQueue now qm q)"
proof -
  obtain qid row where o: "findTaskOwner qm t = Some (qid, row)"
    using assms(2) by (auto simp: modifyPendingRequest_def onOwner_def split: option.splits)
  have c: "commitMutation env qm qid (withRow t (modifyMutation t d (clock env))) = Inr (r, qm')"
    using assms(2) by (simp add: modifyPendingRequest_def owner_commit [OF o])
  show ?thesis
  proof (rule commit_keeps_order [OF assms(1) findTaskOwner_ok(1) [OF assms(1) o] c])
    let ?Q = "getQueue (clock env) qm qid"
    fix s assume f: "filed qid (qRequests ?Q)" and s: "withRow t (modifyMutation t d (clock env)) ?Q = Inr (s, r)"
    obtain tg d' where tg: "tg \<in> set (qRequests ?Q)" "frId tg = t"
      "qRequests s = map (\<lambda>r. if frId r = t then tg\<lparr>frDescription := d', frUpdatedAt := clock env\<rparr> else r) (qRequests ?Q)"
      using s find_in by (fastforce simp: withRow_def modifyMutation_def Let_def split: option.splits if_splits)
    have "x = tg" if "x \<in> set (qRequests ?Q)" "frId x = t" for x using that tg(1,2) f by (auto simp: filed_def distinct_map inj_on_def)
    then show "\<exists>g. qRequests s = map g (qRequests ?Q) \<and> (\<forall>x. frId (g x) = frId x \<and> frPosition (g x) = frPosition x) \<and>
      (\<forall>x \<in> set (qRequests ?Q). frQueueId (g x) = frQueueId x)"
      using tg(3) by (intro exI [of _ "\<lambda>r. if frId r = t then r\<lparr>frDescription := d', frUpdatedAt := clock env\<rparr> else r"]) auto
  qed
qed

lemma taskTransition_order:
  assumes "taskTransition qm res = (out, qm')" "\<And>u m. res = Inr (u, m) \<Longrightarrow> queueOrder (getQueue now m q) = queueOrder (getQueue now qm q)"
  shows "queueOrder (getQueue now qm' q) = queueOrder (getQueue now qm q)"
  using assms by (auto simp: taskTransition_def split: sum.splits prod.splits QueueReject.splits)

text \<open>
  C25. A removal takes exactly one task out of the order of its queue; a description change, a
  dispatch, a finish, an attestation and a pause leave the order of every queue as it is.
\<close>
theorem order_kept:
  fixes now :: int
  assumes "store_ok qm"
  shows "(removeRequest env qm t = Inr (r, qm') \<longrightarrow> (\<exists>q row. findTaskOwner qm t = Some (q, row) \<and>
      queueOrder (getQueue now qm' q) = filter (\<lambda>i. i \<noteq> t) (queueOrder (getQueue now qm q)) \<and>
      (\<forall>q'. q' \<noteq> q \<longrightarrow> getQueue now qm' q' = getQueue now qm q'))) \<and>
    (modifyPendingRequest env qm t d = Inr (r, qm') \<or> markInFlight env qm t rid = Inr (u, qm') \<or>
     finish env qm runs t st err = (out, qm') \<or> attestCompleted env qm t = (out, qm') \<or> pause env qm t c keep = (out, qm')
     \<longrightarrow> (\<forall>q. queueOrder (getQueue now qm' q) = queueOrder (getQueue now qm q)))"
proof -
  have rm: "\<exists>q row. findTaskOwner qm t = Some (q, row) \<and>
      queueOrder (getQueue now qm' q) = filter (\<lambda>i. i \<noteq> t) (queueOrder (getQueue now qm q)) \<and>
      (\<forall>q'. q' \<noteq> q \<longrightarrow> getQueue now qm' q' = getQueue now qm q')" if rem: "removeRequest env qm t = Inr (r, qm')"
  proof -
    obtain q row where o: "findTaskOwner qm t = Some (q, row)"
      using rem by (auto simp: removeRequest_def onOwner_def split: option.splits)
    note ne = findTaskOwner_ok(1) [OF assms o]
    have cm: "commitMutation env qm q (withRow t (removeMutation t)) = Inr (r, qm')"
      using rem by (simp add: removeRequest_def owner_commit [OF o])
    have f: "filed q (qRequests (getQueue (clock env) qm q))" using getQueue_ok(1) [OF assms ne] by (simp add: queue_shape_def)
    obtain s where s: "withRow t (removeMutation t) (getQueue (clock env) qm q) = Inr (s, r)" "filed q (qRequests s)"
      "getQueue now qm' q = written (clock env) s" "\<forall>q'. q' \<noteq> q \<longrightarrow> getQueue now qm' q' = getQueue now qm q'"
      using commit_read [OF assms ne cm, where now = now] remove_m.keeps_filed [OF f] by blast
    have "qRequests s = filter (\<lambda>r. frId r \<noteq> t) (qRequests (getQueue (clock env) qm q))"
      using s(1) by (auto simp: withRow_def removeMutation_def split: option.splits)
    then have "queueOrder (getQueue now qm' q) = filter (\<lambda>i. i \<noteq> t) (queueOrder (getQueue (clock env) qm q))"
      unfolding s(3) written_order(1) [OF s(2)] by (simp add: queueOrder_def rows_filter filter_map comp_def)
    then show ?thesis using o s(4) order_now [of now qm q "clock env"] by auto
  qed
  have mk: "queueOrder (getQueue now m q) = queueOrder (getQueue now qm q)"
    if "commitMutation env qm (queueIdForTask qm t) (markMutation t rid (clock env)) = Inr (u, m)" for u m q
    using that unfolding markMutation_def by (rule transition_order [OF assms, where f =
      "\<lambda>r. r\<lparr>frStatus := StInFlight, frRunId := Some rid, frStartedAt := (case frStartedAt r of Some t \<Rightarrow> Some t | None \<Rightarrow> Some (clock env)),
        frUpdatedAt := clock env\<rparr>"]) auto
  have fn: "queueOrder (getQueue now m q) = queueOrder (getQueue now qm q)"
    if "commitMutation env qm (queueIdForTask qm t) (finishMutation t st err run (clock env)) = Inr (u, m)" for run u m q
    using that unfolding finishMutation_def by (rule transition_order [OF assms, where f =
      "\<lambda>r. terminalCapture run (r\<lparr>frStatus := st, frCompletedAt := Some (clock env), frUpdatedAt := clock env,
        frLastError := (if st = StFailed then err else frLastError r)\<rparr>)"]) auto
  have at: "queueOrder (getQueue now m q) = queueOrder (getQueue now qm q)"
    if "commitMutation env qm (queueIdForTask qm t) (attestMutation t (clock env)) = Inr (u, m)" for u m q
    using that unfolding attestMutation_def by (rule transition_order [OF assms, where f =
      "\<lambda>r. r\<lparr>frStatus := StCompleted, frAttested := True, frUpdatedAt := clock env\<rparr>"]) auto
  have ps: "queueOrder (getQueue now m q) = queueOrder (getQueue now qm q)"
    if "commitMutation env qm (queueIdForTask qm t) (pauseMutation t c keep (clock env)) = Inr (u, m)" for u m q
    using that unfolding pauseMutation_def by (rule transition_order [OF assms, where f =
      "\<lambda>r. r\<lparr>frStatus := StPaused, frPauseCause := c, frUpdatedAt := clock env\<rparr>"]) (auto simp: updateFirst_map)
  have "markInFlight env qm t rid = Inr (u, qm') \<Longrightarrow> queueOrder (getQueue now qm' q) = queueOrder (getQueue now qm q)" for q
    unfolding markInFlight_def by (rule mk)
  moreover have "finish env qm runs t st err = (out, qm') \<Longrightarrow> queueOrder (getQueue now qm' q) = queueOrder (getQueue now qm q)" for q
    unfolding finish_def by (erule taskTransition_order) (rule fn)
  moreover have "attestCompleted env qm t = (out, qm') \<Longrightarrow> queueOrder (getQueue now qm' q) = queueOrder (getQueue now qm q)" for q
    unfolding attestCompleted_def by (erule taskTransition_order) (rule at)
  moreover have "pause env qm t c keep = (out, qm') \<Longrightarrow> queueOrder (getQueue now qm' q) = queueOrder (getQueue now qm q)" for q
    unfolding pause_def by (erule taskTransition_order) (rule ps)
  moreover have "modifyPendingRequest env qm t d = Inr (r, qm') \<Longrightarrow> queueOrder (getQueue now qm' q) = queueOrder (getQueue now qm q)" for q
    by (rule modify_order [OF assms])
  ultimately show ?thesis using rm by blast
qed

lemma order_kept_witness:
  "\<exists>r qm. removeRequest queueEnv twoTasks ''t2'' = Inr (r, qm) \<and> queueOrder (getQueue 100 qm ''q'') = [''t1'']"
proof -
  have "isl (removeRequest queueEnv twoTasks ''t2'') = False" by code_simp
  then obtain r qm where e: "removeRequest queueEnv twoTasks ''t2'' = Inr (r, qm)"
    by (metis isl_def surj_pair sum.exhaust)
  have "queueOrder (getQueue 100 qm ''q'') = [''t1'']"
    using order_kept [OF two_store, of queueEnv "''t2''" r qm 100] e by auto
  then show ?thesis using e by blast
qed

end
