(* ===== verification/QueueBehaviour.thy ===== *)
theory QueueBehaviour
  imports QueueSafety
begin

text \<open>
  The exact outcome of the queue manager's task transitions and queries, what a stored record reads back
  as, and four behaviours of the code that its comments do not intend.
\<close>

subsection \<open>What was written is what is read\<close>

text \<open>
  A commit that changes nothing writes a record that reads back as the same queue with a new
  time stamp, and reading, normalising and writing a stored queue again is the identity.
\<close>
theorem read_back:
  fixes now :: int
  assumes "store_ok qm" "q \<noteq> []" "commitMutation env qm q (\<lambda>s. Inr (s, ())) = Inr (u, qm')"
  shows "getQueue now qm' q = (getQueue (clock env) qm q)\<lparr>qUpdatedAt := clock env\<rparr> \<and>
    ensureExtendedQueueShape (persist (getQueue now qm' q)) = getQueue now qm' q"
proof -
  let ?Q = "getQueue (clock env) qm q"
  note g = getQueue_ok [OF assms(1,2), of "clock env"]
  have f: "filed q (qRequests ?Q)" "dense (qRequests ?Q)" using g(1) by (simp_all add: queue_shape_def)
  have a: "getQueue now qm' q = written (clock env) ?Q"
    using commit_read [OF assms, where now = now] f(1) by auto
  have b: "written (clock env) ?Q = ?Q\<lparr>qUpdatedAt := clock env\<rparr>"
  proof -
    let ?s = "?Q\<lparr>qUpdatedAt := clock env\<rparr>"
    have "?Q\<lparr>qRequests := qRequests ?Q, qUpdatedAt := clock env\<rparr> = ?s" by simp
    moreover have "queue_shape q ?s" using g(1) by (simp add: queue_shape_def lifecycle_ok_def)
    ultimately show ?thesis unfolding written_def compact_dense [OF f] using read_persist by simp
  qed
  have "ensureExtendedQueueShape (persist (written (clock env) ?Q)) = written (clock env) ?Q"
    by (rule read_persist [OF written_shape [OF f(1)]])
  then show ?thesis by (simp only: a b)
qed

lemma read_back_witness:
  "\<exists>qm. commitMutation queueEnv twoTasks ''q'' (\<lambda>s. Inr (s, ())) = Inr ((), qm) \<and>
     getQueue 7 qm ''q'' = plainQueue [plainTask ''t1'' 0, plainTask ''t2'' 1]"
  using read_back [OF two_store, of "''q''" queueEnv "()" _ 7] by (simp add: plainQueue_def bornEmptyQueue_def)

text \<open>
  C26. A record of an earlier release is read as a queue.  The hypotheses are that its rows have distinct task
  ids and belong to the queue, a row without a queue id counting for the default queue.  Then the tasks are
  the same and their positions dense; a missing field of a row has its documented default; a record without
  the lifecycle is running exactly when it names a task in flight, and otherwise operator-paused, pending or
  empty in that order; the retired start source is read as its successor, and only a pending queue keeps an
  armed start.  Pause source and lifecycle agree, and the record reads the same after it is written back,
  unless it carries the retired \<open>paused\<close> flag on a queue that is not operator-paused: exactly then a queue
  that is not paused is read with a pause source.
\<close>
theorem legacy_record_shape:
  fixes stored :: StoredQueue and now :: int
  assumes "sqRequests stored = Some raws" "distinct (map srId raws)" "qid \<noteq> []"
    and "\<forall>r \<in> set raws. (case srQueueId r of Some q \<Rightarrow> q | None \<Rightarrow> DEFAULT_QUEUE_ID) = qid"
  defines "Q \<equiv> readStoredQueue now stored"
  defines "mismatched \<equiv> sqPaused stored = Some True \<and> qLifecycle Q \<noteq> LcOperatorPaused"
  shows "map frId (qRequests Q) = map srId raws \<and>
    map frPosition (rows (qRequests Q)) = map int [0..<length raws] \<and>
    (\<forall>i < length raws. frRetryCount (qRequests Q ! i) = (case srRetryCount (raws ! i) of Some n \<Rightarrow> n | None \<Rightarrow> 0) \<and>
       frUpdatedAt (qRequests Q ! i) = (case srUpdatedAt (raws ! i) of Some t \<Rightarrow> t | None \<Rightarrow> srEnqueuedAt (raws ! i)) \<and>
       frStatus (qRequests Q ! i) = srStatus (raws ! i) \<and> frQueueId (qRequests Q ! i) = qid) \<and>
    (sqLifecycle stored = None \<longrightarrow>
       (qLifecycle Q = LcRunning \<longleftrightarrow> sqInFlightId stored \<noteq> None) \<and>
       (qLifecycle Q = LcOperatorPaused \<longleftrightarrow> sqInFlightId stored = None \<and> sqPaused stored = Some True) \<and>
       (qLifecycle Q = LcIdlePending \<longleftrightarrow> sqInFlightId stored = None \<and> sqPaused stored \<noteq> Some True \<and> raws \<noteq> []) \<and>
       (qLifecycle Q = LcActiveEmpty \<longleftrightarrow> sqInFlightId stored = None \<and> sqPaused stored \<noteq> Some True \<and> raws = [])) \<and>
    ((qPauseSource Q = None \<longleftrightarrow> qLifecycle Q \<noteq> LcOperatorPaused) \<longleftrightarrow> \<not> mismatched) \<and>
    qScheduledStartAt Q = (if qLifecycle Q = LcIdlePending then sqScheduledStartAt stored else None) \<and>
    qScheduledStartSource Q = (if qLifecycle Q \<noteq> LcIdlePending then None
       else if sqScheduledStartSource stored = Some RetiredWakeUpRunner then Some ProgrammaticScheduled
       else map_option coerceRetiredStartSource (sqScheduledStartSource stored)) \<and>
    (\<not> mismatched \<longrightarrow> ensureExtendedQueueShape (persist Q) = Q)"
proof -
  let ?p = "fillIn now stored"
  have pr: "pqRequests ?p = map ensureExtendedFeatureRequest raws" using assms(1) by (simp add: fillIn_def)
  have f: "filed qid (pqRequests ?p)"
    using assms(2-4) by (auto simp: pr filed_def ensureExtendedFeatureRequest_def comp_def DEFAULT_QUEUE_ID_def split: option.splits)
  note c = compact_rows [OF f]
  have len: "length (compactRequestPositions (pqRequests ?p)) = length raws" using c(2) by (metis length_map pr)
  have Q: "Q = ensureExtendedQueueShape ?p" by (simp add: Q_def readStoredQueue_def)
  have rq: "qRequests Q = compactRequestPositions (pqRequests ?p)" by (simp add: Q ensureExtendedQueueShape_def Let_def)
  have pos: "map frPosition (rows (qRequests Q)) = map int [0..<length raws]" using c(4) rq len by (simp add: dense_def)
  have ids: "map frId (qRequests Q) = map srId raws" using c(2) by (simp add: rq pr comp_def ensureExtendedFeatureRequest_def)
  have row: "(qRequests Q ! i)\<lparr>frPosition := 0\<rparr> = (ensureExtendedFeatureRequest (raws ! i))\<lparr>frPosition := 0\<rparr>" if "i < length raws" for i
  proof -
    have "map (\<lambda>r. r\<lparr>frPosition := 0\<rparr>) (qRequests Q) ! i = map (\<lambda>r. r\<lparr>frPosition := 0\<rparr>) (map ensureExtendedFeatureRequest raws) ! i"
      unfolding rq pr [symmetric] by (simp only: compact_row [OF f])
    then show ?thesis using that len by (simp add: rq)
  qed
  have fields: "frRetryCount (qRequests Q ! i) = (case srRetryCount (raws ! i) of Some n \<Rightarrow> n | None \<Rightarrow> 0) \<and>
       frUpdatedAt (qRequests Q ! i) = (case srUpdatedAt (raws ! i) of Some t \<Rightarrow> t | None \<Rightarrow> srEnqueuedAt (raws ! i)) \<and>
       frStatus (qRequests Q ! i) = srStatus (raws ! i) \<and> frQueueId (qRequests Q ! i) = qid" if i: "i < length raws" for i
  proof -
    have "frQueueId (ensureExtendedFeatureRequest (raws ! i)) = qid"
      using bspec [OF assms(4) nth_mem [OF i]] unfolding DEFAULT_QUEUE_ID_def by (simp add: ensureExtendedFeatureRequest_def)
    then show ?thesis using row [OF i]
      by (cases "qRequests Q ! i") (auto simp: ensureExtendedFeatureRequest_def)
  qed
  have life: "qLifecycle Q = (case sqLifecycle stored of Some l \<Rightarrow> l | None \<Rightarrow>
      deriveLifecycleFromLegacyShape (sqPaused stored = Some True) (sqInFlightId stored) (length raws))"
    using len by (auto simp: Q ensureExtendedQueueShape_def Let_def fillIn_def assms(1) split: option.splits)
  have pair: "(qPauseSource Q = None \<longleftrightarrow> qLifecycle Q \<noteq> LcOperatorPaused) \<longleftrightarrow> \<not> mismatched"
    by (auto simp: mismatched_def Q ensureExtendedQueueShape_def Let_def normalizePauseSource_def fillIn_def split: option.splits)
  have start: "qScheduledStartAt Q = (if qLifecycle Q = LcIdlePending then sqScheduledStartAt stored else None)"
    "qScheduledStartSource Q = (if qLifecycle Q \<noteq> LcIdlePending then None
       else if sqScheduledStartSource stored = Some RetiredWakeUpRunner then Some ProgrammaticScheduled
       else map_option coerceRetiredStartSource (sqScheduledStartSource stored))"
    by (auto simp: Q ensureExtendedQueueShape_def Let_def fillIn_def)
  have "lifecycle_ok Q" if "\<not> mismatched"
    using pair that by (auto simp: lifecycle_ok_def Q ensureExtendedQueueShape_def Let_def)
  then have reread: "\<not> mismatched \<longrightarrow> ensureExtendedQueueShape (persist Q) = Q"
    using c(3,4) read_persist [of qid Q] by (simp add: queue_shape_def rq)
  show ?thesis
    using ids pos fields pair start reread life by (auto simp: deriveLifecycleFromLegacyShape_def)
qed

definition legacyPaused :: StoredQueue where
  "legacyPaused = \<lparr>sqRequests = Some [\<lparr>srId = ''t1'', srDescription = ''a'', srStatus = StInFlight, srEnqueuedAt = 3,
       srPosition = 4, srRunId = None, srQueueId = None, srRetryCount = None, srStartedAt = None, srUpdatedAt = None,
       srCompletedAt = None, srPauseCause = None, srLastError = None, srPausedReason = None, srPhaseProgress = None,
       srDegraded = None, srAttested = False, srOccurrence = None\<rparr>],
     sqInFlightId = Some ''t1'', sqPaused = Some True, sqPausedReason = None, sqUpdatedAt = None, sqLifecycle = None,
     sqPauseSource = None, sqScheduledStartAt = None, sqScheduledStartSource = Some RetiredWakeUpRunner, sqFailurePolicy = None\<rparr>"

lemma legacy_record_shape_witness:
  "qLifecycle (readStoredQueue 9 legacyPaused) = LcRunning \<and> qPauseSource (readStoredQueue 9 legacyPaused) \<noteq> None \<and>
   map frPosition (rows (qRequests (readStoredQueue 9 legacyPaused))) = [0]"
  using legacy_record_shape [OF _ _ _ _, of legacyPaused _ DEFAULT_QUEUE_ID 9]
  by (auto simp: legacyPaused_def DEFAULT_QUEUE_ID_def)

subsection \<open>Queries\<close>

lemma peekBest_min:
  "\<exists>m \<in> insert b {r \<in> set rs. pend r}. peekBest (Some b) rs = Some m \<and> (\<forall>x \<in> insert b {r \<in> set rs. pend r}. frPosition m \<le> frPosition x)"
proof (induction rs arbitrary: b)
  case (Cons r rs)
  show ?case
  proof (cases "pend r")
    case True
    let ?b = "if frPosition r < frPosition b then r else b"
    obtain m where "m \<in> insert ?b {r \<in> set rs. pend r}" "peekBest (Some ?b) rs = Some m"
      "\<forall>x \<in> insert ?b {r \<in> set rs. pend r}. frPosition m \<le> frPosition x" using Cons.IH [of ?b] by blast
    then show ?thesis using True by (intro bexI [of _ m]) (auto split: if_splits)
  next
    case False
    then show ?thesis using Cons.IH [of b] by auto
  qed
qed simp

lemma peekBest_pending: "peekBest b (filter pend rs) = peekBest b rs"
  by (induction b rs rule: peekBest.induct) (auto split: option.splits)

lemma peekBest_None:
  "peekBest None rs = (case filter pend rs of [] \<Rightarrow> None | x # xs \<Rightarrow> peekBest (Some x) xs)"
  by (induction rs) (auto simp: peekBest_pending split: list.split)

lemma peekBest_head:
  assumes "dense rs"
  shows "peekBest None rs = (case filter pend (rows rs) of [] \<Rightarrow> None | x # xs \<Rightarrow> Some x)"
proof (cases "filter pend (rows rs)")
  case Nil
  then have "filter pend rs = []" by (metis filter_False rows_simps(2) filter_empty_conv)
  then show ?thesis using Nil by (simp add: peekBest_None)
next
  case (Cons h hs)
  have "mset (filter pend rs) = mset (h # hs)" using Cons by (metis mset_filter rows_simps(1))
  then have st: "{r \<in> set rs. pend r} = set (h # hs)" by (metis mset_eq_setD set_filter)
  then obtain x xs where x: "filter pend rs = x # xs" by (cases "filter pend rs") (auto simp: filter_empty_conv)
  have "set (x # xs) = {r \<in> set rs. pend r}" by (metis x set_filter)
  then have sx: "insert x {r \<in> set xs. pend r} = {r \<in> set rs. pend r}" by auto
  obtain m where m: "m \<in> {r \<in> set rs. pend r}" "peekBest (Some x) xs = Some m" "\<forall>y \<in> {r \<in> set rs. pend r}. frPosition m \<le> frPosition y"
    using peekBest_min [of x xs] unfolding sx by blast
  have "sorted_wrt (<) (map frPosition (h # hs))"
    using dense_sorted [OF assms] by (metis Cons sorted_wrt_filter sorted_wrt_map)
  then have "m = h" using m(1,3) by (auto simp: st)
  then show ?thesis using Cons m(2) x by (simp add: peekBest_None)
qed

lemma plainQueue_simps [simp]: "qRequests (plainQueue rs) = rs" "qLifecycle (plainQueue rs) = LcRunning" "qInFlightId (plainQueue rs) = None"
  by (simp_all add: plainQueue_def bornEmptyQueue_def)

text \<open>
  The task dispatched next is the first pending one of the queue's order: none when the queue is
  unknown, operator-paused or has no pending task.
\<close>
theorem peek_is_first_pending:
  fixes env :: StoreEnv
  assumes "store_ok qm" "q \<noteq> []"
  defines "Q \<equiv> getQueue (clock env) qm q"
  shows "map_option frId (peekNextPending env qm q) =
    (if \<not> knownQueue env q \<or> qLifecycle Q = LcOperatorPaused \<or> pendingOrder Q = [] then None else Some (hd (pendingOrder Q)))"
proof -
  have "dense (qRequests Q)" using getQueue_ok(1) [OF assms(1,2)] by (simp add: Q_def queue_shape_def)
  from peekBest_head [OF this] show ?thesis
    by (auto simp: peekNextPending_def Q_def Let_def pendingOrder_def split: list.split)
qed

lemma peek_is_first_pending_witness: "map_option frId (peekNextPending queueEnv twoTasks ''q'') = Some ''t1''"
  using peek_is_first_pending [OF two_store, of "''q''" queueEnv] by simp

text \<open>
  Under \<open>halt-on-failure\<close> a queue is halted exactly while it holds a failed task, and the halt
  names the failed task that comes first in the queue's order; under \<open>continue\<close> it never halts.
\<close>
theorem halt_names_first_failure:
  "map_option haltTaskId (evaluateQueueHalt policy (qRequests Q)) =
    (if policy = HaltOnFailure
     then (case filter (\<lambda>r. frStatus r = StFailed) (rows (qRequests Q)) of [] \<Rightarrow> None | r # rs \<Rightarrow> Some (frId r))
     else None) \<and>
   (evaluateQueueHalt policy (qRequests Q) = None \<longleftrightarrow> policy = ContinueOnFailure \<or> filter (\<lambda>r. frStatus r = StFailed) (qRequests Q) = [])"
proof -
  have f: "sort_key frPosition (filter (\<lambda>r. isBlockingTaskStatus (frStatus r)) (qRequests Q)) = filter (\<lambda>r. frStatus r = StFailed) (rows (qRequests Q))"
    by (simp add: isBlockingTaskStatus_def rows_def filter_sort)
  have "filter (\<lambda>r. frStatus r = StFailed) (rows (qRequests Q)) = [] \<longleftrightarrow> filter (\<lambda>r. frStatus r = StFailed) (qRequests Q) = []"
    by (auto simp: filter_empty_conv)
  then show ?thesis unfolding evaluateQueueHalt_def f by (cases policy) (auto split: list.split)
qed

subsection \<open>Transitions\<close>

lemma owner_find:
  assumes "store_ok qm" "findTaskOwner qm t = Some (q, row)"
  shows "findRequest t (qRequests (getQueue now qm q)) = Some row"
proof -
  obtain p where p: "(q, p) \<in> set qm" "findRequest t (pqRequests p) = Some row"
    using assms(2) by (auto simp: findTaskOwner_def find_Some_iff split: option.splits) (metis nth_mem)
  have m: "map_of qm q = Some p" using p(1) assms(1) by (simp add: store_ok_def)
  then have "p = persist (getQueue now qm q)" by (rule getQueue_Some [OF assms(1)])
  then show ?thesis using p(2) by (metis persist_simps(1))
qed

lemma owner_queueId: "store_ok qm \<Longrightarrow> findTaskOwner qm t = Some (q, row) \<Longrightarrow> queueIdForTask qm t = q"
  using findTaskOwner_ok(2) by (auto simp: queueIdForTask_def)

lemma dense_map: "(\<And>r. frPosition (g r) = frPosition r) \<Longrightarrow> dense (map g rs) = dense rs"
  by (simp add: dense_def rows_map comp_def)

text \<open>A transition admitted by the decision rewrites the one row in place and refreshes the lifecycle.\<close>

lemma transition_read:
  assumes ok: "store_ok qm" and o: "findTaskOwner qm t = Some (q, row)" and ready: "commit_open env q"
    and d: "decideTaskTransition op (Some (frStatus row)) tst (b \<and> qInFlightId (getQueue (clock env) qm q) \<noteq> None \<and> qInFlightId (getQueue (clock env) qm q) \<noteq> Some t) a = None"
    and B: "qRequests (body (getQueue (clock env) qm q)) = map (\<lambda>r. if frId r = t then f r else r) (qRequests (getQueue (clock env) qm q))"
    and f: "\<And>r. frId (f r) = frId r \<and> frQueueId (f r) = frQueueId r \<and> frPosition (f r) = frPosition r"
  shows "\<exists>qm'. commitMutation env qm q (transitionRow op tst b a t body) = Inr ((), qm') \<and>
    qRequests (getQueue now qm' q) = map (\<lambda>r. if frId r = t then f r else r) (qRequests (getQueue (clock env) qm q)) \<and>
    qInFlightId (getQueue now qm' q) = qInFlightId (body (getQueue (clock env) qm q)) \<and>
    qLifecycle (getQueue now qm' q) = refreshUnheldLifecycle (body (getQueue (clock env) qm q)) \<and>
    (\<forall>q'. q' \<noteq> q \<longrightarrow> getQueue now qm' q' = getQueue now qm q')"
proof -
  let ?Q = "getQueue (clock env) qm q"
  note ne = findTaskOwner_ok(1) [OF ok o]
  let ?s = "withRefreshedLifecycle (body ?Q)"
  have "transitionRow op tst b a t body ?Q = Inr (?s, ())"
    using d by (simp add: transitionRow_def owner_find [OF ok o])
  then obtain qm' where qm': "commitMutation env qm q (transitionRow op tst b a t body) = Inr ((), qm')"
    "qm' = AList.update q (commitQueue (clock env) ?s) qm"
    using ready by (auto simp: commitMutation_Inr commit_open_def fenceRefusal_def split: option.splits)
  have sh: "filed q (qRequests ?Q)" "dense (qRequests ?Q)" using getQueue_ok(1) [OF ok ne] by (simp_all add: queue_shape_def)
  have rs: "qRequests ?s = map (\<lambda>r. if frId r = t then f r else r) (qRequests ?Q)" by (simp add: B)
  have fd: "filed q (qRequests ?s)" unfolding rs by (rule filed_map) (use sh(1) f in \<open>auto simp: filed_def\<close>)
  have dn: "dense (qRequests ?s)" unfolding rs by (subst dense_map) (use f sh(2) in auto)
  have "getQueue now qm' q = written (clock env) ?s" unfolding qm'(2) by (rule getQueue_update(1) [OF fd])
  moreover have "getQueue now qm' q' = getQueue now qm q'" if "q' \<noteq> q" for q'
    unfolding qm'(2) by (rule getQueue_update(2) [OF fd that])
  ultimately show ?thesis using qm'(1) rs written_simps [OF fd, of "clock env"] compact_dense [OF fd dn]
    by (intro exI [of _ qm']) (simp add: withRefreshedLifecycle_def)
qed


text \<open>
  C27. A task is finished exactly when the requested status is terminal and the task is in flight, or is
  pending and is not reported completed. Then only its row changes, it is stamped with the time, the slot
  it held is freed, and the lifecycle of an unheld queue says whether work is left; in every other case
  the finish is refused and nothing is written.
\<close>
theorem finish_exact:
  fixes now :: int
  assumes "store_ok qm" "findTaskOwner qm t = Some (q, row)" "commit_open env q"
  defines "Q \<equiv> getQueue (clock env) qm q"
  shows "if isTerminalRequestStatus st \<and> (frStatus row = StInFlight \<or> frStatus row = StPending \<and> st \<noteq> StCompleted)
    then \<exists>qm' f. finish env qm runs t st err = (Ok, qm') \<and>
      qRequests (getQueue now qm' q) = map (\<lambda>r. if frId r = t then f r else r) (qRequests Q) \<and>
      frStatus (f row) = st \<and> frCompletedAt (f row) = Some (clock env) \<and>
      qInFlightId (getQueue now qm' q) = (if qInFlightId Q = Some t then None else qInFlightId Q) \<and>
      (qLifecycle Q \<in> {LcRunning, LcActiveEmpty} \<longrightarrow>
         (qLifecycle (getQueue now qm' q) = LcRunning \<longleftrightarrow> qInFlightId (getQueue now qm' q) \<noteq> None \<or> pendingOrder (getQueue now qm' q) \<noteq> [])) \<and>
      (\<forall>q'. q' \<noteq> q \<longrightarrow> getQueue now qm' q' = getQueue now qm q')
    else finish env qm runs t st err = (NotOk (Rejected (Transition IllegalSourceStatus)), qm)"
proof -
  let ?run = "map_option snd (findRunByTask runs t)"
  let ?f = "\<lambda>r. terminalCapture ?run (r\<lparr>frStatus := st, frCompletedAt := Some (clock env), frUpdatedAt := clock env,
        frLastError := (if st = StFailed then err else frLastError r)\<rparr>)"
  let ?B = "\<lambda>queue. (setRow t ?f queue)\<lparr>qInFlightId := (if qInFlightId queue = Some t then None else qInFlightId queue)\<rparr>"
  note own = owner_queueId [OF assms(1,2)]
  have dec: "decideTaskTransition OpFinish (Some (frStatus row)) (Some st) False False =
      (if isTerminalRequestStatus st \<and> (frStatus row = StInFlight \<or> frStatus row = StPending \<and> st \<noteq> StCompleted) then None else Some IllegalSourceStatus)"
    by (cases "frStatus row"; cases st) (simp_all add: decideTaskTransition_def isTerminalRequestStatus_def)
  have fin: "finish env qm runs t st err = taskTransition qm (commitMutation env qm q (transitionRow OpFinish (Some st) False False t ?B))"
    by (simp add: finish_def own finishMutation_def)
  show ?thesis
  proof (cases "decideTaskTransition OpFinish (Some (frStatus row)) (Some st) False False")
    case None
    obtain qm' where w: "commitMutation env qm q (transitionRow OpFinish (Some st) False False t ?B) = Inr ((), qm')"
      "qRequests (getQueue now qm' q) = map (\<lambda>r. if frId r = t then ?f r else r) (qRequests Q)"
      "qInFlightId (getQueue now qm' q) = qInFlightId (?B Q)"
      "qLifecycle (getQueue now qm' q) = refreshUnheldLifecycle (?B Q)"
      "\<forall>q'. q' \<noteq> q \<longrightarrow> getQueue now qm' q' = getQueue now qm q'"
      using transition_read [OF assms(1-3), where op = OpFinish and tst = "Some st" and b = False and a = False and body = ?B and f = ?f and now = now] None
      unfolding Q_def by (auto simp: terminalCapture_def)
    have "hasPending (?B Q) \<longleftrightarrow> pendingOrder (getQueue now qm' q) \<noteq> []"
      by (auto simp: hasPending_def pendingOrder_def filter_empty_conv w(2))
    then have lc: "qLifecycle Q \<in> {LcRunning, LcActiveEmpty} \<longrightarrow>
        (qLifecycle (getQueue now qm' q) = LcRunning \<longleftrightarrow> qInFlightId (getQueue now qm' q) \<noteq> None \<or> pendingOrder (getQueue now qm' q) \<noteq> [])"
      unfolding w(3,4) by (auto simp: refreshUnheldLifecycle_def setRow_def)
    have fo: "finish env qm runs t st err = (Ok, qm')" by (simp add: fin w(1) taskTransition_def)
    have row: "frStatus (?f row) = st" "frCompletedAt (?f row) = Some (clock env)" by (simp_all add: terminalCapture_def)
    have slot: "qInFlightId (getQueue now qm' q) = (if qInFlightId Q = Some t then None else qInFlightId Q)" by (simp add: w(3))
    have adm: "isTerminalRequestStatus st \<and> (frStatus row = StInFlight \<or> frStatus row = StPending \<and> st \<noteq> StCompleted)"
      using None dec by (simp split: if_splits)
    show ?thesis unfolding if_P [OF adm]
      by (rule exI [of _ qm'], rule exI [of _ ?f]) (intro conjI fo w(2) row slot lc w(5))
  next
    case (Some e)
    then have "commitMutation env qm q (transitionRow OpFinish (Some st) False False t ?B) = Inl (Transition e)"
      using assms(3) by (simp add: commitMutation_def updateQueue_def transitionRow_def owner_find [OF assms(1,2)]
          commit_open_def runCommitClaim_def fenceRefusal_def split: option.splits)
    then show ?thesis using Some dec by (auto simp: fin taskTransition_def split: if_splits)
  qed
qed


lemma finish_exact_witness:
  "\<exists>qm'. finish queueEnv twoTasks [] ''t2'' StFailed None = (Ok, qm') \<and> finish queueEnv twoTasks [] ''t2'' StCompleted None = (NotOk (Rejected (Transition IllegalSourceStatus)), twoTasks)"
  using finish_exact [OF two_store two_owner, of queueEnv StFailed "[]" None 100] finish_exact [OF two_store two_owner, of queueEnv StCompleted "[]" None 100]
  by (auto simp: isTerminalRequestStatus_def plainTask_def)

lemma mark_conflict:
  assumes "store_ok qm" "findTaskOwner qm t = Some (q, row)" "qInFlightId (getQueue (clock env) qm q) = Some t'" "t' \<noteq> t"
  shows "markInFlight env qm t rid \<noteq> Inr res"
  using assms owner_queueId [OF assms(1,2)] owner_find [OF assms(1,2), of "clock env"]
  by (cases res) (auto simp: markInFlight_def commitMutation_Inr markMutation_def transitionRow_Inr decideTaskTransition_def)

text \<open>
  \<open>attestCompleted\<close> also admits a task that is still in flight, because the shared table admits any
  finish from in-flight: it marks the row completed and leaves the queue's slot naming it. No row is then
  in flight, and still no other task of the queue can be dispatched.
\<close>
theorem attest_in_flight_strands_slot:
  fixes now :: int
  assumes "store_ok qm" "findTaskOwner qm t = Some (q, row)" "commit_open env q" "frStatus row = StInFlight"
  shows "\<exists>qm'. attestCompleted env qm t = (Ok, qm') \<and> inFlightRows (getQueue now qm' q) = 0 \<and>
    qInFlightId (getQueue now qm' q) = Some t \<and>
    (\<forall>env' t' row' rid res. findTaskOwner qm' t' = Some (q, row') \<longrightarrow> t' \<noteq> t \<longrightarrow> markInFlight env' qm' t' rid \<noteq> Inr res)"
proof -
  let ?Q = "getQueue (clock env) qm q"
  let ?f = "\<lambda>r. r\<lparr>frStatus := StCompleted, frAttested := True, frUpdatedAt := clock env\<rparr>"
  note ne = findTaskOwner_ok(1) [OF assms(1,2)]
  have in_Q: "row \<in> set (qRequests ?Q)" "frId row = t" using findTaskOwner_ok(3,4) [OF assms(1,2)] by auto
  note g = getQueue_ok [OF assms(1) ne, of "clock env"]
  have slot: "qInFlightId ?Q = Some t" using g(2) in_Q assms(4) by (auto simp: slot_ok_def)
  have dec: "decideTaskTransition OpFinish (Some (frStatus row)) (Some StCompleted) False True = None"
    by (simp add: decideTaskTransition_def isTerminalRequestStatus_def assms(4))
  obtain qm' where w: "commitMutation env qm q (transitionRow OpFinish (Some StCompleted) False True t (setRow t ?f)) = Inr ((), qm')"
    using transition_read [OF assms(1-3), where op = OpFinish and tst = "Some StCompleted" and b = False and a = True and body = "setRow t ?f" and f = ?f] dec
    by auto
  have rd: "qRequests (getQueue n qm' q) = map (\<lambda>r. if frId r = t then ?f r else r) (qRequests ?Q)" "qInFlightId (getQueue n qm' q) = Some t" for n
    using transition_read [OF assms(1-3), where op = OpFinish and tst = "Some StCompleted" and b = False and a = True and body = "setRow t ?f" and f = ?f and now = n] dec w slot
    by auto
  have at: "attestCompleted env qm t = (Ok, qm')"
    using w by (simp add: attestCompleted_def owner_queueId [OF assms(1,2)] attestMutation_def taskTransition_def)
  have ok: "store_ok qm'" by (rule transitions_ok(3) [OF assms(1) at])
  have "frId r = t" if "r \<in> set (qRequests ?Q)" "frStatus r = StInFlight" for r
    using g(2) that slot by (auto simp: slot_ok_def)
  then have "inFlightRows (getQueue now qm' q) = 0" by (auto simp: inFlightRows_def rd filter_empty_conv)
  then show ?thesis using at rd(2) mark_conflict [OF ok] by blast
qed

definition runningTasks :: QueueMap where
  "runningTasks = [(''q'', persist ((plainQueue [(plainTask ''t1'' 0)\<lparr>frStatus := StInFlight\<rparr>, plainTask ''t2'' 1])\<lparr>qInFlightId := Some ''t1''\<rparr>))]"

lemma running_store [simp]: "store_ok runningTasks"
  by (auto simp: store_ok_def runningTasks_def queue_shape_def slot_ok_def lifecycle_ok_def filed_def dense_def rows_def plainTask_def newRequest_def
      plainQueue_def bornEmptyQueue_def split: if_splits intro!: exI)

lemma running_owner [simp]: "findTaskOwner runningTasks ''t1'' = Some (''q'', (plainTask ''t1'' 0)\<lparr>frStatus := StInFlight\<rparr>)"
  by code_simp

lemma attest_in_flight_strands_slot_witness:
  "\<exists>qm. attestCompleted queueEnv runningTasks ''t1'' = (Ok, qm) \<and> qInFlightId (getQueue 100 qm ''q'') = Some ''t1''"
  using attest_in_flight_strands_slot [OF running_store running_owner, of queueEnv 100] by auto


subsection \<open>Releasing a queue whose Run is paused\<close>

lemma findTaskOwner_update:
  assumes "distinct (map fst qm)" "map_of qm q = Some p" "pqRequests c = pqRequests p"
  shows "findTaskOwner (AList.update q c qm) t = findTaskOwner qm t"
  using assms
proof (induction qm)
  case (Cons a qm)
  obtain k p' where a: "a = (k, p')" by force
  show ?case
  proof (cases "k = q")
    case True
    then show ?thesis using Cons.prems by (auto simp: a findTaskOwner_def)
  next
    case False
    then have "findTaskOwner (AList.update q c qm) t = findTaskOwner qm t" using Cons by (simp add: a)
    then show ?thesis using False by (simp add: a findTaskOwner_def)
  qed
qed simp

text \<open>A write of a queue's own fields that keeps its rows.\<close>

lemma fields_read:
  assumes ok: "store_ok qm" and o: "findTaskOwner qm t = Some (q, row)" and ready: "commit_open env q"
    and rq: "qRequests (g (getQueue (clock env) qm q)) = qRequests (getQueue (clock env) qm q)"
  shows "\<exists>qm'. commitMutation env qm q (\<lambda>s. Inr (g s, ())) = Inr ((), qm') \<and> (\<forall>i. findTaskOwner qm' i = findTaskOwner qm i) \<and>
    qLifecycle (getQueue now qm' q) = qLifecycle (g (getQueue (clock env) qm q)) \<and>
    qInFlightId (getQueue now qm' q) = qInFlightId (g (getQueue (clock env) qm q))"
proof -
  let ?Q = "getQueue (clock env) qm q"
  note ne = findTaskOwner_ok(1) [OF ok o]
  have sh: "filed q (qRequests ?Q)" "dense (qRequests ?Q)" using getQueue_ok(1) [OF ok ne] by (simp_all add: queue_shape_def)
  have f: "filed q (qRequests (g ?Q))" using sh(1) by (simp add: rq)
  let ?c = "commitQueue (clock env) (g ?Q)"
  have "row \<in> set (qRequests ?Q)" by (rule findTaskOwner_ok(4) [OF ok o])
  then have "frId row \<in> frId ` set (qRequests ?Q)" by blast
  from getQueue_ids [OF ok ne this] obtain p where p: "map_of qm q = Some p" by blast
  have pq: "pqRequests ?c = pqRequests p"
    using getQueue_Some [OF ok p, of "clock env"] compact_dense [OF sh] written_simps(1) [OF f]
    by (metis commitQueue_written persist_simps(1) rq)
  have w: "commitMutation env qm q (\<lambda>s. Inr (g s, ())) = Inr ((), AList.update q ?c qm)"
    using ready by (simp add: commitMutation_Inr commit_open_def fenceRefusal_def split: option.splits)
  have "getQueue now (AList.update q ?c qm) q = written (clock env) (g ?Q)" by (rule getQueue_update(1) [OF f])
  moreover have "distinct (map fst qm)" using ok unfolding store_ok_def by blast
  ultimately show ?thesis using w findTaskOwner_update [OF _ p pq] written_simps(2,3) [OF f] by auto
qed

text \<open>
  C28. Resuming an operator-paused queue releases the queue and then the Run that its task is executing,
  if it is the queue's pause that holds that Run; a Run that is paused for any other cause, or not at all,
  is left as it is.  A Run held by the queue's pause runs again, unless it is paused in a retry countdown or
  at the delayed-retry cap.  Then the store refuses the Run, the queue has already been released, the
  operator is told that the resume failed, and the Run keeps the queue's manual pause.
\<close>
theorem queue_resume_exact:
  fixes now :: int
  assumes "store_ok qm" "runs_ok runs" "commit_open env q" "knownQueue env q" "getRun runs q = Some run"
    "findTaskOwner qm (featureId run) = Some (q, row)" "frStatus row = StInFlight"
    "qLifecycle (getQueue (clock env) qm q) = LcOperatorPaused"
    "isOperableRunStatus (runStatus run)"
  shows "\<exists>qm'. qLifecycle (getQueue now qm' q) = LcRunning \<and>
    (if manualPauseCause run \<noteq> Some QueuePausedMidRun
     then setQueuePausedState env qm runs False q reason src prompt = (Ok, qm', runs)
     else if runStatus run = Paused \<and> (pendingRetryAt run \<noteq> None \<or> 5 \<le> delayedRetryCount run)
     then \<exists>e. setQueuePausedState env qm runs False q reason src prompt = (NotOk (RunWrite (InvariantViolation e)), qm', runs)
     else \<exists>w. setQueuePausedState env qm runs False q reason src prompt = (Ok, qm', AList.update q w runs) \<and>
            runStatus w = (if runStatus run = Paused then Running else runStatus run) \<and> manualPauseAt w = None)"
proof -
  let ?Q = "getQueue (clock env) qm q"
  define m where "m = queueResumePatch (clock env) prompt run"
  have ok: "run_ok run" by (rule getRun_ok [OF assms(2,5)])
  note ne = findTaskOwner_ok(1) [OF assms(1,6)]
  have "row \<in> set (qRequests ?Q)" by (rule findTaskOwner_ok(4) [OF assms(1,6)])
  then have "qInFlightId ?Q \<noteq> None" using getQueue_ok(2) [OF assms(1) ne] assms(7) by (auto simp: slot_ok_def)
  then have rl: "releasedLifecycle ?Q = LcRunning" by (simp add: releasedLifecycle_def)
  obtain qm' where q': "commitMutation env qm q (\<lambda>s. Inr (releasedFields LcRunning s, ())) = Inr ((), qm')"
    "\<forall>i. findTaskOwner qm' i = findTaskOwner qm i" "qLifecycle (getQueue now qm' q) = LcRunning"
    using fields_read [OF assms(1,6,3), where g = "releasedFields LcRunning" and now = now] by (auto simp: releasedFields_def)
  have h: "holdMutation False src reason LcRunning = (\<lambda>s. Inr (releasedFields LcRunning s, ()))"
    by (rule ext) (simp add: holdMutation_def)
  have rq: "rowQueueId row = q" by (rule findTaskOwner_ok(2) [OF assms(1,6)])
  have mt: "matchingRunForQueue qm' (getRun runs q) q = Some run"
    using q'(2) assms(5-7) rq by (simp add: matchingRunForQueue_def)
  have up: "updateRun env runs q \<lparr>updRunId = runId run, updAllowed = OPERABLE_RUN_STATUSES, updPatch = (\<lambda>c. Inr (queueResumePatch (clock env) prompt c))\<rparr> (claimOf env q)
      = (case validateRunInvariants m (Some run) of Some e \<Rightarrow> Inl (InvariantViolation e)
         | None \<Rightarrow> Inr (stampFence (claimOf env q) m, AList.update q (stampFence (claimOf env q) m) runs))"
    using assms(3,5,9) by (intro updateRun_open) (simp_all add: m_def operable_iff)
  have res: "setQueuePausedState env qm runs False q reason src prompt =
     (if manualPauseCause run \<noteq> Some QueuePausedMidRun then (Ok, qm', runs)
      else case validateRunInvariants m (Some run) of
        Some e \<Rightarrow> (NotOk (RunWrite (InvariantViolation e)), qm', runs)
      | None \<Rightarrow> (Ok, qm', AList.update q (stampFence (claimOf env q) m) runs))"
    using assms(4,8)
    by (simp add: commit_open_simps(1) [OF assms(3)] setQueuePausedState_def Let_def rl h q'(1) matchRun_def resumeMatchingRunForQueue_def mt patchMatchingRun_def up
        isRunRaceRefusal_def split: option.split)
  have v: "validateRunInvariants m (Some run) = None \<longleftrightarrow> run_ok m" by (rule validate_run_ok) (simp add: ok)
  show ?thesis
  proof (cases "manualPauseCause run = Some QueuePausedMidRun")
    case False
    then show ?thesis using res q'(3) by auto
  next
    case c: True
    note eq = res [simplified c, simplified]
    have ms: "runStatus m = (if runStatus run = Paused then Running else runStatus run)" "manualPauseAt m = None"
      using c by (simp_all add: m_def queueResumePatch_def)
    have m_ok: "run_ok m \<longleftrightarrow> \<not> (runStatus run = Paused \<and> (pendingRetryAt run \<noteq> None \<or> 5 \<le> delayedRetryCount run))"
      using ok c by (auto simp: m_def queueResumePatch_def run_ok_split core_defs split: if_splits)
    show ?thesis
    proof (cases "run_ok m")
      case True
      then show ?thesis using c eq v q'(3) m_ok ms
        by (intro exI [of _ qm']) (auto intro!: exI [of _ "stampFence (claimOf env q) m"])
    next
      case False
      then obtain e where "validateRunInvariants m (Some run) = Some e" using v by (cases "validateRunInvariants m (Some run)") auto
      then show ?thesis using c eq q'(3) m_ok False by (intro exI [of _ qm']) auto
    qed
  qed
qed

definition heldTasks :: QueueMap where
  "heldTasks = [(''q'', persist ((plainQueue [(plainTask ''t1'' 0)\<lparr>frStatus := StInFlight\<rparr>, plainTask ''t2'' 1])
     \<lparr>qInFlightId := Some ''t1'', qLifecycle := LcOperatorPaused, qPauseSource := Some PsOperator\<rparr>))]"

lemma held_shape: "queue_shape ''q'' ((plainQueue [(plainTask ''t1'' 0)\<lparr>frStatus := StInFlight\<rparr>, plainTask ''t2'' 1])
     \<lparr>qInFlightId := Some ''t1'', qLifecycle := LcOperatorPaused, qPauseSource := Some PsOperator\<rparr>)"
  by (auto simp: queue_shape_def lifecycle_ok_def filed_def dense_def rows_def plainTask_def newRequest_def plainQueue_def bornEmptyQueue_def)

lemma held_store [simp]: "store_ok heldTasks"
  using held_shape by (auto simp: store_ok_def heldTasks_def slot_ok_def plainTask_def newRequest_def split: if_splits intro!: exI)

lemma held_owner [simp]: "findTaskOwner heldTasks ''t1'' = Some (''q'', (plainTask ''t1'' 0)\<lparr>frStatus := StInFlight\<rparr>)"
  by code_simp

lemma held_read [simp]: "qLifecycle (getQueue now heldTasks ''q'') = LcOperatorPaused"
  by (simp add: getQueue_def heldTasks_def read_persist [OF held_shape])

definition countdownRun :: WorkflowRun where
  "countdownRun = (sampleRun [''plan''])\<lparr>runStatus := Paused, pendingRetryAt := Some 500, pendingRetryCause := Some RetryTransient,
     delayedRetryCount := 1, manualPauseAt := Some 7, manualPauseCause := Some QueuePausedMidRun\<rparr>"

lemma countdown_ok [simp]: "runs_ok [(''q'', countdownRun)]"
  using sampleRun_ok [of "[''plan'']"] by (intro runs_ok_single) (simp add: countdownRun_def run_ok_split core_defs sampleRun_def breakpoints_ok_def planIds_def)

lemma queue_resume_exact_witness:
  "\<exists>e qm. setQueuePausedState queueEnv heldTasks [(''q'', countdownRun)] False ''q'' None PsOperator None
     = (NotOk (RunWrite (InvariantViolation e)), qm, [(''q'', countdownRun)]) \<and> qLifecycle (getQueue 100 qm ''q'') = LcRunning"
  using queue_resume_exact [OF held_store countdown_ok, of queueEnv "''q''" countdownRun _ 100 None PsOperator None]
  by (auto simp: countdownRun_def getRun_def sampleRun_def isOperableRunStatus_def)

subsection \<open>Retry\<close>

lemma remove1_by_id:
  "distinct (map frId rs) \<Longrightarrow> findRequest t rs = Some x \<Longrightarrow> remove1 x rs = filter (\<lambda>r. frId r \<noteq> t) rs"
proof (induction rs)
  case (Cons r rs)
  show ?case
  proof (cases "frId r = t")
    case True
    then have "\<forall>y \<in> set rs. frId y \<noteq> t" using Cons.prems(1) by (auto simp: image_iff)
    then have "filter (\<lambda>r. frId r \<noteq> t) rs = rs" by (blast intro: filter_True)
    then show ?thesis using True Cons.prems(2) by (simp add: findRequest_def del: filter_id_conv)
  next
    case False
    then have f: "findRequest t rs = Some x" using Cons.prems(2) by (simp add: findRequest_def)
    then have "x \<noteq> r" using find_in False by blast
    then show ?thesis using Cons.IH [OF _ f] Cons.prems(1) False by simp
  qed
qed (simp add: findRequest_def)

text \<open>
  C29. \<open>retry\<close> does not insert the retried task into the order of its queue: it files it after the row
  in flight (first, when there is none) in the array of rows and renumbers by array index, so whatever
  order the operator had given the other tasks is replaced by the order they were enqueued in.
\<close>
theorem retry_renumbers_by_array:
  fixes now :: int
  assumes "store_ok qm" "findTaskOwner qm t = Some (q, row)" "retry env qm runs t False = (Ok, qm')"
  defines "others \<equiv> filter (\<lambda>r. frId r \<noteq> t) (qRequests (getQueue (clock env) qm q))"
  shows "frStatus row \<in> {StPaused, StFailed, StCanceled} \<and>
    queueOrder (getQueue now qm' q) = insertAtIndex (retryIndex others) t (map frId others) \<and>
    (\<forall>q'. q' \<noteq> q \<longrightarrow> getQueue now qm' q' = getQueue now qm q')"
proof -
  let ?Q = "getQueue (clock env) qm q" and ?run = "map_option snd (findRunByTask runs t)"
  note ne = findTaskOwner_ok(1) [OF assms(1,2)]
  have c: "commitMutation env qm q (retryMutation t ?run (clock env)) = Inr ((), qm')"
    using assms(3) by (auto simp: retry_def owner_queueId [OF assms(1,2)] split: sum.splits prod.splits QueueReject.splits TaskTransitionRejection.splits)
  have f: "filed q (qRequests ?Q)" using getQueue_ok(1) [OF assms(1) ne] by (simp add: queue_shape_def)
  have kf: "filed q (qRequests s)" if "retryMutation t ?run (clock env) ?Q = Inr (s, ())" for s
    by (rule retry_m.keeps_filed [OF f that])
  obtain s where s: "retryMutation t ?run (clock env) ?Q = Inr (s, ())" "filed q (qRequests s)"
    "getQueue now qm' q = written (clock env) s" "\<forall>q'. q' \<noteq> q \<longrightarrow> getQueue now qm' q' = getQueue now qm q'"
    using commit_read [OF assms(1) ne c kf, where now = now] by blast
  have rm: "remove1 row (qRequests ?Q) = others"
    using remove1_by_id [OF _ owner_find [OF assms(1,2)]] f unfolding others_def filed_def by blast
  have st: "qRequests s = reposition (insertAtIndex (retryIndex others) (retriedRow row ?run (clock env)) others)"
    "frStatus row \<in> {StPaused, StFailed, StCanceled}"
    using s(1) by (auto simp: retryMutation_def owner_find [OF assms(1,2)] rm decideTaskTransition_def Let_def split: if_splits)
  have id: "frId (retriedRow row ?run (clock env)) = t"
    using findTaskOwner_ok(3) [OF assms(1,2)] by (simp add: retriedRow_def Let_def withoutTerminalCapture_def)
  have rr: "rows (reposition xs) = reposition xs" for xs
    unfolding rows_def by (rule sort_key_id_if_sorted) (simp only: reposition_simps(3) strict_sorted_imp_sorted [OF upt_strict(1)])
  have "queueOrder (getQueue now qm' q) = map frId (rows (qRequests s))"
    unfolding s(3) by (rule written_order(1) [OF s(2)])
  also have "\<dots> = map frId (insertAtIndex (retryIndex others) (retriedRow row ?run (clock env)) others)"
    by (simp only: st(1) rr reposition_simps(2))
  also have "\<dots> = insertAtIndex (retryIndex others) t (map frId others)" by (simp only: map_insertAtIndex id)
  finally show ?thesis using st(2) s(4) by blast
qed


definition reorderedTasks :: "FeatureRequest list" where
  "reorderedTasks = [plainTask ''t1'' 1, plainTask ''t2'' 0, (plainTask ''t3'' 2)\<lparr>frStatus := StFailed\<rparr>]"

lemma reordered_ok: "queue_shape ''q'' (plainQueue reorderedTasks)" "slot_ok (plainQueue reorderedTasks)"
  by (auto simp: reorderedTasks_def queue_shape_def lifecycle_ok_def slot_ok_def filed_def dense_def rows_def plainTask_def newRequest_def
      plainQueue_def bornEmptyQueue_def)

lemma reordered_store [simp]: "store_ok (plainStore reorderedTasks)"
  by (rule plainStore_ok [OF reordered_ok])

lemma reordered_owner [simp]: "findTaskOwner (plainStore reorderedTasks) ''t3'' = Some (''q'', (plainTask ''t3'' 2)\<lparr>frStatus := StFailed\<rparr>)"
  by code_simp

lemma reordered_read [simp]: "getQueue now (plainStore reorderedTasks) ''q'' = plainQueue reorderedTasks"
  by (simp add: getQueue_def plainStore_def read_persist [OF reordered_ok(1)])

lemma retry_renumbers_by_array_witness:
  "queueOrder (getQueue 100 (plainStore reorderedTasks) ''q'') = [''t2'', ''t1'', ''t3''] \<and>
   (\<exists>qm. retry queueEnv (plainStore reorderedTasks) [] ''t3'' False = (Ok, qm) \<and> queueOrder (getQueue 100 qm ''q'') = [''t3'', ''t1'', ''t2''])"
proof -
  have "filter (\<lambda>r. frId r \<noteq> ''t3'') reorderedTasks = [plainTask ''t1'' 1, plainTask ''t2'' 0]" by code_simp
  then have o: "filter (\<lambda>r. frId r \<noteq> ''t3'') (qRequests (getQueue (clock queueEnv) (plainStore reorderedTasks) ''q''))
      = [plainTask ''t1'' 1, plainTask ''t2'' 0]" by simp
  have o2: "retryIndex [plainTask ''t1'' 1, plainTask ''t2'' 0] = 0" "frId (plainTask ''t1'' 1) = ''t1''" "frId (plainTask ''t2'' 0) = ''t2''"
    by code_simp+
  have "queueOrder (plainQueue reorderedTasks) = [''t2'', ''t1'', ''t3'']" by code_simp
  moreover have "fst (retry queueEnv (plainStore reorderedTasks) [] ''t3'' False) = Ok" by code_simp
  then obtain qm where r: "retry queueEnv (plainStore reorderedTasks) [] ''t3'' False = (Ok, qm)" by (metis prod.collapse)
  moreover have "queueOrder (getQueue 100 qm ''q'') = [''t3'', ''t1'', ''t2'']"
    using retry_renumbers_by_array [OF reordered_store reordered_owner r, of 100] unfolding o by (simp add: o2 insertAtIndex_def)
  ultimately show ?thesis by auto
qed

text \<open>
  A pause that keeps the slot for a system restore, a retry of the paused task and a move of the task
  to another queue leave the slot naming a task that the queue no longer holds. Nothing clears it: the
  queue is idle and refuses to dispatch its next task.
\<close>
theorem retry_after_preserving_pause_dangles:
  "\<exists>qm1 qm2 qm3. pause queueEnv runningTasks ''t1'' None True = (Ok, qm1) \<and>
     retry queueEnv qm1 [] ''t1'' False = (Ok, qm2) \<and> moveTask queueEnv qm2 ''t1'' ''p'' None False = (Ok, qm3) \<and>
     queueOrder (getQueue 100 qm3 ''q'') = [''t2''] \<and> qInFlightId (getQueue 100 qm3 ''q'') = Some ''t1'' \<and>
     inFlightCount queueEnv qm3 None = 0 \<and> markInFlight queueEnv qm3 ''t2'' ''r2'' = Inl (Transition InFlightConflict)"
proof -
  define qm1 where "qm1 = snd (pause queueEnv runningTasks ''t1'' None True)"
  define qm2 where "qm2 = snd (retry queueEnv qm1 [] ''t1'' False)"
  define qm3 where "qm3 = snd (moveTask queueEnv qm2 ''t1'' ''p'' None False)"
  have "fst (pause queueEnv runningTasks ''t1'' None True) = Ok" by code_simp
  moreover have "fst (retry queueEnv qm1 [] ''t1'' False) = Ok" unfolding qm1_def by code_simp
  moreover have "fst (moveTask queueEnv qm2 ''t1'' ''p'' None False) = Ok" unfolding qm2_def qm1_def by code_simp
  moreover have "queueOrder (getQueue 100 qm3 ''q'') = [''t2'']" unfolding qm3_def qm2_def qm1_def by code_simp
  moreover have "qInFlightId (getQueue 100 qm3 ''q'') = Some ''t1''" unfolding qm3_def qm2_def qm1_def by code_simp
  moreover have "inFlightCount queueEnv qm3 None = 0" unfolding qm3_def qm2_def qm1_def by code_simp
  moreover have "markInFlight queueEnv qm3 ''t2'' ''r2'' = Inl (Transition InFlightConflict)" unfolding qm3_def qm2_def qm1_def by code_simp
  ultimately show ?thesis unfolding qm1_def [symmetric] qm2_def [symmetric] qm3_def [symmetric]
    by (metis prod.collapse qm1_def qm2_def qm3_def)
qed


subsection \<open>Clearing a queue\<close>

lemma clear_snapshot: "commit_open env q \<Longrightarrow> clearRunSnapshots env [q] runs = Inr (AList.delete q runs)"
  by (simp add: clearRunSnapshots_def clearRunSnapshot_def commit_open_simps setRun_def)

text \<open>
  C30. \<open>clearQueue\<close> empties the queue before it waits for the runner: the wait starts from a state in which
  the queue has no tasks, slot, pause or armed start and holds no Run, and no other queue or Run has
  changed.  The queues are left as that wait leaves them, whatever the runner writes meanwhile.  A Run
  that was there before is removed again after it, so one that the cancelled runner stores during the
  wait does not stay, and the Runs of other queues are left as the wait leaves them.
\<close>
theorem clear_queue_empties:
  fixes now :: int
  assumes "store_ok qm" "q \<noteq> []" "knownQueue env q" "commit_open env q"
  shows "\<exists>qm1 runs1 qm2 runs2 runs'. clearQueue env qm runs q probe = (Ok, qm2, runs') \<and>
    qRequests (getQueue now qm1 q) = [] \<and> qInFlightId (getQueue now qm1 q) = None \<and> qPauseSource (getQueue now qm1 q) = None \<and>
    qScheduledStartAt (getQueue now qm1 q) = None \<and> getRun runs1 q = None \<and>
    (\<forall>q'. q' \<noteq> q \<longrightarrow> getQueue now qm1 q' = getQueue now qm q' \<and> getRun runs1 q' = getRun runs q') \<and>
    clearWait probe (inflightNow (getQueue (clock env) qm q)) (qm1, runs1) = (qm2, runs2) \<and>
    getRun runs' q = (if getRun runs q = None then getRun runs2 q else None) \<and>
    (\<forall>q'. q' \<noteq> q \<longrightarrow> getRun runs' q' = getRun runs2 q')"
proof -
  let ?Q = "getQueue (clock env) qm q"
  let ?mut = "\<lambda>queue. Inr (queueReset queue (clock env) ReleasePause, ())"
  note g = getQueue_ok(1) [OF assms(1,2)]
  show ?thesis
  proof (cases "\<not> hasResettableQueueState ?Q \<and> getRun runs q = None")
    case True
    have "qPauseSource (getQueue now qm q) = None" "qRequests (getQueue now qm q) = []" "qInFlightId (getQueue now qm q) = None"
      "qScheduledStartAt (getQueue now qm q) = None"
      using True g [of now] by (auto simp: hasResettableQueueState_def queue_shape_def lifecycle_ok_def getQueue_def bornEmptyQueue_def split: option.splits)
    moreover have "clearWait probe (inflightNow ?Q) (qm, runs) = (qm, runs)"
      using True by (simp add: clearWait_def inflightNow_def hasResettableQueueState_def)
    ultimately show ?thesis using True assms(3)
      by (intro exI [of _ qm] exI [of _ runs]) (auto simp: clearQueue_def)
  next
    case False
    have f: "filed q (qRequests (queueReset ?Q (clock env) ReleasePause))" using assms(2) by (simp add: queueReset_def Let_def filed_def)
    obtain qm1 where w: "commitMutation env qm q ?mut = Inr ((), qm1)"
      using assms(4) by (auto simp: commitMutation_Inr commit_open_def fenceRefusal_def split: option.splits)
    have r: "getQueue now qm1 q = written (clock env) (queueReset ?Q (clock env) ReleasePause)"
      "\<forall>q'. q' \<noteq> q \<longrightarrow> getQueue now qm1 q' = getQueue now qm q'"
      using commit_read [OF assms(1,2) w, where now = now] f by auto
    have e: "qRequests (getQueue now qm1 q) = []" "qInFlightId (getQueue now qm1 q) = None" "qPauseSource (getQueue now qm1 q) = None"
      "qScheduledStartAt (getQueue now qm1 q) = None"
      by (simp_all add: r(1) written_def ensureExtendedQueueShape_def Let_def persist_def queueReset_def compactRequestPositions_def normalizePauseSource_def)
    define cleared where "cleared m = (if getRun runs q = None then m else AList.delete q m)" for m :: RunMap
    have snap: "(if getRun runs q \<noteq> None then clearRunSnapshots env [q] m else Inr m) = Inr (cleared m)" for m
      using clear_snapshot [OF assms(4)] by (simp add: cleared_def)
    have read: "getRun (cleared m) q' = (if q' = q \<and> getRun runs q \<noteq> None then None else getRun m q')" for m q'
      by (auto simp: cleared_def getRun_def delete_conv')
    obtain qm2 runs2 where w2: "clearWait probe (inflightNow ?Q) (qm1, cleared runs) = (qm2, runs2)" by fastforce
    have "clearQueue env qm runs q probe = (Ok, qm2, cleared runs2)"
      using False assms(3) by (auto simp: clearQueue_def Let_def w snap w2 simp del: not_None_eq)
    then show ?thesis using e r(2) w2 read by (intro exI [of _ qm1] exI [of _ "cleared runs"] exI [of _ qm2] exI [of _ runs2] exI [of _ "cleared runs2"]) auto
  qed
qed

lemma clear_queue_empties_witness:
  "\<exists>qm2 runs. clearQueue queueEnv heldTasks [(''q'', countdownRun)] ''q'' (Some (\<lambda>(qm, runs). (True, qm, [(''q'', countdownRun)]))) = (Ok, qm2, runs) \<and>
     qRequests (getQueue 100 qm2 ''q'') = [] \<and> getRun runs ''q'' = None"
  using clear_queue_empties [OF held_store, of "''q''" queueEnv "[(''q'', countdownRun)]" "Some (\<lambda>(qm, runs). (True, qm, [(''q'', countdownRun)]))" 100]
  by (auto simp: getRun_def clearWait_def split: if_splits)

end
