(* ===== verification/OwnershipRegistry.thy ===== *)
theory OwnershipRegistry
  imports RunStore
begin

text \<open>
  \<open>src/state/ownership-registry.ts\<close> over the storage port of \<open>src/state/ownership-fs.ts\<close>: one resource,
  one file per generation, the generation number as fencing token.  A file holds the record its creator
  wrote, or is still empty and waits for the process that created it exclusively; a reader skips an empty
  file.  The functions are the registry's own, run without interference; the step relation interleaves
  their storage operations for any number of processes, each of which may stop anywhere.
\<close>

subsection \<open>Records and files\<close>

record OwnershipHolder =
  holderOwner :: string
  acquiredAt :: int
  heartbeatAt :: int

record OwnershipRecord =
  recFence :: nat
  recHolder :: "OwnershipHolder option"

datatype GenFile = Empty nat | Body OwnershipRecord

type_synonym Files = "(nat \<times> GenFile) list"

definition GENERATION_DIGITS :: nat where "GENERATION_DIGITS = 9"

definition MAX_ACQUIRE_ATTEMPTS :: nat where "MAX_ACQUIRE_ATTEMPTS = 8"

text \<open>\<open>generationOf\<close> recognises names with exactly nine digits.\<close>

definition generationOf :: "nat \<Rightarrow> nat option" where
  "generationOf n = (if int n < 10 ^ GENERATION_DIGITS then Some n else None)"

lemma generationOf_iff [simp]: "generationOf n = None \<longleftrightarrow> \<not> n < 10 ^ 9" "generationOf n = Some m \<longleftrightarrow> m = n \<and> n < 10 ^ 9"
  by (auto simp: generationOf_def GENERATION_DIGITS_def)

definition parseRecord :: "GenFile option \<Rightarrow> nat \<Rightarrow> OwnershipRecord option" where
  "parseRecord raw generation =
     (case raw of
        Some (Body r) \<Rightarrow> if recFence r = generation then Some r else None
      | _ \<Rightarrow> None)"

record ReadState =
  rsRecord :: "OwnershipRecord option"
  rsGeneration :: nat
  rsHighest :: nat

definition generations :: "Files \<Rightarrow> nat list" where
  "generations fs = rev (sort (filter (\<lambda>n. generationOf n \<noteq> None) (map fst fs)))"

fun firstParseable :: "Files \<Rightarrow> nat list \<Rightarrow> (nat \<times> OwnershipRecord) option" where
  "firstParseable fs [] = None"
| "firstParseable fs (g # gs) =
     (case parseRecord (map_of fs g) g of Some r \<Rightarrow> Some (g, r) | None \<Rightarrow> firstParseable fs gs)"

definition readState :: "Files \<Rightarrow> ReadState" where
  "readState fs =
     (let gs = generations fs; highest = (case gs of [] \<Rightarrow> 0 | g # _ \<Rightarrow> g)
      in case firstParseable fs gs of
           Some (g, r) \<Rightarrow> \<lparr>rsRecord = Some r, rsGeneration = g, rsHighest = highest\<rparr>
         | None \<Rightarrow> \<lparr>rsRecord = None, rsGeneration = 0, rsHighest = highest\<rparr>)"

definition ownerOfRecord :: "ReadState \<Rightarrow> string option" where
  "ownerOfRecord st = map_option holderOwner (Option.bind (rsRecord st) recHolder)"

subsection \<open>Verdicts\<close>

datatype Verdict = Valid nat | StaleFence nat "string option" | NotHolder nat "string option"

definition judge :: "ReadState \<Rightarrow> string \<Rightarrow> nat \<Rightarrow> Verdict" where
  "judge st ownerId fence =
     (if rsGeneration st \<noteq> fence then StaleFence (rsGeneration st) (ownerOfRecord st)
      else if ownerOfRecord st \<noteq> Some ownerId then NotHolder (rsGeneration st) (ownerOfRecord st)
      else Valid fence)"

definition verify :: "Files \<Rightarrow> string \<Rightarrow> nat \<Rightarrow> Verdict" where
  "verify fs ownerId fence = judge (readState fs) ownerId fence"

definition fenceCheckOf :: "Verdict \<Rightarrow> FenceCheck" where
  "fenceCheckOf v = (case v of Valid f \<Rightarrow> FenceValid | _ \<Rightarrow> FenceRejected)"

definition mutateAsHolder :: "Files \<Rightarrow> string \<Rightarrow> nat \<Rightarrow> (OwnershipHolder \<Rightarrow> OwnershipHolder option) \<Rightarrow> Verdict \<times> Files" where
  "mutateAsHolder fs ownerId fence nxt =
     (let st = readState fs; verdict = judge st ownerId fence
      in case (verdict, rsRecord st) of
           (Valid f, Some r) \<Rightarrow>
             (Valid f, AList.update fence (Body (r\<lparr>recHolder := Option.bind (recHolder r) nxt\<rparr>)) fs)
         | _ \<Rightarrow> (verdict, fs))"

definition heartbeat :: "Files \<Rightarrow> string \<Rightarrow> nat \<Rightarrow> int \<Rightarrow> Verdict \<times> Files" where
  "heartbeat fs ownerId fence now = mutateAsHolder fs ownerId fence (\<lambda>h. Some (h\<lparr>heartbeatAt := now\<rparr>))"

definition release :: "Files \<Rightarrow> string \<Rightarrow> nat \<Rightarrow> Verdict \<times> Files" where
  "release fs ownerId fence = mutateAsHolder fs ownerId fence (\<lambda>h. None)"

subsection \<open>Acquisition\<close>

datatype AcquireOutcome = Acquired nat int | Held string | Contended

text \<open>What one round of the loop does after reading the state.\<close>

datatype AcquireMove = Renew nat OwnershipRecord int | HeldBy string | CreateNext nat

definition acquireMove :: "ReadState \<Rightarrow> string \<Rightarrow> int \<Rightarrow> int \<Rightarrow> AcquireMove" where
  "acquireMove st ownerId now stalenessMs =
     (case Option.bind (rsRecord st) recHolder of
        Some h \<Rightarrow>
          if holderOwner h = ownerId
          then Renew (rsGeneration st) ((the (rsRecord st))\<lparr>recHolder := Some (h\<lparr>heartbeatAt := now\<rparr>)\<rparr>) (acquiredAt h)
          else if now - heartbeatAt h \<le> stalenessMs then HeldBy (holderOwner h)
          else CreateNext (max (rsGeneration st) (rsHighest st) + 1)
      | None \<Rightarrow> CreateNext (max (rsGeneration st) (rsHighest st) + 1))"

definition newRecord :: "nat \<Rightarrow> string \<Rightarrow> int \<Rightarrow> OwnershipRecord" where
  "newRecord g ownerId now =
     \<lparr>recFence = g, recHolder = Some \<lparr>holderOwner = ownerId, acquiredAt = now, heartbeatAt = now\<rparr>\<rparr>"

definition confirmedBy :: "ReadState \<Rightarrow> nat \<Rightarrow> string \<Rightarrow> bool" where
  "confirmedBy st g ownerId \<longleftrightarrow> rsGeneration st = g \<and> ownerOfRecord st = Some ownerId"

definition pruneBelow :: "nat \<Rightarrow> Files \<Rightarrow> Files" where
  "pruneBelow keep fs = filter (\<lambda>(n, f). case generationOf n of Some g \<Rightarrow> keep \<le> g | None \<Rightarrow> True) fs"

fun acquireOrReport :: "nat \<Rightarrow> Files \<Rightarrow> string \<Rightarrow> int \<Rightarrow> int \<Rightarrow> AcquireOutcome \<times> Files" where
  "acquireOrReport 0 fs ownerId now stalenessMs = (Contended, fs)"
| "acquireOrReport (Suc attempts) fs ownerId now stalenessMs =
     (case acquireMove (readState fs) ownerId now stalenessMs of
        Renew g r t \<Rightarrow> (Acquired g t, AList.update g (Body r) fs)
      | HeldBy o' \<Rightarrow> (Held o', fs)
      | CreateNext g \<Rightarrow>
          if map_of fs g \<noteq> None then acquireOrReport attempts fs ownerId now stalenessMs
          else
            let fs' = AList.update g (Body (newRecord g ownerId now)) fs; confirmed = readState fs'
            in if confirmedBy confirmed g ownerId then (Acquired g now, pruneBelow g fs')
               else (case ownerOfRecord confirmed of
                       Some w \<Rightarrow> if w \<noteq> ownerId then (Held w, fs') else acquireOrReport attempts fs' ownerId now stalenessMs
                     | None \<Rightarrow> acquireOrReport attempts fs' ownerId now stalenessMs))"

definition acquire :: "Files \<Rightarrow> string \<Rightarrow> int \<Rightarrow> int \<Rightarrow> AcquireOutcome \<times> Files" where
  "acquire fs ownerId now stalenessMs = acquireOrReport MAX_ACQUIRE_ATTEMPTS fs ownerId now stalenessMs"

subsection \<open>The current record\<close>

definition parseable :: "Files \<Rightarrow> nat \<Rightarrow> bool" where
  "parseable fs g \<longleftrightarrow> g < 10 ^ 9 \<and> parseRecord (map_of fs g) g \<noteq> None"

lemma generations_set: "set (generations fs) = {g. g \<in> fst ` set fs \<and> g < 10 ^ 9}"
  by (auto simp: generations_def)

lemma generations_sorted: "sorted_wrt (\<ge>) (generations fs)"
  by (simp add: generations_def sorted_wrt_rev)

lemma parseable_listed: "parseable fs g \<Longrightarrow> g \<in> set (generations fs)"
  by (auto simp: parseable_def parseRecord_def generations_set split: option.splits GenFile.splits dest!: map_of_SomeD intro: rev_image_eqI)

lemma firstParseable_None: "firstParseable fs gs = None \<longleftrightarrow> (\<forall>g \<in> set gs. parseRecord (map_of fs g) g = None)"
  by (induction gs) (auto split: option.split)

lemma firstParseable_Some:
  "firstParseable fs gs = Some (g, r) \<Longrightarrow> sorted_wrt (\<ge>) gs \<Longrightarrow>
     g \<in> set gs \<and> parseRecord (map_of fs g) g = Some r \<and> (\<forall>g' \<in> set gs. parseRecord (map_of fs g') g' \<noteq> None \<longrightarrow> g' \<le> g)"
  by (induction gs) (auto split: option.splits)

lemma highest_listed: "rsHighest (readState fs) = (case generations fs of [] \<Rightarrow> 0 | g # gs \<Rightarrow> g)"
  by (simp add: readState_def Let_def split: option.split)

lemma highest_ge: "g \<in> set (generations fs) \<Longrightarrow> g \<le> rsHighest (readState fs)"
  using generations_sorted [of fs] unfolding highest_listed by (cases "generations fs") auto

text \<open>\<open>readState\<close> finds the highest generation with a readable body.\<close>

lemma readState_char:
  "(rsRecord (readState fs) = None \<and> rsGeneration (readState fs) = 0 \<and> (\<forall>g. \<not> parseable fs g)) \<or>
   (\<exists>r. rsRecord (readState fs) = Some r \<and> parseable fs (rsGeneration (readState fs)) \<and>
      parseRecord (map_of fs (rsGeneration (readState fs))) (rsGeneration (readState fs)) = Some r \<and>
      (\<forall>g. parseable fs g \<longrightarrow> g \<le> rsGeneration (readState fs)))"
proof (cases "firstParseable fs (generations fs)")
  case None
  have "\<not> parseable fs g" for g
    using parseable_listed [of fs g] None by (cases "parseRecord (map_of fs g) g") (auto simp: firstParseable_None parseable_def)
  with None show ?thesis by (simp add: readState_def Let_def)
next
  case (Some x)
  obtain g r where x: "x = (g, r)" by force
  have "g \<in> set (generations fs) \<and> parseRecord (map_of fs g) g = Some r \<and>
      (\<forall>g' \<in> set (generations fs). parseRecord (map_of fs g') g' \<noteq> None \<longrightarrow> g' \<le> g)"
    by (rule firstParseable_Some [OF Some [unfolded x] generations_sorted])
  then show ?thesis using Some x parseable_listed
    by (auto simp: readState_def Let_def parseable_def generations_set)
qed

end
