(* ===== verification/OwnershipSteps.thy ===== *)
theory OwnershipSteps
  imports OwnershipRegistry RunControlSafety
begin

text \<open>
  The storage operations of the registry, interleaved.  A process is one running call of \<open>acquire\<close>,
  \<open>heartbeat\<close>, \<open>release\<close> or \<open>verify\<close>, and an owner may have several.  Listing the directory, reading
  each listed file, creating the next generation, writing its body, removing each superseded file and
  replacing a record are steps of their own, so other processes may write between the listing of a read
  and each of its files, and a process may stop before any of them.  \<open>credit\<close> is a history variable: who
  first made a generation the current one.
\<close>

text \<open>What a process reads the state for, and what it is about to do.\<close>

datatype Purpose = ToAcquire int int | ToConfirm nat | ToBeat nat int | ToRelease nat | ToVerify nat

datatype Activity =
    Idle | Reading "nat list" nat Purpose | Creating nat int | Writing nat int | Confirming nat
  | Pruning nat | Replacing nat OwnershipRecord | Verified nat

record Arena =
  files :: Files
  procs :: "nat \<Rightarrow> Activity"
  credit :: "nat \<Rightarrow> string option"

definition startArena :: Arena where
  "startArena = \<lparr>files = [], procs = (\<lambda>p. Idle), credit = (\<lambda>g. None)\<rparr>"

definition becomes :: "Arena \<Rightarrow> nat \<Rightarrow> Activity \<Rightarrow> Arena" where
  "becomes s p a = s\<lparr>procs := (procs s)(p := a)\<rparr>"

definition overtakes :: "Files \<Rightarrow> nat \<Rightarrow> bool" where
  "overtakes fs g \<longleftrightarrow> generationOf g \<noteq> None \<and> (rsRecord (readState fs) = None \<or> rsGeneration (readState fs) < g)"

definition credited :: "Arena \<Rightarrow> nat \<Rightarrow> string \<Rightarrow> nat \<Rightarrow> string option" where
  "credited s g o' = (if overtakes (files s) g then (credit s)(g \<mapsto> o') else credit s)"

text \<open>\<open>decide\<close> is what each caller does with the state it has read; \<open>readNext\<close> reads one listed file.\<close>

definition decide :: "string \<Rightarrow> Purpose \<Rightarrow> ReadState \<Rightarrow> Activity" where
  "decide ownerId k st =
     (case k of
        ToAcquire now stalenessMs \<Rightarrow>
          (case acquireMove st ownerId now stalenessMs of
             Renew g r t \<Rightarrow> Replacing g r | HeldBy h \<Rightarrow> Idle | CreateNext g \<Rightarrow> Creating g now)
      | ToConfirm g \<Rightarrow> if confirmedBy st g ownerId then Pruning g else Idle
      | ToBeat f now \<Rightarrow>
          (case (judge st ownerId f, rsRecord st) of
             (Valid f', Some r) \<Rightarrow> Replacing f (r\<lparr>recHolder := map_option (\<lambda>h. h\<lparr>heartbeatAt := now\<rparr>) (recHolder r)\<rparr>)
           | x \<Rightarrow> Idle)
      | ToRelease f \<Rightarrow>
          (case (judge st ownerId f, rsRecord st) of
             (Valid f', Some r) \<Rightarrow> Replacing f (r\<lparr>recHolder := None\<rparr>) | x \<Rightarrow> Idle)
      | ToVerify f \<Rightarrow> (case judge st ownerId f of Valid f' \<Rightarrow> Verified f | x \<Rightarrow> Idle))"

definition startRead :: "Files \<Rightarrow> Purpose \<Rightarrow> Activity" where
  "startRead fs k = (let gs = generations fs in Reading gs (case gs of [] \<Rightarrow> 0 | g # gs' \<Rightarrow> g) k)"

definition readNext :: "Files \<Rightarrow> string \<Rightarrow> nat list \<Rightarrow> nat \<Rightarrow> Purpose \<Rightarrow> Activity" where
  "readNext fs ownerId gs highest k =
     (case gs of
        [] \<Rightarrow> decide ownerId k \<lparr>rsRecord = None, rsGeneration = 0, rsHighest = highest\<rparr>
      | g # gs' \<Rightarrow>
          (case parseRecord (map_of fs g) g of
             None \<Rightarrow> Reading gs' highest k
           | Some r \<Rightarrow> decide ownerId k \<lparr>rsRecord = Some r, rsGeneration = g, rsHighest = highest\<rparr>))"

inductive own_step :: "(nat \<Rightarrow> string) \<Rightarrow> Arena \<Rightarrow> Arena \<Rightarrow> bool" for own where
  call: "procs s p = Idle \<Longrightarrow> (\<forall>g. k \<noteq> ToConfirm g) \<Longrightarrow> own_step own s (becomes s p (startRead (files s) k))"
| read: "procs s p = Reading gs h k \<Longrightarrow> own_step own s (becomes s p (readNext (files s) (own p) gs h k))"
| lose: "procs s p = Creating g now \<Longrightarrow> map_of (files s) g \<noteq> None \<Longrightarrow> own_step own s (becomes s p Idle)"
| create: "procs s p = Creating g now \<Longrightarrow> map_of (files s) g = None
    \<Longrightarrow> own_step own s (becomes (s\<lparr>files := AList.update g (Empty p) (files s)\<rparr>) p (Writing g now))"
| fill: "procs s p = Writing g now \<Longrightarrow> map_of (files s) g = Some (Empty p)
    \<Longrightarrow> own_step own s (becomes (s\<lparr>files := AList.update g (Body (newRecord g (own p) now)) (files s),
          credit := credited s g (own p)\<rparr>) p (Confirming g))"
| fill_gone: "procs s p = Writing g now \<Longrightarrow> map_of (files s) g \<noteq> Some (Empty p)
    \<Longrightarrow> own_step own s (becomes s p (Confirming g))"
| confirm: "procs s p = Confirming g \<Longrightarrow> own_step own s (becomes s p (startRead (files s) (ToConfirm g)))"
| prune: "procs s p = Pruning keep \<Longrightarrow> g < keep \<Longrightarrow> own_step own s (s\<lparr>files := AList.delete g (files s)\<rparr>)"
| replace: "procs s p = Replacing f r
    \<Longrightarrow> own_step own s (becomes (s\<lparr>files := AList.update f (Body r) (files s)\<rparr>) p Idle)"
| stop: "own_step own s (becomes s p Idle)"

text \<open>Read without interference, a state is \<open>readState\<close> of the files.\<close>

fun readAll :: "Files \<Rightarrow> string \<Rightarrow> Activity \<Rightarrow> nat \<Rightarrow> Activity" where
  "readAll fs ownerId a 0 = a"
| "readAll fs ownerId a (Suc n) =
     (case a of Reading gs h k \<Rightarrow> readAll fs ownerId (readNext fs ownerId gs h k) n | x \<Rightarrow> x)"

lemma decide_done: "decide ownerId k st \<noteq> Reading gs h k'" "decide ownerId k st \<noteq> Writing g now" "decide ownerId k st \<noteq> Confirming g"
  by (simp_all add: decide_def split: Purpose.splits AcquireMove.splits Verdict.splits option.splits)

lemma readAll_decide [simp]: "readAll fs ownerId (decide ownerId k st) n = decide ownerId k st"
  by (cases n; cases "decide ownerId k st") (auto simp: decide_done)

lemma readAll_Reading: "readAll fs ownerId (Reading gs h k) (Suc n) = readAll fs ownerId (readNext fs ownerId gs h k) n"
  by simp

lemma readAll_firstParseable:
  "readAll fs ownerId (Reading gs h k) (Suc (length gs)) = decide ownerId k
     (case firstParseable fs gs of
        Some (g, r) \<Rightarrow> \<lparr>rsRecord = Some r, rsGeneration = g, rsHighest = h\<rparr>
      | None \<Rightarrow> \<lparr>rsRecord = None, rsGeneration = 0, rsHighest = h\<rparr>)"
  by (induction gs) (simp_all add: readAll_Reading readNext_def split: option.split del: readAll.simps(2))

lemma readAll_readState:
  "readAll fs ownerId (startRead fs k) (Suc (length (generations fs))) = decide ownerId k (readState fs)"
  unfolding startRead_def Let_def readAll_firstParseable by (simp add: readState_def Let_def)

subsection \<open>The current generation\<close>

definition current :: "Files \<Rightarrow> nat \<Rightarrow> OwnershipRecord \<Rightarrow> bool" where
  "current fs g r \<longleftrightarrow> g < 10 ^ 9 \<and> parseRecord (map_of fs g) g = Some r \<and> (\<forall>g'. parseable fs g' \<longrightarrow> g' \<le> g)"

lemma current_readI:
  assumes "current fs g r"
  shows "rsRecord (readState fs) = Some r \<and> rsGeneration (readState fs) = g"
proof -
  let ?g = "rsGeneration (readState fs)"
  have p: "parseable fs g" using assms by (simp add: current_def parseable_def)
  then obtain r' where r': "rsRecord (readState fs) = Some r'" "parseable fs ?g" "parseRecord (map_of fs ?g) ?g = Some r'"
    "\<forall>g. parseable fs g \<longrightarrow> g \<le> ?g" using readState_char [of fs] by blast
  have "?g = g" using p r'(2,4) assms unfolding current_def by (meson le_antisym)
  then show ?thesis using r'(1,3) assms by (simp add: current_def)
qed

lemma current_read: "current fs g r \<longleftrightarrow> rsRecord (readState fs) = Some r \<and> rsGeneration (readState fs) = g"
proof
  assume a: "rsRecord (readState fs) = Some r \<and> rsGeneration (readState fs) = g"
  then show "current fs g r" using readState_char [of fs] unfolding current_def parseable_def by auto
qed (rule current_readI)

lemma parse_Some: "parseRecord x g = Some r \<longleftrightarrow> x = Some (Body r) \<and> recFence r = g"
  by (auto simp: parseRecord_def split: option.splits GenFile.splits)

lemma current_fence: "current fs g r \<Longrightarrow> recFence r = g"
  by (simp add: current_def parse_Some)

lemma current_unique: "current fs g r \<Longrightarrow> current fs g' r' \<Longrightarrow> g = g' \<and> r = r'"
  by (simp add: current_read)

lemma no_current: "rsRecord (readState fs) = None \<longleftrightarrow> (\<forall>g. \<not> parseable fs g)"
  using readState_char [of fs] by (auto simp: parseable_def)

lemma overtakes_iff: "overtakes fs g \<longleftrightarrow> g < 10 ^ 9 \<and> (\<forall>g'. parseable fs g' \<longrightarrow> g' < g)"
  using readState_char [of fs] unfolding overtakes_def
  by (auto intro: le_less_trans)

lemma parse_None_simps [simp]: "parseRecord None g = None" "parseRecord (Some (Empty p)) g = None"
  by (simp_all add: parseRecord_def)

lemma parseable_update: "parseable (AList.update g f fs) g' \<longleftrightarrow> (if g' = g then g < 10 ^ 9 \<and> parseRecord (Some f) g \<noteq> None else parseable fs g')"
  by (simp add: parseable_def update_conv')

lemma parseable_delete: "parseable (AList.delete g fs) g' \<longleftrightarrow> g' \<noteq> g \<and> parseable fs g'"
  by (auto simp: parseable_def delete_conv')

lemma current_same:
  assumes "\<And>g. map_of fs' g = map_of fs g \<or> (parseRecord (map_of fs g) g = None \<and> parseRecord (map_of fs' g) g = None)"
  shows "current fs' g r = current fs g r"
proof -
  have "parseRecord (map_of fs' g) g = parseRecord (map_of fs g) g" for g using assms [of g] by auto
  then show ?thesis by (simp add: current_def parseable_def)
qed

lemma current_below:
  assumes "current fs g r" "k < g" "map_of fs' = (map_of fs)(k := x)"
  shows "current fs' g r"
  using assms by (auto simp: current_def parseable_def)

lemma current_here: "current fs g r \<Longrightarrow> recFence r' = g \<Longrightarrow> current (AList.update g (Body r') fs) g r'"
  by (auto simp: current_def parseable_update update_conv' parse_Some) 

subsection \<open>The invariant\<close>

definition held_by :: "OwnershipRecord \<Rightarrow> string \<Rightarrow> bool" where
  "held_by r o' \<longleftrightarrow> (\<forall>h. recHolder r = Some h \<longrightarrow> holderOwner h = o')"

text \<open>A token that a process acts on is superseded, or current and credited to the process's owner.\<close>

definition backed :: "(nat \<Rightarrow> string) \<Rightarrow> Arena \<Rightarrow> nat \<Rightarrow> nat \<Rightarrow> bool" where
  "backed own s p f \<longleftrightarrow> (\<exists>g r. current (files s) g r \<and> f \<le> g \<and> (f = g \<longrightarrow> credit s f = Some (own p)))"

definition act_ok :: "(nat \<Rightarrow> string) \<Rightarrow> Arena \<Rightarrow> nat \<Rightarrow> Activity \<Rightarrow> bool" where
  "act_ok own s p a =
     (case a of
        Replacing f r \<Rightarrow> recFence r = f \<and> held_by r (own p) \<and> backed own s p f
      | Verified f \<Rightarrow> backed own s p f
      | Pruning k \<Rightarrow> backed own s p k
      | Reading gs h k \<Rightarrow> \<forall>g \<in> set gs. g < 10 ^ 9
      | x \<Rightarrow> True)"

definition arena_ok :: "(nat \<Rightarrow> string) \<Rightarrow> Arena \<Rightarrow> bool" where
  "arena_ok own s \<longleftrightarrow>
     (\<forall>g r. current (files s) g r \<longrightarrow> (\<exists>o'. credit s g = Some o' \<and> held_by r o')) \<and>
     (\<forall>p. act_ok own s p (procs s p)) \<and>
     (\<forall>g o'. credit s g = Some o' \<longrightarrow> (\<exists>g' r. current (files s) g' r \<and> g \<le> g'))"

lemma act_ok_simps [simp]:
  "act_ok own s p Idle" "act_ok own s p (Creating g now)" "act_ok own s p (Writing g now)" "act_ok own s p (Confirming g)"
  by (simp_all add: act_ok_def)

lemma arena_act: "arena_ok own s \<Longrightarrow> procs s p = a \<Longrightarrow> act_ok own s p a"
  by (auto simp: arena_ok_def)

lemma start_ok: "arena_ok own startArena"
  by (simp add: arena_ok_def startArena_def current_def)

lemma becomes_simps [simp]: "files (becomes s p a) = files s" "credit (becomes s p a) = credit s" "procs (becomes s p a) = (procs s)(p := a)"
  by (simp_all add: becomes_def)

lemma act_ok_becomes [simp]: "act_ok own (becomes s p a) q b = act_ok own s q b"
  by (simp add: act_ok_def backed_def split: Activity.split)

lemma becomes_ok: "arena_ok own s \<Longrightarrow> act_ok own s p a \<Longrightarrow> arena_ok own (becomes s p a)"
  by (simp add: arena_ok_def)

text \<open>Later states have later current generations and keep every credit.\<close>

definition later :: "Arena \<Rightarrow> Arena \<Rightarrow> bool" where
  "later s s' \<longleftrightarrow> credit s \<subseteq>\<^sub>m credit s' \<and> (\<forall>g r. current (files s) g r \<longrightarrow> (\<exists>g' r'. current (files s') g' r' \<and> g \<le> g'))"

lemma later_refl [simp]: "later s s"
  by (auto simp: later_def)

lemma later_trans: "later s s' \<Longrightarrow> later s' s'' \<Longrightarrow> later s s''"
  unfolding later_def by (meson map_le_trans order.trans)

lemma later_becomes [simp]: "later s (becomes s' p a) = later s s'" "later (becomes s p a) s' = later s s'"
  by (simp_all add: later_def)

lemma act_ok_later:
  assumes "later s s'" "act_ok own s p a"
  shows "act_ok own s' p a"
proof -
  have "backed own s' p f" if b: "backed own s p f" for f
  proof -
    obtain g r where g: "current (files s) g r" "f \<le> g" "f = g \<longrightarrow> credit s f = Some (own p)" using b unfolding backed_def by blast
    obtain g' r' where g': "current (files s') g' r'" "g \<le> g'" using assms(1) g(1) unfolding later_def by blast
    have "f = g' \<longrightarrow> credit s' f = Some (own p)"
      using g(2,3) g'(2) assms(1) by (auto simp: later_def map_le_def dom_def dest!: le_antisym)
    then show ?thesis using g' g(2) unfolding backed_def by (meson order.trans)
  qed
  then show ?thesis using assms(2) by (auto simp: act_ok_def split: Activity.splits)
qed

lemma arena_files_ok:
  assumes ok: "arena_ok own s" and cr: "credit s \<subseteq>\<^sub>m c"
    and cur: "\<And>g r. current (files s) g r \<Longrightarrow> \<exists>g' r'. current fs g' r' \<and> g \<le> g'"
    and top: "\<And>g r. current fs g r \<Longrightarrow> \<exists>o'. c g = Some o' \<and> held_by r o'"
    and new: "\<And>g o'. c g = Some o' \<Longrightarrow> credit s g \<noteq> Some o' \<Longrightarrow> \<exists>r. current fs g r"
  shows "arena_ok own (s\<lparr>files := fs, credit := c\<rparr>) \<and> later s (s\<lparr>files := fs, credit := c\<rparr>)"
proof -
  let ?s = "s\<lparr>files := fs, credit := c\<rparr>"
  have l: "later s ?s" using cr cur by (simp add: later_def)
  have "\<exists>g' r. current fs g' r \<and> g \<le> g'" if c: "c g = Some o'" for g o'
  proof (cases "credit s g = Some o'")
    case True
    then obtain g' r where g': "current (files s) g' r" "g \<le> g'" using ok unfolding arena_ok_def by blast
    then show ?thesis using cur [OF g'(1)] by (meson order.trans)
  qed (use new [OF c] in blast)
  moreover have "act_ok own ?s p (procs s p)" for p using act_ok_later [OF l] ok by (simp add: arena_ok_def)
  ultimately show ?thesis using top l by (simp add: arena_ok_def)
qed

lemma files_kept_ok:
  assumes "arena_ok own s" "\<And>g r. current fs g r \<longleftrightarrow> current (files s) g r"
  shows "arena_ok own (s\<lparr>files := fs\<rparr>) \<and> later s (s\<lparr>files := fs\<rparr>)"
proof -
  have "arena_ok own (s\<lparr>files := fs, credit := credit s\<rparr>) \<and> later s (s\<lparr>files := fs, credit := credit s\<rparr>)"
    by (rule arena_files_ok [OF assms(1)]) (use assms in \<open>auto simp: arena_ok_def\<close>)
  then show ?thesis by simp
qed

text \<open>Writing or removing a generation below the current one changes nothing.\<close>

lemma touch_below_ok:
  assumes ok: "arena_ok own s" and "current (files s) g r" "k < g" "map_of fs = (map_of (files s))(k := x)"
  shows "arena_ok own (s\<lparr>files := fs\<rparr>) \<and> later s (s\<lparr>files := fs\<rparr>)"
proof (rule files_kept_ok [OF ok])
  have c: "current fs g r" by (rule current_below [OF assms(2-4)])
  show "current fs g' r' \<longleftrightarrow> current (files s) g' r'" for g' r'
    using current_unique [OF c] current_unique [OF assms(2)] c assms(2) by blast
qed

lemma create_ok:
  assumes "arena_ok own s" "map_of (files s) g = None"
  shows "arena_ok own (s\<lparr>files := AList.update g (Empty p) (files s)\<rparr>) \<and> later s (s\<lparr>files := AList.update g (Empty p) (files s)\<rparr>)"
  using assms by (intro files_kept_ok current_same) (auto simp: update_conv')

lemma fill_ok:
  fixes now :: int
  assumes ok: "arena_ok own s" and e: "map_of (files s) g = Some (Empty p)"
  defines "fs \<equiv> AList.update g (Body (newRecord g (own p) now)) (files s)"
    and "c \<equiv> (if overtakes (files s) g then (credit s)(g \<mapsto> own p) else credit s)"
  shows "arena_ok own (s\<lparr>files := fs, credit := c\<rparr>) \<and> later s (s\<lparr>files := fs, credit := c\<rparr>)"
proof (cases "overtakes (files s) g")
  case True
  let ?r = "newRecord g (own p) now"
  have rf: "recFence ?r = g" by (simp add: newRecord_def)
  have o': "g < 10 ^ 9" "\<And>g'. parseable (files s) g' \<Longrightarrow> g' < g" using True overtakes_iff by auto
  have cur: "current fs g ?r"
    using o' by (auto simp: current_def fs_def parseable_update update_conv' parse_Some rf less_imp_le)
  have none: "credit s g = None"
  proof (rule ccontr)
    assume "credit s g \<noteq> None"
    then obtain g' r' where "current (files s) g' r'" "g \<le> g'" using ok unfolding arena_ok_def by blast
    then show False using o'(2) [of g'] by (auto simp: current_def parseable_def)
  qed
  show ?thesis
  proof (rule arena_files_ok [OF ok])
    show "credit s \<subseteq>\<^sub>m c" using True none by (auto simp: c_def map_le_def)
    show "\<exists>g' r'. current fs g' r' \<and> k \<le> g'" if "current (files s) k r" for k r
      using that o'(2) [of k] cur by (auto simp: current_def parseable_def intro!: exI [of _ g])
    show "\<exists>o'. c k = Some o' \<and> held_by r o'" if "current fs k r" for k r
      using current_unique [OF cur that] True by (auto simp: c_def held_by_def newRecord_def)
    show "\<exists>r. current fs k r" if "c k = Some o'" "credit s k \<noteq> Some o'" for k o'
      using that True cur by (auto simp: c_def split: if_splits)
  qed
next
  case False
  have np: "parseRecord (map_of (files s) g) g = None" by (simp add: e)
  have same: "current fs k r \<longleftrightarrow> current (files s) k r" for k r
  proof (cases "g < 10 ^ 9")
    case True
    then obtain g' where g': "parseable (files s) g'" "g \<le> g'" using False overtakes_iff by (meson not_le)
    then obtain k' r' where k': "current (files s) k' r'" using no_current current_read by (metis not_Some_eq)
    then have "g \<le> k'" using g' by (auto simp: current_def intro: order.trans)
    moreover have "g \<noteq> k'" using k' np by (auto simp: current_def)
    ultimately have "current fs k' r'" by (intro current_below [OF k']) (auto simp: fs_def update_conv')
    then show ?thesis using current_unique k' by blast
  next
    case False
    then show ?thesis by (auto simp: current_def parseable_def fs_def update_conv')
  qed
  then show ?thesis using files_kept_ok [OF ok, of fs] False by (simp add: c_def)
qed

lemma replace_ok:
  assumes ok: "arena_ok own s" and r: "procs s p = Replacing f r"
  defines "fs \<equiv> AList.update f (Body r) (files s)"
  shows "arena_ok own (s\<lparr>files := fs\<rparr>) \<and> later s (s\<lparr>files := fs\<rparr>)"
proof -
  have rf: "recFence r = f" "held_by r (own p)" "backed own s p f" using arena_act [OF ok r] by (simp_all add: act_ok_def)
  then obtain g r' where g: "current (files s) g r'" "f \<le> g" "f = g \<longrightarrow> credit s f = Some (own p)" unfolding backed_def by blast
  show ?thesis
  proof (cases "f = g")
    case False
    then show ?thesis using g(2) by (intro touch_below_ok [OF ok g(1)]) (auto simp: fs_def update_conv')
  next
    case True
    then have cur: "current fs f r" using current_here g(1) rf(1) by (simp add: fs_def)
    have "arena_ok own (s\<lparr>files := fs, credit := credit s\<rparr>) \<and> later s (s\<lparr>files := fs, credit := credit s\<rparr>)"
    proof (rule arena_files_ok [OF ok])
      show "\<exists>g' r'. current fs g' r' \<and> k \<le> g'" if "current (files s) k r2" for k r2
        using current_unique [OF g(1) that] cur True by blast
      show "\<exists>o'. credit s k = Some o' \<and> held_by r2 o'" if "current fs k r2" for k r2
        using current_unique [OF cur that] g(3) True rf(2) by blast
    qed simp_all
    then show ?thesis by simp
  qed
qed

lemma becomes_later_ok:
  "arena_ok own s' \<and> later s s' \<Longrightarrow> act_ok own s' p a \<Longrightarrow> arena_ok own (becomes s' p a) \<and> later s (becomes s' p a)"
  using becomes_ok [of own s' p a] by simp

text \<open>
  A record that was read is the current one or already superseded.  Deciding on it is safe in both cases:
  if its generation is the current one, it is the owner's own.
\<close>

lemma read_record:
  assumes ok: "arena_ok own s" and r: "parseRecord (map_of (files s) g) g = Some r" and g: "g < 10 ^ 9"
  shows "\<exists>g' r'. current (files s) g' r' \<and> g \<le> g' \<and> (g = g' \<longrightarrow> r' = r)"
proof -
  have p: "parseable (files s) g" using r g by (simp add: parseable_def)
  then obtain r' where r': "rsRecord (readState (files s)) = Some r'" using no_current by (metis not_Some_eq)
  then have c: "current (files s) (rsGeneration (readState (files s))) r'" by (simp add: current_read)
  then show ?thesis using p r by (auto simp: current_def intro!: exI [of _ "rsGeneration (readState (files s))"])
qed

lemma decide_ok:
  assumes ok: "arena_ok own s"
    and r: "\<And>r. rsRecord st = Some r \<Longrightarrow> parseRecord (map_of (files s) (rsGeneration st)) (rsGeneration st) = Some r \<and> rsGeneration st < 10 ^ 9"
  shows "act_ok own s p (decide (own p) k st)"
proof -
  let ?g = "rsGeneration st"
  have own: "backed own s p ?g" if o': "ownerOfRecord st = Some (own p)"
  proof -
    obtain r h where rh: "rsRecord st = Some r" "recHolder r = Some h" "holderOwner h = own p"
      using o' by (auto simp: ownerOfRecord_def split: bind_splits)
    obtain g r' where g: "current (files s) g r'" "?g \<le> g" "?g = g \<longrightarrow> r' = r" using read_record [OF ok] r [OF rh(1)] by blast
    have "?g = g \<longrightarrow> credit s ?g = Some (own p)" using ok g(1,3) rh(2,3) unfolding arena_ok_def held_by_def by fastforce
    then show ?thesis using g unfolding backed_def by blast
  qed
  have fence: "recFence r' = ?g" if "rsRecord st = Some r'" for r' using r [OF that] by (simp add: parse_Some)
  show ?thesis
  proof (cases k)
    case (ToAcquire now stale)
    then show ?thesis using own fence
      by (auto simp: act_ok_def decide_def acquireMove_def ownerOfRecord_def held_by_def split: option.splits bind_splits)
  next
    case (ToConfirm g)
    then show ?thesis using own by (auto simp: act_ok_def decide_def confirmedBy_def)
  next
    case (ToBeat f now)
    then show ?thesis using own fence
      by (auto simp: act_ok_def decide_def judge_def ownerOfRecord_def held_by_def split: option.splits bind_splits)
  next
    case (ToRelease f)
    then show ?thesis using own fence
      by (auto simp: act_ok_def decide_def judge_def held_by_def split: option.splits)
  next
    case (ToVerify f)
    then show ?thesis using own by (auto simp: act_ok_def decide_def judge_def)
  qed
qed

lemma generations_bound: "g \<in> set (generations fs) \<Longrightarrow> g < 10 ^ 9"
  by (auto simp: generations_def)

lemma startRead_ok: "act_ok own s p (startRead fs k)"
  by (auto simp: act_ok_def startRead_def Let_def dest: generations_bound)

lemma readNext_ok:
  assumes ok: "arena_ok own s" and r: "procs s p = Reading gs h k"
  shows "act_ok own s p (readNext (files s) (own p) gs h k)"
proof (cases gs)
  case Nil
  then show ?thesis unfolding readNext_def by (simp, intro decide_ok [OF ok]) simp
next
  case (Cons g gs')
  have b: "\<forall>g \<in> set gs. g < 10 ^ 9" using arena_act [OF ok r] by (simp add: act_ok_def)
  show ?thesis
  proof (cases "parseRecord (map_of (files s) g) g")
    case None
    then show ?thesis using b by (simp add: readNext_def Cons act_ok_def)
  next
    case (Some x)
    then show ?thesis using b by (simp add: readNext_def Cons, intro decide_ok [OF ok]) (auto simp: Cons)
  qed
qed

theorem own_step_ok:
  assumes "own_step own s s'" "arena_ok own s"
  shows "arena_ok own s' \<and> later s s'"
  using assms
proof (induction rule: own_step.induct)
  case (call s p k)
  then show ?case by (intro becomes_later_ok startRead_ok) simp
next
  case (read s p gs h k)
  then show ?case by (intro becomes_later_ok readNext_ok) simp_all
next
  case (confirm s p g)
  then show ?case by (intro becomes_later_ok startRead_ok) simp
next
  case (prune s p keep g)
  then obtain k r where "current (files s) k r" "keep \<le> k"
    using arena_act [OF prune.prems, of p] by (auto simp: act_ok_def backed_def)
  then show ?case using prune by (intro touch_below_ok [OF prune.prems, of k r g]) (auto simp: delete_conv')
next
  case (create s p g now)
  then show ?case by (intro becomes_later_ok create_ok) auto
next
  case (fill s p g now)
  then show ?case by (intro becomes_later_ok) (use fill_ok in \<open>auto simp: credited_def\<close>)
next
  case (replace s p f r)
  then show ?case by (intro becomes_later_ok replace_ok) auto
qed (intro becomes_later_ok; simp)+

end
