(* ===== verification/OwnershipSafety.thy ===== *)
theory OwnershipSafety
  imports OwnershipSteps
begin

text \<open>
  What the fencing tokens promise, and where the promise ends: a token is good for one owner only and
  never again after a later one, so the commit of a superseded owner is refused; an undisturbed
  acquisition is exact up to the last nine-digit generation; a read that another process overtakes
  between listing and reading can hand a token out twice.
\<close>

lemma own_steps_ok: "(own_step own)\<^sup>*\<^sup>* s s' \<Longrightarrow> arena_ok own s \<Longrightarrow> arena_ok own s' \<and> later s s'"
  by (induction rule: rtranclp_induct) (auto dest: own_step_ok intro: later_trans)

lemma verify_Valid: "verify fs o' f = Valid f' \<longleftrightarrow> f' = f \<and> (\<exists>r h. current fs f r \<and> recHolder r = Some h \<and> holderOwner h = o')"
  by (auto simp: verify_def judge_def ownerOfRecord_def current_read split: if_splits bind_splits)

lemma verify_credit: "arena_ok own s \<Longrightarrow> verify (files s) o' f = Valid f \<Longrightarrow> credit s f = Some o'"
  by (auto simp: arena_ok_def verify_Valid held_by_def)

subsection \<open>Executions\<close>

datatype Event = ECall nat Purpose | ERead nat | ECreate nat | EFill nat | EConfirm nat | EPrune nat nat | EReplace nat | EStop nat

fun perform :: "(nat \<Rightarrow> string) \<Rightarrow> Event \<Rightarrow> Arena \<Rightarrow> Arena option" where
  "perform own (ECall p k) s =
     (case (procs s p, k) of
        (Idle, ToConfirm g) \<Rightarrow> None
      | (Idle, x) \<Rightarrow> Some (becomes s p (startRead (files s) k))
      | x \<Rightarrow> None)"
| "perform own (ERead p) s =
     (case procs s p of Reading gs h k \<Rightarrow> Some (becomes s p (readNext (files s) (own p) gs h k)) | _ \<Rightarrow> None)"
| "perform own (ECreate p) s =
     (case procs s p of
        Creating g now \<Rightarrow> if map_of (files s) g = None
          then Some (becomes (s\<lparr>files := AList.update g (Empty p) (files s)\<rparr>) p (Writing g now)) else None
      | _ \<Rightarrow> None)"
| "perform own (EFill p) s =
     (case procs s p of
        Writing g now \<Rightarrow> if map_of (files s) g = Some (Empty p)
          then Some (becomes (s\<lparr>files := AList.update g (Body (newRecord g (own p) now)) (files s),
                 credit := credited s g (own p)\<rparr>) p (Confirming g)) else None
      | _ \<Rightarrow> None)"
| "perform own (EConfirm p) s =
     (case procs s p of Confirming g \<Rightarrow> Some (becomes s p (startRead (files s) (ToConfirm g))) | _ \<Rightarrow> None)"
| "perform own (EPrune p g) s =
     (case procs s p of Pruning keep \<Rightarrow> if g < keep then Some (s\<lparr>files := AList.delete g (files s)\<rparr>) else None | _ \<Rightarrow> None)"
| "perform own (EReplace p) s =
     (case procs s p of Replacing f r \<Rightarrow> Some (becomes (s\<lparr>files := AList.update f (Body r) (files s)\<rparr>) p Idle) | _ \<Rightarrow> None)"
| "perform own (EStop p) s = Some (becomes s p Idle)"

lemma perform_step: "perform own e s = Some s' \<Longrightarrow> own_step own s s'"
  by (cases e) (auto split: Activity.splits Purpose.splits option.splits if_splits intro: own_step.intros)

fun performAll :: "(nat \<Rightarrow> string) \<Rightarrow> Event list \<Rightarrow> Arena \<Rightarrow> Arena option" where
  "performAll own [] s = Some s"
| "performAll own (e # es) s = Option.bind (perform own e s) (performAll own es)"

lemma performAll_steps: "performAll own es s = Some s' \<Longrightarrow> (own_step own)\<^sup>*\<^sup>* s s'"
  by (induction es arbitrary: s) (auto split: bind_splits dest!: perform_step intro: converse_rtranclp_into_rtranclp)

definition fourOwners :: "nat \<Rightarrow> string" where
  "fourOwners p = (if p = 0 then ''a'' else if p = 1 then ''b'' else if p = 2 then ''c'' else ''d'')"

definition handover :: "Event list" where
  "handover = [ECall 1 (ToAcquire 0 10), ERead 1, ECreate 1, EFill 1, EConfirm 1, ERead 1, EStop 1,
     ECall 1 (ToRelease 1), ERead 1, EReplace 1,
     ECall 2 (ToAcquire 5 10), ERead 2, ECreate 2, EFill 2, EConfirm 2, ERead 2, EPrune 2 1, EStop 2]"

subsection \<open>Fencing\<close>

lemma backed_current:
  assumes ok: "arena_ok own s" and b: "backed own s p f" and v: "verify (files s) o' g = Valid g"
  shows "f \<le> g \<and> (f = g \<longrightarrow> own p = o')"
proof -
  obtain r where c: "current (files s) g r" using v by (auto simp: verify_Valid)
  obtain g' r' where g': "current (files s) g' r'" "f \<le> g'" "f = g' \<longrightarrow> credit s f = Some (own p)" using b unfolding backed_def by blast
  have "g' = g" using current_unique [OF g'(1) c] by simp
  then show ?thesis using g' verify_credit [OF ok v] by auto
qed

text \<open>
  C31. In any interleaving of acquisitions, heartbeats, releases and checks that may stop anywhere, and
  whose reads list the directory and then read file by file while others write: a token that the
  directory makes valid for an owner at one moment is valid for no other owner at any later moment, and
  once a later token has been valid the earlier one is not valid again; a Run commit whose check sees the
  directory of such a moment is refused with the earlier token.  A check, or the confirming read of an
  acquisition, that other processes overtook may still succeed (\<open>torn_confirm_reissues_fence\<close>), but
  only for a token that has been superseded, or for the owner whose token it is.
\<close>
theorem fencing_tokens_exclusive:
  assumes "(own_step own)\<^sup>*\<^sup>* startArena s1" "(own_step own)\<^sup>*\<^sup>* s1 s2"
    and "verify (files s1) o1 f1 = Valid f1" "verify (files s2) o2 f2 = Valid f2"
    and "\<And>o' f. verifyFence env (queueResource q) o' f = fenceCheckOf (verify (files s2) o' (nat f))"
  shows "f1 \<le> f2 \<and> (f1 = f2 \<longrightarrow> o1 = o2) \<and>
    (f1 < f2 \<longrightarrow> updateRun env runs q u (Fenced \<lparr>claimResource = queueResource q, claimOwner = o1, claimFence = int f1\<rparr>) \<noteq> Inr w) \<and>
    (procs s2 p \<in> {Verified f, Pruning f} \<longrightarrow> f \<le> f2 \<and> (f = f2 \<longrightarrow> own p = o2))"
proof -
  have ok: "arena_ok own s1" "arena_ok own s2" "later s1 s2"
    using own_steps_ok [OF assms(1) start_ok] own_steps_ok [OF assms(2)] by auto
  obtain r1 where c1: "current (files s1) f1 r1" using assms(3) by (auto simp: verify_Valid)
  obtain r2 where c2: "current (files s2) f2 r2" using assms(4) by (auto simp: verify_Valid)
  obtain g' r' where g': "current (files s2) g' r'" "f1 \<le> g'" using ok(3) c1 unfolding later_def by blast
  have le: "f1 \<le> f2" using current_unique [OF g'(1) c2] g'(2) by simp
  have cr: "credit s1 f1 = Some o1" "credit s2 f2 = Some o2" by (rule verify_credit [OF ok(1) assms(3)], rule verify_credit [OF ok(2) assms(4)])
  have "credit s1 \<subseteq>\<^sub>m credit s2" using ok(3) by (simp add: later_def)
  then have "credit s2 f1 = Some o1" using cr(1) by (metis domI map_le_def)
  then have same: "f1 = f2 \<longrightarrow> o1 = o2" using cr(2) by auto
  have "updateRun env runs q u (Fenced \<lparr>claimResource = queueResource q, claimOwner = o1, claimFence = int f1\<rparr>) \<noteq> Inr w" if "f1 < f2"
  proof -
    have "verify (files s2) o1 f1 \<noteq> Valid f1" using current_unique [OF c2] that by (auto simp: verify_Valid)
    then have "fenceCheckOf (verify (files s2) o1 f1) \<noteq> FenceValid"
      using verify_Valid by (auto simp: fenceCheckOf_def split: Verdict.split)
    then show ?thesis
      by (cases w) (auto simp: updateRun_Inr fenceRefusal_def checkCommitFence_def assms(5) split: FenceCheck.splits)
  qed
  moreover have "f \<le> f2 \<and> (f = f2 \<longrightarrow> own p = o2)" if "procs s2 p \<in> {Verified f, Pruning f}"
    using backed_current [OF ok(2) _ assms(4)] arena_act [OF ok(2), of p] that by (auto simp: act_ok_def)
  ultimately show ?thesis using le same by blast
qed

definition after :: "Event list \<Rightarrow> Arena" where
  "after es = the (performAll fourOwners es startArena)"

lemma after_reached: "performAll fourOwners es startArena \<noteq> None \<Longrightarrow> (own_step fourOwners)\<^sup>*\<^sup>* startArena (after es)"
  using performAll_steps by (fastforce simp: after_def)

lemma after_append: "performAll own (es @ fs) s = Option.bind (performAll own es s) (performAll own fs)"
  by (induction es arbitrary: s) (auto simp: Option.bind_assoc split: bind_splits)

lemma after_later:
  assumes "performAll fourOwners (es @ fs) startArena \<noteq> None"
  shows "(own_step fourOwners)\<^sup>*\<^sup>* (after es) (after (es @ fs))"
  using assms performAll_steps by (fastforce simp: after_def after_append split: bind_splits)

lemma handover_runs: "performAll fourOwners handover startArena \<noteq> None" by code_simp

definition registryEnv :: "Arena \<Rightarrow> StoreEnv" where
  "registryEnv s = sampleEnv\<lparr>verifyFence := (\<lambda>r o' f. fenceCheckOf (verify (files s) o' (nat f)))\<rparr>"

lemma fencing_tokens_exclusive_witness:
  "\<forall>w. updateRun (registryEnv (after handover)) [(''q'', sampleRun [''plan''])] ''q''
     \<lparr>updRunId = ''r1'', updAllowed = OPERABLE_RUN_STATUSES, updPatch = (\<lambda>c. Inr c :: unit + WorkflowRun)\<rparr>
     (Fenced \<lparr>claimResource = queueResource ''q'', claimOwner = ''b'', claimFence = 1\<rparr>) \<noteq> Inr w"
proof -
  have split: "handover = take 6 handover @ drop 6 handover" by simp
  have r: "performAll fourOwners (take 6 handover) startArena \<noteq> None" by code_simp
  have "(own_step fourOwners)\<^sup>*\<^sup>* (after (take 6 handover)) (after handover)"
    using after_later [of "take 6 handover" "drop 6 handover"] handover_runs by simp
  moreover have "verify (files (after (take 6 handover))) ''b'' 1 = Valid 1" by code_simp
  moreover have "verify (files (after handover)) ''c'' 2 = Valid 2" by code_simp
  ultimately show ?thesis
    using fencing_tokens_exclusive [OF after_reached [OF r], of "after handover" "''b''" 1 "''c''" 2 "registryEnv (after handover)" "''q''"]
    by (intro allI, simp add: registryEnv_def) blast
qed

subsection \<open>An undisturbed acquisition\<close>

lemma verify_current:
  assumes "current fs g r" "recHolder r = Some h"
  shows "verify fs o' f = Valid f \<longleftrightarrow> o' = holderOwner h \<and> f = g"
proof
  assume "verify fs o' f = Valid f"
  then obtain r' h' where r: "current fs f r'" "recHolder r' = Some h'" "holderOwner h' = o'" by (auto simp: verify_Valid)
  show "o' = holderOwner h \<and> f = g" using current_unique [OF assms(1) r(1)] r assms(2) by simp
qed (use assms in \<open>auto simp: verify_Valid\<close>)

lemma acquire_Suc:
  obtains n where "acquire fs o' now st = acquireOrReport (Suc n) fs o' now st"
proof
  show "acquire fs o' now st = acquireOrReport (Suc 7) fs o' now st" by (simp add: acquire_def MAX_ACQUIRE_ATTEMPTS_def)
qed

lemma confirmedBy_current: "current fs g r \<Longrightarrow> confirmedBy (readState fs) g o' \<longleftrightarrow> map_option holderOwner (recHolder r) = Some o'"
  by (auto simp: confirmedBy_def ownerOfRecord_def current_read)

lemma gen_le_highest: "rsGeneration (readState fs) \<le> rsHighest (readState fs)"
  using readState_char [of fs] highest_ge [OF parseable_listed, of fs "rsGeneration (readState fs)"] by auto

lemma above_highest_free: "rsHighest (readState fs) < g \<Longrightarrow> g < 10 ^ 9 \<Longrightarrow> map_of fs g = None"
  using highest_ge [of g fs] by (force simp: generations_set map_of_eq_None_iff)

lemma parseable_le_highest: "parseable fs g \<Longrightarrow> g \<le> rsHighest (readState fs)"
  by (intro highest_ge parseable_listed)

lemma new_current:
  assumes "rsHighest (readState fs) < g" "g < 10 ^ 9"
  shows "current (AList.update g (Body (newRecord g o' now)) fs) g (newRecord g o' now)"
proof -
  have "recFence (newRecord g o' now) = g" by (simp add: newRecord_def)
  moreover have "k \<le> g" if "parseable fs k" for k using parseable_le_highest [OF that] assms(1) by simp
  ultimately show ?thesis using assms(2) by (auto simp: current_def parseable_update update_conv' parse_Some)
qed

lemma prune_map: "map_of (pruneBelow g fs) k = (if generationOf k \<noteq> None \<and> k < g then None else map_of fs k)"
  by (induction fs) (auto simp: pruneBelow_def split: option.splits)

lemma prune_current: "current fs g r \<Longrightarrow> current (pruneBelow g fs) g r"
  by (auto simp: current_def parseable_def prune_map)

lemma take_next:
  assumes "rsHighest (readState fs) < 999999999"
    and m: "acquireMove (readState fs) o' now st = CreateNext (rsHighest (readState fs) + 1)"
  shows "\<exists>fs'. acquire fs o' now st = (Acquired (rsHighest (readState fs) + 1) now, fs') \<and>
    current fs' (rsHighest (readState fs) + 1) (newRecord (rsHighest (readState fs) + 1) o' now) \<and>
    (\<forall>k \<le> rsHighest (readState fs). map_of fs' k = None)"
proof -
  define g where "g = rsHighest (readState fs) + 1"
  have g: "rsHighest (readState fs) < g" "g < 10 ^ 9" using assms(1) by (simp_all add: g_def)
  have c: "current (AList.update g (Body (newRecord g o' now)) fs) g (newRecord g o' now)" by (rule new_current [OF g])
  have "confirmedBy (readState (AList.update g (Body (newRecord g o' now)) fs)) g o'"
    unfolding confirmedBy_current [OF c] by (simp add: newRecord_def)
  moreover obtain n where "acquire fs o' now st = acquireOrReport (Suc n) fs o' now st" by (rule acquire_Suc)
  ultimately have "acquire fs o' now st = (Acquired g now, pruneBelow g (AList.update g (Body (newRecord g o' now)) fs))"
    using above_highest_free [OF g] by (simp add: m [folded g_def] Let_def)
  moreover have "map_of (pruneBelow g (AList.update g (Body (newRecord g o' now)) fs)) k = None" if "k \<le> rsHighest (readState fs)" for k
    using that g by (simp add: prune_map)
  ultimately show ?thesis using prune_current [OF c] unfolding g_def by blast
qed

lemma readState_outside:
  assumes "10 ^ 9 \<le> g"
  shows "readState (AList.update g x fs) = readState fs"
proof -
  have n: "generationOf g = None" using assms by simp
  have gens: "generations (AList.update g x fs) = generations fs"
  proof -
    have "g \<noteq> k" if "generationOf k \<noteq> None" for k using that n by auto
    then show ?thesis using n by (auto simp: generations_def update_keys simp del: generationOf_iff)
  qed
  have "firstParseable (AList.update g x fs) gs = firstParseable fs gs" if "\<forall>k \<in> set gs. k \<noteq> g" for gs
    using that by (induction gs) (auto simp: update_conv' split: option.split)
  moreover have "\<forall>k \<in> set (generations fs). k \<noteq> g" using assms by (auto simp: generations_set)
  ultimately show ?thesis by (simp add: readState_def gens)
qed

lemma out_of_generations:
  assumes "10 ^ 9 \<le> g" "acquireMove (readState fs) o' now st = CreateNext g"
  shows "fst (acquireOrReport n fs o' now st) \<noteq> Acquired g' t"
  using assms(2)
proof (induction n arbitrary: fs)
  case (Suc n)
  define fs' where "fs' = AList.update g (Body (newRecord g o' now)) fs"
  have same: "readState fs' = readState fs" using readState_outside [OF assms(1)] by (simp add: fs'_def)
  have "rsGeneration (readState fs) \<noteq> g" using readState_char [of fs] assms(1) by (auto simp: parseable_def)
  then have "\<not> confirmedBy (readState fs') g o'" by (simp add: same confirmedBy_def)
  then show ?case using Suc.prems Suc.IH [of fs] Suc.IH [of fs']
    by (simp add: Let_def fs'_def [symmetric] same split: option.split)
qed simp

lemma renew_own:
  assumes "rsRecord (readState fs) = Some r" "recHolder r = Some h" "holderOwner h = o'"
  shows "\<exists>fs'. acquire fs o' now st = (Acquired (rsGeneration (readState fs)) (acquiredAt h), fs') \<and>
    (\<forall>o2 f. verify fs' o2 f = Valid f \<longleftrightarrow> o2 = o' \<and> f = rsGeneration (readState fs))"
proof -
  let ?r = "r\<lparr>recHolder := Some (h\<lparr>heartbeatAt := now\<rparr>)\<rparr>" and ?g = "rsGeneration (readState fs)"
  have c: "current fs ?g r" using assms(1) by (simp add: current_read)
  obtain n where n: "acquire fs o' now st = acquireOrReport (Suc n) fs o' now st" by (rule acquire_Suc)
  then have a: "acquire fs o' now st = (Acquired ?g (acquiredAt h), AList.update ?g (Body ?r) fs)"
    by (simp add: acquireMove_def assms)
  have "current (AList.update ?g (Body ?r) fs) ?g ?r" using current_fence [OF c] by (intro current_here [OF c]) simp
  from verify_current [OF this] show ?thesis by (simp add: a assms(3))
qed

text \<open>
  C32. Undisturbed, \<open>acquire\<close> below the last nine-digit generation renews the caller's own record, reports a
  holder whose heartbeat is fresh and changes nothing, and otherwise takes the next generation and removes
  every older file; afterwards only the caller's token is valid.  At the last nine-digit generation a
  resource that is not held by its caller is never acquired again.
\<close>
theorem acquire_exact:
  "case acquire fs o' now st of (res, fs') \<Rightarrow>
     (case Option.bind (rsRecord (readState fs)) recHolder of
        Some h \<Rightarrow>
          if holderOwner h = o' then res = Acquired (rsGeneration (readState fs)) (acquiredAt h) \<and>
              (\<forall>o2 f. verify fs' o2 f = Valid f \<longleftrightarrow> o2 = o' \<and> f = rsGeneration (readState fs))
          else if now - heartbeatAt h \<le> st then res = Held (holderOwner h) \<and> fs' = fs
          else if rsHighest (readState fs) < 999999999 then
            res = Acquired (rsHighest (readState fs) + 1) now \<and> (\<forall>k \<le> rsHighest (readState fs). map_of fs' k = None) \<and>
              (\<forall>o2 f. verify fs' o2 f = Valid f \<longleftrightarrow> o2 = o' \<and> f = rsHighest (readState fs) + 1)
          else \<forall>g t. res \<noteq> Acquired g t
      | None \<Rightarrow>
          if rsHighest (readState fs) < 999999999 then
            res = Acquired (rsHighest (readState fs) + 1) now \<and> (\<forall>k \<le> rsHighest (readState fs). map_of fs' k = None) \<and>
              (\<forall>o2 f. verify fs' o2 f = Valid f \<longleftrightarrow> o2 = o' \<and> f = rsHighest (readState fs) + 1)
          else \<forall>g t. res \<noteq> Acquired g t)"
proof -
  let ?st = "readState fs" and ?h = "rsHighest (readState fs)"
  obtain n where n: "acquire fs o' now st = acquireOrReport (Suc n) fs o' now st" by (rule acquire_Suc)
  have next_ok: "if ?h < 999999999 then fst (acquire fs o' now st) = Acquired (?h + 1) now \<and> (\<forall>k \<le> ?h. map_of (snd (acquire fs o' now st)) k = None) \<and>
        (\<forall>o2 f. verify (snd (acquire fs o' now st)) o2 f = Valid f \<longleftrightarrow> o2 = o' \<and> f = ?h + 1)
      else \<forall>g t. fst (acquire fs o' now st) \<noteq> Acquired g t"
    if m: "acquireMove ?st o' now st = CreateNext (?h + 1)"
  proof (cases "?h < 999999999")
    case True
    then show ?thesis using take_next [OF True m] verify_current by (fastforce simp: newRecord_def)
  next
    case False
    then show ?thesis using out_of_generations [OF _ m, of MAX_ACQUIRE_ATTEMPTS] by (simp add: acquire_def)
  qed
  show ?thesis
  proof (cases "Option.bind (rsRecord ?st) recHolder")
    case None
    then have "acquireMove ?st o' now st = CreateNext (?h + 1)" using gen_le_highest [of fs] by (simp add: acquireMove_def max_def)
    from next_ok [OF this] None show ?thesis by (simp add: case_prod_beta)
  next
    case (Some h)
    then obtain r where r: "rsRecord ?st = Some r" "recHolder r = Some h" by (auto split: bind_splits)
    consider "holderOwner h = o'" | "holderOwner h \<noteq> o'" "now - heartbeatAt h \<le> st" | "holderOwner h \<noteq> o'" "\<not> now - heartbeatAt h \<le> st" by blast
    then show ?thesis
    proof cases
      case 1
      then show ?thesis using renew_own [OF r 1, of now st] Some by (auto simp: case_prod_beta)
    next
      case 2
      then show ?thesis by (simp add: n acquireMove_def Some)
    next
      case 3
      then have "acquireMove ?st o' now st = CreateNext (?h + 1)" using gen_le_highest [of fs] Some by (simp add: acquireMove_def max_def)
      from next_ok [OF this] Some 3 show ?thesis by (simp add: case_prod_beta)
    qed
  qed
qed

lemma acquire_exact_witness:
  "acquire (files (after handover)) ''d'' 16 10 = (Acquired 3 16, [(3, Body (newRecord 3 ''d'' 16))]) \<and>
   verify [(3, Body (newRecord 3 ''d'' 16))] ''d'' 3 = Valid 3 \<and> verify [(3, Body (newRecord 3 ''d'' 16))] ''c'' 2 \<noteq> Valid 2"
proof -
  have st: "Option.bind (rsRecord (readState (files (after handover)))) recHolder = Some \<lparr>holderOwner = ''c'', acquiredAt = 5, heartbeatAt = 5\<rparr>"
    by code_simp
  have h: "rsHighest (readState (files (after handover))) = 2" by code_simp
  have "snd (acquire (files (after handover)) ''d'' 16 10) = [(3, Body (newRecord 3 ''d'' 16))]" by code_simp
  with acquire_exact [where fs = "files (after handover)" and o' = "''d''" and now = 16 and st = 10] show ?thesis
    unfolding st h by (simp add: case_prod_beta prod_eq_iff)
qed

subsection \<open>A read that is overtaken\<close>

text \<open>
  The confirming read of \<open>acquire\<close> is not exact when another process takes and prunes a generation between
  its listing and its reads: a process that stalled before creating a generation that was since issued and
  pruned creates it again, lists it below the current one, and confirms it once the current one is pruned
  in turn.
\<close>

definition tornRead :: "int \<Rightarrow> Event list" where
  "tornRead stale =
     [ECall 0 (ToAcquire 0 stale), ERead 0,
      ECall 1 (ToAcquire 0 stale), ERead 1, ECreate 1, EFill 1, EConfirm 1, ERead 1, EStop 1, ECall 1 (ToRelease 1), ERead 1, EReplace 1,
      ECall 2 (ToAcquire 5 stale), ERead 2, ECreate 2, EFill 2, EConfirm 2, ERead 2, EPrune 2 1, EStop 2, ECall 2 (ToRelease 2), ERead 2, EReplace 2,
      ECreate 0, EFill 0, EConfirm 0,
      ECall 3 (ToAcquire 6 stale), ERead 3, ECreate 3, EFill 3, EConfirm 3, ERead 3, EPrune 3 2,
      ERead 0, ERead 0]"

lemma torn_confirm_reissues_fence:
  "\<exists>s. (own_step own)\<^sup>*\<^sup>* startArena s \<and> credit s 1 = Some (own 1) \<and> procs s 0 = Pruning 1 \<and>
     verify (files s) (own 3) 3 = Valid 3"
proof -
  have "\<exists>s. performAll own (tornRead stale) startArena = Some s \<and> credit s 1 = Some (own 1) \<and> procs s 0 = Pruning 1 \<and>
     verify (files s) (own 3) 3 = Valid 3" for stale
    by (simp add: tornRead_def startArena_def becomes_def startRead_def readNext_def decide_def generations_def credited_def
      overtakes_def readState_def parseRecord_def acquireMove_def newRecord_def confirmedBy_def judge_def ownerOfRecord_def verify_def)
  then show ?thesis using performAll_steps by blast
qed

end
