(* ===== verification/QueueRegistry.thy ===== *)
theory QueueRegistry
  imports QueueControl "HOL-Library.List_Lexorder"
begin

text \<open>
  \<open>src/queue/queue-registry.ts\<close>: which queues exist, in which order, under which names and with which
  schedules.  A \<open>targetAt\<close> text is represented by the time \<open>Date.parse\<close> reads in it (\<open>None\<close> for one it
  cannot read), error messages by their codes, positions are integers, and names are lowercased as in a
  locale without rules of its own.
\<close>

subsection \<open>Records\<close>

datatype ScheduleKind = RelativeSchedule | AbsoluteSchedule

record QueueSchedule =
  schKind :: ScheduleKind
  schExpression :: string
  schTargetAt :: "int option"
  schSetAt :: string

record QueueRegistryEntry =
  reId :: string
  reName :: string
  rePosition :: int
  reSchedule :: "QueueSchedule option"
  reCreatedAt :: int
  reUpdatedAt :: int

record QueueRegistry =
  rgEntries :: "QueueRegistryEntry list"
  rgUpdatedAt :: int

definition MAX_QUEUES :: nat where "MAX_QUEUES = 20"
definition MAX_QUEUE_NAME_LENGTH :: nat where "MAX_QUEUE_NAME_LENGTH = 64"
definition MIN_QUEUE_NAME_LENGTH :: nat where "MIN_QUEUE_NAME_LENGTH = 1"

datatype QueueRegistryError =
    UnknownQueueId | DuplicateQueueName | QueueCapReached | InvalidQueueName | InvalidQueueId
  | CannotDeleteDefaultQueue | InvalidQueuePosition | InvalidQueueState | InvalidRegistryState

subsection \<open>Ids and names\<close>

definition hexDigit :: "char \<Rightarrow> bool" where
  "hexDigit c \<longleftrightarrow> c \<in> set ''0123456789abcdefABCDEF''"

definition UUID_V4_RE :: "(char \<Rightarrow> bool) list" where
  "UUID_V4_RE = replicate 8 hexDigit @ [(=) CHR ''-''] @ replicate 4 hexDigit @ [(=) CHR ''-'', (=) CHR ''4''] @
     replicate 3 hexDigit @ [(=) CHR ''-'', (\<lambda>c. c \<in> set ''89abAB'')] @ replicate 3 hexDigit @ [(=) CHR ''-''] @
     replicate 12 hexDigit"

definition isValidQueueId :: "string \<Rightarrow> bool" where
  "isValidQueueId i \<longleftrightarrow> i = DEFAULT_QUEUE_ID \<or> list_all2 (\<lambda>p c. p c) UUID_V4_RE i"

definition isValidQueueName :: "string \<Rightarrow> bool" where
  "isValidQueueName name \<longleftrightarrow>
     MIN_QUEUE_NAME_LENGTH \<le> length (js_trim name) \<and> length (js_trim name) \<le> MAX_QUEUE_NAME_LENGTH"

definition lower_char :: "char \<Rightarrow> char" where
  "lower_char c =
     (let n = (of_char c :: nat)
      in if 65 \<le> n \<and> n \<le> 90 \<or> 192 \<le> n \<and> n \<le> 222 \<and> n \<noteq> 215 then char_of (n + 32) else c)"

definition queueNameKey :: "string \<Rightarrow> string" where
  "queueNameKey name = map lower_char (js_trim name)"

definition makeDefaultRegistry :: "int \<Rightarrow> QueueRegistry" where
  "makeDefaultRegistry now =
     \<lparr>rgEntries = [\<lparr>reId = DEFAULT_QUEUE_ID, reName = ''Default queue'', rePosition = 0, reSchedule = None,
        reCreatedAt = now, reUpdatedAt = now\<rparr>], rgUpdatedAt = now\<rparr>"

definition findQueue :: "QueueRegistryEntry list \<Rightarrow> string \<Rightarrow> QueueRegistryEntry option" where
  "findQueue es i = List.find (\<lambda>e. reId e = i) es"

subsection \<open>Validation\<close>

text \<open>The loop over the entries, with the ids, name keys and positions seen so far.\<close>

fun validateEntries :: "string list \<Rightarrow> string list \<Rightarrow> int list \<Rightarrow> QueueRegistryEntry list \<Rightarrow> QueueRegistryError + int list" where
  "validateEntries ids names positions [] = Inr positions"
| "validateEntries ids names positions (e # es) =
     (if \<not> isValidQueueId (reId e) then Inl InvalidQueueId
      else if reId e \<in> set ids then Inl InvalidRegistryState
      else if \<not> isValidQueueName (reName e) then Inl InvalidQueueName
      else if queueNameKey (reName e) \<in> set names then Inl DuplicateQueueName
      else if rePosition e < 0 then Inl InvalidQueuePosition
      else if rePosition e \<in> set positions then Inl InvalidRegistryState
      else validateEntries (reId e # ids) (queueNameKey (reName e) # names) (rePosition e # positions) es)"

definition validateQueueRegistry :: "QueueRegistry \<Rightarrow> QueueRegistryError + unit" where
  "validateQueueRegistry registry =
     (if rgEntries registry = [] then Inl InvalidRegistryState
      else if MAX_QUEUES < length (rgEntries registry) then Inl QueueCapReached
      else if findQueue (rgEntries registry) DEFAULT_QUEUE_ID = None then Inl InvalidRegistryState
      else then_ok (validateEntries [] [] [] (rgEntries registry))
        (\<lambda>positions. if list_all (\<lambda>i. int i \<in> set positions) [0..<length (rgEntries registry)]
           then Inr () else Inl InvalidRegistryState))"

subsection \<open>Operations\<close>

definition compactQueuePositions :: "QueueRegistryEntry list \<Rightarrow> QueueRegistryEntry list" where
  "compactQueuePositions es =
     (let sorted = sort_key rePosition es
      in map (\<lambda>(e, i). e\<lparr>rePosition := int i\<rparr>) (zip sorted [0..<length sorted]))"

definition createQueue :: "QueueRegistry \<Rightarrow> string \<Rightarrow> string \<Rightarrow> int \<Rightarrow> QueueRegistryError + QueueRegistry" where
  "createQueue registry i name now =
     (let trimmedName = js_trim name
      in if \<not> isValidQueueName trimmedName then Inl InvalidQueueName
         else if \<not> isValidQueueId i \<or> i = DEFAULT_QUEUE_ID then Inl InvalidQueueId
         else if MAX_QUEUES \<le> length (rgEntries registry) then Inl QueueCapReached
         else if list_ex (\<lambda>e. queueNameKey (reName e) = queueNameKey trimmedName) (rgEntries registry)
           then Inl DuplicateQueueName
         else Inr \<lparr>rgEntries = rgEntries registry @
             [\<lparr>reId = i, reName = trimmedName, rePosition = int (length (rgEntries registry)), reSchedule = None,
               reCreatedAt = now, reUpdatedAt = now\<rparr>], rgUpdatedAt = now\<rparr>)"

definition renameQueue :: "QueueRegistry \<Rightarrow> string \<Rightarrow> string \<Rightarrow> int \<Rightarrow> QueueRegistryError + QueueRegistry" where
  "renameQueue registry i name now =
     (let trimmedName = js_trim name
      in if \<not> isValidQueueName trimmedName then Inl InvalidQueueName
         else if findQueue (rgEntries registry) i = None then Inl UnknownQueueId
         else if list_ex (\<lambda>e. reId e \<noteq> i \<and> queueNameKey (reName e) = queueNameKey trimmedName) (rgEntries registry)
           then Inl DuplicateQueueName
         else Inr \<lparr>rgEntries = map (\<lambda>e. if reId e = i then e\<lparr>reName := trimmedName, reUpdatedAt := now\<rparr> else e) (rgEntries registry),
             rgUpdatedAt = now\<rparr>)"

text \<open>\<open>deleteQueue\<close> of the registry, which the store imports as \<open>removeQueueEntry\<close>.\<close>

definition removeQueueEntry :: "QueueRegistry \<Rightarrow> string \<Rightarrow> int \<Rightarrow> QueueRegistryError + QueueRegistry" where
  "removeQueueEntry registry i now =
     (if i = DEFAULT_QUEUE_ID then Inl CannotDeleteDefaultQueue
      else if findQueue (rgEntries registry) i = None then Inl UnknownQueueId
      else Inr \<lparr>rgEntries = compactQueuePositions (filter (\<lambda>e. reId e \<noteq> i) (rgEntries registry)), rgUpdatedAt = now\<rparr>)"

definition setQueueSchedule :: "QueueRegistry \<Rightarrow> string \<Rightarrow> QueueSchedule option \<Rightarrow> int \<Rightarrow> QueueRegistryError + QueueRegistry" where
  "setQueueSchedule registry i schedule now =
     (if findQueue (rgEntries registry) i = None then Inl UnknownQueueId
      else Inr \<lparr>rgEntries = map (\<lambda>e. if reId e = i then e\<lparr>reSchedule := schedule, reUpdatedAt := now\<rparr> else e) (rgEntries registry),
          rgUpdatedAt = now\<rparr>)"

subsection \<open>Projection\<close>

datatype QueueRegistryState = ActiveQueue | ManuallyPaused

record ProjectedQueueRegistryEntry =
  pjEntry :: QueueRegistryEntry
  pjState :: QueueRegistryState
  pjPauseSource :: "QueuePauseSource option"
  pjFailurePolicy :: QueueFailurePolicy
  pjFailurePolicyOverride :: "QueueFailurePolicy option"

definition projectQueueRegistry :: "QueueRegistry \<Rightarrow> (string \<Rightarrow> (bool \<times> QueuePauseSource option) option)
    \<Rightarrow> (string \<Rightarrow> QueueFailurePolicy option) \<Rightarrow> QueueFailurePolicy \<Rightarrow> ProjectedQueueRegistryEntry list" where
  "projectQueueRegistry registry pauseByQueueId failurePolicyByQueueId workspaceFailurePolicyDefault =
     map (\<lambda>entry.
        let view = pauseByQueueId (reId entry); paused = (map_option fst view = Some True);
            stored = failurePolicyByQueueId (reId entry)
        in \<lparr>pjEntry = entry,
            pjState = (if paused then ManuallyPaused else ActiveQueue),
            pjPauseSource = (if paused then
                (case Option.bind view snd of Some p \<Rightarrow> Some p | None \<Rightarrow> Some PsOperator) else None),
            pjFailurePolicy = effectiveQueueFailurePolicy stored workspaceFailurePolicyDefault,
            pjFailurePolicyOverride = stored\<rparr>)
       (rgEntries registry)"

end
