(* ===== verification/RegistryOps.thy ===== *)
theory RegistryOps
  imports QueueRegistry
begin

text \<open>
  Registry commands: the serialized, fenced registry write of \<open>src/state/workspace-state.ts\<close> and the
  commands of \<open>src/queue/queue-manager.ts\<close> that create, rename and delete queues, save the queue settings
  and fire due schedules.  A connected workflow run is represented by its id and the queue it is bound to.
\<close>

subsection \<open>The store\<close>

datatype ConcurrencyNotice = NoticePending | NoticeDismissed

record ConnectedBinding =
  cbRunId :: string
  cbQueueId :: "string option"

record RegistryStore =
  stRegistry :: "QueueRegistry option"
  stQueues :: QueueMap
  stRuns :: RunMap
  stConnected :: "ConnectedBinding list"
  stNotice :: "ConcurrencyNotice option"
  stDefaultId :: "string option"
  stCap :: int

datatype RegReject = Violation QueueRegistryError | Refused QueueReject | InvalidConcurrencyCap | StorageFailure

definition fromRegistry :: "QueueRegistryError + 'a \<Rightarrow> RegReject + 'a" where
  "fromRegistry r = (case r of Inl e \<Rightarrow> Inl (Violation e) | Inr a \<Rightarrow> Inr a)"

definition getQueueRegistry :: "int \<Rightarrow> QueueRegistry option \<Rightarrow> QueueRegistryError + QueueRegistry" where
  "getQueueRegistry now stored =
     (let registry = (case stored of Some r \<Rightarrow> r | None \<Rightarrow> makeDefaultRegistry now)
      in then_ok (validateQueueRegistry registry) (\<lambda>_. Inr registry))"

definition commitRefusal :: "StoreEnv \<Rightarrow> string list \<Rightarrow> QueueReject option" where
  "commitRefusal env queueIds =
     (if \<not> primacyHeld env then Some QOwnershipLost
      else firstRefusal (map (verifyQueueOwnershipForCommit env) queueIds))"

text \<open>A mutation answers \<open>None\<close> where the code returns the registry object it was given.\<close>

definition updateQueueRegistry :: "StoreEnv \<Rightarrow> RegistryStore \<Rightarrow> string list
    \<Rightarrow> (QueueRegistry \<Rightarrow> QueueRegistryError + QueueRegistry option \<times> 'r) \<Rightarrow> RegReject + 'r \<times> RegistryStore" where
  "updateQueueRegistry env st queueIds mutate =
     (case commitRefusal env queueIds of
        Some e \<Rightarrow> Inl (Refused e)
      | None \<Rightarrow> fromRegistry (then_ok (getQueueRegistry (clock env) (stRegistry st)) (\<lambda>current.
          then_ok (mutate current) (\<lambda>(changed, result).
            case changed of
              None \<Rightarrow> Inr (result, st)
            | Some registry \<Rightarrow> then_ok (validateQueueRegistry registry)
                (\<lambda>_. Inr (result, st\<lparr>stRegistry := Some registry\<rparr>))))))"

subsection \<open>Creating and renaming\<close>

definition armConcurrencyNotice :: "int \<Rightarrow> RegistryStore \<Rightarrow> QueueRegistryError + RegistryStore" where
  "armConcurrencyNotice now st =
     then_ok (getQueueRegistry now (stRegistry st)) (\<lambda>registry.
       Inr (if length (rgEntries registry) < 2 \<or> stNotice st \<noteq> None then st else st\<lparr>stNotice := Some NoticePending\<rparr>))"

definition dismissConcurrencyNotice :: "RegistryStore \<Rightarrow> RegistryStore" where
  "dismissConcurrencyNotice st =
     (if stNotice st \<noteq> Some NoticePending then st else st\<lparr>stNotice := Some NoticeDismissed\<rparr>)"

definition managerCreateQueue :: "StoreEnv \<Rightarrow> RegistryStore \<Rightarrow> string \<Rightarrow> string \<Rightarrow> RegReject + string \<times> RegistryStore" where
  "managerCreateQueue env st queueId name =
     then_ok (updateQueueRegistry env st [] (\<lambda>registry.
         then_ok (createQueue registry queueId name (clock env)) (\<lambda>next. Inr (Some next, ()))))
       (\<lambda>(u, st'). then_ok (fromRegistry (armConcurrencyNotice (clock env) st')) (\<lambda>st''. Inr (queueId, st'')))"

definition managerRenameQueue :: "StoreEnv \<Rightarrow> RegistryStore \<Rightarrow> string \<Rightarrow> string
    \<Rightarrow> RegReject + (string option \<times> string) \<times> RegistryStore" where
  "managerRenameQueue env st queueId name =
     then_ok (updateQueueRegistry env st [queueId] (\<lambda>registry.
         let existing = findQueue (rgEntries registry) queueId
         in then_ok (renameQueue registry queueId name (clock env)) (\<lambda>next. Inr (Some next, map_option reName existing))))
       (\<lambda>(fromName, st'). Inr ((fromName, js_trim name), st'))"

subsection \<open>Deleting\<close>

datatype DeletionRefusal =
    DefaultQueueUndeletable | DeleteUnknownQueueId | QueueHasInFlightTask | QueueHasRunningRun
  | QueueHasRetryPendingRun | QueueHasPausedRun

datatype QueueDeletionImpact = ImpactRefused DeletionRefusal | Deletable nat "string list"

definition resolveBoundQueueId :: "ConnectedBinding \<Rightarrow> string" where
  "resolveBoundQueueId run = (case cbQueueId run of Some q \<Rightarrow> q | None \<Rightarrow> DEFAULT_QUEUE_ID)"

definition queueDeletionImpact :: "string \<Rightarrow> QueueRegistry \<Rightarrow> WorkflowRun option \<Rightarrow> FeatureRequest list
    \<Rightarrow> ConnectedBinding list \<Rightarrow> QueueDeletionImpact" where
  "queueDeletionImpact queueId registry run requests bound =
     (if queueId = DEFAULT_QUEUE_ID then ImpactRefused DefaultQueueUndeletable
      else if findQueue (rgEntries registry) queueId = None then ImpactRefused DeleteUnknownQueueId
      else if list_ex (\<lambda>r. frStatus r = StInFlight) requests then ImpactRefused QueueHasInFlightTask
      else if map_option runStatus run = Some Running then ImpactRefused QueueHasRunningRun
      else if map_option runStatus run = Some Paused \<and> Option.bind run pendingRetryAt \<noteq> None
        then ImpactRefused QueueHasRetryPendingRun
      else if map_option runStatus run = Some Paused \<or> list_ex (\<lambda>r. frStatus r = StPaused) requests
        then ImpactRefused QueueHasPausedRun
      else Deletable (length (filter (\<lambda>r. frStatus r = StPending) requests))
        (sort (map cbRunId (filter (\<lambda>c. resolveBoundQueueId c = queueId) bound))))"

definition deletionView :: "int \<Rightarrow> RegistryStore \<Rightarrow> QueueRegistry \<Rightarrow> string \<Rightarrow> FeatureRequest list" where
  "deletionView now st registry queueId =
     (if findQueue (rgEntries registry) queueId = None then []
      else sort_key frPosition (qRequests (getQueue now (stQueues st) queueId)))"

text \<open>
  A deletion makes up to three storage writes: the registry without the entry, the queue map without the
  record, the connected runs without the bound ones.  Each may fail on its own.
\<close>

record DeletionWrites =
  registryStored :: bool
  queuesStored :: bool
  connectedStored :: bool

definition deleteQueueIfNoLiveRun :: "StoreEnv \<Rightarrow> DeletionWrites \<Rightarrow> RegistryStore \<Rightarrow> string
    \<Rightarrow> (RegReject + QueueDeletionImpact) \<times> RegistryStore" where
  "deleteQueueIfNoLiveRun env w st queueId =
     (case commitRefusal env [queueId] of
        Some e \<Rightarrow> (Inl (Refused e), st)
      | None \<Rightarrow>
          (case getQueueRegistry (clock env) (stRegistry st) of
             Inl e \<Rightarrow> (Inl (Violation e), st)
           | Inr registry \<Rightarrow>
               (case queueDeletionImpact queueId registry (getRun (stRuns st) queueId)
                       (deletionView (clock env) st registry queueId) (stConnected st) of
                  ImpactRefused r \<Rightarrow> (Inr (ImpactRefused r), st)
                | Deletable n ids \<Rightarrow>
                    (case then_ok (removeQueueEntry registry queueId (clock env))
                            (\<lambda>next. then_ok (validateQueueRegistry next) (\<lambda>_. Inr next)) of
                       Inl e \<Rightarrow> (Inl (Violation e), st)
                     | Inr next \<Rightarrow>
                         if \<not> registryStored w then (Inl StorageFailure, st)
                         else
                           let st1 = st\<lparr>stRegistry := Some next\<rparr>
                           in if \<not> queuesStored w then (Inl StorageFailure, st1)
                              else (Inr (Deletable n ids), st1\<lparr>stQueues := AList.delete queueId (stQueues st1)\<rparr>)))))"

text \<open>\<open>None\<close> when the write fails.\<close>

definition deleteConnectedRuns :: "bool \<Rightarrow> string list \<Rightarrow> RegistryStore \<Rightarrow> nat option \<times> RegistryStore" where
  "deleteConnectedRuns stored ids st =
     (let kept = filter (\<lambda>c. cbRunId c \<notin> set ids) (stConnected st);
          removed = length (stConnected st) - length kept
      in if ids = [] \<or> removed = 0 then (Some 0, st)
         else if \<not> stored then (None, st)
         else (Some removed, st\<lparr>stConnected := kept\<rparr>))"

datatype DeletionResult = Deleted nat nat | NotDeleted "RegReject + DeletionRefusal"

text \<open>A failed removal of the connected runs is logged and counts none.\<close>

definition managerDeleteQueue :: "StoreEnv \<Rightarrow> DeletionWrites \<Rightarrow> RegistryStore \<Rightarrow> string \<Rightarrow> DeletionResult \<times> RegistryStore" where
  "managerDeleteQueue env w st queueId =
     (case deleteQueueIfNoLiveRun env w st queueId of
        (Inl e, st1) \<Rightarrow> (NotDeleted (Inl e), st1)
      | (Inr (ImpactRefused r), st1) \<Rightarrow> (NotDeleted (Inr r), st1)
      | (Inr (Deletable n ids), st1) \<Rightarrow>
          (case deleteConnectedRuns (connectedStored w) ids st1 of
             (terminated, st2) \<Rightarrow> (Deleted n (case terminated of Some k \<Rightarrow> k | None \<Rightarrow> 0), st2)))"

subsection \<open>Settings\<close>

definition MAX_GLOBAL_CONCURRENCY_CAP :: int where "MAX_GLOBAL_CONCURRENCY_CAP = int MAX_QUEUES"

definition getDefaultQueueId :: "int \<Rightarrow> RegistryStore \<Rightarrow> QueueRegistryError + string" where
  "getDefaultQueueId now st =
     (let i = (case stDefaultId st of Some i \<Rightarrow> i | None \<Rightarrow> DEFAULT_QUEUE_ID)
      in then_ok (getQueueRegistry now (stRegistry st)) (\<lambda>registry.
           Inr (if findQueue (rgEntries registry) i \<noteq> None then i else DEFAULT_QUEUE_ID)))"

definition saveQueueSettings :: "int \<Rightarrow> RegistryStore \<Rightarrow> int \<Rightarrow> string \<Rightarrow> RegReject + string \<times> RegistryStore" where
  "saveQueueSettings now st globalConcurrencyCap defaultQueueId =
     (if globalConcurrencyCap < 1 \<or> MAX_GLOBAL_CONCURRENCY_CAP < globalConcurrencyCap then Inl InvalidConcurrencyCap
      else fromRegistry (then_ok (getQueueRegistry now (stRegistry st)) (\<lambda>registry.
        if findQueue (rgEntries registry) defaultQueueId = None then Inl UnknownQueueId
        else Inr (defaultQueueId, st\<lparr>stCap := globalConcurrencyCap, stDefaultId := Some defaultQueueId\<rparr>))))"

subsection \<open>Schedules\<close>

definition dueEntry :: "int \<Rightarrow> QueueRegistryEntry \<Rightarrow> bool" where
  "dueEntry now e =
     (case reSchedule e of
        None \<Rightarrow> False
      | Some s \<Rightarrow> (case schTargetAt s of None \<Rightarrow> False | Some t \<Rightarrow> t \<le> now))"

fun clearSchedules :: "QueueRegistryEntry list \<Rightarrow> int \<Rightarrow> QueueRegistry \<Rightarrow> QueueRegistryError + QueueRegistry" where
  "clearSchedules [] now registry = Inr registry"
| "clearSchedules (e # es) now registry =
     then_ok (setQueueSchedule registry (reId e) None now) (clearSchedules es now)"

definition dueMutation :: "int \<Rightarrow> QueueRegistry \<Rightarrow> QueueRegistryError + QueueRegistry option \<times> QueueRegistryEntry list" where
  "dueMutation now registry =
     (let dueEntries = filter (dueEntry now) (rgEntries registry)
      in if dueEntries = [] then Inr (None, [])
         else then_ok (clearSchedules dueEntries now registry) (\<lambda>next. Inr (Some next, dueEntries)))"

text \<open>The loop over the due queues; a refused write is thrown out of it.\<close>

fun releaseDue :: "StoreEnv \<Rightarrow> string list \<Rightarrow> QueueMap \<Rightarrow> QueueReject option \<times> QueueMap" where
  "releaseDue env [] qm = (None, qm)"
| "releaseDue env (q # qs) qm =
     (let queue = getQueue (clock env) qm q
      in if qLifecycle queue \<noteq> LcOperatorPaused then releaseDue env qs qm
         else case commitMutation env qm q (\<lambda>current. Inr (releasedFields (releasedLifecycle queue) current, ())) of
           Inl e \<Rightarrow> (Some e, qm)
         | Inr (u, qm') \<Rightarrow> releaseDue env qs qm')"

definition fireDueSchedules :: "StoreEnv \<Rightarrow> RegistryStore \<Rightarrow> (RegReject + string list) \<times> RegistryStore" where
  "fireDueSchedules env st =
     (case updateQueueRegistry env st [] (dueMutation (clock env)) of
        Inl e \<Rightarrow> (Inl e, st)
      | Inr (due, st') \<Rightarrow>
          (case releaseDue env (map reId due) (stQueues st') of
             (Some e, qm) \<Rightarrow> (Inl (Refused e), st'\<lparr>stQueues := qm\<rparr>)
           | (None, qm) \<Rightarrow> (Inr (map reId due), st'\<lparr>stQueues := qm\<rparr>)))"

end
