(* ===== verification/RegistrySafety.thy ===== *)
theory RegistrySafety
  imports RegistryOps QueueOrder
begin

text \<open>
  What the registry promises: every accepted operation keeps it valid and acts on the order of queues as
  its name says, and a deletion takes effect as a whole or not at all, never under a live Run.
\<close>

subsection \<open>Valid registries\<close>

definition entries_ok :: "QueueRegistryEntry list \<Rightarrow> bool" where
  "entries_ok es \<longleftrightarrow> (\<forall>e \<in> set es. isValidQueueId (reId e) \<and> isValidQueueName (reName e)) \<and>
     distinct (map reId es) \<and> distinct (map (queueNameKey \<circ> reName) es)"

definition positions_ok :: "QueueRegistryEntry list \<Rightarrow> bool" where
  "positions_ok es \<longleftrightarrow> distinct (map rePosition es) \<and> set (map rePosition es) = int ` {0..<length es}"

lemma validateEntries_Inr:
  "validateEntries ids names ps es = Inr qs \<longleftrightarrow>
     (\<forall>e \<in> set es. isValidQueueId (reId e) \<and> isValidQueueName (reName e) \<and> 0 \<le> rePosition e) \<and>
     distinct (map reId es) \<and> set (map reId es) \<inter> set ids = {} \<and>
     distinct (map (queueNameKey \<circ> reName) es) \<and> set (map (queueNameKey \<circ> reName) es) \<inter> set names = {} \<and>
     distinct (map rePosition es) \<and> set (map rePosition es) \<inter> set ps = {} \<and> qs = rev (map rePosition es) @ ps"
  by (induction es arbitrary: ids names ps) auto

lemma findQueue_None: "findQueue es i = None \<longleftrightarrow> i \<notin> set (map reId es)"
  by (auto simp: findQueue_def find_None_iff)

lemma contiguous:
  assumes "distinct ps"
  shows "(\<forall>p \<in> set ps. 0 \<le> p) \<and> list_all (\<lambda>i. int i \<in> set ps) [0..<length ps] \<longleftrightarrow> set ps = int ` {0..<length ps}"
    (is "?l \<longleftrightarrow> ?r")
proof
  assume ?l
  then have "int ` {0..<length ps} \<subseteq> set ps" by (auto simp: list_all_iff)
  moreover have "card (int ` {0..<length ps}) = card (set ps)" using assms by (simp add: distinct_card card_image inj_on_def)
  ultimately show ?r using card_subset_eq [OF finite_set] by metis
qed (auto simp: list_all_iff)

lemma registry_valid_iff:
  "validateQueueRegistry r = Inr () \<longleftrightarrow> length (rgEntries r) \<le> MAX_QUEUES \<and> DEFAULT_QUEUE_ID \<in> set (map reId (rgEntries r)) \<and>
     entries_ok (rgEntries r) \<and> positions_ok (rgEntries r)"
proof -
  have "validateQueueRegistry r = Inr () \<longleftrightarrow> rgEntries r \<noteq> [] \<and> length (rgEntries r) \<le> MAX_QUEUES \<and> DEFAULT_QUEUE_ID \<in> set (map reId (rgEntries r)) \<and>
     entries_ok (rgEntries r) \<and> distinct (map rePosition (rgEntries r)) \<and> (\<forall>p \<in> set (map rePosition (rgEntries r)). 0 \<le> p) \<and>
     list_all (\<lambda>i. int i \<in> set (map rePosition (rgEntries r))) [0..<length (map rePosition (rgEntries r))]"
    by (auto simp: validateQueueRegistry_def err_simps validateEntries_Inr findQueue_None entries_ok_def not_less)
  then show ?thesis using contiguous [of "map rePosition (rgEntries r)"] by (auto simp: positions_ok_def)
qed

lemma getQueueRegistry_Inr:
  "getQueueRegistry now s = Inr r \<longleftrightarrow> r = (case s of Some r \<Rightarrow> r | None \<Rightarrow> makeDefaultRegistry now) \<and> validateQueueRegistry r = Inr ()"
  by (auto simp: getQueueRegistry_def Let_def err_simps split: option.split)

lemma default_valid: "validateQueueRegistry (makeDefaultRegistry now) = Inr ()"
  by (simp add: registry_valid_iff makeDefaultRegistry_def entries_ok_def positions_ok_def MAX_QUEUES_def isValidQueueId_def) code_simp

subsection \<open>Order\<close>

definition queueOrder :: "QueueRegistry \<Rightarrow> string list" where
  "queueOrder r = map reId (sort_key rePosition (rgEntries r))"

lemma queueNameKey_trim [simp]: "queueNameKey (js_trim n) = queueNameKey n"
  by (simp add: queueNameKey_def)

lemma isValidQueueName_trim [simp]: "isValidQueueName (js_trim n) = isValidQueueName n"
  by (simp add: isValidQueueName_def)

lemma positions_append:
  "positions_ok es \<Longrightarrow> rePosition e = int (length es) \<Longrightarrow> positions_ok (es @ [e])"
  by (auto simp: positions_ok_def atLeast0_lessThan_Suc)

lemma sort_append_last:
  assumes "distinct (map f (xs @ [y]))" "\<And>x. x \<in> set xs \<Longrightarrow> f x \<le> f y"
  shows "sort_key f (xs @ [y]) = sort_key f xs @ [y]"
proof (rule sort_key_unique)
  show "distinct (map f (xs @ [y]))" by (rule assms(1))
  show "sorted (map f (sort_key f xs @ [y]))" using assms(2) by (simp add: sorted_append)
qed simp

lemma insort_key_same: "(\<And>x. f (g x) = f x) \<Longrightarrow> insort_key f (g x) (map g xs) = map g (insort_key f x xs)"
  by (induction xs) auto

lemma sort_key_same: "(\<And>x. f (g x) = f x) \<Longrightarrow> sort_key f (map g xs) = map g (sort_key f xs)"
  by (induction xs) (simp_all add: insort_key_same)

lemma compact_simps:
  "map rePosition (compactQueuePositions es) = map int [0..<length es]"
  "map reId (compactQueuePositions es) = map reId (sort_key rePosition es)"
  "map reName (compactQueuePositions es) = map reName (sort_key rePosition es)"
  by (auto simp: compactQueuePositions_def Let_def intro!: nth_equalityI)

lemma compact_length [simp]: "length (compactQueuePositions es) = length es"
  by (simp add: compactQueuePositions_def Let_def)

lemma compact_positions: "positions_ok (compactQueuePositions es)"
  by (simp add: positions_ok_def compact_simps distinct_map inj_on_def del: set_map) auto

lemma entries_ok_alt:
  "entries_ok es \<longleftrightarrow> list_all isValidQueueId (map reId es) \<and> list_all isValidQueueName (map reName es) \<and>
     distinct (map reId es) \<and> distinct (map queueNameKey (map reName es))"
  by (auto simp: entries_ok_def list_all_iff)

lemma compact_entries: "entries_ok es \<Longrightarrow> entries_ok (compactQueuePositions es)"
  unfolding entries_ok_alt compact_simps
  by (simp add: list_all_iff distinct_map del: map_map)

lemma compact_order: "map reId (sort_key rePosition (compactQueuePositions es)) = map reId (sort_key rePosition es)"
proof -
  have "sort_key rePosition (compactQueuePositions es) = compactQueuePositions es"
    by (rule sort_key_unique) (auto simp: compact_simps distinct_map inj_on_def sorted_map sorted_wrt_upt intro: sorted_wrt_mono_rel [OF _ sorted_wrt_upt])
  then show ?thesis by (simp add: compact_simps)
qed

lemma filter_entries: "entries_ok es \<Longrightarrow> entries_ok (filter P es)"
  by (auto simp: entries_ok_def distinct_map_filter)

subsection \<open>Operations\<close>

datatype RegistryOp = OpCreate string string | OpRename string string | OpRemove string | OpSchedule string "QueueSchedule option"

fun applyOp :: "int \<Rightarrow> QueueRegistry \<Rightarrow> RegistryOp \<Rightarrow> QueueRegistryError + QueueRegistry" where
  "applyOp now r (OpCreate i name) = createQueue r i name now"
| "applyOp now r (OpRename i name) = renameQueue r i name now"
| "applyOp now r (OpRemove i) = removeQueueEntry r i now"
| "applyOp now r (OpSchedule i s) = setQueueSchedule r i s now"

text \<open>What an operation does to the list of queue ids.\<close>

fun orderAfter :: "RegistryOp \<Rightarrow> string list \<Rightarrow> string list" where
  "orderAfter (OpCreate i name) ids = ids @ [i]"
| "orderAfter (OpRemove i) ids = filter (\<lambda>j. j \<noteq> i) ids"
| "orderAfter op ids = ids"

fun freshFor :: "RegistryOp \<Rightarrow> QueueRegistry \<Rightarrow> bool" where
  "freshFor (OpCreate i name) r \<longleftrightarrow> i \<notin> set (queueOrder r)"
| "freshFor op r \<longleftrightarrow> True"

lemma queueOrder_set [simp]: "set (queueOrder r) = set (map reId (rgEntries r))"
  by (simp add: queueOrder_def)

lemma create_valid:
  assumes v: "validateQueueRegistry r = Inr ()" and c: "createQueue r i name now = Inr r'" and i: "i \<notin> set (queueOrder r)"
  shows "validateQueueRegistry r' = Inr () \<and> queueOrder r' = queueOrder r @ [i]"
proof -
  obtain e where r': "rgEntries r' = rgEntries r @ [e]" and e: "reId e = i" "reName e = js_trim name" "rePosition e = int (length (rgEntries r))"
    and g: "isValidQueueName name" "isValidQueueId i" "length (rgEntries r) < MAX_QUEUES"
      "\<forall>x \<in> set (rgEntries r). queueNameKey (reName x) \<noteq> queueNameKey name"
    using c by (auto simp: createQueue_def Let_def list_ex_iff split: if_splits)
  have p: "positions_ok (rgEntries r)" and n: "entries_ok (rgEntries r)" and d: "DEFAULT_QUEUE_ID \<in> set (map reId (rgEntries r))"
    using v by (simp_all add: registry_valid_iff)
  have p': "positions_ok (rgEntries r')" unfolding r' by (rule positions_append [OF p e(3)])
  moreover have "entries_ok (rgEntries r')" using n g e i by (auto simp: r' entries_ok_def)
  ultimately have "validateQueueRegistry r' = Inr ()" using d g(3) by (auto simp: registry_valid_iff r')
  moreover have "sort_key rePosition (rgEntries r') = sort_key rePosition (rgEntries r) @ [e]" unfolding r'
  proof (rule sort_append_last)
    show "distinct (map rePosition (rgEntries r @ [e]))" using p' by (simp add: positions_ok_def r')
    show "rePosition x \<le> rePosition e" if "x \<in> set (rgEntries r)" for x
    proof -
      have "rePosition x \<in> int ` {0..<length (rgEntries r)}" using p that by (auto simp: positions_ok_def)
      then show ?thesis by (auto simp: e)
    qed
  qed
  ultimately show ?thesis by (simp add: queueOrder_def e)
qed

lemma update_valid:
  assumes v: "validateQueueRegistry r = Inr ()" and r': "rgEntries r' = map g (rgEntries r)"
    and g: "\<And>e. reId (g e) = reId e" "\<And>e. rePosition (g e) = rePosition e" and n: "entries_ok (map g (rgEntries r))"
  shows "validateQueueRegistry r' = Inr () \<and> queueOrder r' = queueOrder r"
proof -
  have "positions_ok (map g (rgEntries r))" using v g by (simp add: registry_valid_iff positions_ok_def comp_def)
  then have "validateQueueRegistry r' = Inr ()" using v g n by (auto simp: registry_valid_iff r')
  moreover have "queueOrder r' = queueOrder r" using g by (simp add: queueOrder_def r' sort_key_same)
  ultimately show ?thesis ..
qed

lemma remove_valid:
  assumes v: "validateQueueRegistry r = Inr ()" and c: "removeQueueEntry r i now = Inr r'"
  shows "validateQueueRegistry r' = Inr () \<and> queueOrder r' = filter (\<lambda>j. j \<noteq> i) (queueOrder r)"
proof -
  let ?es = "filter (\<lambda>e. reId e \<noteq> i) (rgEntries r)"
  have r': "rgEntries r' = compactQueuePositions ?es" and i: "i \<noteq> DEFAULT_QUEUE_ID"
    using c by (auto simp: removeQueueEntry_def split: if_splits)
  have "map reId (rgEntries r') = map reId (sort_key rePosition ?es)" by (simp add: r' compact_simps)
  then have ids: "set (map reId (rgEntries r')) = set (map reId ?es)" by (metis set_map set_sort)
  have "length ?es \<le> length (rgEntries r)" by simp
  then have "length ?es \<le> MAX_QUEUES" using v unfolding registry_valid_iff by linarith
  then have "validateQueueRegistry r' = Inr ()"
    using v i compact_positions compact_entries [OF filter_entries] ids unfolding registry_valid_iff by (auto simp: r')
  moreover have "queueOrder r' = filter (\<lambda>j. j \<noteq> i) (queueOrder r)"
    by (simp add: queueOrder_def r' compact_order filter_sort [symmetric] filter_map comp_def)
  ultimately show ?thesis ..
qed

text \<open>
  C33. Every operation the registry accepts keeps it valid (the reserved queue present, at most twenty
  queues, unique ids and names, positions dense from zero), given that a created queue has a new id, and
  acts on the order of queues as the operation on the list of ids that its name says.
\<close>
theorem registry_stays_valid:
  assumes v: "validateQueueRegistry r = Inr ()" and a: "applyOp now r op = Inr r'" and f: "freshFor op r"
  shows "validateQueueRegistry r' = Inr () \<and> queueOrder r' = orderAfter op (queueOrder r)"
proof (cases op)
  case (OpCreate i name)
  then show ?thesis using create_valid [OF v] a f by simp
next
  case (OpRename i name)
  let ?g = "\<lambda>e. if reId e = i then e\<lparr>reName := js_trim name, reUpdatedAt := now\<rparr> else e"
  have r': "rgEntries r' = map ?g (rgEntries r)" and nm: "isValidQueueName name"
    "\<forall>e \<in> set (rgEntries r). reId e \<noteq> i \<longrightarrow> queueNameKey (reName e) \<noteq> queueNameKey name"
    using a OpRename by (auto simp: renameQueue_def Let_def list_ex_iff split: if_splits)
  have n: "entries_ok (rgEntries r)" using v by (simp add: registry_valid_iff)
  have "entries_ok (map ?g (rgEntries r))"
    using n nm by (auto simp: entries_ok_def distinct_map inj_on_def comp_def)
  from update_valid [OF v r' _ _ this] show ?thesis using OpRename by simp
next
  case (OpRemove i)
  then show ?thesis using remove_valid [OF v] a by simp
next
  case (OpSchedule i s)
  let ?g = "\<lambda>e. if reId e = i then e\<lparr>reSchedule := s, reUpdatedAt := now\<rparr> else e"
  have r': "rgEntries r' = map ?g (rgEntries r)"
    using a OpSchedule by (auto simp: setQueueSchedule_def split: if_splits)
  have "entries_ok (rgEntries r)" using v by (simp add: registry_valid_iff)
  then have "entries_ok (map ?g (rgEntries r))"
    by (auto simp: entries_ok_def distinct_map inj_on_def comp_def)
  from update_valid [OF v r' _ _ this] show ?thesis using OpSchedule by simp
qed

lemma registry_stays_valid_witness:
  "\<exists>r'. applyOp 2 (makeDefaultRegistry 1) (OpCreate ''0a0a0a0a-0000-4000-8000-00000000000B'' '' Nightly '') = Inr r' \<and>
     validateQueueRegistry r' = Inr () \<and> queueOrder r' = [''default'', ''0a0a0a0a-0000-4000-8000-00000000000B'']"
proof -
  let ?op = "OpCreate ''0a0a0a0a-0000-4000-8000-00000000000B'' '' Nightly ''"
  have "applyOp 2 (makeDefaultRegistry 1) ?op \<noteq> Inl e" for e by (cases e) code_simp+
  then obtain r' where a: "applyOp 2 (makeDefaultRegistry 1) ?op = Inr r'" by (cases "applyOp 2 (makeDefaultRegistry 1) ?op") auto
  have f: "freshFor ?op (makeDefaultRegistry 1)" by code_simp
  have "queueOrder (makeDefaultRegistry 1) = [''default'']" by code_simp
  with registry_stays_valid [OF default_valid a f] a show ?thesis by simp
qed

subsection \<open>Deletion\<close>

definition quietQueue :: "int \<Rightarrow> RegistryStore \<Rightarrow> string \<Rightarrow> bool" where
  "quietQueue now st q \<longleftrightarrow>
     list_all (\<lambda>r. frStatus r \<noteq> StInFlight \<and> frStatus r \<noteq> StPaused) (qRequests (getQueue now (stQueues st) q)) \<and>
     (case getRun (stRuns st) q of None \<Rightarrow> True | Some run \<Rightarrow> runStatus run \<noteq> Running \<and> runStatus run \<noteq> Paused)"

lemma fromRegistry_Inr [err_simps]: "fromRegistry r = Inr a \<longleftrightarrow> r = Inr a"
  by (cases r) (auto simp: fromRegistry_def)

lemma pending_sorted:
  "length (filter P (sort_key frPosition rs)) = length (filter P rs)"
  by (metis length_sort filter_sort)

lemma impact_Deletable:
  assumes "q \<in> set (queueOrder r)"
  shows "queueDeletionImpact q r (getRun (stRuns st) q) (deletionView now st r q) bound = Deletable n ids \<longleftrightarrow>
     q \<noteq> DEFAULT_QUEUE_ID \<and> quietQueue now st q \<and>
     n = length (filter (\<lambda>r. frStatus r = StPending) (qRequests (getQueue now (stQueues st) q))) \<and>
     ids = sort (map cbRunId (filter (\<lambda>c. resolveBoundQueueId c = q) bound))"
  using assms unfolding queueDeletionImpact_def deletionView_def findQueue_None quietQueue_def
  by (auto simp: list_ex_iff list_all_iff pending_sorted split: option.split)

lemma impact_unknown:
  "q \<notin> set (queueOrder r) \<Longrightarrow> queueDeletionImpact q r run reqs bound \<noteq> Deletable n ids"
  by (auto simp: queueDeletionImpact_def findQueue_None)

lemma impact_refused:
  assumes "q = DEFAULT_QUEUE_ID \<or> q \<notin> set (queueOrder r) \<or> \<not> quietQueue now st q"
  shows "\<exists>why. queueDeletionImpact q r (getRun (stRuns st) q) (deletionView now st r q) bound = ImpactRefused why"
  using assms impact_Deletable [of q r st now bound] impact_unknown
  by (cases "queueDeletionImpact q r (getRun (stRuns st) q) (deletionView now st r q) bound") blast+

lemma deleteConnectedRuns_bound:
  fixes q :: string
  assumes "distinct (map cbRunId (stConnected st))"
  defines "bound \<equiv> filter (\<lambda>c. resolveBoundQueueId c = q) (stConnected st)"
  shows "deleteConnectedRuns stored (sort (map cbRunId bound)) st =
    (if bound = [] then (Some 0, st) else if \<not> stored then (None, st)
     else (Some (length bound), st\<lparr>stConnected := filter (\<lambda>c. resolveBoundQueueId c \<noteq> q) (stConnected st)\<rparr>))"
proof -
  have f: "filter (\<lambda>c. cbRunId c \<notin> set (sort (map cbRunId bound))) (stConnected st) = filter (\<lambda>c. resolveBoundQueueId c \<noteq> q) (stConnected st)"
    using assms(1) unfolding bound_def by (intro filter_cong) (auto simp: distinct_map inj_on_def)
  have l: "length (stConnected st) - length (filter (\<lambda>c. resolveBoundQueueId c \<noteq> q) (stConnected st)) = length bound"
    using sum_length_filter_compl [of "\<lambda>c. resolveBoundQueueId c = q" "stConnected st"] unfolding bound_def by simp
  show ?thesis unfolding deleteConnectedRuns_def Let_def f l by (cases bound) (simp_all add: sort_key_def)
qed

text \<open>
  C34. A deletion takes the queue when no fence refuses it and the queue is known, not the reserved one
  and quiet: no task of it in flight or paused and no Run of it running or paused.  When it is not taken,
  or the registry cannot be stored, nothing is written and the deletion is reported as refused.  Once the
  registry is stored it stays valid and the queue is gone from the order.  If the queue map cannot be
  stored after it, the queue's record is left behind as an orphan, nothing else changes and the deletion
  is reported as failed.  Otherwise the record is gone, and with it the connected runs bound to the queue
  unless their removal fails, which is not reported; no other queue and no Run changes.
\<close>
theorem delete_queue_exact:
  assumes "managerDeleteQueue env w st q = (res, st')"
    and "getQueueRegistry (clock env) (stRegistry st) = Inr r" and "distinct (map cbRunId (stConnected st))"
  shows "if commitRefusal env [q] = None \<and> q \<noteq> DEFAULT_QUEUE_ID \<and> q \<in> set (queueOrder r) \<and> quietQueue (clock env) st q \<and>
       registryStored w
     then \<exists>r'. stRegistry st' = Some r' \<and> validateQueueRegistry r' = Inr () \<and>
       queueOrder r' = filter (\<lambda>j. j \<noteq> q) (queueOrder r) \<and>
       (if queuesStored w
        then map_of (stQueues st') = (map_of (stQueues st))(q := None) \<and> stRuns st' = stRuns st \<and>
          stConnected st' = (if connectedStored w then filter (\<lambda>c. resolveBoundQueueId c \<noteq> q) (stConnected st) else stConnected st) \<and>
          res = Deleted (length (filter (\<lambda>r. frStatus r = StPending) (qRequests (getQueue (clock env) (stQueues st) q))))
            (if connectedStored w then length (filter (\<lambda>c. resolveBoundQueueId c = q) (stConnected st)) else 0)
        else st' = st\<lparr>stRegistry := Some r'\<rparr> \<and> res = NotDeleted (Inl StorageFailure))
     else st' = st \<and> (\<exists>why. res = NotDeleted why)"
proof -
  let ?impact = "queueDeletionImpact q r (getRun (stRuns st) q) (deletionView (clock env) st r q) (stConnected st)"
  let ?taken = "commitRefusal env [q] = None \<and> q \<noteq> DEFAULT_QUEUE_ID \<and> q \<in> set (queueOrder r) \<and> quietQueue (clock env) st q"
  have v: "validateQueueRegistry r = Inr ()" using assms(2) unfolding getQueueRegistry_Inr by blast
  show ?thesis
  proof (cases ?taken)
    case False
    have "st' = st \<and> (\<exists>why. res = NotDeleted why)"
    proof (cases "commitRefusal env [q]")
      case None
      then obtain why where "?impact = ImpactRefused why" using False impact_refused [of q r "clock env" st "stConnected st"] by blast
      then show ?thesis using assms(1) None by (auto simp: managerDeleteQueue_def deleteQueueIfNoLiveRun_def assms(2))
    qed (use assms(1) in \<open>auto simp: managerDeleteQueue_def deleteQueueIfNoLiveRun_def\<close>)
    then show ?thesis using False by auto
  next
    case True
    define n where "n = length (filter (\<lambda>r. frStatus r = StPending) (qRequests (getQueue (clock env) (stQueues st) q)))"
    define ids where "ids = sort (map cbRunId (filter (\<lambda>c. resolveBoundQueueId c = q) (stConnected st)))"
    have d: "?impact = Deletable n ids" using True impact_Deletable [of q r] n_def ids_def by blast
    obtain r2 where r2: "removeQueueEntry r q (clock env) = Inr r2"
      using True by (auto simp: removeQueueEntry_def findQueue_None Let_def)
    note valid = remove_valid [OF v r2]
    have m: "managerDeleteQueue env w st q =
       (if \<not> registryStored w then (NotDeleted (Inl StorageFailure), st)
        else if \<not> queuesStored w then (NotDeleted (Inl StorageFailure), st\<lparr>stRegistry := Some r2\<rparr>)
        else case deleteConnectedRuns (connectedStored w) ids (st\<lparr>stRegistry := Some r2, stQueues := AList.delete q (stQueues st)\<rparr>) of
          (terminated, st2) \<Rightarrow> (Deleted n (case terminated of Some k \<Rightarrow> k | None \<Rightarrow> 0), st2))"
      using True valid by (simp add: managerDeleteQueue_def deleteQueueIfNoLiveRun_def assms(2) d r2 Let_def)
    have b: "deleteConnectedRuns stored ids (st\<lparr>stRegistry := Some r2, stQueues := AList.delete q (stQueues st)\<rparr>) =
      (if filter (\<lambda>c. resolveBoundQueueId c = q) (stConnected st) = [] then (Some 0, st\<lparr>stRegistry := Some r2, stQueues := AList.delete q (stQueues st)\<rparr>)
       else if \<not> stored then (None, st\<lparr>stRegistry := Some r2, stQueues := AList.delete q (stQueues st)\<rparr>)
       else (Some (length (filter (\<lambda>c. resolveBoundQueueId c = q) (stConnected st))),
         st\<lparr>stRegistry := Some r2, stQueues := AList.delete q (stQueues st), stConnected := filter (\<lambda>c. resolveBoundQueueId c \<noteq> q) (stConnected st)\<rparr>))" for stored
      using deleteConnectedRuns_bound [of "st\<lparr>stRegistry := Some r2, stQueues := AList.delete q (stQueues st)\<rparr>" stored q] assms(3)
      by (simp add: ids_def)
    have none: "filter (\<lambda>c. resolveBoundQueueId c \<noteq> q) (stConnected st) = stConnected st"
      if "filter (\<lambda>c. resolveBoundQueueId c = q) (stConnected st) = []"
      using that by (auto simp: filter_empty_conv intro!: filter_True)
    show ?thesis
      using assms(1) True valid none unfolding m b n_def [symmetric] by (auto simp: delete_conv' split: if_splits)
  qed
qed

definition twoQueues :: RegistryStore where
  "twoQueues = \<lparr>stRegistry = Some \<lparr>rgEntries = [\<lparr>reId = ''0a0a0a0a-0000-4000-8000-00000000000B'', reName = ''Nightly'', rePosition = 0,
       reSchedule = None, reCreatedAt = 1, reUpdatedAt = 1\<rparr>, \<lparr>reId = ''default'', reName = ''Default queue'', rePosition = 1,
       reSchedule = None, reCreatedAt = 0, reUpdatedAt = 0\<rparr>], rgUpdatedAt = 1\<rparr>,
     stQueues = [(''0a0a0a0a-0000-4000-8000-00000000000B'', persist (bornEmptyQueue 1))], stRuns = [],
     stConnected = [\<lparr>cbRunId = ''c1'', cbQueueId = Some ''0a0a0a0a-0000-4000-8000-00000000000B''\<rparr>, \<lparr>cbRunId = ''c2'', cbQueueId = None\<rparr>],
     stNotice = None, stDefaultId = None, stCap = 1\<rparr>"

definition quietEnv :: StoreEnv where
  "quietEnv = \<lparr>verifyFence = (\<lambda>r o' f. FenceValid), tenureLost = (\<lambda>q. False), claimFor = (\<lambda>q. None),
     knownQueue = (\<lambda>q. True), primacyHeld = True, clock = 9\<rparr>"

definition storedWrites :: DeletionWrites where
  "storedWrites = \<lparr>registryStored = True, queuesStored = True, connectedStored = True\<rparr>"

text \<open>The deletion with every write stored, and the orphan record it leaves when the second write fails.\<close>

lemma delete_queue_exact_witness:
  "\<exists>st1 r1 st2 r2. managerDeleteQueue quietEnv storedWrites twoQueues ''0a0a0a0a-0000-4000-8000-00000000000B'' = (Deleted 0 1, st1) \<and>
     stRegistry st1 = Some r1 \<and> queueOrder r1 = [''default''] \<and> stConnected st1 = [\<lparr>cbRunId = ''c2'', cbQueueId = None\<rparr>] \<and>
     managerDeleteQueue quietEnv (storedWrites\<lparr>queuesStored := False\<rparr>) twoQueues ''0a0a0a0a-0000-4000-8000-00000000000B''
       = (NotDeleted (Inl StorageFailure), st2) \<and>
     stRegistry st2 = Some r2 \<and> queueOrder r2 = [''default''] \<and> map fst (stQueues st2) = [''0a0a0a0a-0000-4000-8000-00000000000B'']"
proof -
  let ?q = "''0a0a0a0a-0000-4000-8000-00000000000B''"
  define r where "r = the (stRegistry twoQueues)"
  have r: "getQueueRegistry (clock quietEnv) (stRegistry twoQueues) = Inr r" unfolding r_def by code_simp
  have d: "distinct (map cbRunId (stConnected twoQueues))" by code_simp
  have c: "commitRefusal quietEnv [?q] = None \<and> ?q \<noteq> DEFAULT_QUEUE_ID \<and> ?q \<in> set (queueOrder r) \<and> quietQueue (clock quietEnv) twoQueues ?q"
    unfolding r_def by code_simp
  have o': "filter (\<lambda>j. j \<noteq> ?q) (queueOrder r) = [''default'']" unfolding r_def by code_simp
  have b: "filter (\<lambda>c. resolveBoundQueueId c \<noteq> ?q) (stConnected twoQueues) = [\<lparr>cbRunId = ''c2'', cbQueueId = None\<rparr>]"
    "length (filter (\<lambda>c. resolveBoundQueueId c = ?q) (stConnected twoQueues)) = 1"
    "length (filter (\<lambda>r. frStatus r = StPending) (qRequests (getQueue (clock quietEnv) (stQueues twoQueues) ?q))) = 0"
    "map fst (stQueues twoQueues) = [?q]" by code_simp+
  obtain res1 st1 where m1: "managerDeleteQueue quietEnv storedWrites twoQueues ?q = (res1, st1)" by fastforce
  obtain res2 st2 where m2: "managerDeleteQueue quietEnv (storedWrites\<lparr>queuesStored := False\<rparr>) twoQueues ?q = (res2, st2)" by fastforce
  show ?thesis
    using delete_queue_exact [OF m1 r d] delete_queue_exact [OF m2 r d] m1 m2 c o' b by (auto simp: storedWrites_def)
qed

end
