(* ===== verification/WorkflowGraph.thy ===== *)
theory WorkflowGraph
  imports Prelude
begin

text \<open>
  \<open>src/config/workflow-graph.ts\<close>: Kahn's order with its residual, the multi-source breadth-first search and
  the ancestor sets, each with its loop over a worklist, and what they compute in terms of the relation
  spanned by the retained edges.  Maps keyed by node are functions and sets are lists.
\<close>

type_synonym NodeId = string

record WorkflowGraphEdge =
  edgeFrom :: NodeId
  edgeTo :: NodeId

subsection \<open>Adjacency\<close>

definition buildAdjacency :: "NodeId list \<Rightarrow> WorkflowGraphEdge list \<Rightarrow> NodeId \<Rightarrow> NodeId list" where
  "buildAdjacency nodeIds edges n =
     (if n \<in> set nodeIds
      then map edgeTo (filter (\<lambda>e. edgeFrom e \<in> set nodeIds \<and> edgeTo e \<in> set nodeIds \<and> edgeFrom e = n) edges)
      else [])"

text \<open>The retained edges as a relation.\<close>

definition retained :: "NodeId list \<Rightarrow> WorkflowGraphEdge list \<Rightarrow> (NodeId \<times> NodeId) set" where
  "retained nodeIds edges = {(u, v). v \<in> set (buildAdjacency nodeIds edges u)}"

lemma retained_iff: "(u, v) \<in> retained ns es \<longleftrightarrow> (\<exists>e \<in> set es. edgeFrom e = u \<and> edgeTo e = v) \<and> u \<in> set ns \<and> v \<in> set ns"
  by (auto simp: retained_def buildAdjacency_def)

lemma retained_nodes: "(u, v) \<in> retained ns es \<Longrightarrow> u \<in> set ns \<and> v \<in> set ns"
  by (simp add: retained_iff)

lemma adjacency_nodes: "v \<in> set (buildAdjacency ns es u) \<Longrightarrow> v \<in> set ns"
  by (auto simp: buildAdjacency_def split: if_splits)

subsection \<open>Kahn's order\<close>

text \<open>Taking the edges of one node away: the degrees left and the nodes that become ready, in edge order.\<close>

fun decrement :: "NodeId list \<Rightarrow> (NodeId \<Rightarrow> int) \<Rightarrow> (NodeId \<Rightarrow> int) \<times> NodeId list" where
  "decrement [] inDegree = (inDegree, [])"
| "decrement (target # targets) inDegree =
     (let remaining = inDegree target - 1;
          (degrees, ready) = decrement targets (inDegree(target := remaining))
      in (degrees, if remaining = 0 then target # ready else ready))"

definition inDegrees :: "NodeId list \<Rightarrow> WorkflowGraphEdge list \<Rightarrow> NodeId \<Rightarrow> int" where
  "inDegrees nodeIds edges =
     fold (\<lambda>n deg. fold (\<lambda>target d. d(target := d target + 1)) (buildAdjacency nodeIds edges n) deg) (remdups nodeIds) (\<lambda>n. 0)"

lemma decrement_Cons:
  "fst (decrement (t # ts) deg) = fst (decrement ts (deg(t := deg t - 1)))"
  "snd (decrement (t # ts) deg) = (if deg t = 1 then t # snd (decrement ts (deg(t := 0))) else snd (decrement ts (deg(t := deg t - 1))))"
  by (simp_all add: Let_def case_prod_beta)

lemma decrement_degrees: "fst (decrement ts deg) v = deg v - int (count_list ts v)"
  by (induction ts arbitrary: deg) (simp_all add: decrement_Cons del: decrement.simps(2))

lemma decrement_ready: "v \<in> set (snd (decrement ts deg)) \<longleftrightarrow> 0 < deg v \<and> deg v \<le> int (count_list ts v)"
proof (induction ts arbitrary: deg)
  case (Cons t ts)
  show ?case unfolding decrement_Cons by (auto simp: Cons.IH)
qed simp

lemma decrement_distinct: "distinct (snd (decrement ts deg))"
proof (induction ts arbitrary: deg)
  case (Cons t ts)
  then show ?case unfolding decrement_Cons by (simp add: decrement_ready)
qed simp

lemma ready_measure:
  assumes "set ts \<subseteq> set ns"
  shows "length (snd (decrement ts deg)) + card {v \<in> set ns. 0 < fst (decrement ts deg) v} \<le> card {v \<in> set ns. 0 < deg v}"
proof -
  let ?r = "set (snd (decrement ts deg))" and ?d = "fst (decrement ts deg)"
  have c: "v \<in> set ns" if "0 < count_list ts v" for v
    using assms that by (metis count_notin less_irrefl subsetD)
  have r: "?r \<subseteq> {v \<in> set ns. 0 < deg v}" using c by (force simp: decrement_ready)
  have dj: "?r \<inter> {v \<in> set ns. 0 < ?d v} = {}" by (auto simp: decrement_ready decrement_degrees)
  have "?r \<union> {v \<in> set ns. 0 < ?d v} \<subseteq> {v \<in> set ns. 0 < deg v}" using r by (auto simp: decrement_degrees)
  then have "card (?r \<union> {v \<in> set ns. 0 < ?d v}) \<le> card {v \<in> set ns. 0 < deg v}" by (intro card_mono) auto
  moreover have "card (?r \<union> {v \<in> set ns. 0 < ?d v}) = length (snd (decrement ts deg)) + card {v \<in> set ns. 0 < ?d v}"
    using dj by (simp add: card_Un_disjoint distinct_card decrement_distinct)
  ultimately show ?thesis by simp
qed

text \<open>The loop over the ready queue; what the queue holds before the cursor is the order so far.\<close>

function kahn :: "NodeId list \<Rightarrow> WorkflowGraphEdge list \<Rightarrow> NodeId list \<Rightarrow> (NodeId \<Rightarrow> int) \<Rightarrow> NodeId list" where
  "kahn nodeIds edges [] inDegree = []"
| "kahn nodeIds edges (n # queue) inDegree =
     n # kahn nodeIds edges (queue @ snd (decrement (buildAdjacency nodeIds edges n) inDegree))
           (fst (decrement (buildAdjacency nodeIds edges n) inDegree))"
  by pat_completeness auto

termination
proof (relation "measure (\<lambda>(ns, es, q, deg). length q + card {v \<in> set ns. 0 < deg v})")
  show "((ns, es, q @ snd (decrement (buildAdjacency ns es n) deg), fst (decrement (buildAdjacency ns es n) deg)), ns, es, n # q, deg)
      \<in> measure (\<lambda>(ns, es, q, deg). length q + card {v \<in> set ns. 0 < deg v})" for ns es n q deg
    using ready_measure [of "buildAdjacency ns es n" ns deg] adjacency_nodes by (auto simp: subset_iff)
qed simp

record TopologicalOrderResult =
  tOrder :: "NodeId list"
  tResidual :: "NodeId list"

definition topologicalOrder :: "NodeId list \<Rightarrow> WorkflowGraphEdge list \<Rightarrow> TopologicalOrderResult" where
  "topologicalOrder nodeIds edges =
     (let inDegree = inDegrees nodeIds edges;
          order = kahn nodeIds edges (filter (\<lambda>n. inDegree n = 0) nodeIds) inDegree
      in \<lparr>tOrder = order, tResidual = filter (\<lambda>n. n \<notin> set order) nodeIds\<rparr>)"

subsection \<open>The invariant of the loop\<close>

text \<open>Edges into a node from nodes outside a list, counted with their multiplicity.\<close>

definition openEdges :: "NodeId list \<Rightarrow> WorkflowGraphEdge list \<Rightarrow> NodeId list \<Rightarrow> NodeId \<Rightarrow> int" where
  "openEdges ns es finished v = int (length (filter (\<lambda>e. edgeFrom e \<in> set ns \<and> edgeTo e = v \<and> v \<in> set ns \<and> edgeFrom e \<notin> set finished) es))"

definition kahn_inv :: "NodeId list \<Rightarrow> WorkflowGraphEdge list \<Rightarrow> NodeId list \<Rightarrow> NodeId list \<Rightarrow> (NodeId \<Rightarrow> int) \<Rightarrow> bool" where
  "kahn_inv ns es finished q deg \<longleftrightarrow> distinct (finished @ q) \<and> set (finished @ q) \<subseteq> set ns \<and>
     (\<forall>v \<in> set ns. deg v = openEdges ns es finished v) \<and> (\<forall>v \<in> set ns. v \<in> set (finished @ q) \<longleftrightarrow> deg v = 0)"

lemma openEdges_0: "openEdges ns es finished v = 0 \<longleftrightarrow> (\<forall>u. (u, v) \<in> retained ns es \<longrightarrow> u \<in> set finished)"
  by (auto simp: openEdges_def filter_empty_conv retained_iff)

lemma count_adjacency:
  assumes "n \<in> set ns" "v \<in> set ns"
  shows "count_list (buildAdjacency ns es n) v = length (filter (\<lambda>e. edgeFrom e = n \<and> edgeTo e = v) es)"
  using assms by (induction es) (auto simp: buildAdjacency_def)

lemma openEdges_step:
  assumes "n \<in> set ns" "v \<in> set ns" "n \<notin> set finished"
  shows "openEdges ns es (finished @ [n]) v = openEdges ns es finished v - int (count_list (buildAdjacency ns es n) v)"
  unfolding count_adjacency [OF assms(1,2)] openEdges_def using assms by (induction es) auto

lemma openEdges_nonneg: "0 \<le> openEdges ns es finished v"
  by (simp add: openEdges_def)

lemma kahn_inv_step:
  assumes i: "kahn_inv ns es finished (n # q) deg"
  defines "d \<equiv> decrement (buildAdjacency ns es n) deg"
  shows "kahn_inv ns es (finished @ [n]) (q @ snd d) (fst d)"
proof -
  have n: "n \<in> set ns" "n \<notin> set finished" "deg n = 0" using i by (auto simp: kahn_inv_def)
  have deg: "fst d v = openEdges ns es (finished @ [n]) v" if "v \<in> set ns" for v
    using i that n openEdges_step [OF n(1) that n(2)] by (simp add: kahn_inv_def d_def decrement_degrees)
  have ready: "v \<in> set (snd d) \<longleftrightarrow> 0 < deg v \<and> fst d v = 0" if "v \<in> set ns" for v
    using deg [OF that] openEdges_nonneg [of ns es "finished @ [n]" v] by (auto simp: d_def decrement_ready decrement_degrees)
  have sub: "set (snd d) \<subseteq> set ns"
    by (auto simp: d_def decrement_ready) (metis adjacency_nodes count_notin less_le_not_le of_nat_0)
  have old: "v \<in> set (finished @ n # q) \<longleftrightarrow> deg v = 0" "0 \<le> deg v" if "v \<in> set ns" for v
    using i that openEdges_nonneg [of ns es finished v] by (auto simp: kahn_inv_def)
  have new: "set (snd d) \<inter> set (finished @ n # q) = {}" using ready sub old by fastforce
  have "fst d v \<le> deg v" for v by (simp add: d_def decrement_degrees)
  then have "v \<in> set (finished @ n # q) \<or> v \<in> set (snd d) \<longleftrightarrow> fst d v = 0" if "v \<in> set ns" for v
    using ready [OF that] old [OF that] deg [OF that] openEdges_nonneg [of ns es "finished @ [n]" v] by (metis antisym order.not_eq_order_implies_strict)
  then show ?thesis using i deg sub new decrement_distinct by (auto simp: kahn_inv_def d_def)
qed

text \<open>The degrees counted before the loop.\<close>

lemma fold_degrees: "fold (\<lambda>t d. d(t := d t + (1::int))) ts deg v = deg v + int (count_list ts v)"
  by (induction ts arbitrary: deg) auto

lemma fold_nodes:
  "fold (\<lambda>n deg. fold (\<lambda>t d. d(t := d t + (1::int))) (adj n) deg) ms deg v = deg v + (\<Sum>n\<leftarrow>ms. int (count_list (adj n) v))"
  by (induction ms arbitrary: deg) (simp_all add: fold_degrees)

lemma sum_by_source:
  assumes "distinct ms"
  shows "(\<Sum>n\<leftarrow>ms. int (length (filter (\<lambda>e. edgeFrom e = n \<and> edgeTo e = v) es))) = int (length (filter (\<lambda>e. edgeFrom e \<in> set ms \<and> edgeTo e = v) es))"
  using assms
proof (induction ms)
  case (Cons m ms)
  have "length (filter (\<lambda>e. edgeFrom e \<in> set (m # ms) \<and> edgeTo e = v) es) =
      length (filter (\<lambda>e. edgeFrom e = m \<and> edgeTo e = v) es) + length (filter (\<lambda>e. edgeFrom e \<in> set ms \<and> edgeTo e = v) es)"
    using Cons.prems by (induction es) auto
  then show ?case using Cons by simp
qed simp

lemma inDegrees_open: "v \<in> set ns \<Longrightarrow> inDegrees ns es v = openEdges ns es [] v"
proof -
  assume v: "v \<in> set ns"
  have "(\<Sum>n\<leftarrow>remdups ns. int (count_list (buildAdjacency ns es n) v)) = (\<Sum>n\<leftarrow>remdups ns. int (length (filter (\<lambda>e. edgeFrom e = n \<and> edgeTo e = v) es)))"
    using count_adjacency v by (intro arg_cong [of _ _ sum_list] map_cong) auto
  then show ?thesis using v by (simp add: inDegrees_def fold_nodes sum_by_source openEdges_def)
qed

lemma kahn_inv_start:
  assumes "distinct ns"
  shows "kahn_inv ns es [] (filter (\<lambda>n. inDegrees ns es n = 0) ns) (inDegrees ns es)"
  using assms by (simp add: kahn_inv_def inDegrees_open)

lemma kahn_result:
  "kahn_inv ns es finished q deg \<Longrightarrow> distinct (finished @ kahn ns es q deg) \<and> set (kahn ns es q deg) \<subseteq> set ns \<and>
     (\<forall>v \<in> set ns. (\<forall>u. (u, v) \<in> retained ns es \<longrightarrow> u \<in> set (finished @ kahn ns es q deg)) \<longrightarrow> v \<in> set (finished @ kahn ns es q deg)) \<and>
     (\<forall>xs v ys. kahn ns es q deg = xs @ v # ys \<longrightarrow> (\<forall>u. (u, v) \<in> retained ns es \<longrightarrow> u \<in> set (finished @ xs)))"
proof (induction ns es q deg arbitrary: finished rule: kahn.induct)
  case (1 ns es deg)
  then show ?case using openEdges_0 by (auto simp: kahn_inv_def)
next
  case (2 ns es n q deg)
  note ih = "2.IH" [OF kahn_inv_step [OF "2.prems"]]
  have n: "n \<in> set ns" "openEdges ns es finished n = 0" using "2.prems" by (auto simp: kahn_inv_def)
  have pre: "u \<in> set (finished @ xs)" if "kahn ns es (n # q) deg = xs @ v # ys" "(u, v) \<in> retained ns es" for xs v ys u
  proof (cases xs)
    case Nil
    then show ?thesis using that n openEdges_0 by auto
  next
    case (Cons x xs')
    then show ?thesis using that ih by fastforce
  qed
  show ?case using ih n(1) pre by (auto 0 3)
qed

subsection \<open>What the order and the residual are\<close>

lemma order_closed:
  fixes es :: "WorkflowGraphEdge list"
  assumes "distinct ns"
  defines "t \<equiv> topologicalOrder ns es"
  shows "distinct (tOrder t)" "set (tOrder t) \<subseteq> set ns"
    and "tOrder t = xs @ v # ys \<Longrightarrow> (u, v) \<in> retained ns es \<Longrightarrow> u \<in> set xs"
    and "v \<in> set ns \<Longrightarrow> (\<And>u. (u, v) \<in> retained ns es \<Longrightarrow> u \<in> set (tOrder t)) \<Longrightarrow> v \<in> set (tOrder t)"
proof -
  note t = kahn_result [OF kahn_inv_start [OF assms(1)], of es, unfolded append_Nil]
  have oe: "kahn ns es (filter (\<lambda>n. inDegrees ns es n = 0) ns) (inDegrees ns es) = tOrder t"
    by (simp add: t_def topologicalOrder_def Let_def)
  show "distinct (tOrder t)" "set (tOrder t) \<subseteq> set ns" using t unfolding oe by blast+
  show "u \<in> set xs" if "tOrder t = xs @ v # ys" "(u, v) \<in> retained ns es" using t that unfolding oe by blast
  show "v \<in> set (tOrder t)" if "v \<in> set ns" "\<And>u. (u, v) \<in> retained ns es \<Longrightarrow> u \<in> set (tOrder t)" using t that unfolding oe by blast
qed

text \<open>A list in which every predecessor of an element stands before it.\<close>

definition forward_order :: "(NodeId \<times> NodeId) set \<Rightarrow> NodeId list \<Rightarrow> bool" where
  "forward_order E order \<longleftrightarrow> (\<forall>xs v ys u. order = xs @ v # ys \<longrightarrow> (u, v) \<in> E \<longrightarrow> u \<in> set xs)"

lemma forward_rtrancl: "(u, v) \<in> E\<^sup>* \<Longrightarrow> forward_order E order \<Longrightarrow> v \<in> set order \<Longrightarrow> u \<in> set order"
proof (induction rule: converse_rtrancl_induct)
  case (step u w)
  then obtain xs ys where "order = xs @ w # ys" by (auto dest: split_list)
  then show ?case using step by (auto simp: forward_order_def)
qed

lemma forward_trancl: "(u, v) \<in> E\<^sup>+ \<Longrightarrow> forward_order E order \<Longrightarrow> order = xs @ v # ys \<Longrightarrow> u \<in> set xs"
proof (induction arbitrary: xs ys rule: trancl_induct)
  case (step v w)
  then have "v \<in> set xs" by (auto simp: forward_order_def)
  then obtain as bs where x: "xs = as @ v # bs" by (auto dest: split_list)
  then show ?case using step.IH [of as "bs @ w # ys"] step.prems by simp
qed (auto simp: forward_order_def)

lemma forward_acyclic: "forward_order E order \<Longrightarrow> distinct order \<Longrightarrow> v \<in> set order \<Longrightarrow> (v, v) \<notin> E\<^sup>+"
proof
  assume d: "distinct order" and "v \<in> set order" and o: "forward_order E order" and c: "(v, v) \<in> E\<^sup>+"
  then obtain xs ys where x: "order = xs @ v # ys" by (auto dest: split_list)
  show False using forward_trancl [OF c o x] d by (simp add: x)
qed

lemma cycle_behind:
  assumes "finite R" "v \<in> R" "\<And>w. w \<in> R \<Longrightarrow> \<exists>u \<in> R. (u, w) \<in> E"
  shows "\<exists>c. (c, c) \<in> E\<^sup>+ \<and> (c, v) \<in> E\<^sup>*"
proof (rule ccontr)
  assume no: "\<not> ?thesis"
  define S where "S = {u \<in> R. (u, v) \<in> E\<^sup>*}"
  define F where "F = E \<inter> S \<times> S"
  have "finite F" using assms(1) by (simp add: F_def S_def)
  have "acyclic F" unfolding acyclic_def
  proof (intro allI notI)
    fix c assume c: "(c, c) \<in> F\<^sup>+"
    then obtain d where "(c, d) \<in> F" by (blast dest: tranclD)
    then have "c \<in> S" by (simp add: F_def)
    moreover have "(c, c) \<in> E\<^sup>+" using c by (rule trancl_mono) (auto simp: F_def)
    ultimately show False using no by (auto simp: S_def)
  qed
  with \<open>finite F\<close> have wf: "wf F" by (rule finite_acyclic_wf)
  have "v \<in> S" using assms(2) by (simp add: S_def)
  then obtain z where z: "z \<in> S" "\<And>y. (y, z) \<in> F \<Longrightarrow> y \<notin> S" using wf by (metis wf_eq_minimal)
  then obtain u where u: "u \<in> R" "(u, z) \<in> E" using assms(3) by (auto simp: S_def)
  have S: "u \<in> S" using z(1) u by (auto simp: S_def intro: converse_rtrancl_into_rtrancl)
  then have "(u, z) \<in> F" using u(2) z(1) by (simp add: F_def)
  from z(2) [OF this] S show False ..
qed

lemma residual_iff:
  assumes "distinct ns" "v \<in> set ns"
  shows "v \<notin> set (tOrder (topologicalOrder ns es)) \<longleftrightarrow> (\<exists>c. (c, c) \<in> (retained ns es)\<^sup>+ \<and> (c, v) \<in> (retained ns es)\<^sup>*)"
proof
  let ?R = "{w \<in> set ns. w \<notin> set (tOrder (topologicalOrder ns es))}"
  assume "v \<notin> set (tOrder (topologicalOrder ns es))"
  moreover have "\<exists>u \<in> ?R. (u, w) \<in> retained ns es" if "w \<in> ?R" for w
    using order_closed(4) [OF assms(1), of w es] that retained_nodes by blast
  ultimately show "\<exists>c. (c, c) \<in> (retained ns es)\<^sup>+ \<and> (c, v) \<in> (retained ns es)\<^sup>*"
    using cycle_behind [of ?R v] assms(2) by auto
next
  have r: "forward_order (retained ns es) (tOrder (topologicalOrder ns es))"
    using order_closed(3) [OF assms(1)] unfolding forward_order_def by blast
  assume "\<exists>c. (c, c) \<in> (retained ns es)\<^sup>+ \<and> (c, v) \<in> (retained ns es)\<^sup>*"
  then show "v \<notin> set (tOrder (topologicalOrder ns es))"
    using forward_rtrancl [OF _ r] forward_acyclic [OF r order_closed(1) [OF assms(1)]] by blast
qed

subsection \<open>Ancestor sets\<close>

text \<open>The inner loop reads the set of the node through the map, as the code does through the shared set.\<close>

definition inherit :: "NodeId \<Rightarrow> NodeId list \<Rightarrow> (NodeId \<Rightarrow> NodeId set) \<Rightarrow> NodeId \<Rightarrow> NodeId set" where
  "inherit n targets ancestors = fold (\<lambda>t a. a(t := insert n (a t) \<union> a n)) targets ancestors"

definition ancestorSets :: "NodeId list \<Rightarrow> WorkflowGraphEdge list \<Rightarrow> NodeId \<Rightarrow> NodeId set" where
  "ancestorSets order edges = fold (\<lambda>n. inherit n (buildAdjacency order edges n)) order (\<lambda>n. {})"

lemma inherit_simp:
  "n \<notin> set ts \<Longrightarrow> inherit n ts a = (\<lambda>v. if v \<in> set ts then insert n (a v) \<union> a n else a v)"
  by (induction ts arbitrary: a) (auto simp: inherit_def fun_eq_iff)

lemma ancestors_prefix:
  assumes "forward_order (retained order es) order" "distinct order" "order = xs @ ys"
  shows "fold (\<lambda>n. inherit n (buildAdjacency order es n)) xs (\<lambda>n. {}) v = {u. \<exists>w \<in> set xs. (u, w) \<in> (retained order es)\<^sup>* \<and> (w, v) \<in> retained order es}"
  using assms(3)
proof (induction xs arbitrary: ys v rule: rev_induct)
  case (snoc n xs)
  let ?E = "retained order es" and ?a = "fold (\<lambda>n. inherit n (buildAdjacency order es n)) xs (\<lambda>n. {})"
  have ih: "?a v = {u. \<exists>w \<in> set xs. (u, w) \<in> ?E\<^sup>* \<and> (w, v) \<in> ?E}" for v
    using snoc.IH [of "n # ys" v] snoc.prems by simp
  have pre: "w \<in> set xs" if "(w, n) \<in> ?E" for w
    using assms(1) snoc.prems that unfolding forward_order_def by (metis append.assoc append_Cons append_Nil)
  have "n \<notin> set xs" using assms(2) snoc.prems by simp
  then have "n \<notin> set (buildAdjacency order es n)" using pre [of n] by (auto simp: retained_def)
  moreover have an: "u \<in> ?a n \<longleftrightarrow> (u, n) \<in> ?E\<^sup>+" for u using pre by (auto simp: ih trancl_unfold_right)
  ultimately have "fold (\<lambda>n. inherit n (buildAdjacency order es n)) (xs @ [n]) (\<lambda>n. {}) v =
      (if (n, v) \<in> ?E then insert n (?a v) \<union> ?a n else ?a v)"
    by (simp add: inherit_simp retained_def)
  also have "\<dots> = {u. \<exists>w \<in> set (xs @ [n]). (u, w) \<in> ?E\<^sup>* \<and> (w, v) \<in> ?E}"
    using an by (auto simp: ih rtrancl_eq_or_trancl)
  finally show ?case .
qed simp

lemma ancestorSets_trancl:
  assumes "forward_order (retained order es) order" "distinct order"
  shows "ancestorSets order es v = {u. (u, v) \<in> (retained order es)\<^sup>+}"
  using ancestors_prefix [OF assms, of order "[]" v] retained_nodes [of _ v order es]
  by (auto simp: ancestorSets_def trancl_unfold_right)

lemma retained_mono: "set ms \<subseteq> set ns \<Longrightarrow> retained ms es \<subseteq> retained ns es"
  by (auto simp: retained_iff)

lemma trancl_ordered:
  assumes "forward_order (retained ns es) order" "set order \<subseteq> set ns" "v \<in> set order"
  shows "(u, v) \<in> (retained order es)\<^sup>+ \<longleftrightarrow> (u, v) \<in> (retained ns es)\<^sup>+"
proof
  assume "(u, v) \<in> (retained ns es)\<^sup>+"
  then show "(u, v) \<in> (retained order es)\<^sup>+" using assms(3)
  proof (induction rule: converse_trancl_induct)
    case (base u)
    then have "u \<in> set order" using forward_rtrancl [OF r_into_rtrancl assms(1)] by blast
    then have "(u, v) \<in> retained order es" using base by (auto simp: retained_iff)
    then show ?case by (rule r_into_trancl)
  next
    case (step u w)
    have "(w, v) \<in> (retained ns es)\<^sup>*" using step.hyps(2) by (rule trancl_into_rtrancl)
    then have w: "w \<in> set order" using forward_rtrancl [OF _ assms(1)] step.prems by blast
    then have "u \<in> set order" using forward_rtrancl [OF r_into_rtrancl assms(1)] step.hyps(1) by blast
    then have "(u, w) \<in> retained order es" using step.hyps(1) w by (auto simp: retained_iff)
    then show ?case using step by (meson trancl_into_trancl2)
  qed
qed (meson assms(2) retained_mono trancl_mono)

subsection \<open>Reachability\<close>

definition outgoing :: "WorkflowGraphEdge list \<Rightarrow> NodeId \<Rightarrow> NodeId list" where
  "outgoing edges n = map edgeTo (filter (\<lambda>e. edgeFrom e = n) edges)"

text \<open>Marking the nodes not reached yet: what is reached afterwards and what was added, in order.\<close>

fun mark :: "NodeId list \<Rightarrow> NodeId list \<Rightarrow> NodeId list \<times> NodeId list" where
  "mark [] reached = (reached, [])"
| "mark (target # targets) reached =
     (if target \<in> set reached then mark targets reached
      else let (reached', added) = mark targets (reached @ [target]) in (reached', target # added))"

lemma mark_simps: "set (fst (mark ts reached)) = set reached \<union> set ts" "set (snd (mark ts reached)) = set ts - set reached"
    "distinct (snd (mark ts reached))"
  by (induction ts arbitrary: reached) (auto simp: case_prod_beta)

lemma mark_measure:
  "length (snd (mark (outgoing es n) reached)) + card (edgeTo ` set es - set (fst (mark (outgoing es n) reached)))
     \<le> card (edgeTo ` set es - set reached)"
proof -
  let ?new = "set (snd (mark (outgoing es n) reached))" and ?rest = "edgeTo ` set es - set (fst (mark (outgoing es n) reached))"
  have "?new \<union> ?rest \<subseteq> edgeTo ` set es - set reached" by (auto simp: mark_simps outgoing_def)
  then have "card (?new \<union> ?rest) \<le> card (edgeTo ` set es - set reached)" by (intro card_mono) auto
  moreover have "?new \<inter> ?rest = {}" by (auto simp: mark_simps)
  ultimately show ?thesis by (simp add: card_Un_disjoint distinct_card mark_simps(3))
qed

function bfs :: "WorkflowGraphEdge list \<Rightarrow> NodeId list \<Rightarrow> NodeId list \<Rightarrow> NodeId list" where
  "bfs edges [] reached = reached"
| "bfs edges (n # queue) reached =
     bfs edges (queue @ snd (mark (outgoing edges n) reached)) (fst (mark (outgoing edges n) reached))"
  by pat_completeness auto

termination
  by (relation "measure (\<lambda>(es, q, reached). length q + card (edgeTo ` set es - set reached))")
    (use mark_measure in \<open>auto simp: less_Suc_eq_le\<close>)

definition reachableFrom :: "NodeId list \<Rightarrow> WorkflowGraphEdge list \<Rightarrow> NodeId list" where
  "reachableFrom startNodeIds edges = bfs edges (snd (mark startNodeIds [])) (fst (mark startNodeIds []))"

definition connections :: "WorkflowGraphEdge list \<Rightarrow> (NodeId \<times> NodeId) set" where
  "connections es = {(u, v). v \<in> set (outgoing es u)}"

lemma bfs_reached:
  assumes "set q \<subseteq> set reached" "\<And>u v. u \<in> set reached \<Longrightarrow> u \<notin> set q \<Longrightarrow> (u, v) \<in> connections es \<Longrightarrow> v \<in> set reached"
  shows "set (bfs es q reached) = (connections es)\<^sup>* `` set reached"
  using assms
proof (induction es q reached rule: bfs.induct)
  case (1 es reached)
  then show ?case using Image_closed_trancl [of "connections es" "set reached"] by auto
next
  case (2 es n q reached)
  let ?m = "mark (outgoing es n) reached"
  have "set (bfs es (q @ snd ?m) (fst ?m)) = (connections es)\<^sup>* `` set (fst ?m)"
    by (rule "2.IH") (use "2.prems" in \<open>auto simp: mark_simps connections_def\<close>)
  also have "\<dots> = (connections es)\<^sup>* `` set reached"
    using "2.prems"(1) by (auto simp: mark_simps connections_def intro: converse_rtrancl_into_rtrancl)
  finally show ?case by simp
qed

lemma reachableFrom_connections: "set (reachableFrom starts es) = (connections es)\<^sup>* `` set starts"
  unfolding reachableFrom_def by (subst bfs_reached) (simp_all add: mark_simps)

subsection \<open>Order and ancestors\<close>

text \<open>
  C35. Over distinct nodes Kahn's loop ends with an order in which every retained edge points forward and
  a residual of exactly the nodes on a cycle or behind one, so that the residual is empty just for acyclic
  graphs, and the ancestor sets accumulated over that order are the proper ancestors of its nodes.
\<close>
theorem order_and_ancestors:
  assumes "distinct ns" and t: "t = topologicalOrder ns es"
  shows "distinct (tOrder t) \<and> set (tOrder t) \<union> set (tResidual t) = set ns \<and> set (tOrder t) \<inter> set (tResidual t) = {} \<and>
     (\<forall>xs v ys u. tOrder t = xs @ v # ys \<longrightarrow> (u, v) \<in> retained ns es \<longrightarrow> u \<in> set xs) \<and>
     (\<forall>v \<in> set ns. v \<in> set (tResidual t) \<longleftrightarrow> (\<exists>c. (c, c) \<in> (retained ns es)\<^sup>+ \<and> (c, v) \<in> (retained ns es)\<^sup>*)) \<and>
     (tResidual t = [] \<longleftrightarrow> acyclic (retained ns es)) \<and>
     (\<forall>v \<in> set (tOrder t). ancestorSets (tOrder t) es v = {u. (u, v) \<in> (retained ns es)\<^sup>+})"
proof -
  let ?E = "retained ns es"
  note o' = order_closed [OF assms(1), where es = es, folded t]
  have res: "v \<in> set (tResidual t) \<longleftrightarrow> v \<in> set ns \<and> v \<notin> set (tOrder t)" for v
    by (auto simp: t topologicalOrder_def Let_def)
  have f: "forward_order ?E (tOrder t)" using o'(3) unfolding forward_order_def by blast
  have "retained (tOrder t) es \<subseteq> ?E" by (rule retained_mono [OF o'(2)])
  then have "forward_order (retained (tOrder t) es) (tOrder t)" using f unfolding forward_order_def by blast
  then have anc: "ancestorSets (tOrder t) es v = {u. (u, v) \<in> ?E\<^sup>+}" if "v \<in> set (tOrder t)" for v
    using ancestorSets_trancl o'(1) trancl_ordered [OF f o'(2) that] by simp
  have cyc: "v \<in> set (tResidual t) \<longleftrightarrow> (\<exists>c. (c, c) \<in> ?E\<^sup>+ \<and> (c, v) \<in> ?E\<^sup>*)" if "v \<in> set ns" for v
    using residual_iff [OF assms(1) that, of es] res that by (simp add: t)
  have "tResidual t = [] \<longleftrightarrow> acyclic ?E"
  proof
    assume e: "tResidual t = []"
    show "acyclic ?E" unfolding acyclic_def
    proof (intro allI notI)
      fix c assume c: "(c, c) \<in> ?E\<^sup>+"
      then obtain d where "(c, d) \<in> ?E" by (blast dest: tranclD)
      then have "c \<in> set ns" using retained_nodes by blast
      then show False using cyc [of c] c e by auto
    qed
  next
    assume "acyclic ?E"
    then have "v \<notin> set (tResidual t)" for v using cyc [of v] res by (auto simp: acyclic_def)
    then show "tResidual t = []" by (cases "tResidual t") auto
  qed
  moreover have "set (tOrder t) \<union> set (tResidual t) = set ns" "set (tOrder t) \<inter> set (tResidual t) = {}" using o'(2) res by auto
  ultimately show ?thesis using o'(1) o'(3) anc cyc by blast
qed

definition sampleEdges :: "WorkflowGraphEdge list" where
  "sampleEdges = [\<lparr>edgeFrom = ''plan'', edgeTo = ''build''\<rparr>, \<lparr>edgeFrom = ''build'', edgeTo = ''test''\<rparr>,
     \<lparr>edgeFrom = ''x'', edgeTo = ''y''\<rparr>, \<lparr>edgeFrom = ''y'', edgeTo = ''x''\<rparr>, \<lparr>edgeFrom = ''y'', edgeTo = ''z''\<rparr>]"

lemma order_and_ancestors_witness:
  "tOrder (topologicalOrder [''test'', ''x'', ''build'', ''y'', ''plan'', ''z''] sampleEdges) = [''plan'', ''build'', ''test''] \<and>
   ancestorSets [''plan'', ''build'', ''test''] sampleEdges ''test'' = {''plan'', ''build''} \<and>
   (''plan'', ''test'') \<in> (retained [''test'', ''x'', ''build'', ''y'', ''plan'', ''z''] sampleEdges)\<^sup>+"
proof -
  let ?ns = "[''test'', ''x'', ''build'', ''y'', ''plan'', ''z'']"
  have d: "distinct ?ns" by simp
  have o': "tOrder (topologicalOrder ?ns sampleEdges) = [''plan'', ''build'', ''test'']" by code_simp
  have a: "ancestorSets [''plan'', ''build'', ''test''] sampleEdges ''test'' = {''plan'', ''build''}" by code_simp
  have "{u. (u, ''test'') \<in> (retained ?ns sampleEdges)\<^sup>+} = {''plan'', ''build''}"
    using order_and_ancestors [OF d refl, of sampleEdges] a unfolding o' by simp
  then show ?thesis using o' a by blast
qed

end
