(* ===== verification/LineFramer.thy ===== *)
theory LineFramer
  imports Prelude
begin

text \<open>
  \<open>src/lib/line-framer.ts\<close>: the bounded incremental framer that cuts a stream of chunks into lines.  The
  loop over a chunk is followed as it is written; the reference is the splitting of the whole text.
\<close>

definition newline :: char where "newline = CHR ''\<newline>''"

text \<open>The maximal newline-free pieces of a text.\<close>

fun splitLines :: "string \<Rightarrow> string list" where
  "splitLines [] = [[]]"
| "splitLines (c # cs) =
     (if c = newline then [] # splitLines cs
      else case splitLines cs of [] \<Rightarrow> [[c]] | l # ls \<Rightarrow> (c # l) # ls)"

lemma splitLines_nonempty [simp]: "splitLines s \<noteq> []"
  by (induction s) (auto split: list.split)

lemma splitLines_free: "newline \<notin> set s \<Longrightarrow> splitLines s = [s]"
  by (induction s) auto

lemma splitLines_append: "newline \<notin> set s \<Longrightarrow> splitLines (s @ newline # t) = s # splitLines t"
  by (induction s) auto

lemma first_line:
  assumes "newline \<in> set s"
  obtains t where "s = takeWhile (\<lambda>c. c \<noteq> newline) s @ newline # t" "dropWhile (\<lambda>c. c \<noteq> newline) s = newline # t"
proof -
  have "dropWhile (\<lambda>c. c \<noteq> newline) s \<noteq> []" using assms by (auto simp: dropWhile_eq_Nil_conv)
  then obtain x t where d: "dropWhile (\<lambda>c. c \<noteq> newline) s = x # t" by (cases "dropWhile (\<lambda>c. c \<noteq> newline) s") auto
  have "x = newline" using hd_dropWhile [of "\<lambda>c. c \<noteq> newline" s] d by simp
  then show ?thesis using that d by (metis takeWhile_dropWhile_id)
qed

lemma takeWhile_free: "newline \<notin> set (takeWhile (\<lambda>c. c \<noteq> newline) s)"
  by (auto dest: set_takeWhileD)

subsection \<open>The framer\<close>

record LineFramer =
  lfBuffer :: string
  lfDiscarding :: bool
  lfTruncated :: nat
  lfDropped :: nat

record FramedOutput =
  foLines :: "string list"
  foTruncatedLines :: nat
  foDroppedUnits :: nat

definition newFramer :: LineFramer where
  "newFramer = \<lparr>lfBuffer = [], lfDiscarding = False, lfTruncated = 0, lfDropped = 0\<rparr>"

lemma dropWhile_shorter: "dropWhile P s = x # t \<Longrightarrow> length t < length s"
  using length_dropWhile_le [of P s] by simp

text \<open>The loop of \<open>append\<close> over the rest of the chunk, with what it has collected for this chunk.\<close>

function appendLoop :: "nat \<Rightarrow> string \<Rightarrow> bool \<Rightarrow> FramedOutput \<Rightarrow> string \<Rightarrow> (string \<times> bool) \<times> FramedOutput" where
  "appendLoop maxLineUnits buffer discarding acc rest =
     (if rest = [] then ((buffer, discarding), acc)
      else
        let line = takeWhile (\<lambda>c. c \<noteq> newline) rest
        in if discarding then
             (case dropWhile (\<lambda>c. c \<noteq> newline) rest of
                [] \<Rightarrow> ((buffer, True), acc\<lparr>foDroppedUnits := foDroppedUnits acc + length rest\<rparr>)
              | _ # rest' \<Rightarrow>
                  appendLoop maxLineUnits buffer False (acc\<lparr>foDroppedUnits := foDroppedUnits acc + length line\<rparr>) rest')
           else
             (case dropWhile (\<lambda>c. c \<noteq> newline) rest of
                [] \<Rightarrow>
                  (let buffer' = buffer @ rest
                   in if maxLineUnits < length buffer'
                      then (([], True), acc\<lparr>foLines := foLines acc @ [take maxLineUnits buffer'],
                             foTruncatedLines := foTruncatedLines acc + 1,
                             foDroppedUnits := foDroppedUnits acc + (length buffer' - maxLineUnits)\<rparr>)
                      else ((buffer', False), acc))
              | _ # rest' \<Rightarrow>
                  (let candidate = buffer @ line
                   in if maxLineUnits < length candidate
                      then appendLoop maxLineUnits [] False (acc\<lparr>foLines := foLines acc @ [take maxLineUnits candidate],
                             foTruncatedLines := foTruncatedLines acc + 1,
                             foDroppedUnits := foDroppedUnits acc + (length candidate - maxLineUnits)\<rparr>) rest'
                      else appendLoop maxLineUnits [] False
                             (if candidate = [] then acc else acc\<lparr>foLines := foLines acc @ [candidate]\<rparr>) rest')))"
  by pat_completeness auto

termination
  by (relation "measure (\<lambda>(m, b, d, acc, rest). length rest)") (auto dest: dropWhile_shorter)

declare appendLoop.simps [simp del]

definition noOutput :: FramedOutput where
  "noOutput = \<lparr>foLines = [], foTruncatedLines = 0, foDroppedUnits = 0\<rparr>"

definition appendChunk :: "nat \<Rightarrow> LineFramer \<Rightarrow> string \<Rightarrow> LineFramer \<times> FramedOutput" where
  "appendChunk maxLineUnits fr chunk =
     (case appendLoop maxLineUnits (lfBuffer fr) (lfDiscarding fr) noOutput chunk of
        ((buffer, discarding), out) \<Rightarrow>
          (\<lparr>lfBuffer = buffer, lfDiscarding = discarding, lfTruncated = lfTruncated fr + foTruncatedLines out,
             lfDropped = lfDropped fr + foDroppedUnits out\<rparr>, out))"

definition flush :: "LineFramer \<Rightarrow> LineFramer \<times> FramedOutput" where
  "flush fr =
     (if lfDiscarding fr then (fr\<lparr>lfDiscarding := False, lfBuffer := []\<rparr>, noOutput)
      else if lfBuffer fr = [] then (fr, noOutput)
      else (fr\<lparr>lfBuffer := []\<rparr>, noOutput\<lparr>foLines := [lfBuffer fr]\<rparr>))"

text \<open>A whole stream: its chunks one by one, with the lines emitted for them, then the end.\<close>

definition feedChunk :: "nat \<Rightarrow> string \<Rightarrow> LineFramer \<times> string list \<Rightarrow> LineFramer \<times> string list" where
  "feedChunk m chunk st = (case appendChunk m (fst st) chunk of (fr, out) \<Rightarrow> (fr, snd st @ foLines out))"

definition frameStream :: "nat \<Rightarrow> string list \<Rightarrow> LineFramer \<times> string list" where
  "frameStream m chunks =
     (let (fr, ls) = fold (feedChunk m) chunks (newFramer, []); (fr', out) = flush fr in (fr', ls @ foLines out))"

subsection \<open>Readers of a stream\<close>

text \<open>
  What the consumers of a CLI stream promise each other: a reader whose state stands for the text read so
  far stands for the longer text after one more chunk, so that the cuts between chunks do not matter.
\<close>

locale chunk_reader =
  fixes read_chunk :: "string \<Rightarrow> 's \<Rightarrow> 's"
    and stands_for :: "string \<Rightarrow> 's \<Rightarrow> bool"
  assumes one_chunk: "stands_for t s \<Longrightarrow> stands_for (t @ c) (read_chunk c s)"
begin

lemma whole_stream: "stands_for t s \<Longrightarrow> stands_for (t @ concat cs) (fold read_chunk cs s)"
  by (induction cs arbitrary: t s) (auto dest: one_chunk simp flip: append_assoc)

lemma from_start: "stands_for [] s \<Longrightarrow> stands_for (concat cs) (fold read_chunk cs s)"
  using whole_stream [of "[]" s cs] by simp

end

subsection \<open>The text so far\<close>

lemma splitLines_grow: "newline \<notin> set x \<Longrightarrow> splitLines (t @ x) = butlast (splitLines t) @ [last (splitLines t) @ x]"
  by (induction t) (auto simp: splitLines_free split: list.split)

lemma splitLines_end: "splitLines (t @ [newline]) = splitLines t @ [[]]"
  by (induction t) (auto split: list.split)

lemma splitLines_line: "newline \<notin> set x \<Longrightarrow> splitLines (t @ x @ [newline]) = butlast (splitLines t) @ [last (splitLines t) @ x, []]"
  using splitLines_end [of "t @ x"] splitLines_grow [of x t] by simp

definition cut :: "nat \<Rightarrow> string \<Rightarrow> string list" where
  "cut m l = (if l = [] then [] else [take m l])"

text \<open>What has been emitted and counted when the text \<open>t\<close> has arrived; its last line may be unfinished.\<close>

definition emitted :: "nat \<Rightarrow> string list \<Rightarrow> string list" where
  "emitted m ls = concat (map (cut m) (butlast ls)) @ (if m < length (last ls) then [take m (last ls)] else [])"

definition overlong :: "nat \<Rightarrow> string list \<Rightarrow> nat" where
  "overlong m ls = length (filter (\<lambda>l. m < length l) ls)"

definition excess :: "nat \<Rightarrow> string list \<Rightarrow> nat" where
  "excess m ls = sum_list (map (\<lambda>l. length l - m) ls)"

definition held :: "nat \<Rightarrow> string \<Rightarrow> string \<Rightarrow> bool \<Rightarrow> bool" where
  "held m l buffer discarding \<longleftrightarrow> (if m < length l then discarding \<and> buffer = [] else \<not> discarding \<and> buffer = l)"

definition frames :: "nat \<Rightarrow> string list \<Rightarrow> string \<Rightarrow> bool \<Rightarrow> string list \<Rightarrow> nat \<Rightarrow> nat \<Rightarrow> bool" where
  "frames m ls buffer discarding out trunc dropped \<longleftrightarrow> held m (last ls) buffer discarding \<and> out = emitted m ls \<and> trunc = overlong m ls \<and> dropped = excess m ls"

lemma frames_grow:
  assumes "frames m (us @ [l]) b d out tr dr" "x \<noteq> []"
  shows "d \<Longrightarrow> frames m (us @ [l @ x]) b True out tr (dr + length x)"
    and "\<not> d \<Longrightarrow> m < length (b @ x) \<Longrightarrow> frames m (us @ [l @ x]) [] True (out @ [take m (b @ x)]) (tr + 1) (dr + (length (b @ x) - m))"
    and "\<not> d \<Longrightarrow> \<not> m < length (b @ x) \<Longrightarrow> frames m (us @ [l @ x]) (b @ x) False out tr dr"
  using assms by (auto simp: frames_def held_def emitted_def overlong_def excess_def split: if_splits)

lemma frames_line:
  assumes "0 < m" "frames m (us @ [l]) b d out tr dr"
  shows "d \<Longrightarrow> frames m (us @ [l @ x, []]) b False out tr (dr + length x)"
    and "\<not> d \<Longrightarrow> m < length (b @ x) \<Longrightarrow> frames m (us @ [l @ x, []]) [] False (out @ [take m (b @ x)]) (tr + 1) (dr + (length (b @ x) - m))"
    and "\<not> d \<Longrightarrow> \<not> m < length (b @ x) \<Longrightarrow> frames m (us @ [l @ x, []]) [] False (if b @ x = [] then out else out @ [b @ x]) tr dr"
  using assms by (auto simp: frames_def held_def emitted_def overlong_def excess_def cut_def butlast_append split: if_splits)

lemma appendLoop_frames:
  assumes "0 < m" "frames m (splitLines t) b d (L0 @ foLines acc) (T0 + foTruncatedLines acc) (D0 + foDroppedUnits acc)"
  shows "case appendLoop m b d acc rest of ((b', d'), acc') \<Rightarrow>
     frames m (splitLines (t @ rest)) b' d' (L0 @ foLines acc') (T0 + foTruncatedLines acc') (D0 + foDroppedUnits acc')"
  using assms
proof (induction m b d acc rest arbitrary: t rule: appendLoop.induct)
  case (1 m b d acc rest)
  let ?us = "butlast (splitLines t)" and ?l = "last (splitLines t)"
  have f: "frames m (?us @ [?l]) b d (L0 @ foLines acc) (T0 + foTruncatedLines acc) (D0 + foDroppedUnits acc)" using "1.prems"(2) by simp
  show ?case
  proof (cases "newline \<in> set rest")
    case False
    then have dw: "dropWhile (\<lambda>c. c \<noteq> newline) rest = []" by (auto simp: dropWhile_eq_Nil_conv)
    show ?thesis
    proof (cases "rest = []")
      case True
      then show ?thesis using "1.prems"(2) by (simp add: appendLoop.simps)
    next
      case ne: False
      show ?thesis using frames_grow [OF f ne] ne
        by (subst appendLoop.simps) (auto simp: dw Let_def splitLines_grow [OF False] add.assoc)
    qed
  next
    case True
    let ?x = "takeWhile (\<lambda>c. c \<noteq> newline) rest"
    obtain r where r: "rest = ?x @ newline # r" "dropWhile (\<lambda>c. c \<noteq> newline) rest = newline # r" by (rule first_line [OF True])
    have ne: "rest \<noteq> []" using True by auto
    have s: "splitLines (t @ ?x @ [newline]) = ?us @ [?l @ ?x, []]" by (rule splitLines_line [OF takeWhile_free])
    have t: "t @ rest = (t @ ?x @ [newline]) @ r" using r(1) by simp
    note line = frames_line [OF "1.prems"(1) f, of ?x]
    consider "d" | "\<not> d" "m < length (b @ ?x)" | "\<not> d" "\<not> m < length (b @ ?x)" by blast
    then show ?thesis
    proof cases
      case 1
      show ?thesis unfolding t using "1.IH"(1) [OF ne refl 1 r(2), of "t @ ?x @ [newline]"] "1.prems"(1) line(1) [OF 1] 1 ne
        by (subst appendLoop.simps) (simp add: r(2) s add.assoc)
    next
      case 2
      show ?thesis unfolding t using "1.IH"(2) [OF ne refl 2(1) r(2) refl 2(2), of "t @ ?x @ [newline]"] "1.prems"(1) line(2) [OF 2] 2 ne
        by (subst appendLoop.simps) (simp add: r(2) s add.assoc Let_def)
    next
      case 3
      have e: "?us @ [?l, []] = splitLines t @ [[]]" using append_butlast_last_id [OF splitLines_nonempty, of t] by (metis append.assoc append_Cons append_Nil)
      let ?acc = "if b @ ?x = [] then acc else acc\<lparr>foLines := foLines acc @ [b @ ?x]\<rparr>"
      have "frames m (splitLines (t @ ?x @ [newline])) [] False (L0 @ foLines ?acc) (T0 + foTruncatedLines ?acc) (D0 + foDroppedUnits ?acc)"
        using line(3) [OF 3] by (cases "b @ ?x = []") (auto simp: s splitLines_end e)
      from "1.IH"(3) [OF ne refl 3(1) r(2) refl 3(2) "1.prems"(1) this] show ?thesis unfolding t
        by (subst appendLoop.simps) (simp only: r(2) ne 3 Let_def if_False list.case)
    qed
  qed
qed

definition framed :: "nat \<Rightarrow> string \<Rightarrow> LineFramer \<times> string list \<Rightarrow> bool" where
  "framed m t st \<longleftrightarrow> 0 < m \<and>
     frames m (splitLines t) (lfBuffer (fst st)) (lfDiscarding (fst st)) (snd st) (lfTruncated (fst st)) (lfDropped (fst st))"

lemma feedChunk_framed: "framed m t st \<Longrightarrow> framed m (t @ c) (feedChunk m c st)"
  using appendLoop_frames [of m t "lfBuffer (fst st)" "lfDiscarding (fst st)" "snd st" noOutput "lfTruncated (fst st)" "lfDropped (fst st)" c]
  by (auto simp: framed_def feedChunk_def appendChunk_def noOutput_def split: prod.splits)

interpretation framer: chunk_reader "feedChunk m" "framed m" by unfold_locales (rule feedChunk_framed)

lemma emitted_last:
  "held m l buffer discarding \<Longrightarrow> emitted m (us @ [l]) @ (if discarding \<or> buffer = [] then [] else [buffer]) = concat (map (cut m) (us @ [l]))"
  by (auto simp: held_def emitted_def cut_def split: if_splits)

text \<open>
  C36. However a stream is cut into chunks, the framer emits the non-empty lines of the whole text, each
  cut at the limit, counts exactly the lines it cut and the units it dropped, and never holds more than
  the limit between two chunks.
\<close>
theorem framing_ignores_chunks:
  assumes "0 < maxLineUnits"
  shows "snd (frameStream maxLineUnits chunks) = concat (map (cut maxLineUnits) (splitLines (concat chunks))) \<and>
     lfTruncated (fst (frameStream maxLineUnits chunks)) = length (filter (\<lambda>l. maxLineUnits < length l) (splitLines (concat chunks))) \<and>
     lfDropped (fst (frameStream maxLineUnits chunks)) = sum_list (map (\<lambda>l. length l - maxLineUnits) (splitLines (concat chunks))) \<and>
     length (lfBuffer (fst (fold (feedChunk maxLineUnits) chunks (newFramer, [])))) \<le> maxLineUnits"
proof -
  let ?m = maxLineUnits and ?ls = "splitLines (concat chunks)"
  obtain fr ls where c: "fold (feedChunk ?m) chunks (newFramer, []) = (fr, ls)" by force
  have "framed ?m [] (newFramer, [])"
    using assms by (simp add: framed_def frames_def held_def newFramer_def emitted_def overlong_def excess_def)
  from framer.from_start [OF this, of chunks]
  have f: "held ?m (last ?ls) (lfBuffer fr) (lfDiscarding fr)" "ls = emitted ?m ?ls" "lfTruncated fr = overlong ?m ?ls" "lfDropped fr = excess ?m ?ls"
    by (auto simp: framed_def frames_def c)
  have "ls @ foLines (snd (flush fr)) = concat (map (cut ?m) ?ls)"
    using emitted_last [OF f(1), of "butlast ?ls"]
    by (cases "lfDiscarding fr"; cases "lfBuffer fr = []") (simp_all add: f(2) flush_def noOutput_def)
  moreover have "lfTruncated (fst (flush fr)) = lfTruncated fr" "lfDropped (fst (flush fr)) = lfDropped fr" by (auto simp: flush_def)
  moreover have "length (lfBuffer fr) \<le> ?m" using f(1) by (auto simp: held_def split: if_splits)
  ultimately show ?thesis using f(3,4) by (simp add: frameStream_def c case_prod_beta overlong_def excess_def)
qed

lemma framing_ignores_chunks_witness:
  "snd (frameStream 3 [''ab'', ''cd'', ''e'' @ [newline] @ ''x'', [newline, newline], ''yz'']) = [''abc'', ''x'', ''yz''] \<and>
   lfDropped (fst (frameStream 3 [''ab'', ''cd'', ''e'' @ [newline] @ ''x'', [newline, newline], ''yz''])) = 2"
  using framing_ignores_chunks [of 3 "[''ab'', ''cd'', ''e'' @ [newline] @ ''x'', [newline, newline], ''yz'']"]
  by (simp add: cut_def newline_def)

end
