(* ===== verification/FatalScan.thy ===== *)
theory FatalScan
  imports LineFramer "HOL-Library.Sublist"
begin

text \<open>
  \<open>src/lib/fatal-signature-registry.ts\<close> and \<open>src/lib/incremental-fatal-scanner.ts\<close>: the effective list
  of fatal signatures, the classification of retained text, and the scanner that classifies the same two
  streams chunk by chunk.
\<close>

subsection \<open>Signatures\<close>

datatype FatalStream = Stdout | Stderr

datatype FatalSource = BuiltIn | OperatorDefined

record EffectiveSignature =
  sigPattern :: string
  sigSource :: FatalSource
  sigStreams :: "FatalStream list option"

record FatalMatch =
  fmSignature :: string
  fmStream :: FatalStream
  fmSource :: FatalSource

definition SIGNATURE_STREAMS :: "(string \<times> FatalStream list) list" where
  "SIGNATURE_STREAMS = [(''error: unknown option'', [Stderr]), (''Autocompact is thrashing'', [Stdout, Stderr])]"

definition MAX_DIAGNOSTIC_LINE_LENGTH :: int where "MAX_DIAGNOSTIC_LINE_LENGTH = 4096"

fun firstMark :: "string \<Rightarrow> char option" where
  "firstMark [] = None"
| "firstMark (c # cs) = (if c \<in> {CHR '' '', CHR 0x09, CHR 0x0D} then firstMark cs else Some c)"

definition isDiagnosticLine :: "string \<Rightarrow> bool" where
  "isDiagnosticLine line \<longleftrightarrow>
     line \<noteq> [] \<and> int (length line) \<le> MAX_DIAGNOSTIC_LINE_LENGTH \<and>
     (case firstMark line of None \<Rightarrow> False | Some c \<Rightarrow> c \<noteq> CHR ''{'' \<and> c \<noteq> CHR ''['')"

fun builtIns :: "string list \<Rightarrow> (string \<times> FatalStream list) list \<Rightarrow> EffectiveSignature list" where
  "builtIns seen [] = []"
| "builtIns seen ((p, ss) # es) =
     (if p \<in> set seen then builtIns seen es
      else \<lparr>sigPattern = p, sigSource = BuiltIn, sigStreams = Some ss\<rparr> # builtIns (p # seen) es)"

fun additions :: "string list \<Rightarrow> string list \<Rightarrow> EffectiveSignature list" where
  "additions seen [] = []"
| "additions seen (a # as) =
     (if a = [] \<or> a \<in> set seen then additions seen as
      else \<lparr>sigPattern = a, sigSource = OperatorDefined, sigStreams = Some [Stdout, Stderr]\<rparr> # additions (a # seen) as)"

definition getEffectiveSignatures :: "string list \<Rightarrow> EffectiveSignature list" where
  "getEffectiveSignatures operatorAdditions =
     builtIns [] SIGNATURE_STREAMS @ additions (map fst SIGNATURE_STREAMS) operatorAdditions"

lemma additions_fresh: "distinct (map sigPattern (additions seen as)) \<and> set (map sigPattern (additions seen as)) \<inter> set seen = {}"
  by (induction seen as rule: additions.induct) auto

text \<open>No addition of an operator removes, reorders or repeats a built-in signature.\<close>

lemma effective_floor:
  "map sigPattern (getEffectiveSignatures ops) = map fst SIGNATURE_STREAMS @ map sigPattern (additions (map fst SIGNATURE_STREAMS) ops)"
  "distinct (map sigPattern (getEffectiveSignatures ops))"
  using additions_fresh [of "map fst SIGNATURE_STREAMS" ops] by (auto simp: getEffectiveSignatures_def SIGNATURE_STREAMS_def)

text \<open>\<open>String.prototype.includes\<close>\<close>

fun strIncludes :: "string \<Rightarrow> string \<Rightarrow> bool" where
  "strIncludes [] p \<longleftrightarrow> p = []"
| "strIncludes (c # cs) p \<longleftrightarrow> prefix p (c # cs) \<or> strIncludes cs p"

definition scannedOn :: "EffectiveSignature \<Rightarrow> FatalStream \<Rightarrow> bool" where
  "scannedOn entry stream \<longleftrightarrow> (case sigStreams entry of None \<Rightarrow> True | Some ss \<Rightarrow> stream \<in> set ss)"

subsection \<open>Retained text\<close>

text \<open>The walk by newline index; the text after the last newline is its last piece.\<close>

function diagnosticLinesOf :: "string \<Rightarrow> string list" where
  "diagnosticLinesOf s =
     (let line = takeWhile (\<lambda>c. c \<noteq> newline) s;
          here = (if line \<noteq> [] \<and> int (length line) \<le> MAX_DIAGNOSTIC_LINE_LENGTH \<and> isDiagnosticLine line then [line] else [])
      in case dropWhile (\<lambda>c. c \<noteq> newline) s of [] \<Rightarrow> here | _ # rest \<Rightarrow> here @ diagnosticLinesOf rest)"
  by pat_completeness auto

termination by (relation "measure length") (auto dest: dropWhile_shorter)

declare diagnosticLinesOf.simps [simp del]

definition containsPattern :: "string list \<Rightarrow> string \<Rightarrow> bool" where
  "containsPattern lines pattern \<longleftrightarrow> list_ex (\<lambda>line. strIncludes line pattern) lines"

fun classifyLines :: "string list \<Rightarrow> string list \<Rightarrow> EffectiveSignature list \<Rightarrow> FatalMatch option" where
  "classifyLines stdoutLines stderrLines [] = None"
| "classifyLines stdoutLines stderrLines (entry # es) =
     (if scannedOn entry Stdout \<and> containsPattern stdoutLines (sigPattern entry)
      then Some \<lparr>fmSignature = sigPattern entry, fmStream = Stdout, fmSource = sigSource entry\<rparr>
      else if scannedOn entry Stderr \<and> containsPattern stderrLines (sigPattern entry)
      then Some \<lparr>fmSignature = sigPattern entry, fmStream = Stderr, fmSource = sigSource entry\<rparr>
      else classifyLines stdoutLines stderrLines es)"

definition classifyFatal :: "string \<Rightarrow> string \<Rightarrow> EffectiveSignature list \<Rightarrow> FatalMatch option" where
  "classifyFatal out err effective = classifyLines (diagnosticLinesOf out) (diagnosticLinesOf err) effective"

subsection \<open>The incremental scanner\<close>

record FatalScanner =
  scPartial :: string
  scDisqualified :: bool
  scBest :: "nat option"

definition newScanner :: FatalScanner where
  "newScanner = \<lparr>scPartial = [], scDisqualified = False, scBest = None\<rparr>"

definition growPartial :: "string \<Rightarrow> FatalScanner \<Rightarrow> FatalScanner" where
  "growPartial segment sc =
     (if scDisqualified sc then sc
      else if MAX_DIAGNOSTIC_LINE_LENGTH < int (length (scPartial sc) + length segment)
      then sc\<lparr>scPartial := [], scDisqualified := True\<rparr>
      else sc\<lparr>scPartial := scPartial sc @ segment\<rparr>)"

definition armed :: "EffectiveSignature list \<Rightarrow> FatalStream \<Rightarrow> string \<Rightarrow> nat \<Rightarrow> bool" where
  "armed es stream line i \<longleftrightarrow> scannedOn (es ! i) stream \<and> strIncludes line (sigPattern (es ! i))"

definition scanPartial :: "EffectiveSignature list \<Rightarrow> FatalStream \<Rightarrow> FatalScanner \<Rightarrow> FatalScanner" where
  "scanPartial es stream sc =
     (if scDisqualified sc \<or> \<not> isDiagnosticLine (scPartial sc) then sc
      else
        let limit = (case scBest sc of Some i \<Rightarrow> i | None \<Rightarrow> length es)
        in case List.find (armed es stream (scPartial sc)) [0..<limit] of
             Some i \<Rightarrow> sc\<lparr>scBest := Some i\<rparr>
           | None \<Rightarrow> sc)"

definition cleared :: "FatalScanner \<Rightarrow> FatalScanner" where
  "cleared sc = sc\<lparr>scPartial := [], scDisqualified := False\<rparr>"

function scanLoop :: "EffectiveSignature list \<Rightarrow> FatalStream \<Rightarrow> FatalScanner \<Rightarrow> string \<Rightarrow> FatalScanner" where
  "scanLoop es stream sc chunk =
     (case dropWhile (\<lambda>c. c \<noteq> newline) chunk of
        [] \<Rightarrow> growPartial chunk sc
      | _ # rest \<Rightarrow>
          (let sc' = cleared (scanPartial es stream (growPartial (takeWhile (\<lambda>c. c \<noteq> newline) chunk) sc))
           in if scBest sc' = Some 0 then sc' else scanLoop es stream sc' rest))"
  by pat_completeness auto

termination by (relation "measure (\<lambda>(es, st, sc, chunk). length chunk)") (auto dest: dropWhile_shorter)

declare scanLoop.simps [simp del]

definition scanAppend :: "EffectiveSignature list \<Rightarrow> FatalStream \<Rightarrow> string \<Rightarrow> FatalScanner \<Rightarrow> FatalScanner" where
  "scanAppend es stream chunk sc =
     (if chunk = [] then sc else if scBest sc = Some 0 then sc else scanLoop es stream sc chunk)"

definition finalizeScan :: "EffectiveSignature list \<Rightarrow> FatalStream \<Rightarrow> FatalScanner \<Rightarrow> FatalScanner" where
  "finalizeScan es stream sc = (if scPartial sc = [] then sc else cleared (scanPartial es stream sc))"

definition scanStream :: "EffectiveSignature list \<Rightarrow> FatalStream \<Rightarrow> string list \<Rightarrow> FatalScanner" where
  "scanStream es stream chunks = finalizeScan es stream (fold (scanAppend es stream) chunks newScanner)"

definition combineStreamScans :: "EffectiveSignature list \<Rightarrow> FatalScanner \<Rightarrow> FatalScanner \<Rightarrow> FatalMatch option" where
  "combineStreamScans es out err =
     (let stdoutWins = (case scBest out of None \<Rightarrow> False
            | Some i \<Rightarrow> (case scBest err of None \<Rightarrow> True | Some j \<Rightarrow> i \<le> j));
          best = (if stdoutWins then scBest out else scBest err)
      in map_option (\<lambda>i. \<lparr>fmSignature = sigPattern (es ! i), fmStream = (if stdoutWins then Stdout else Stderr),
           fmSource = sigSource (es ! i)\<rparr>) best)"

subsection \<open>The best index of a list of lines\<close>

definition bestOf :: "EffectiveSignature list \<Rightarrow> FatalStream \<Rightarrow> string list \<Rightarrow> nat option" where
  "bestOf es stream ls = List.find (\<lambda>i. \<exists>l \<in> set ls. isDiagnosticLine l \<and> armed es stream l i) [0..<length es]"

text \<open>One line, as \<open>scanPartial\<close> folds it into the best index.\<close>

definition better :: "EffectiveSignature list \<Rightarrow> FatalStream \<Rightarrow> string \<Rightarrow> nat option \<Rightarrow> nat option" where
  "better es stream line best =
     (if isDiagnosticLine line
      then (case List.find (armed es stream line) [0..<(case best of Some i \<Rightarrow> i | None \<Rightarrow> length es)] of Some i \<Rightarrow> Some i | None \<Rightarrow> best)
      else best)"

lemma find_upt_Some: "List.find P [0..<n] = Some i \<longleftrightarrow> i < n \<and> P i \<and> (\<forall>j < i. \<not> P j)"
  by (auto simp: find_Some_iff)

lemma find_upt_None: "List.find P [0..<n] = None \<longleftrightarrow> (\<forall>i < n. \<not> P i)"
  by (auto simp: find_None_iff)

lemma better_find:
  assumes "isDiagnosticLine line"
  shows "better es stream line (List.find P [0..<length es]) = List.find (\<lambda>i. P i \<or> armed es stream line i) [0..<length es]"
proof (cases "List.find P [0..<length es]")
  case None
  then have "\<not> P i" if "i < length es" for i using that by (simp add: find_upt_None)
  then have "List.find (\<lambda>i. P i \<or> armed es stream line i) [0..<length es] = List.find (armed es stream line) [0..<length es]"
    by (intro find_cong) auto
  then show ?thesis using None assms by (simp add: better_def split: option.split)
next
  case (Some k)
  then have k: "k < length es" "P k" "\<And>j. j < k \<Longrightarrow> \<not> P j" by (simp_all add: find_upt_Some)
  show ?thesis
  proof (cases "List.find (armed es stream line) [0..<k]")
    case None
    then have "\<not> armed es stream line i" if "i < k" for i using that by (simp add: find_upt_None)
    then have "List.find (\<lambda>i. P i \<or> armed es stream line i) [0..<length es] = Some k" using k by (simp add: find_upt_Some)
    then show ?thesis using Some None assms by (simp add: better_def)
  next
    case (Some i)
    then have "i < k" "armed es stream line i" "\<forall>j < i. \<not> armed es stream line j" by (simp_all add: find_upt_Some)
    then have "List.find (\<lambda>i. P i \<or> armed es stream line i) [0..<length es] = Some i" using k by (simp add: find_upt_Some)
    then show ?thesis using Some \<open>List.find P _ = Some k\<close> assms by (simp add: better_def)
  qed
qed

lemma better_bestOf: "better es stream line (bestOf es stream ls) = bestOf es stream (ls @ [line])"
proof (cases "isDiagnosticLine line")
  case True
  have "(\<lambda>i. (\<exists>l \<in> set ls. isDiagnosticLine l \<and> armed es stream l i) \<or> armed es stream line i) =
      (\<lambda>i. \<exists>l \<in> set (ls @ [line]). isDiagnosticLine l \<and> armed es stream l i)" using True by auto
  then show ?thesis unfolding bestOf_def better_find [OF True] by simp
next
  case False
  have "(\<lambda>i. \<exists>l \<in> set (ls @ [line]). isDiagnosticLine l \<and> armed es stream l i) = (\<lambda>i. \<exists>l \<in> set ls. isDiagnosticLine l \<and> armed es stream l i)"
    using False by auto
  then show ?thesis using False by (simp add: better_def bestOf_def)
qed

subsection \<open>The scanner and the text so far\<close>

text \<open>The state of the scanner after a text with the given lines, the last one unfinished.\<close>

definition scanned :: "EffectiveSignature list \<Rightarrow> FatalStream \<Rightarrow> string list \<Rightarrow> FatalScanner \<Rightarrow> bool" where
  "scanned es stream ls sc \<longleftrightarrow> scBest sc = bestOf es stream (butlast ls) \<and>
     (if MAX_DIAGNOSTIC_LINE_LENGTH < int (length (last ls)) then scDisqualified sc \<and> scPartial sc = []
      else \<not> scDisqualified sc \<and> scPartial sc = last ls)"

text \<open>Once the first signature has matched nothing can improve the answer, and the scanner may stop.\<close>

definition settled :: "EffectiveSignature list \<Rightarrow> FatalStream \<Rightarrow> string list \<Rightarrow> FatalScanner \<Rightarrow> bool" where
  "settled es stream ls sc \<longleftrightarrow> scBest sc = Some 0 \<and> bestOf es stream (butlast ls) = Some 0"

lemma grow_scanned: "scanned es stream (us @ [l]) sc \<Longrightarrow> scanned es stream (us @ [l @ x]) (growPartial x sc)"
  by (auto simp: scanned_def growPartial_def split: if_splits)

lemma scanPartial_best:
  assumes "scanned es stream (us @ [l]) sc"
  shows "scBest (scanPartial es stream sc) = bestOf es stream (us @ [l])"
proof -
  have "isDiagnosticLine l \<Longrightarrow> \<not> MAX_DIAGNOSTIC_LINE_LENGTH < int (length l)" by (simp add: isDiagnosticLine_def)
  then have "scBest (scanPartial es stream sc) = better es stream l (bestOf es stream us)"
    using assms by (auto simp: scanned_def scanPartial_def better_def isDiagnosticLine_def split: option.splits if_splits)
  then show ?thesis by (simp add: better_bestOf)
qed

lemma line_scanned:
  assumes "scanned es stream (us @ [l]) sc"
  shows "scanned es stream (us @ [l @ x, []]) (cleared (scanPartial es stream (growPartial x sc)))"
  using scanPartial_best [OF grow_scanned [OF assms]]
  by (simp add: scanned_def cleared_def butlast_append MAX_DIAGNOSTIC_LINE_LENGTH_def)

lemma bestOf_zero: "bestOf es stream ls = Some 0 \<Longrightarrow> bestOf es stream (ls @ ks) = Some 0"
  by (auto simp: bestOf_def find_upt_Some)

lemma settled_more: "settled es stream (splitLines t) sc \<Longrightarrow> settled es stream (splitLines (t @ x)) sc"
proof (induction x rule: rev_induct)
  case (snoc c x)
  have "settled es stream (splitLines ((t @ x) @ [c])) sc"
  proof (cases "c = newline")
    case True
    then show ?thesis using snoc bestOf_zero [of es stream "butlast (splitLines (t @ x))" "[last (splitLines (t @ x))]"]
      by (simp add: splitLines_end settled_def del: append_assoc)
  next
    case False
    then have "newline \<notin> set [c]" by simp
    from splitLines_grow [OF this, of "t @ x"] show ?thesis using snoc by (simp add: settled_def del: append_assoc)
  qed
  then show ?case by simp
qed simp

lemma scanLoop_scanned:
  assumes "scanned es stream (splitLines t) sc"
  shows "scanned es stream (splitLines (t @ chunk)) (scanLoop es stream sc chunk) \<or> settled es stream (splitLines (t @ chunk)) (scanLoop es stream sc chunk)"
  using assms
proof (induction es stream sc chunk arbitrary: t rule: scanLoop.induct)
  case (1 es stream sc chunk)
  have s: "scanned es stream (butlast (splitLines t) @ [last (splitLines t)]) sc" using "1.prems" by simp
  show ?case
  proof (cases "newline \<in> set chunk")
    case False
    then have "dropWhile (\<lambda>c. c \<noteq> newline) chunk = []" by (auto simp: dropWhile_eq_Nil_conv)
    then have "scanLoop es stream sc chunk = growPartial chunk sc" by (subst scanLoop.simps) (simp only: list.case)
    then show ?thesis using grow_scanned [OF s, of chunk] by (simp add: splitLines_grow [OF False])
  next
    case True
    let ?x = "takeWhile (\<lambda>c. c \<noteq> newline) chunk"
    let ?sc = "cleared (scanPartial es stream (growPartial ?x sc))"
    obtain r where r: "chunk = ?x @ newline # r" "dropWhile (\<lambda>c. c \<noteq> newline) chunk = newline # r" by (rule first_line [OF True])
    have t: "t @ chunk = (t @ ?x @ [newline]) @ r" using r(1) by simp
    have l: "scanned es stream (splitLines (t @ ?x @ [newline])) ?sc"
      unfolding splitLines_line [OF takeWhile_free] by (rule line_scanned [OF s])
    have loop: "scanLoop es stream sc chunk = (if scBest ?sc = Some 0 then ?sc else scanLoop es stream ?sc r)"
      by (subst scanLoop.simps) (simp add: r(2) Let_def)
    show ?thesis
    proof (cases "scBest ?sc = Some 0")
      case True
      then have "settled es stream (splitLines (t @ ?x @ [newline])) ?sc" using l by (simp add: settled_def scanned_def)
      from settled_more [OF this, of r] show ?thesis unfolding t loop using True by simp
    next
      case False
      show ?thesis unfolding t loop using "1.IH" [OF r(2) refl False l] False by simp
    qed
  qed
qed

definition read_so_far :: "EffectiveSignature list \<Rightarrow> FatalStream \<Rightarrow> string \<Rightarrow> FatalScanner \<Rightarrow> bool" where
  "read_so_far es stream t sc \<longleftrightarrow> scanned es stream (splitLines t) sc \<or> settled es stream (splitLines t) sc"

lemma scanAppend_reads: "read_so_far es stream t sc \<Longrightarrow> read_so_far es stream (t @ c) (scanAppend es stream c sc)"
  using scanLoop_scanned [of es stream t sc c] settled_more [of es stream t sc c]
  by (auto simp: read_so_far_def scanAppend_def settled_def scanned_def)

interpretation scanner: chunk_reader "scanAppend es stream" "read_so_far es stream" by unfold_locales (rule scanAppend_reads)

lemma scanStream_best: "scBest (scanStream es stream chunks) = bestOf es stream (splitLines (concat chunks))"
proof -
  let ?ls = "splitLines (concat chunks)" and ?sc = "fold (scanAppend es stream) chunks newScanner"
  have "read_so_far es stream [] newScanner"
    using find_upt_None [of "\<lambda>i. False" "length es"] by (simp add: read_so_far_def scanned_def newScanner_def bestOf_def MAX_DIAGNOSTIC_LINE_LENGTH_def)
  from scanner.from_start [OF this, of chunks]
  consider "scanned es stream (butlast ?ls @ [last ?ls]) ?sc" | "settled es stream ?ls ?sc" by (auto simp: read_so_far_def)
  then show ?thesis
  proof cases
    case 1
    show ?thesis
    proof (cases "scPartial ?sc = []")
      case True
      then have "\<not> isDiagnosticLine (last ?ls)" using 1 by (auto simp: scanned_def isDiagnosticLine_def split: if_splits)
      then have "bestOf es stream (butlast ?ls @ [last ?ls]) = bestOf es stream (butlast ?ls)"
        using better_bestOf [of es stream "last ?ls" "butlast ?ls"] by (simp add: better_def)
      then show ?thesis using True 1 by (simp add: scanStream_def finalizeScan_def scanned_def)
    next
      case False
      then show ?thesis using scanPartial_best [OF 1] by (simp add: scanStream_def finalizeScan_def cleared_def)
    qed
  next
    case 2
    have "scBest (scanPartial es stream ?sc) = Some 0" using 2 by (simp add: settled_def scanPartial_def)
    moreover have "bestOf es stream (butlast ?ls @ [last ?ls]) = Some 0" using 2 bestOf_zero by (simp only: settled_def)
    ultimately show ?thesis using 2 by (simp add: scanStream_def finalizeScan_def cleared_def settled_def)
  qed
qed

subsection \<open>The two classifications agree\<close>

lemma diagnosticLinesOf_split: "diagnosticLinesOf s = filter isDiagnosticLine (splitLines s)"
proof (induction s rule: diagnosticLinesOf.induct)
  case (1 s)
  let ?x = "takeWhile (\<lambda>c. c \<noteq> newline) s"
  have here: "(if ?x \<noteq> [] \<and> int (length ?x) \<le> MAX_DIAGNOSTIC_LINE_LENGTH \<and> isDiagnosticLine ?x then [?x] else []) = filter isDiagnosticLine [?x]"
    by (auto simp: isDiagnosticLine_def)
  show ?case
  proof (cases "newline \<in> set s")
    case False
    then have "dropWhile (\<lambda>c. c \<noteq> newline) s = []" "?x = s" by (auto simp: dropWhile_eq_Nil_conv takeWhile_eq_all_conv)
    then show ?thesis using here by (subst diagnosticLinesOf.simps) (simp only: Let_def list.case splitLines_free [OF False])
  next
    case True
    obtain r where r: "s = ?x @ newline # r" "dropWhile (\<lambda>c. c \<noteq> newline) s = newline # r" by (rule first_line [OF True])
    have "splitLines s = ?x # splitLines r" using splitLines_append [OF takeWhile_free, of s r] r(1) by simp
    moreover have "diagnosticLinesOf s = filter isDiagnosticLine [?x] @ diagnosticLinesOf r"
      by (subst diagnosticLinesOf.simps) (simp only: r(2) here Let_def list.case)
    ultimately show ?thesis using "1.IH" [OF refl refl r(2)] by simp
  qed
qed

lemma find_upt_Suc: "List.find P [0..<Suc n] = (if P 0 then Some 0 else map_option Suc (List.find (\<lambda>i. P (Suc i)) [0..<n]))"
proof -
  have "[0..<Suc n] = 0 # map Suc [0..<n]" by (simp add: upt_conv_Cons map_Suc_upt del: upt_Suc)
  moreover have "List.find P (map Suc xs) = map_option Suc (List.find (\<lambda>i. P (Suc i)) xs)" for xs by (induction xs) auto
  ultimately show ?thesis by simp
qed

lemma classifyLines_find:
  "classifyLines out err es =
     (let hit = (\<lambda>st ls i. scannedOn (es ! i) st \<and> containsPattern ls (sigPattern (es ! i)))
      in map_option (\<lambda>i. \<lparr>fmSignature = sigPattern (es ! i), fmStream = (if hit Stdout out i then Stdout else Stderr), fmSource = sigSource (es ! i)\<rparr>)
           (List.find (\<lambda>i. hit Stdout out i \<or> hit Stderr err i) [0..<length es]))"
  by (induction es) (auto simp: Let_def find_upt_Suc option.map_comp comp_def simp del: upt_Suc)

lemma bestOf_hit:
  "bestOf es stream ls = List.find (\<lambda>i. scannedOn (es ! i) stream \<and> containsPattern (filter isDiagnosticLine ls) (sigPattern (es ! i))) [0..<length es]"
  by (auto simp: bestOf_def armed_def containsPattern_def list_ex_iff intro!: find_cong)

lemma find_either:
  "List.find (\<lambda>i. P i \<or> Q i) [0..<n] =
     (case (List.find P [0..<n], List.find Q [0..<n]) of
        (None, None) \<Rightarrow> None | (Some i, None) \<Rightarrow> Some i | (None, Some j) \<Rightarrow> Some j | (Some i, Some j) \<Rightarrow> Some (min i j))"
  by (auto simp: find_upt_Some find_upt_None min_def split: option.split)

lemma stream_wins:
  fixes f :: "nat \<Rightarrow> FatalStream \<Rightarrow> 'a"
  shows "(let wins = (case List.find P [0..<n] of None \<Rightarrow> False
            | Some i \<Rightarrow> (case List.find Q [0..<n] of None \<Rightarrow> True | Some j \<Rightarrow> i \<le> j))
      in map_option (\<lambda>i. f i (if wins then Stdout else Stderr)) (if wins then List.find P [0..<n] else List.find Q [0..<n]))
    = map_option (\<lambda>i. f i (if P i then Stdout else Stderr)) (List.find (\<lambda>i. P i \<or> Q i) [0..<n])"
proof -
  have p: "P i" if "List.find P [0..<n] = Some i" for i using that by (simp add: find_upt_Some)
  have q: "\<not> P j" if "List.find P [0..<n] = None" "List.find Q [0..<n] = Some j" for j
    using that by (simp add: find_upt_Some find_upt_None)
  have m: "\<not> P j" if "List.find P [0..<n] = Some i" "j < i" for i j using that by (simp add: find_upt_Some)
  show ?thesis unfolding find_either Let_def
    by (cases "List.find P [0..<n]"; cases "List.find Q [0..<n]") (simp_all add: p q m min_def not_le)
qed

text \<open>
  C37. However the two output streams of a CLI are cut into chunks, the incremental scanners classify them
  as the whole texts are classified: the same signature, the same stream and the same source, or none.
\<close>
theorem incremental_scan_agrees:
  "combineStreamScans es (scanStream es Stdout outs) (scanStream es Stderr errs) = classifyFatal (concat outs) (concat errs) es"
proof -
  let ?P = "\<lambda>i. scannedOn (es ! i) Stdout \<and> containsPattern (diagnosticLinesOf (concat outs)) (sigPattern (es ! i))"
  let ?Q = "\<lambda>i. scannedOn (es ! i) Stderr \<and> containsPattern (diagnosticLinesOf (concat errs)) (sigPattern (es ! i))"
  have o': "scBest (scanStream es Stdout outs) = List.find ?P [0..<length es]"
    and e: "scBest (scanStream es Stderr errs) = List.find ?Q [0..<length es]"
    by (simp_all add: scanStream_best bestOf_hit diagnosticLinesOf_split)
  show ?thesis unfolding classifyFatal_def classifyLines_find Let_def combineStreamScans_def o' e
    by (rule stream_wins [where P = ?P and Q = ?Q and n = "length es" and
        f = "\<lambda>i st. \<lparr>fmSignature = sigPattern (es ! i), fmStream = st, fmSource = sigSource (es ! i)\<rparr>", unfolded Let_def])
qed

end
