(* ===== verification/AuditChain.thy ===== *)
theory AuditChain
  imports Prelude
begin

text \<open>
  The tamper-evident audit log (\<open>src/src/audit/audit-chain.ts\<close>): the digest chain over the serialized
  rows, the cut record a prune leaves, and the walk that verifies a chain.  A text is a list of code
  units below 256 and a file a list of bytes, both \<open>string\<close>.  What the module takes from the platform is
  the argument \<open>P\<close>: \<open>JSON.parse\<close> (\<open>None\<close> when it throws), \<open>JSON.stringify\<close>, UTF-8 decoding, and SHA-256
  in hexadecimal.  A JSON number is an integer; every number the log's rows and cut records carry is one.
\<close>

datatype json =
    JNull | JBool bool | JNum int | JStr string | JArr "json list" | JObj "(string \<times> json) list"

record platform =
  jsonParse :: "string \<Rightarrow> json option"
  jsonText :: "json \<Rightarrow> string"
  decodeUtf8 :: "string \<Rightarrow> string"
  sha256Hex :: "string \<Rightarrow> string"

text \<open>\<open>field k v\<close> is the property read \<open>v.k\<close>, \<open>None\<close> for \<open>undefined\<close>.  Reading a property of \<open>null\<close>
  throws, and the operations below that can do so say it.\<close>

fun field :: "string \<Rightarrow> json \<Rightarrow> json option" where
  "field k (JObj fs) = map_of fs k"
| "field k _ = None"

fun isObject :: "json \<Rightarrow> bool" where
  "isObject (JObj _) = True"
| "isObject (JArr _) = True"
| "isObject _ = False"

fun strOf :: "json option \<Rightarrow> string option" where
  "strOf (Some (JStr s)) = Some s"
| "strOf _ = None"

fun numOf :: "json option \<Rightarrow> int option" where
  "numOf (Some (JNum n)) = Some n"
| "numOf _ = None"

definition numOr0 :: "json option \<Rightarrow> int" where
  "numOr0 v = (case numOf v of None \<Rightarrow> 0 | Some n \<Rightarrow> n)"

definition NL :: char where "NL = CHR 0x0A"

definition AUDIT_CHAIN_GENESIS :: string where "AUDIT_CHAIN_GENESIS = ''genesis''"

text \<open>The UTF-8 encoding of a text of code units below 256.\<close>

fun utf8Unit :: "char \<Rightarrow> string" where
  "utf8Unit c = (let n = of_char c :: nat
                 in if n < 128 then [c] else [char_of (192 + n div 64), char_of (128 + n mod 64)])"

definition utf8Bytes :: "string \<Rightarrow> string" where
  "utf8Bytes t = concat (map utf8Unit t)"

definition digestOf :: "platform \<Rightarrow> string \<Rightarrow> string" where
  "digestOf P line = sha256Hex P (utf8Bytes line)"

subsection \<open>What a prune accumulates over the lines it removes\<close>

record cut_accumulator =
  acFrom :: "string option"
  acTo :: "string option"
  acCount :: int
  acChained :: int
  acLegacy :: int
  acTail :: "string option"

definition createAuditCutAccumulator :: cut_accumulator where
  "createAuditCutAccumulator =
     \<lparr>acFrom = None, acTo = None, acCount = 0, acChained = 0, acLegacy = 0, acTail = None\<rparr>"

datatype row_link = NotAnObject | LegacyRow | LinkedTo string

definition prevDigestOf :: "platform \<Rightarrow> string \<Rightarrow> row_link" where
  "prevDigestOf P trimmed =
     (case jsonParse P trimmed of
        None \<Rightarrow> NotAnObject
      | Some parsed \<Rightarrow>
          if \<not> isObject parsed then NotAnObject
          else (case strOf (field ''prevDigest'' parsed) of None \<Rightarrow> LegacyRow | Some prev \<Rightarrow> LinkedTo prev))"

definition appendCutLine :: "platform \<Rightarrow> cut_accumulator \<Rightarrow> string \<Rightarrow> cut_accumulator" where
  "appendCutLine P acc line =
     (let trimmed = js_trim line
      in if trimmed = [] then acc
         else let counted = acc\<lparr>acCount := acCount acc + 1\<rparr>
              in case prevDigestOf P trimmed of
                   NotAnObject \<Rightarrow> counted
                 | LegacyRow \<Rightarrow> counted\<lparr>acLegacy := acLegacy acc + 1, acTail := Some (digestOf P trimmed)\<rparr>
                 | LinkedTo prev \<Rightarrow>
                     counted\<lparr>acChained := acChained acc + 1,
                             acFrom := (if acFrom acc = None then Some prev else acFrom acc),
                             acTo := Some (digestOf P trimmed)\<rparr>)"

text \<open>The scan of an archive body takes the text up to the next newline until there is none.\<close>

lemma rest_shorter: "x \<in> set xs \<Longrightarrow> \<not> Q x \<Longrightarrow> length (dropWhile Q xs) - Suc 0 < length xs"
  by (cases xs) (auto simp: le_imp_less_Suc intro: le_trans [OF diff_le_self] length_dropWhile_le less_Suc_eq_le [THEN iffD2])

function appendCutText :: "platform \<Rightarrow> cut_accumulator \<Rightarrow> string \<Rightarrow> cut_accumulator" where
  "appendCutText P acc body =
     (let line = takeWhile (\<lambda>c. c \<noteq> NL) body; rest = dropWhile (\<lambda>c. c \<noteq> NL) body;
          acc' = appendCutLine P acc line
      in if rest = [] then acc' else appendCutText P acc' (tl rest))"
  by pat_completeness auto
termination
  by (relation "measure (\<lambda>(P, acc, body). length body)") (auto intro: rest_shorter)

declare appendCutText.simps [simp del]

definition mergeAuditCutAccumulator :: "cut_accumulator \<Rightarrow> cut_accumulator \<Rightarrow> cut_accumulator" where
  "mergeAuditCutAccumulator target nxt =
     \<lparr>acFrom = (if acFrom target = None \<and> acFrom nxt \<noteq> None then acFrom nxt else acFrom target),
      acTo = (if acTo nxt \<noteq> None then acTo nxt else acTo target),
      acCount = acCount target + acCount nxt,
      acChained = acChained target + acChained nxt,
      acLegacy = acLegacy target + acLegacy nxt,
      acTail = (if acTail nxt \<noteq> None then acTail nxt else acTail target)\<rparr>"

subsection \<open>Cut records\<close>

record audit_cut =
  ctAtMs :: int
  ctFrom :: string
  ctTo :: string
  ctCount :: int
  ctChained :: int
  ctLegacy :: int
  ctTail :: "string option"

definition finalizeAuditCutRecord :: "cut_accumulator \<Rightarrow> int \<Rightarrow> audit_cut option" where
  "finalizeAuditCutRecord acc cutAtMs =
     (case (acFrom acc, acTo acc) of
        (Some removedFrom, Some removedTo) \<Rightarrow>
          Some \<lparr>ctAtMs = cutAtMs, ctFrom = removedFrom, ctTo = removedTo, ctCount = acCount acc,
                ctChained = acChained acc, ctLegacy = acLegacy acc,
                ctTail = (if acLegacy acc > 0 then acTail acc else None)\<rparr>
      | _ \<Rightarrow>
          (if acLegacy acc = 0 \<or> acTail acc = None then None
           else Some \<lparr>ctAtMs = cutAtMs, ctFrom = AUDIT_CHAIN_GENESIS, ctTo = AUDIT_CHAIN_GENESIS,
                      ctCount = acCount acc, ctChained = 0, ctLegacy = acLegacy acc, ctTail = acTail acc\<rparr>))"

definition cutRecordFor :: "platform \<Rightarrow> string list \<Rightarrow> int \<Rightarrow> audit_cut option" where
  "cutRecordFor P removedLines cutAtMs =
     finalizeAuditCutRecord (foldl (appendCutLine P) createAuditCutAccumulator removedLines) cutAtMs"

text \<open>The object a cut record is, as \<open>JSON.stringify\<close> sees it.\<close>

definition cutJson :: "audit_cut \<Rightarrow> json" where
  "cutJson c = JObj
     ([(''kind'', JStr ''audit-cut''), (''cutAtMs'', JNum (ctAtMs c)), (''removedFrom'', JStr (ctFrom c)),
       (''removedTo'', JStr (ctTo c)), (''removedCount'', JNum (ctCount c)), (''version'', JNum 2),
       (''removedChained'', JNum (ctChained c)), (''removedLegacy'', JNum (ctLegacy c))]
      @ (case ctTail c of None \<Rightarrow> [] | Some t \<Rightarrow> [(''legacyTail'', JStr t)]))"

definition isAuditCutRecord :: "json \<Rightarrow> bool" where
  "isAuditCutRecord v \<longleftrightarrow>
     isObject v \<and> field ''kind'' v = Some (JStr ''audit-cut'') \<and> numOf (field ''cutAtMs'' v) \<noteq> None
     \<and> strOf (field ''removedFrom'' v) \<noteq> None \<and> strOf (field ''removedTo'' v) \<noteq> None
     \<and> numOf (field ''removedCount'' v) \<noteq> None"

definition isWellFormedVersion2Cut :: "json \<Rightarrow> bool" where
  "isWellFormedVersion2Cut v \<longleftrightarrow>
     numOf (field ''removedChained'' v) \<noteq> None \<and> numOf (field ''removedLegacy'' v) \<noteq> None
     \<and> (if numOf (field ''removedLegacy'' v) = Some 0 then field ''legacyTail'' v = None
        else strOf (field ''legacyTail'' v) \<noteq> None)"

subsection \<open>The walk\<close>

datatype chain_transition = FromGenesis | FromLegacyTail

record chain_source =
  csFile :: string
  csLine :: nat
  csOffset :: nat
  csBytes :: string

record diagnosed_damage =
  ddFile :: string
  ddLine :: nat
  ddByteLength :: nat
  ddDigestPrefix :: string

datatype chain_detail =
    NotValidJson | UnknownCutVersion | CutFieldsMissing | PreFeatureCut
  | CutRangeMismatch string string | PrevDigestMissing | LinkMismatch string string | FirstLinkInvalid string

datatype chain_reason = BrokenLink | Malformed

record chain_report =
  vrEntries :: int
  vrCuts :: nat
  vrUnchainedPrefix :: int
  vrPrunedLegacy :: int
  vrTransition :: "chain_transition option"
  vrDamages :: "diagnosed_damage list"
  vrPrunedThrough :: int
  vrTail :: int
  vrProbe :: "(string \<times> int option) option"

text \<open>A failed verdict names the 1-based index of the first entry that does not verify.\<close>

datatype chain_verdict = ChainOk chain_report | ChainFail chain_reason nat chain_detail

datatype js_throw = TypeError

record walk_state =
  wkExpected :: string
  wkEntries :: int
  wkCuts :: nat
  wkUnchainedPrefix :: int
  wkPrunedLegacy :: int
  wkLegacyTail :: "string option"
  wkTransition :: "chain_transition option"
  wkChainBegun :: bool
  wkDamages :: "diagnosed_damage list"
  wkPrunedThrough :: int
  wkProbeFoundAt :: "int option"

definition walkStart :: walk_state where
  "walkStart = \<lparr>wkExpected = AUDIT_CHAIN_GENESIS, wkEntries = 0, wkCuts = 0, wkUnchainedPrefix = 0,
     wkPrunedLegacy = 0, wkLegacyTail = None, wkTransition = None, wkChainBegun = False, wkDamages = [],
     wkPrunedThrough = 0, wkProbeFoundAt = None\<rparr>"

definition AUDIT_LOG_BASENAME :: string where "AUDIT_LOG_BASENAME = ''audit.log''"
definition AUDIT_CUTS_BASENAME :: string where "AUDIT_CUTS_BASENAME = ''audit.log.cuts''"

text \<open>A line of the walk is its decoded text with the source the caller named for it, if it named one.\<close>

type_synonym chain_item = "string \<times> chain_source option"

definition blankLine :: "string \<Rightarrow> bool" where
  "blankLine raw \<longleftrightarrow> js_trim raw = []"

definition nextRow :: "chain_item list \<Rightarrow> string option" where
  "nextRow rest = (case dropWhile (\<lambda>(body, _). blankLine body) rest of [] \<Rightarrow> None | (body, _) # _ \<Rightarrow> Some body)"

definition itemBytes :: "chain_item \<Rightarrow> string" where
  "itemBytes item = (case snd item of None \<Rightarrow> utf8Bytes (fst item) | Some source \<Rightarrow> csBytes source)"

definition diagnoses :: "platform \<Rightarrow> json \<Rightarrow> string \<Rightarrow> string option \<Rightarrow> bool" where
  "diagnoses P row bytes before \<longleftrightarrow>
     field ''eventType'' row = Some (JStr ''audit-integrity-condition'')
     \<and> (case field ''payload'' row of
           None \<Rightarrow> False
         | Some payload \<Rightarrow>
             isObject payload
             \<and> field ''condition'' payload = Some (JStr ''damaged-tail'')
             \<and> field ''conditionVersion'' payload = Some (JNum 1)
             \<and> field ''byteLength'' payload = Some (JNum (int (length bytes)))
             \<and> field ''digest'' payload = Some (JStr (sha256Hex P bytes)))
     \<and> field ''prevDigest'' row = Some (JStr (case before of None \<Rightarrow> AUDIT_CHAIN_GENESIS | Some d \<Rightarrow> d))"

definition diagnoseDamage ::
    "platform \<Rightarrow> nat \<Rightarrow> chain_item \<Rightarrow> chain_item list \<Rightarrow> string option \<Rightarrow> js_throw + diagnosed_damage option" where
  "diagnoseDamage P index item rest before =
     (case nextRow rest of
        None \<Rightarrow> Inr None
      | Some nxt \<Rightarrow>
          (case jsonParse P (js_trim nxt) of
             None \<Rightarrow> Inr None
           | Some row \<Rightarrow>
               if row = JNull then Inl TypeError
               else if diagnoses P row (itemBytes item) before
               then Inr (Some \<lparr>ddFile = (case snd item of None \<Rightarrow> AUDIT_LOG_BASENAME | Some source \<Rightarrow> csFile source),
                              ddLine = (case snd item of None \<Rightarrow> index + 1 | Some source \<Rightarrow> csLine source),
                              ddByteLength = length (itemBytes item),
                              ddDigestPrefix = take 12 (sha256Hex P (itemBytes item))\<rparr>)
               else Inr None))"

text \<open>One iteration either moves the walk or ends it, with a verdict or with an uncaught throw.\<close>

type_synonym walk_end = "js_throw + chain_verdict"

abbreviation walkFail :: "chain_reason \<Rightarrow> nat \<Rightarrow> chain_detail \<Rightarrow> walk_end + walk_state" where
  "walkFail reason index detail \<equiv> Inl (Inr (ChainFail reason (index + 1) detail))"

definition linkAccepted :: "walk_state \<Rightarrow> string \<Rightarrow> bool" where
  "linkAccepted st d \<longleftrightarrow>
     (if wkChainBegun st then d = wkExpected st else d = AUDIT_CHAIN_GENESIS \<or> wkLegacyTail st = Some d)"

definition beginChain :: "walk_state \<Rightarrow> string \<Rightarrow> walk_state" where
  "beginChain st d =
     (if wkChainBegun st then st
      else st\<lparr>wkChainBegun := True,
              wkTransition := Some (if d = AUDIT_CHAIN_GENESIS then FromGenesis else FromLegacyTail)\<rparr>)"

definition cutVersion :: "json \<Rightarrow> json" where
  "cutVersion v = (case field ''version'' v of None \<Rightarrow> JNum 1 | Some JNull \<Rightarrow> JNum 1 | Some w \<Rightarrow> w)"

definition legacyOnlyCut :: "json \<Rightarrow> bool" where
  "legacyOnlyCut v \<longleftrightarrow>
     numOf (field ''removedChained'' v) = Some 0
     \<and> strOf (field ''removedFrom'' v) = Some AUDIT_CHAIN_GENESIS
     \<and> strOf (field ''removedTo'' v) = Some AUDIT_CHAIN_GENESIS"

definition countCut :: "json \<Rightarrow> walk_state \<Rightarrow> walk_state" where
  "countCut v st =
     (let v2 = (cutVersion v = JNum 2);
          removedLegacy = (if v2 then numOr0 (field ''removedLegacy'' v) else 0);
          counted = st\<lparr>wkCuts := wkCuts st + 1,
                       wkPrunedThrough := wkPrunedThrough st +
                         (if v2 then numOr0 (field ''removedChained'' v) else numOr0 (field ''removedCount'' v))\<rparr>
      in if removedLegacy > 0
         then counted\<lparr>wkPrunedLegacy := wkPrunedLegacy st + removedLegacy,
                      wkLegacyTail := (case strOf (field ''legacyTail'' v) of
                                         None \<Rightarrow> wkLegacyTail st | Some t \<Rightarrow> Some t)\<rparr>
         else counted)"

definition walkCut :: "nat \<Rightarrow> json \<Rightarrow> walk_state \<Rightarrow> walk_end + walk_state" where
  "walkCut index v st =
     (if cutVersion v \<noteq> JNum 1 \<and> cutVersion v \<noteq> JNum 2 then walkFail Malformed index UnknownCutVersion
      else if cutVersion v = JNum 2 \<and> \<not> isWellFormedVersion2Cut v then walkFail Malformed index CutFieldsMissing
      else let st' = countCut v st;
               removedFrom = (case strOf (field ''removedFrom'' v) of None \<Rightarrow> [] | Some d \<Rightarrow> d);
               removedTo = (case strOf (field ''removedTo'' v) of None \<Rightarrow> [] | Some d \<Rightarrow> d)
           in if cutVersion v = JNum 2 \<and> legacyOnlyCut v then Inr st'
              else if \<not> linkAccepted st' removedFrom
              then walkFail BrokenLink index
                     (if \<not> wkChainBegun st' \<and> cutVersion v = JNum 1 then PreFeatureCut
                      else CutRangeMismatch removedFrom
                             (if wkChainBegun st' then wkExpected st' else AUDIT_CHAIN_GENESIS))
              else Inr ((beginChain st' removedFrom)\<lparr>wkExpected := removedTo\<rparr>))"

definition walkRow :: "platform \<Rightarrow> string option \<Rightarrow> nat \<Rightarrow> string \<Rightarrow> json \<Rightarrow> walk_state \<Rightarrow> walk_end + walk_state" where
  "walkRow P probe index trimmed v st =
     (case strOf (field ''prevDigest'' v) of
        None \<Rightarrow>
          if \<not> wkChainBegun st
          then Inr (st\<lparr>wkUnchainedPrefix := wkUnchainedPrefix st + 1,
                       wkLegacyTail := Some (digestOf P trimmed)\<rparr>)
          else walkFail Malformed index PrevDigestMissing
      | Some prev \<Rightarrow>
          if \<not> linkAccepted st prev
          then walkFail BrokenLink index
                 (if wkChainBegun st then LinkMismatch prev (wkExpected st) else FirstLinkInvalid prev)
          else let st1 = beginChain st prev; d = digestOf P trimmed; n = wkEntries st + 1
               in Inr (st1\<lparr>wkExpected := d, wkEntries := n,
                           wkProbeFoundAt := (if wkProbeFoundAt st = None \<and> Some d = probe
                                              then Some (wkPrunedThrough st + n) else wkProbeFoundAt st)\<rparr>))"

definition walkLine ::
    "platform \<Rightarrow> string option \<Rightarrow> nat \<Rightarrow> chain_item \<Rightarrow> chain_item list \<Rightarrow> walk_state \<Rightarrow> walk_end + walk_state" where
  "walkLine P probe index item rest st =
     (let trimmed = js_trim (fst item)
      in if trimmed = [] then Inr st
         else case jsonParse P trimmed of
                None \<Rightarrow>
                  (case diagnoseDamage P index item rest
                          (if wkChainBegun st then Some (wkExpected st) else wkLegacyTail st) of
                     Inl e \<Rightarrow> Inl (Inl e)
                   | Inr (Some damage) \<Rightarrow> Inr (st\<lparr>wkDamages := wkDamages st @ [damage]\<rparr>)
                   | Inr None \<Rightarrow> walkFail Malformed index NotValidJson)
              | Some v \<Rightarrow>
                  if isAuditCutRecord v then walkCut index v st
                  else if v = JNull then Inl (Inl TypeError)
                  else walkRow P probe index trimmed v st)"

fun walkLines ::
    "platform \<Rightarrow> string option \<Rightarrow> nat \<Rightarrow> chain_item list \<Rightarrow> walk_state \<Rightarrow> walk_end + walk_state" where
  "walkLines P probe index [] st = Inr st"
| "walkLines P probe index (item # rest) st =
     then_ok (walkLine P probe index item rest st) (walkLines P probe (index + 1) rest)"

definition chainReport :: "string option \<Rightarrow> walk_state \<Rightarrow> chain_report" where
  "chainReport probe st =
     \<lparr>vrEntries = wkEntries st, vrCuts = wkCuts st, vrUnchainedPrefix = wkUnchainedPrefix st,
      vrPrunedLegacy = wkPrunedLegacy st, vrTransition = wkTransition st, vrDamages = wkDamages st,
      vrPrunedThrough = wkPrunedThrough st, vrTail = wkPrunedThrough st + wkEntries st,
      vrProbe = (case probe of None \<Rightarrow> None | Some d \<Rightarrow> Some (d, wkProbeFoundAt st))\<rparr>"

definition chainItems :: "string list \<Rightarrow> chain_source list option \<Rightarrow> chain_item list" where
  "chainItems lines sources =
     map (\<lambda>(i, raw). (raw, case sources of
                             None \<Rightarrow> None
                           | Some ss \<Rightarrow> if i < length ss then Some (ss ! i) else None))
       (enumerate 0 lines)"

definition walkVerdict :: "string option \<Rightarrow> walk_end + walk_state \<Rightarrow> walk_end" where
  "walkVerdict probe r = (case r of Inl e \<Rightarrow> e | Inr st \<Rightarrow> Inr (ChainOk (chainReport probe st)))"

definition verifyChain ::
    "platform \<Rightarrow> string list \<Rightarrow> chain_source list option \<Rightarrow> string option \<Rightarrow> js_throw + chain_verdict" where
  "verifyChain P lines sources probe =
     walkVerdict probe (walkLines P probe 0 (chainItems lines sources) walkStart)"

end
