(* ===== verification/AuditWalk.thy ===== *)
theory AuditWalk
  imports AuditChain
begin

text \<open>
  What the audit chain's walk establishes: it reads a log in parts, a prune with its cut record leaves
  the verdict where it was, and a head digest at its position determines every row before it.
\<close>

subsection \<open>The walk in parts\<close>

fun walkPart ::
    "platform \<Rightarrow> string option \<Rightarrow> nat \<Rightarrow> chain_item list \<Rightarrow> chain_item list \<Rightarrow> walk_state \<Rightarrow> walk_end + walk_state" where
  "walkPart P probe index [] after st = Inr st"
| "walkPart P probe index (item # rest) after st =
     then_ok (walkLine P probe index item (rest @ after) st) (walkPart P probe (index + 1) rest after)"

lemma walkLines_parts:
  "walkLines P probe index (xs @ ys) =
     (\<lambda>st. then_ok (walkPart P probe index xs ys st) (walkLines P probe (index + length xs) ys))"
proof (induction xs arbitrary: index)
  case (Cons x xs)
  show ?case by (rule ext) (simp add: Cons then_ok_assoc)
qed simp

lemma walkPart_Nil: "walkPart P probe index xs [] = walkLines P probe index xs"
proof (induction xs arbitrary: index)
  case (Cons x xs)
  show ?case by (rule ext) (simp add: Cons)
qed (simp add: fun_eq_iff)

lemma walkPart_append:
  "walkPart P probe index (xs @ ys) zs =
     (\<lambda>st. then_ok (walkPart P probe index xs (ys @ zs) st) (walkPart P probe (index + length xs) ys zs))"
proof (induction xs arbitrary: index)
  case (Cons x xs)
  show ?case by (rule ext) (simp add: Cons then_ok_assoc)
qed simp

definition parsedLine :: "platform \<Rightarrow> chain_item \<Rightarrow> bool" where
  "parsedLine P item \<longleftrightarrow> blankLine (fst item) \<or> jsonParse P (js_trim (fst item)) \<noteq> None"

lemma walkLine_rest:
  "parsedLine P item \<Longrightarrow> walkLine P probe index item rest st = walkLine P probe index item rest' st"
  by (auto simp: walkLine_def parsedLine_def blankLine_def Let_def split: option.splits)

lemma nextRow_append: "nextRow xs \<noteq> None \<Longrightarrow> nextRow (xs @ ys) = nextRow xs"
  by (induction xs) (auto simp: nextRow_def split: if_splits)

lemma walkLine_next:
  assumes "nextRow rest = nextRow rest'"
  shows "walkLine P probe index item rest st = walkLine P probe index item rest' st"
proof -
  have "diagnoseDamage P index item rest = diagnoseDamage P index item rest'"
    by (simp add: fun_eq_iff diagnoseDamage_def assms)
  then show ?thesis unfolding walkLine_def by (rule ssubst) (rule refl)
qed

lemma walkPart_parsed:
  "\<forall>x\<in>set xs. parsedLine P x \<Longrightarrow> walkPart P probe index xs after st = walkPart P probe index xs after' st"
proof (induction xs arbitrary: index st)
  case (Cons x xs)
  then have "walkLine P probe index x (xs @ after) st = walkLine P probe index x (xs @ after') st"
    using walkLine_rest by (metis list.set_intros(1))
  moreover have "walkPart P probe (index + 1) xs after = walkPart P probe (index + 1) xs after'"
    using Cons by fastforce
  ultimately show ?case by simp
qed simp

lemma walkLine_ok_rest:
  assumes w: "walkLine P probe index item rest st = Inr s"
  shows "walkLine P probe index item (rest @ ys) st = Inr s"
proof (cases "parsedLine P item")
  case True
  with walkLine_rest w show ?thesis by metis
next
  case False
  with w have "nextRow rest \<noteq> None"
    by (auto simp: walkLine_def parsedLine_def blankLine_def diagnoseDamage_def split: option.splits sum.splits)
  with walkLine_next [OF nextRow_append] w show ?thesis by metis
qed

lemma walkPart_ok: "walkLines P probe index xs st = Inr s \<Longrightarrow> walkPart P probe index xs ys st = Inr s"
proof (induction xs arbitrary: index st)
  case (Cons x xs)
  then obtain s1 where "walkLine P probe index x xs st = Inr s1" "walkLines P probe (index + 1) xs s1 = Inr s"
    by (auto simp: then_ok_Inr_iff)
  with Cons.IH walkLine_ok_rest show ?case by fastforce
qed simp

lemma walkLines_append_ok:
  "walkLines P probe index xs st = Inr s \<Longrightarrow>
     walkLines P probe index (xs @ ys) st = walkLines P probe (index + length xs) ys s"
  by (simp add: walkLines_parts walkPart_ok)

subsection \<open>States the rest of the walk cannot tell apart\<close>

definition sameLink :: "walk_state \<Rightarrow> walk_state \<Rightarrow> bool" where
  "sameLink a b \<longleftrightarrow>
     wkChainBegun a = wkChainBegun b
     \<and> (if wkChainBegun a then wkExpected a = wkExpected b else wkLegacyTail a = wkLegacyTail b)
     \<and> wkTransition a = wkTransition b
     \<and> wkPrunedThrough a + wkEntries a = wkPrunedThrough b + wkEntries b
     \<and> wkUnchainedPrefix a + wkPrunedLegacy a = wkUnchainedPrefix b + wkPrunedLegacy b"

lemma sameLink_refl [simp]: "sameLink a a"
  by (simp add: sameLink_def)

lemma sameLink_sym: "sameLink a b \<Longrightarrow> sameLink b a"
  by (auto simp: sameLink_def split: if_splits)

lemma sameLink_accepted: "sameLink a b \<Longrightarrow> linkAccepted a d = linkAccepted b d"
  by (auto simp: sameLink_def linkAccepted_def split: if_splits)

lemma sameLink_countCut: "sameLink a b \<Longrightarrow> sameLink (countCut v a) (countCut v b)"
  by (auto simp: sameLink_def countCut_def Let_def split: option.splits if_splits)

lemma sameLink_begin: "sameLink a b \<Longrightarrow> sameLink ((beginChain a d)\<lparr>wkExpected := e\<rparr>) ((beginChain b d)\<lparr>wkExpected := e\<rparr>)"
  by (auto simp: sameLink_def beginChain_def split: if_splits)

lemma sameLink_walkCut:
  assumes "sameLink a b" "walkCut n v a = Inr a'"
  shows "\<exists>b'. walkCut m v b = Inr b' \<and> sameLink a' b'"
proof -
  note s = sameLink_countCut [OF assms(1), of v]
  show ?thesis
    using assms(2) sameLink_accepted [OF s] s sameLink_begin [OF s]
    by (auto simp: walkCut_def Let_def split: if_splits)
qed

lemma sameLink_walkRow:
  assumes "sameLink a b" "walkRow P probe n t v a = Inr a'"
  shows "\<exists>b'. walkRow P probe' m t v b = Inr b' \<and> sameLink a' b'"
  using assms sameLink_accepted [OF assms(1)]
  by (auto simp: walkRow_def Let_def sameLink_def beginChain_def split: option.splits if_splits)

text \<open>Two items read alike when their texts and bytes agree, wherever they come from.\<close>

definition sameItem :: "chain_item \<Rightarrow> chain_item \<Rightarrow> bool" where
  "sameItem x y \<longleftrightarrow> fst x = fst y \<and> itemBytes x = itemBytes y"

lemma sameItem_refl [simp]: "sameItem x x"
  by (simp add: sameItem_def)

lemma diagnoses_same:
  assumes "sameItem x y" "nextRow rest = nextRow rest'" "diagnoseDamage P n x rest before = Inr (Some d)"
  shows "\<exists>d'. diagnoseDamage P m y rest' before = Inr (Some d')"
  using assms by (auto simp: diagnoseDamage_def sameItem_def split: option.splits if_splits)

lemma sameLink_walkItem:
  assumes ab: "sameLink a b" and w: "walkLine P probe n x rest a = Inr a'"
    and it: "sameItem x y" "nextRow rest = nextRow rest'"
  shows "\<exists>b'. walkLine P probe' m y rest' b = Inr b' \<and> sameLink a' b'"
proof -
  have before: "(if wkChainBegun a then Some (wkExpected a) else wkLegacyTail a) =
                (if wkChainBegun b then Some (wkExpected b) else wkLegacyTail b)"
    using ab by (auto simp: sameLink_def split: if_splits)
  have body: "fst y = fst x" using it(1) by (simp add: sameItem_def)
  show ?thesis
  proof (cases "js_trim (fst x) = []")
    case True
    with ab w body show ?thesis by (simp add: walkLine_def)
  next
    case False
    show ?thesis
    proof (cases "jsonParse P (js_trim (fst x))")
      case None
      with False w obtain d where
        d: "diagnoseDamage P n x rest (if wkChainBegun b then Some (wkExpected b) else wkLegacyTail b) = Inr (Some d)"
        and a': "a' = a\<lparr>wkDamages := wkDamages a @ [d]\<rparr>"
        by (auto simp: walkLine_def before split: sum.splits option.splits)
      from diagnoses_same [OF it d] obtain d' where
        "diagnoseDamage P m y rest' (if wkChainBegun b then Some (wkExpected b) else wkLegacyTail b) = Inr (Some d')"
        by blast
      with None False a' ab body show ?thesis
        by (auto simp: walkLine_def sameLink_def)
    next
      case (Some v)
      with False w body sameLink_walkCut [OF ab] sameLink_walkRow [OF ab] show ?thesis
        by (auto simp: walkLine_def split: if_splits)
    qed
  qed
qed

lemmas sameLink_walkLine = sameLink_walkItem [OF _ _ sameItem_refl refl]

lemma sameLink_walkLines:
  "sameLink a b \<Longrightarrow> walkLines P probe n xs a = Inr a' \<Longrightarrow>
     \<exists>b'. walkLines P probe' m xs b = Inr b' \<and> sameLink a' b'"
proof (induction xs arbitrary: a b n m)
  case (Cons x xs)
  then obtain a1 where a1: "walkLine P probe n x xs a = Inr a1" "walkLines P probe (n + 1) xs a1 = Inr a'"
    by (auto simp: then_ok_Inr_iff)
  from sameLink_walkLine [OF Cons.prems(1) a1(1)] obtain b1 where
    "walkLine P probe' m x xs b = Inr b1" "sameLink a1 b1" by blast
  with Cons.IH [OF _ a1(2)] show ?case by auto
qed auto

subsection \<open>Blank lines are not part of the chain\<close>

definition shownItems :: "chain_item list \<Rightarrow> chain_item list" where
  "shownItems xs = filter (\<lambda>x. \<not> blankLine (fst x)) xs"

lemma shownItems_append [simp]: "shownItems (xs @ ys) = shownItems xs @ shownItems ys"
  by (simp add: shownItems_def)

lemma nextRow_shown: "nextRow xs = (case shownItems xs of [] \<Rightarrow> None | x # _ \<Rightarrow> Some (fst x))"
  by (induction xs) (auto simp: nextRow_def shownItems_def)

lemma walkLine_blank: "blankLine (fst x) \<Longrightarrow> walkLine P probe n x rest st = Inr st"
  by (simp add: walkLine_def blankLine_def)

lemma shown_same:
  "list_all2 sameItem (shownItems xs) ys \<Longrightarrow> shownItems ys = ys"
  "list_all2 sameItem ys (shownItems xs) \<Longrightarrow> shownItems ys = ys"
proof (induction xs arbitrary: ys)
  case (Cons x xs)
  { case 1 with Cons.IH(1) show ?case
      by (cases "blankLine (fst x)") (auto simp: shownItems_def list_all2_Cons1 sameItem_def)
  next
    case 2 with Cons.IH(2) show ?case
      by (cases "blankLine (fst x)") (auto simp: shownItems_def list_all2_Cons2 sameItem_def) }
qed (auto simp: shownItems_def)

lemma walkLines_shown:
  "walkLines P probe n xs a = Inr a' \<Longrightarrow> sameLink a b \<Longrightarrow> list_all2 sameItem (shownItems xs) ys \<Longrightarrow>
     \<exists>b'. walkLines P probe' m ys b = Inr b' \<and> sameLink a' b'"
proof (induction xs arbitrary: a b n m ys)
  case (Cons x xs)
  from Cons.prems(1) obtain a1 where
    a1: "walkLine P probe n x xs a = Inr a1" "walkLines P probe (n + 1) xs a1 = Inr a'"
    by (auto simp: then_ok_Inr_iff)
  show ?case
  proof (cases "blankLine (fst x)")
    case True
    with a1 Cons.prems Cons.IH [OF a1(2)] show ?thesis by (simp add: walkLine_blank shownItems_def)
  next
    case False
    with Cons.prems(3) obtain y ys' where
      ys: "ys = y # ys'" "sameItem x y" "list_all2 sameItem (shownItems xs) ys'"
      by (auto simp: shownItems_def list_all2_Cons1)
    have "shownItems ys' = ys'" using shown_same ys(3) by blast
    then have "nextRow xs = nextRow ys'"
      using ys(3) by (auto simp: nextRow_shown sameItem_def list_all2_Cons1 list_all2_Cons2 split: list.splits)
    from sameLink_walkItem [OF Cons.prems(2) a1(1) ys(2) this] obtain b1 where
      "walkLine P probe' m y ys' b = Inr b1" "sameLink a1 b1" by blast
    with Cons.IH [OF a1(2) _ ys(3)] ys(1) show ?thesis by auto
  qed
qed (auto simp: shownItems_def)

lemma walkLines_hidden:
  "walkLines P probe n ys b = Inr b' \<Longrightarrow> sameLink b a \<Longrightarrow> list_all2 sameItem ys (shownItems xs) \<Longrightarrow>
     \<exists>a'. walkLines P probe' m xs a = Inr a' \<and> sameLink b' a'"
proof (induction xs arbitrary: a b n m ys)
  case (Cons x xs)
  show ?case
  proof (cases "blankLine (fst x)")
    case True
    with Cons.prems Cons.IH [OF Cons.prems(1,2)] show ?thesis by (simp add: walkLine_blank shownItems_def)
  next
    case False
    with Cons.prems(3) obtain y ys' where
      ys: "ys = y # ys'" "sameItem y x" "list_all2 sameItem ys' (shownItems xs)"
      by (auto simp: shownItems_def list_all2_Cons2)
    from Cons.prems(1) ys(1) obtain b1 where
      b1: "walkLine P probe n y ys' b = Inr b1" "walkLines P probe (n + 1) ys' b1 = Inr b'"
      by (auto simp: then_ok_Inr_iff)
    have "shownItems ys' = ys'" using shown_same ys(3) by blast
    then have "nextRow ys' = nextRow xs"
      using ys(3) by (auto simp: nextRow_shown sameItem_def list_all2_Cons1 list_all2_Cons2 split: list.splits)
    from sameLink_walkItem [OF Cons.prems(2) b1(1) ys(2) this] obtain a1 where
      "walkLine P probe' m x xs a = Inr a1" "sameLink b1 a1" by blast
    with Cons.IH [OF b1(2) _ ys(3)] show ?thesis by auto
  qed
qed (auto simp: shownItems_def)

subsection \<open>What a prune's accumulator knows of the range it removed\<close>

definition archivedRow :: "platform \<Rightarrow> string \<Rightarrow> bool" where
  "archivedRow P body \<longleftrightarrow>
     (case jsonParse P (js_trim body) of None \<Rightarrow> True | Some v \<Rightarrow> isObject v \<and> \<not> isAuditCutRecord v)"

definition removedCounts :: "walk_state \<Rightarrow> cut_accumulator \<Rightarrow> walk_state \<Rightarrow> bool" where
  "removedCounts s0 acc s \<longleftrightarrow>
     wkPrunedThrough s = wkPrunedThrough s0 \<and> wkPrunedLegacy s = wkPrunedLegacy s0
     \<and> wkEntries s = wkEntries s0 + acChained acc
     \<and> wkUnchainedPrefix s = wkUnchainedPrefix s0 + acLegacy acc
     \<and> 0 \<le> acLegacy acc \<and> 0 \<le> acChained acc
     \<and> (wkChainBegun s0 \<longrightarrow> acLegacy acc = 0)
     \<and> wkLegacyTail s = (if acLegacy acc = 0 then wkLegacyTail s0 else acTail acc)
     \<and> (acLegacy acc = 0) = (acTail acc = None)
     \<and> (acFrom acc = None) = (acTo acc = None)
     \<and> (acFrom acc = None) = (acChained acc = 0)"

definition removedLinks :: "walk_state \<Rightarrow> cut_accumulator \<Rightarrow> walk_state \<Rightarrow> bool" where
  "removedLinks s0 acc s \<longleftrightarrow>
     (acFrom acc = None \<longrightarrow>
        wkChainBegun s = wkChainBegun s0 \<and> wkTransition s = wkTransition s0 \<and> wkExpected s = wkExpected s0)
     \<and> (\<forall>f. acFrom acc = Some f \<longrightarrow>
           wkChainBegun s \<and> acTo acc = Some (wkExpected s)
           \<and> (wkChainBegun s0 \<longrightarrow> f = wkExpected s0 \<and> wkTransition s = wkTransition s0)
           \<and> (\<not> wkChainBegun s0 \<longrightarrow>
                (f = AUDIT_CHAIN_GENESIS \<or> wkLegacyTail s = Some f)
                \<and> wkTransition s = Some (if f = AUDIT_CHAIN_GENESIS then FromGenesis else FromLegacyTail)))"

definition removedRange :: "walk_state \<Rightarrow> cut_accumulator \<Rightarrow> walk_state \<Rightarrow> bool" where
  "removedRange s0 acc s \<longleftrightarrow> removedCounts s0 acc s \<and> removedLinks s0 acc s"

lemmas removed_defs = removedRange_def removedCounts_def removedLinks_def

lemma removedRange_start: "removedRange s createAuditCutAccumulator s"
  by (simp add: removed_defs createAuditCutAccumulator_def)

lemma removedRange_legacy:
  assumes "removedRange s0 acc s" "\<not> wkChainBegun s"
    "s' = s\<lparr>wkUnchainedPrefix := wkUnchainedPrefix s + 1, wkLegacyTail := Some d\<rparr>"
    "acc' = acc\<lparr>acCount := k, acLegacy := acLegacy acc + 1, acTail := Some d\<rparr>"
  shows "removedRange s0 acc' s'"
proof -
  have none: "acFrom acc = None" using assms(1,2) by (cases "acFrom acc") (auto simp: removed_defs)
  with assms show ?thesis by (simp add: removed_defs)
qed

lemma removedRange_linked:
  assumes r: "removedRange s0 acc s" and ok: "linkAccepted s prev"
    and s': "s' = (beginChain s prev)\<lparr>wkExpected := d, wkEntries := wkEntries s + 1, wkProbeFoundAt := p\<rparr>"
    and a': "acc' = acc\<lparr>acCount := k, acChained := acChained acc + 1,
                       acFrom := (if acFrom acc = None then Some prev else acFrom acc), acTo := Some d\<rparr>"
  shows "removedRange s0 acc' s'"
proof (cases "acFrom acc")
  case None
  with r ok s' a' show ?thesis
    by (cases "wkChainBegun s0") (auto simp: removed_defs linkAccepted_def beginChain_def)
next
  case (Some f)
  then have b: "wkChainBegun s" using r by (simp add: removed_defs)
  have bs: "beginChain s prev = s" using b by (simp add: beginChain_def)
  have counts: "removedCounts s0 acc' s'"
    using r Some by (simp add: removedRange_def removedCounts_def s' a' bs)
  have links: "removedLinks s0 acc' s'"
    using r Some b unfolding removedRange_def removedLinks_def s' a' bs by simp
  show ?thesis using counts links by (simp add: removedRange_def)
qed

lemma removedRange_row:
  assumes "removedRange s0 acc s" "walkRow P probe n t v s = Inr s'"
    "jsonParse P t = Some v" "isObject v" "js_trim line = t" "t \<noteq> []"
  shows "removedRange s0 (appendCutLine P acc line) s'"
proof (cases "strOf (field ''prevDigest'' v)")
  case None
  with assms have "\<not> wkChainBegun s"
    "s' = s\<lparr>wkUnchainedPrefix := wkUnchainedPrefix s + 1, wkLegacyTail := Some (digestOf P t)\<rparr>"
    by (auto simp: walkRow_def split: if_splits)
  from removedRange_legacy [OF assms(1) this refl] None assms show ?thesis
    by (simp add: appendCutLine_def prevDigestOf_def)
next
  case (Some prev)
  with assms(2) have "linkAccepted s prev" by (auto simp: walkRow_def split: if_splits)
  with Some assms(2) obtain p where
    "s' = (beginChain s prev)\<lparr>wkExpected := digestOf P t, wkEntries := wkEntries s + 1, wkProbeFoundAt := p\<rparr>"
    by (auto simp: walkRow_def Let_def)
  from removedRange_linked [OF assms(1) \<open>linkAccepted s prev\<close> this refl] Some assms show ?thesis
    by (simp add: appendCutLine_def prevDigestOf_def)
qed

lemma removedRange_damage:
  "removedRange s0 acc s \<Longrightarrow> removedRange s0 (acc\<lparr>acCount := k\<rparr>) (s\<lparr>wkDamages := ds\<rparr>)"
proof -
  have "removedCounts s0 (acc\<lparr>acCount := k\<rparr>) (s\<lparr>wkDamages := ds\<rparr>) = removedCounts s0 acc s"
    by (simp add: removedCounts_def)
  moreover have "removedLinks s0 (acc\<lparr>acCount := k\<rparr>) (s\<lparr>wkDamages := ds\<rparr>) = removedLinks s0 acc s"
    by (simp add: removedLinks_def)
  ultimately show "removedRange s0 acc s \<Longrightarrow> ?thesis" by (simp add: removedRange_def)
qed

lemma removedRange_line:
  assumes "removedRange s0 acc s" "walkLine P probe n item rest s = Inr s'" "archivedRow P (fst item)"
  shows "removedRange s0 (appendCutLine P acc (fst item)) s'"
proof (cases "js_trim (fst item) = []")
  case True
  with assms show ?thesis by (simp add: walkLine_def appendCutLine_def)
next
  case ne: False
  show ?thesis
  proof (cases "jsonParse P (js_trim (fst item))")
    case None
    with ne assms(2) obtain d where "s' = s\<lparr>wkDamages := wkDamages s @ [d]\<rparr>"
      by (auto simp: walkLine_def split: sum.splits option.splits)
    with removedRange_damage [OF assms(1)] None ne show ?thesis
      by (simp add: appendCutLine_def prevDigestOf_def)
  next
    case (Some v)
    with assms(3) have v: "isObject v" "\<not> isAuditCutRecord v" by (simp_all add: archivedRow_def)
    then have "v \<noteq> JNull" by auto
    with Some v ne assms(2) have "walkRow P probe n (js_trim (fst item)) v s = Inr s'"
      by (simp add: walkLine_def)
    with removedRange_row assms(1) Some v ne show ?thesis by blast
  qed
qed

lemma removedRange_part:
  "removedRange s0 acc s \<Longrightarrow> walkPart P probe n xs after s = Inr s' \<Longrightarrow> \<forall>x\<in>set xs. archivedRow P (fst x) \<Longrightarrow>
     removedRange s0 (foldl (appendCutLine P) acc (map fst xs)) s'"
proof (induction xs arbitrary: n acc s)
  case (Cons x xs)
  then obtain s1 where s1: "walkLine P probe n x (xs @ after) s = Inr s1"
    "walkPart P probe (n + 1) xs after s1 = Inr s'"
    by (auto simp: then_ok_Inr_iff)
  have "removedRange s0 (appendCutLine P acc (fst x)) s1"
    using removedRange_line [OF Cons.prems(1) s1(1)] Cons.prems(3) by simp
  from Cons.IH [OF this s1(2)] Cons.prems(3) show ?case by simp
qed simp

subsection \<open>Applying the cut record moves the walk as the removed rows did\<close>

lemma cutJson_fields:
  "isAuditCutRecord (cutJson c)" "cutVersion (cutJson c) = JNum 2"
  "strOf (field ''removedFrom'' (cutJson c)) = Some (ctFrom c)"
  "strOf (field ''removedTo'' (cutJson c)) = Some (ctTo c)"
  "numOf (field ''removedChained'' (cutJson c)) = Some (ctChained c)"
  "numOf (field ''removedLegacy'' (cutJson c)) = Some (ctLegacy c)"
  "strOf (field ''legacyTail'' (cutJson c)) = ctTail c"
  "field ''legacyTail'' (cutJson c) = map_option JStr (ctTail c)"
  by (simp_all add: cutJson_def isAuditCutRecord_def cutVersion_def map_add_def split: option.splits)

lemma countCut_cutJson:
  "countCut (cutJson c) st =
     st\<lparr>wkCuts := wkCuts st + 1, wkPrunedThrough := wkPrunedThrough st + ctChained c,
        wkPrunedLegacy := wkPrunedLegacy st + (if ctLegacy c > 0 then ctLegacy c else 0),
        wkLegacyTail := (if ctLegacy c > 0 \<and> ctTail c \<noteq> None then ctTail c else wkLegacyTail st)\<rparr>"
  by (auto simp: countCut_def Let_def cutJson_fields numOr0_def split: option.splits)

lemma finalize_legacy_only:
  assumes "removedCounts s0 acc s" "acFrom acc = None" "finalizeAuditCutRecord acc cutAt = Some c"
  shows "ctChained c = 0 \<and> ctFrom c = AUDIT_CHAIN_GENESIS \<and> ctTo c = AUDIT_CHAIN_GENESIS
     \<and> ctLegacy c = acLegacy acc \<and> ctTail c = acTail acc \<and> acLegacy acc > 0 \<and> acTail acc \<noteq> None
     \<and> acChained acc = 0"
proof -
  from assms(2,3) have "\<not> (acLegacy acc = 0 \<or> acTail acc = None)"
    by (auto simp: finalizeAuditCutRecord_def split: if_splits)
  with assms show ?thesis by (auto simp: finalizeAuditCutRecord_def removedCounts_def)
qed

lemma finalize_chained:
  assumes "acFrom acc = Some f" "acTo acc = Some t" "finalizeAuditCutRecord acc cutAt = Some c"
  shows "ctChained c = acChained acc" "ctFrom c = f" "ctTo c = t" "ctLegacy c = acLegacy acc"
    "ctTail c = (if acLegacy acc > 0 then acTail acc else None)"
  using assms by (auto simp: finalizeAuditCutRecord_def)

lemma cut_same_link_legacy:
  assumes r: "removedRange s0 acc s" and c: "finalizeAuditCutRecord acc cutAt = Some c" and none: "acFrom acc = None"
  shows "walkCut n (cutJson c) s0 = Inr (countCut (cutJson c) s0) \<and> sameLink s (countCut (cutJson c) s0)"
proof -
  have counts: "removedCounts s0 acc s" and links: "removedLinks s0 acc s" using r by (simp_all add: removedRange_def)
  note c' = finalize_legacy_only [OF counts none c]
  have "walkCut n (cutJson c) s0 = Inr (countCut (cutJson c) s0)"
    using c' by (auto simp: walkCut_def cutJson_fields isWellFormedVersion2Cut_def legacyOnlyCut_def)
  moreover have "sameLink s (countCut (cutJson c) s0)"
    using c' counts links none
    by (simp add: sameLink_def countCut_cutJson removedCounts_def removedLinks_def)
  ultimately show ?thesis by blast
qed

lemma cut_same_link_chained:
  assumes r: "removedRange s0 acc s" and c: "finalizeAuditCutRecord acc cutAt = Some c" and some: "acFrom acc = Some f"
  shows "\<exists>s'. walkCut n (cutJson c) s0 = Inr s' \<and> sameLink s s'"
proof -
  have counts: "removedCounts s0 acc s" and links: "removedLinks s0 acc s" using r by (simp_all add: removedRange_def)
  have t: "acTo acc = Some (wkExpected s)" and b: "wkChainBegun s" using links some by (simp_all add: removedLinks_def)
  note c' = finalize_chained [OF some t c]
  let ?s1 = "countCut (cutJson c) s0"
  have tl: "acLegacy acc > 0 \<Longrightarrow> acTail acc \<noteq> None" "0 \<le> acLegacy acc" and pos: "acChained acc \<noteq> 0"
    using counts some by (auto simp: removedCounts_def)
  have wf: "isWellFormedVersion2Cut (cutJson c)"
    using tl c' by (auto simp: isWellFormedVersion2Cut_def cutJson_fields)
  have lo: "\<not> legacyOnlyCut (cutJson c)" using pos c' by (simp add: legacyOnlyCut_def cutJson_fields)
  have tail: "wkLegacyTail ?s1 = wkLegacyTail s" and bg: "wkChainBegun ?s1 = wkChainBegun s0"
    and ex: "wkExpected ?s1 = wkExpected s0" and tr: "wkTransition ?s1 = wkTransition s0"
    using counts c' tl by (auto simp: countCut_cutJson removedCounts_def)
  have ok: "linkAccepted ?s1 f"
    using links some tail bg ex by (auto simp: linkAccepted_def removedLinks_def)
  have w: "walkCut n (cutJson c) s0 = Inr ((beginChain ?s1 f)\<lparr>wkExpected := wkExpected s\<rparr>)"
    using wf lo ok c' by (simp add: walkCut_def cutJson_fields)
  have num: "wkPrunedThrough s + wkEntries s = wkPrunedThrough ?s1 + wkEntries ?s1"
    "wkUnchainedPrefix s + wkPrunedLegacy s = wkUnchainedPrefix ?s1 + wkPrunedLegacy ?s1"
    using counts c' by (auto simp: countCut_cutJson removedCounts_def)
  have "sameLink s ((beginChain ?s1 f)\<lparr>wkExpected := wkExpected s\<rparr>)"
    using links some b bg tr num by (cases "wkChainBegun s0") (auto simp: sameLink_def beginChain_def removedLinks_def)
  with w show ?thesis by blast
qed

lemma cut_same_link:
  "removedRange s0 acc s \<Longrightarrow> finalizeAuditCutRecord acc cutAt = Some c \<Longrightarrow>
     \<exists>s'. walkCut n (cutJson c) s0 = Inr s' \<and> sameLink s s'"
  using cut_same_link_legacy cut_same_link_chained by (cases "acFrom acc") blast+

lemma no_cut_same_link:
  assumes "removedRange s0 acc s" "finalizeAuditCutRecord acc cutAt = None"
  shows "sameLink s s0"
proof -
  have counts: "removedCounts s0 acc s" and links: "removedLinks s0 acc s" using assms(1) by (simp_all add: removedRange_def)
  have none: "acFrom acc = None" using assms(2) counts
    by (cases "acFrom acc") (auto simp: finalizeAuditCutRecord_def removedCounts_def)
  then have "acLegacy acc = 0" "acChained acc = 0"
    using assms(2) counts by (auto simp: finalizeAuditCutRecord_def removedCounts_def split: if_splits)
  with none counts links show ?thesis by (simp add: sameLink_def removedCounts_def removedLinks_def)
qed

lemma sameLink_trans: "sameLink a b \<Longrightarrow> sameLink b c \<Longrightarrow> sameLink a c"
  by (auto simp: sameLink_def split: if_splits)

definition cutLine :: "platform \<Rightarrow> audit_cut \<Rightarrow> string \<Rightarrow> bool" where
  "cutLine P c line \<longleftrightarrow> js_trim line \<noteq> [] \<and> jsonParse P (js_trim line) = Some (cutJson c)"

lemma walkLine_cut: "cutLine P c (fst item) \<Longrightarrow> walkLine P probe n item rest st = walkCut n (cutJson c) st"
  by (simp add: walkLine_def cutLine_def cutJson_fields)

text \<open>Pruning \<open>xs\<close> from behind the cut records \<open>cs\<close>.\<close>

definition cutFor :: "platform \<Rightarrow> string list \<Rightarrow> int \<Rightarrow> string list \<Rightarrow> bool" where
  "cutFor P removed cutAt ls \<longleftrightarrow>
     (case cutRecordFor P removed cutAt of None \<Rightarrow> ls = [] | Some c \<Rightarrow> length ls = 1 \<and> cutLine P c (hd ls))"

lemma walk_cut_for:
  assumes rr: "removedRange s1 (foldl (appendCutLine P) createAuditCutAccumulator (map fst xs)) s2"
    and l1: "sameLink s1 s1'" and cut: "cutFor P (map fst xs) cutAt (map fst ls)"
  shows "\<exists>s2'. walkPart P probe m ls ys s1' = Inr s2' \<and> sameLink s2 s2'"
proof (cases "cutRecordFor P (map fst xs) cutAt")
  case None
  with cut have "ls = []" by (simp add: cutFor_def)
  moreover have "sameLink s2 s1" using no_cut_same_link [OF rr] None by (simp add: cutRecordFor_def)
  ultimately show ?thesis using sameLink_trans [OF _ l1] by simp
next
  case (Some c)
  with cut obtain l where l: "ls = [l]" "cutLine P c (fst l)" by (cases ls) (auto simp: cutFor_def)
  from cut_same_link [OF rr] Some obtain t where
    t: "walkCut m (cutJson c) s1 = Inr t" "sameLink s2 t"
    unfolding cutRecordFor_def by blast
  from sameLink_walkCut [OF l1 t(1)] obtain t' where
    "walkCut m (cutJson c) s1' = Inr t'" "sameLink t t'" by blast
  with l sameLink_trans [OF t(2)] show ?thesis by (simp add: walkLine_cut)
qed

lemma walk_pruned:
  assumes w: "walkLines P probe n (cs @ xs @ ys) s0 = Inr s"
    and cs: "\<forall>x\<in>set cs. parsedLine P x" and xs: "\<forall>x\<in>set xs. archivedRow P (fst x)"
    and cut: "cutFor P (map fst xs) cutAt (map fst ls)"
  shows "\<exists>s'. walkLines P probe' m (cs @ ls @ ys) s0 = Inr s' \<and> sameLink s s'"
proof -
  from w obtain s1 s2 where s1: "walkPart P probe n cs (xs @ ys) s0 = Inr s1"
    and s2: "walkPart P probe (n + length cs) xs ys s1 = Inr s2"
    and s: "walkLines P probe (n + length cs + length xs) ys s2 = Inr s"
    by (auto simp: walkLines_parts then_ok_Inr_iff add.assoc)
  have cs': "walkLines P probe n cs s0 = Inr s1"
    using s1 walkPart_parsed [OF cs] walkPart_Nil by metis
  from sameLink_walkLines [OF sameLink_refl cs', of probe' m] obtain s1' where
    c1: "walkLines P probe' m cs s0 = Inr s1'" and l1: "sameLink s1 s1'" by blast
  have p1: "walkPart P probe' m cs (ls @ ys) s0 = Inr s1'"
    using c1 walkPart_parsed [OF cs] walkPart_Nil by metis
  have rr: "removedRange s1 (foldl (appendCutLine P) createAuditCutAccumulator (map fst xs)) s2"
    using removedRange_part [OF removedRange_start s2 xs] .
  from walk_cut_for [OF rr l1 cut] obtain s2' where
    s2': "walkPart P probe' (m + length cs) ls ys s1' = Inr s2'" "sameLink s2 s2'" by blast
  from sameLink_walkLines [OF s2'(2) s, of probe' "m + length cs + length ls"] obtain s' where
    "walkLines P probe' (m + length cs + length ls) ys s2' = Inr s'" "sameLink s s'" by blast
  moreover from this(1) have "walkLines P probe' m (cs @ ls @ ys) s0 = Inr s'"
    using p1 s2' by (simp add: walkLines_parts add.assoc)
  ultimately show ?thesis by blast
qed

subsection \<open>Accumulating archive by archive\<close>

fun splitNl :: "string \<Rightarrow> string list" where
  "splitNl [] = [[]]"
| "splitNl (c # cs) = (if c = NL then [] # splitNl cs else (c # hd (splitNl cs)) # tl (splitNl cs))"

lemma splitNl_ne [simp]: "splitNl body \<noteq> []"
  by (induction body) auto

lemma splitNl_append: "splitNl (a @ NL # b) = splitNl a @ splitNl b"
  by (induction a) auto

lemma splitNl_line [simp]: "NL \<notin> set a \<Longrightarrow> splitNl a = [a]"
  by (induction a) auto

lemma splitNl_step:
  "splitNl body = takeWhile (\<lambda>c. c \<noteq> NL) body #
     (if dropWhile (\<lambda>c. c \<noteq> NL) body = [] then [] else splitNl (tl (dropWhile (\<lambda>c. c \<noteq> NL) body)))"
  by (induction body) auto

lemma appendCutText_lines: "appendCutText P acc body = foldl (appendCutLine P) acc (splitNl body)"
proof (induction P acc body rule: appendCutText.induct)
  case (1 P acc body)
  let ?l = "takeWhile (\<lambda>c. c \<noteq> NL) body" and ?r = "dropWhile (\<lambda>c. c \<noteq> NL) body"
  show ?case
  proof (cases "?r = []")
    case True
    then show ?thesis
      by (subst appendCutText.simps, subst splitNl_step) (simp only: Let_def foldl.simps if_True)
  next
    case False
    then have "appendCutText P (appendCutLine P acc ?l) (tl ?r) =
        foldl (appendCutLine P) (appendCutLine P acc ?l) (splitNl (tl ?r))"
      using 1 [OF refl refl refl] by simp
    with False show ?thesis
      by (subst appendCutText.simps, subst splitNl_step) (simp only: Let_def foldl.simps if_False)
  qed
qed

lemma appendCutLine_merge:
  "mergeAuditCutAccumulator a (appendCutLine P acc line) = appendCutLine P (mergeAuditCutAccumulator a acc) line"
  by (cases "js_trim line = []"; cases "prevDigestOf P (js_trim line)"; cases "acFrom a"; cases "acFrom acc")
    (simp_all add: appendCutLine_def mergeAuditCutAccumulator_def)

lemma foldl_appendCutLine_merge:
  "mergeAuditCutAccumulator a (foldl (appendCutLine P) acc ls) = foldl (appendCutLine P) (mergeAuditCutAccumulator a acc) ls"
  by (induction ls arbitrary: acc) (simp_all add: appendCutLine_merge)

lemma merge_empty [simp]: "mergeAuditCutAccumulator a createAuditCutAccumulator = a"
  by (simp add: mergeAuditCutAccumulator_def createAuditCutAccumulator_def)

lemma merged_bodies:
  "foldl mergeAuditCutAccumulator acc (map (appendCutText P createAuditCutAccumulator) bodies) =
     foldl (appendCutLine P) acc (concat (map splitNl bodies))"
  by (induction bodies arbitrary: acc) (simp_all add: appendCutText_lines foldl_appendCutLine_merge del: appendCutText.simps)

subsection \<open>Clean logs: rows only, linked from genesis\<close>

fun rowPrev :: "platform \<Rightarrow> string \<Rightarrow> string option" where
  "rowPrev P t = (case jsonParse P t of None \<Rightarrow> None | Some v \<Rightarrow> strOf (field ''prevDigest'' v))"

fun linkedFrom :: "platform \<Rightarrow> string \<Rightarrow> string list \<Rightarrow> bool" where
  "linkedFrom P d [] = True"
| "linkedFrom P d (t # ts) = (rowPrev P t = Some d \<and> linkedFrom P (digestOf P t) ts)"

definition chainRows :: "string list \<Rightarrow> string list" where
  "chainRows lines = filter (\<lambda>t. t \<noteq> []) (map js_trim lines)"

lemma chainRows_Nil [simp]: "chainRows [] = []"
  by (simp add: chainRows_def)

lemma chainRows_Cons [simp]:
  "chainRows (l # ls) = (if js_trim l = [] then chainRows ls else js_trim l # chainRows ls)"
  by (simp add: chainRows_def)

definition cleanWalk :: "walk_state \<Rightarrow> bool" where
  "cleanWalk st \<longleftrightarrow> wkCuts st = 0 \<and> wkUnchainedPrefix st = 0 \<and> wkDamages st = []"

definition cleanStart :: "walk_state \<Rightarrow> bool" where
  "cleanStart st \<longleftrightarrow> cleanWalk st \<and> wkPrunedThrough st = 0
     \<and> (\<not> wkChainBegun st \<longrightarrow> wkLegacyTail st = None \<and> wkExpected st = AUDIT_CHAIN_GENESIS)"

text \<open>The first position, counted from \<open>n\<close>, of a row whose digest is the probe.\<close>

fun probeAt :: "platform \<Rightarrow> string option \<Rightarrow> int \<Rightarrow> string list \<Rightarrow> int option" where
  "probeAt P probe n [] = None"
| "probeAt P probe n (t # ts) = (if Some (digestOf P t) = probe then Some (n + 1) else probeAt P probe (n + 1) ts)"

lemma walkCut_cuts: "walkCut n v st = Inr st' \<Longrightarrow> wkCuts st' \<noteq> 0"
  by (auto simp: walkCut_def countCut_def beginChain_def Let_def split: if_splits option.splits)

lemma cuts_mono: "walkLine P probe n item rest st = Inr st' \<Longrightarrow> cleanWalk st' \<Longrightarrow> 0 \<le> wkUnchainedPrefix st \<Longrightarrow>
    cleanWalk st \<and> 0 \<le> wkUnchainedPrefix st'"
  by (auto simp: walkLine_def walkRow_def beginChain_def cleanWalk_def Let_def
      dest: walkCut_cuts split: if_splits option.splits sum.splits)

lemma unchained_mono: "walkLine P probe n item rest st = Inr st' \<Longrightarrow> wkUnchainedPrefix st \<le> wkUnchainedPrefix st'"
  by (auto simp: walkLine_def walkRow_def walkCut_def countCut_def beginChain_def Let_def
      split: if_splits option.splits sum.splits)

lemma walkLines_clean:
  "walkLines P probe n xs st = Inr st' \<Longrightarrow> cleanWalk st' \<Longrightarrow> 0 \<le> wkUnchainedPrefix st \<Longrightarrow> cleanWalk st"
proof (induction xs arbitrary: n st)
  case (Cons x xs)
  then obtain s1 where s1: "walkLine P probe n x xs st = Inr s1" "walkLines P probe (n + 1) xs s1 = Inr st'"
    by (auto simp: then_ok_Inr_iff)
  have "0 \<le> wkUnchainedPrefix s1" using unchained_mono [OF s1(1)] Cons.prems(3) by simp
  with Cons.IH [OF s1(2)] Cons.prems have "cleanWalk s1" by simp
  with cuts_mono [OF s1(1)] Cons.prems(3) show ?case by simp
qed simp

lemma clean_line:
  assumes w: "walkLine P probe n item rest st = Inr s1" and c: "cleanWalk s1" and st: "cleanStart st"
    and ne: "js_trim (fst item) \<noteq> []"
  shows "cleanStart s1 \<and> wkChainBegun s1 \<and> rowPrev P (js_trim (fst item)) = Some (wkExpected st)
    \<and> wkExpected s1 = digestOf P (js_trim (fst item)) \<and> wkEntries s1 = wkEntries st + 1
    \<and> wkProbeFoundAt s1 = (if wkProbeFoundAt st = None \<and> Some (wkExpected s1) = probe
                           then Some (wkEntries s1) else wkProbeFoundAt st)"
proof (cases "jsonParse P (js_trim (fst item))")
  case None
  with ne w c show ?thesis by (auto simp: walkLine_def cleanWalk_def split: sum.splits option.splits)
next
  case (Some v)
  have "\<not> isAuditCutRecord v" using w c ne Some walkCut_cuts [of n v st s1] by (auto simp: walkLine_def cleanWalk_def)
  with Some ne w have r: "walkRow P probe n (js_trim (fst item)) v st = Inr s1"
    by (auto simp: walkLine_def split: if_splits)
  with c st obtain prev where prev: "strOf (field ''prevDigest'' v) = Some prev"
    by (cases "strOf (field ''prevDigest'' v)")
      (auto simp: walkRow_def cleanWalk_def cleanStart_def split: if_splits)
  with r have "linkAccepted st prev" by (auto simp: walkRow_def split: if_splits)
  with st have pe: "prev = wkExpected st"
    by (auto simp: linkAccepted_def cleanStart_def split: if_splits)
  show ?thesis using r prev pe st Some c
    by (auto simp: walkRow_def Let_def beginChain_def cleanStart_def cleanWalk_def split: if_splits)
qed

lemma clean_walk_linked:
  "walkLines P probe n xs st = Inr st' \<Longrightarrow> cleanWalk st' \<Longrightarrow> cleanStart st \<Longrightarrow>
     linkedFrom P (wkExpected st) (chainRows (map fst xs))
     \<and> wkProbeFoundAt st' = (case wkProbeFoundAt st of
          Some p \<Rightarrow> Some p | None \<Rightarrow> probeAt P probe (wkEntries st) (chainRows (map fst xs)))
     \<and> wkPrunedThrough st' = 0"
proof (induction xs arbitrary: n st)
  case (Cons x xs)
  then obtain s1 where s1: "walkLine P probe n x xs st = Inr s1" "walkLines P probe (n + 1) xs s1 = Inr st'"
    by (auto simp: then_ok_Inr_iff)
  show ?case
  proof (cases "js_trim (fst x) = []")
    case True
    with s1 have "s1 = st" by (simp add: walkLine_def)
    with Cons s1 True show ?thesis by (cases "wkProbeFoundAt st") auto
  next
    case False
    have "0 \<le> wkUnchainedPrefix s1"
      using unchained_mono [OF s1(1)] Cons.prems(3) by (simp add: cleanStart_def cleanWalk_def)
    then have "cleanWalk s1" using walkLines_clean [OF s1(2) Cons.prems(2)] by simp
    note cl = clean_line [OF s1(1) this Cons.prems(3) False]
    with Cons.IH [OF s1(2) Cons.prems(2)] False show ?thesis
      by (cases "wkProbeFoundAt st") auto
  qed
qed (auto simp: cleanStart_def split: option.splits)

lemma probeAt_nth:
  "probeAt P (Some d) n ts = Some p \<Longrightarrow>
     n < p \<and> nat (p - n) \<le> length ts \<and> digestOf P (ts ! (nat (p - n) - 1)) = d"
proof (induction ts arbitrary: n)
  case (Cons t ts)
  show ?case
  proof (cases "digestOf P t = d")
    case True
    with Cons.prems show ?thesis by auto
  next
    case False
    with Cons have "n + 1 < p" "nat (p - (n + 1)) \<le> length ts" "digestOf P (ts ! (nat (p - (n + 1)) - 1)) = d"
      by auto
    moreover have "nat (p - n) - 1 = Suc (nat (p - (n + 1)) - 1)" using \<open>n + 1 < p\<close> by simp
    ultimately show ?thesis by simp
  qed
qed simp

lemma linked_nth:
  "linkedFrom P e ts \<Longrightarrow> Suc i < length ts \<Longrightarrow> rowPrev P (ts ! Suc i) = Some (digestOf P (ts ! i))"
proof (induction ts arbitrary: e i)
  case (Cons t ts)
  then show ?case by (cases i; cases ts) auto
qed simp

lemma linked_take:
  assumes "linkedFrom P e us" "linkedFrom P f vs" "inj_on (digestOf P) (set us \<union> set vs)"
    "k < length us" "k < length vs" "digestOf P (us ! k) = digestOf P (vs ! k)"
  shows "take (Suc k) us = take (Suc k) vs"
  using assms(4-6)
proof (induction k)
  case 0
  then have "us ! 0 = vs ! 0" using assms(3) by (metis UnCI inj_onD nth_mem)
  with 0 show ?case by (cases us; cases vs) auto
next
  case (Suc k)
  then have eq: "us ! Suc k = vs ! Suc k" using assms(3) by (metis UnCI inj_onD nth_mem)
  have "digestOf P (us ! k) = digestOf P (vs ! k)"
    using linked_nth [OF assms(1) Suc.prems(1)] linked_nth [OF assms(2) Suc.prems(2)] eq by simp
  with Suc have "take (Suc k) us = take (Suc k) vs" by simp
  with eq Suc.prems show ?case by (simp add: take_Suc_conv_app_nth)
qed

subsection \<open>The verdict\<close>

lemma chainItems_texts [simp]: "map fst (chainItems lines sources) = lines"
  by (rule nth_equalityI) (auto simp: chainItems_def nth_enumerate_eq)

lemma chainItems_plain: "chainItems lines None = map (\<lambda>l. (l, None)) lines"
  by (rule nth_equalityI) (auto simp: chainItems_def nth_enumerate_eq)

lemma verifyChain_ok:
  "verifyChain P lines sources probe = Inr (ChainOk r) \<longleftrightarrow>
     (\<exists>st. walkLines P probe 0 (chainItems lines sources) walkStart = Inr st \<and> r = chainReport probe st)"
  if "\<And>e. walkLines P probe 0 (chainItems lines sources) walkStart \<noteq> Inl (Inr (ChainOk e))"
  using that by (auto simp: verifyChain_def walkVerdict_def split: sum.splits)

lemma walkLine_no_ok: "walkLine P probe n item rest st \<noteq> Inl (Inr (ChainOk e))"
proof -
  have "walkCut n v st \<noteq> Inl (Inr (ChainOk e))" for v
    by (simp add: walkCut_def Let_def)
  moreover have "walkRow P probe n t v st \<noteq> Inl (Inr (ChainOk e))" for t v
    by (simp add: walkRow_def Let_def split: option.split)
  ultimately show ?thesis
    by (cases "js_trim (fst item) = []"; cases "jsonParse P (js_trim (fst item))")
      (auto simp: walkLine_def split: option.split sum.split)
qed

lemma walkLines_no_ok: "walkLines P probe n xs st \<noteq> Inl (Inr (ChainOk e))"
proof (induction xs arbitrary: n st)
  case (Cons x xs)
  then show ?case using walkLine_no_ok by (auto simp: then_ok_Inl_iff)
qed simp

lemmas verdict_ok = verifyChain_ok [OF walkLines_no_ok]

text \<open>A platform to apply the theorems at: three rows in a table, a digest that is the row itself.\<close>

definition demoRow :: "string \<Rightarrow> json" where
  "demoRow prev = JObj [(''eventType'', JStr ''phase''), (''prevDigest'', JStr prev)]"

definition demoPlatform :: platform where
  "demoPlatform =
     \<lparr>jsonParse = (\<lambda>t. if t = ''{a}'' then Some (demoRow ''genesis'')
                       else if t = ''{b}'' then Some (demoRow ''{a}'')
                       else if t = ''{c}'' then Some (demoRow ''{b}'')
                       else if t = ''{cut}''
                       then Some (cutJson \<lparr>ctAtMs = 9, ctFrom = ''genesis'', ctTo = ''{b}'', ctCount = 2,
                                          ctChained = 2, ctLegacy = 0, ctTail = None\<rparr>)
                       else None),
      jsonText = (\<lambda>v. []), decodeUtf8 = (\<lambda>b. b), sha256Hex = (\<lambda>b. b)\<rparr>"

text \<open>C13. A prune that writes the cut record of the lines it removes leaves the verdict where it was:
  a log that verifies still verifies, ends at the same chain position, entered the chain the same way,
  and reports the same amount of history that the chain does not cover.\<close>

theorem prune_keeps_verdict:
  assumes "verifyChain P (cuts @ removed @ kept) None probe = Inr (ChainOk r)"
    and "\<forall>l\<in>set cuts. blankLine l \<or> jsonParse P (js_trim l) \<noteq> None"
    and "\<forall>l\<in>set removed. archivedRow P l"
    and "cutFor P removed cutAt ls"
  shows "\<exists>r'. verifyChain P (cuts @ ls @ kept) None probe = Inr (ChainOk r')
      \<and> vrTail r' = vrTail r \<and> vrTransition r' = vrTransition r
      \<and> vrUnchainedPrefix r' + vrPrunedLegacy r' = vrUnchainedPrefix r + vrPrunedLegacy r"
proof -
  let ?i = "map (\<lambda>l :: string. (l, None :: chain_source option))"
  from assms(1) obtain st where
    st: "walkLines P probe 0 (?i cuts @ ?i removed @ ?i kept) walkStart = Inr st" "r = chainReport probe st"
    by (auto simp: verdict_ok chainItems_plain)
  have "\<exists>s'. walkLines P probe 0 (?i cuts @ ?i ls @ ?i kept) walkStart = Inr s' \<and> sameLink st s'"
    by (rule walk_pruned [OF st(1), where cutAt = cutAt])
      (use assms(2-4) in \<open>auto simp: parsedLine_def comp_def\<close>)
  then show ?thesis
    using st(2) by (auto simp: verdict_ok chainItems_plain chainReport_def sameLink_def)
qed

theorem prune_keeps_verdict_witness:
  "\<exists>r'. verifyChain demoPlatform ([] @ [''{cut}''] @ [''{c}'']) None None = Inr (ChainOk r') \<and> vrTail r' = 3"
proof -
  have v: "verifyChain demoPlatform ([] @ [''{a}'', ''{b}''] @ [''{c}'']) None None =
      Inr (ChainOk \<lparr>vrEntries = 3, vrCuts = 0, vrUnchainedPrefix = 0, vrPrunedLegacy = 0,
        vrTransition = Some FromGenesis, vrDamages = [], vrPrunedThrough = 0, vrTail = 3, vrProbe = None\<rparr>)"
    by code_simp
  have rows: "\<forall>l\<in>set [''{a}'', ''{b}'']. archivedRow demoPlatform l" by code_simp
  have cut: "cutFor demoPlatform [''{a}'', ''{b}''] 9 [''{cut}'']" by code_simp
  from prune_keeps_verdict [OF v _ rows cut] show ?thesis by auto
qed

text \<open>A head digest found at its chain position pins the history before it.\<close>

lemma clean_not_pruned:
  assumes "verifyChain P xs sx probe = Inr (ChainOk rx)" "vrCuts rx = 0" "vrUnchainedPrefix rx = 0" "vrDamages rx = []"
  shows "vrPrunedThrough rx = 0"
proof -
  have start: "cleanStart walkStart" by (simp add: cleanStart_def cleanWalk_def walkStart_def)
  from assms(1) obtain a where a: "walkLines P probe 0 (chainItems xs sx) walkStart = Inr a" "rx = chainReport probe a"
    by (auto simp: verdict_ok)
  then have "cleanWalk a" using assms by (simp add: cleanWalk_def chainReport_def)
  from clean_walk_linked [OF a(1) this start] a(2) show ?thesis by (simp add: chainReport_def)
qed

lemma checkpoint_pins_history:
  assumes "verifyChain P xs sx (Some d) = Inr (ChainOk rx)" "verifyChain P ys sy (Some d) = Inr (ChainOk ry)"
    and "vrCuts rx = 0" "vrUnchainedPrefix rx = 0" "vrDamages rx = []"
    and "vrCuts ry = 0" "vrUnchainedPrefix ry = 0" "vrDamages ry = []"
    and "vrProbe rx = Some (d, Some p)" "vrProbe ry = Some (d, Some p)"
    and "inj_on (digestOf P) (set (chainRows xs) \<union> set (chainRows ys))"
  shows "0 < p \<and> nat p \<le> length (chainRows xs) \<and> take (nat p) (chainRows xs) = take (nat p) (chainRows ys)"
proof -
  have start: "cleanStart walkStart" by (simp add: cleanStart_def cleanWalk_def walkStart_def)
  have e0: "wkExpected walkStart = AUDIT_CHAIN_GENESIS" "wkEntries walkStart = 0" "wkProbeFoundAt walkStart = None"
    by (simp_all add: walkStart_def)
  from assms(1) obtain a where a: "walkLines P (Some d) 0 (chainItems xs sx) walkStart = Inr a" "rx = chainReport (Some d) a"
    by (auto simp: verdict_ok)
  from assms(2) obtain b where b: "walkLines P (Some d) 0 (chainItems ys sy) walkStart = Inr b" "ry = chainReport (Some d) b"
    by (auto simp: verdict_ok)
  have ca: "cleanWalk a" and cb: "cleanWalk b" using assms a b by (simp_all add: cleanWalk_def chainReport_def)
  have la: "linkedFrom P AUDIT_CHAIN_GENESIS (chainRows xs)" and pa: "probeAt P (Some d) 0 (chainRows xs) = Some p"
    using clean_walk_linked [OF a(1) ca start] assms(9) a(2) by (simp_all add: e0 chainReport_def)
  have lb: "linkedFrom P AUDIT_CHAIN_GENESIS (chainRows ys)" and pb: "probeAt P (Some d) 0 (chainRows ys) = Some p"
    using clean_walk_linked [OF b(1) cb start] assms(10) b(2) by (simp_all add: e0 chainReport_def)
  note na = probeAt_nth [OF pa] and nb = probeAt_nth [OF pb]
  then have "take (Suc (nat p - 1)) (chainRows xs) = take (Suc (nat p - 1)) (chainRows ys)"
    by (intro linked_take [OF la lb assms(11)]) auto
  moreover have "Suc (nat p - 1) = nat p" using na by simp
  ultimately show ?thesis using na by simp
qed

text \<open>The retention sweep reads each archive into its own accumulator and merges them oldest first; the
  cut record it then writes is the one of all the removed lines in order.\<close>

theorem merged_cut_record:
  "finalizeAuditCutRecord
     (foldl mergeAuditCutAccumulator createAuditCutAccumulator
        (map (appendCutText P createAuditCutAccumulator) bodies)) cutAt
   = cutRecordFor P (concat (map splitNl bodies)) cutAt"
  by (simp add: cutRecordFor_def merged_bodies)

lemma walkLine_undiagnosed:
  assumes "jsonParse P (js_trim (fst x)) = None" "js_trim (fst x) \<noteq> []"
    "jsonParse P (js_trim (fst y)) = None" "js_trim (fst y) \<noteq> []"
  shows "walkLine P probe n x (y # rest) st = Inl (Inr (ChainFail Malformed (n + 1) NotValidJson))"
proof -
  have "nextRow (y # rest) = Some (fst y)" using assms(4) by (simp add: nextRow_shown shownItems_def blankLine_def)
  with assms show ?thesis by (simp add: walkLine_def diagnoseDamage_def)
qed

text \<open>C38. Two damaged lines next to each other never verify, whatever follows them: the diagnosis of a
  damaged line has to be the very next row.\<close>

theorem adjacent_damage_never_verifies:
  assumes "jsonParse P (js_trim f) = None" "js_trim f \<noteq> []" "jsonParse P (js_trim g) = None" "js_trim g \<noteq> []"
  shows "verifyChain P (xs @ f # g # ys) None probe \<noteq> Inr (ChainOk r)"
proof
  assume "verifyChain P (xs @ f # g # ys) None probe = Inr (ChainOk r)"
  then obtain s st where "walkLines P probe (length xs) (map (\<lambda>l. (l, None)) (f # g # ys)) s = Inr st"
    by (auto simp: verdict_ok chainItems_plain walkLines_parts then_ok_Inr_iff)
  then show False using walkLine_undiagnosed [of P "(f, None)" "(g, None)"] assms by simp
qed

theorem adjacent_damage_never_verifies_witness:
  "\<forall>r. verifyChain demoPlatform ([''{a}''] @ ''{b'' # ''{c'' # []) None None \<noteq> Inr (ChainOk r)"
proof -
  have "jsonParse demoPlatform (js_trim ''{b'') = None" "jsonParse demoPlatform (js_trim ''{c'') = None"
    "js_trim ''{b'' \<noteq> []" "js_trim ''{c'' \<noteq> []" by code_simp+
  then show ?thesis using adjacent_damage_never_verifies [of demoPlatform "''{b''" "''{c''"] by blast
qed

text \<open>A line that is the JSON value \<open>null\<close> is no verdict at all: the walk reads a property of it and
  throws.\<close>

theorem null_line_throws:
  assumes "verifyChain P xs None probe = Inr (ChainOk r)" "jsonParse P (js_trim l) = Some JNull" "js_trim l \<noteq> []"
  shows "verifyChain P (xs @ l # ys) None probe = Inl TypeError"
proof -
  from assms(1) obtain st where "walkLines P probe 0 (map (\<lambda>l. (l, None)) xs) walkStart = Inr st"
    by (auto simp: verdict_ok chainItems_plain)
  then show ?thesis using assms(2,3)
    by (simp add: verifyChain_def chainItems_plain walkLines_append_ok walkLine_def isAuditCutRecord_def walkVerdict_def)
qed

theorem null_line_throws_witness:
  "\<forall>ys. verifyChain (demoPlatform\<lparr>jsonParse := (\<lambda>t. Some JNull)\<rparr>) ([] @ ''null'' # ys) None None = Inl TypeError"
proof -
  let ?P = "demoPlatform\<lparr>jsonParse := (\<lambda>t. Some JNull)\<rparr>"
  have v: "\<exists>r. verifyChain ?P [] None None = Inr (ChainOk r)"
    by (simp add: verifyChain_def chainItems_def walkVerdict_def)
  have "js_trim ''null'' \<noteq> []" by code_simp
  with v null_line_throws [of ?P "[]" None _ "''null''"] show ?thesis by auto
qed

end
