(* ===== verification/AuditFiles.thy ===== *)
theory AuditFiles
  imports AuditWalk "HOL-Library.List_Lexorder"
begin

text \<open>
  Reading the chain off disk (\<open>src/src/audit/audit-chain.ts\<close>, second half): which files make it up and in
  what order, their lines as bytes, the verification of one audit directory, and the last line of the
  chain with the link the next row must carry.  A directory is the list of its entries with their bytes;
  an empty list stands for a directory that is not there.
\<close>

subsection \<open>Definitions\<close>

definition stampDigit :: "char \<Rightarrow> bool" where
  "stampDigit c \<longleftrightarrow> c \<in> set ''0123456789''"

definition stampHex :: "char \<Rightarrow> bool" where
  "stampHex c \<longleftrightarrow> c \<in> set ''0123456789abcdef''"

text \<open>\<open>ARCHIVE_STAMP_RE\<close>: eight digits, a hyphen, six digits, and optionally a hyphen, three digits, a
  hyphen and eight hexadecimal digits.\<close>

definition archiveStamp :: "string \<Rightarrow> bool" where
  "archiveStamp s \<longleftrightarrow>
     (length s = 15 \<or> length s = 28)
     \<and> list_all stampDigit (take 8 s) \<and> s ! 8 = CHR ''-'' \<and> list_all stampDigit (take 6 (drop 9 s))
     \<and> (length s = 28 \<longrightarrow> s ! 15 = CHR ''-'' \<and> list_all stampDigit (take 3 (drop 16 s))
          \<and> s ! 19 = CHR ''-'' \<and> list_all stampHex (drop 20 s))"

record chain_files =
  cfOrdered :: "string list"
  cfUnrecognized :: "string list"

definition stampOf :: "string \<Rightarrow> string" where
  "stampOf name = drop (length AUDIT_LOG_BASENAME + 1) name"

definition collectChainFiles :: "string list \<Rightarrow> chain_files option" where
  "collectChainFiles entries =
     (let names = filter (\<lambda>name. take (length AUDIT_LOG_BASENAME) name = AUDIT_LOG_BASENAME) entries;
          others = filter (\<lambda>name. name \<noteq> AUDIT_LOG_BASENAME \<and> name \<noteq> AUDIT_CUTS_BASENAME) names;
          stamped = sort_key stampOf (filter (\<lambda>name. archiveStamp (stampOf name)) others)
      in if names = [] then None
         else Some \<lparr>cfOrdered =
                      (if AUDIT_CUTS_BASENAME \<in> set names then [AUDIT_CUTS_BASENAME] else [])
                      @ stamped
                      @ (if AUDIT_LOG_BASENAME \<in> set names then [AUDIT_LOG_BASENAME] else []),
                    cfUnrecognized = filter (\<lambda>name. \<not> archiveStamp (stampOf name)) others\<rparr>)"

type_synonym audit_dir = "(string \<times> string) list"

definition fileBytes :: "audit_dir \<Rightarrow> string \<Rightarrow> string" where
  "fileBytes dir name = (case map_of dir name of None \<Rightarrow> [] | Some b \<Rightarrow> b)"

function splitChainFrom :: "string \<Rightarrow> nat \<Rightarrow> nat \<Rightarrow> string \<Rightarrow> chain_source list" where
  "splitChainFrom file line start content =
     (let bytes = takeWhile (\<lambda>c. c \<noteq> NL) content; rest = dropWhile (\<lambda>c. c \<noteq> NL) content;
          source = \<lparr>csFile = file, csLine = line, csOffset = start, csBytes = bytes\<rparr>
      in if rest = [] then [source]
         else source # splitChainFrom file (line + 1) (start + length bytes + 1) (tl rest))"
  by pat_completeness auto
termination
  by (relation "measure (\<lambda>(file, line, start, content). length content)") (auto intro: rest_shorter)

declare splitChainFrom.simps [simp del]

definition splitChainBytes :: "string \<Rightarrow> string \<Rightarrow> chain_source list" where
  "splitChainBytes file content = splitChainFrom file 1 0 content"

definition chainSources :: "audit_dir \<Rightarrow> string list \<Rightarrow> chain_source list" where
  "chainSources dir names = concat (map (\<lambda>name. splitChainBytes name (fileBytes dir name)) names)"

definition verifyAuditChainAt ::
    "platform \<Rightarrow> audit_dir \<Rightarrow> string option \<Rightarrow> (chain_files \<times> (js_throw + chain_verdict)) option" where
  "verifyAuditChainAt P dir probe =
     (case collectChainFiles (map fst dir) of
        None \<Rightarrow> None
      | Some files \<Rightarrow>
          let sources = chainSources dir (cfOrdered files)
          in Some (files, verifyChain P (map (\<lambda>s. decodeUtf8 P (csBytes s)) sources) (Some sources) probe))"

record chain_tail =
  tlFile :: string
  tlLine :: nat
  tlOffset :: nat
  tlBytes :: string
  tlEndsWithNewline :: bool
  tlValid :: bool
  tlDigest :: "string option"
  tlPrevious :: "string option"

definition isBlank :: "string \<Rightarrow> bool" where
  "isBlank bytes \<longleftrightarrow> js_trim bytes = []"

definition parsesAsObject :: "platform \<Rightarrow> string \<Rightarrow> bool" where
  "parsesAsObject P bytes \<longleftrightarrow>
     (case jsonParse P (js_trim (decodeUtf8 P bytes)) of None \<Rightarrow> False | Some v \<Rightarrow> isObject v)"

definition cutLinkLine :: "platform \<Rightarrow> string option \<times> string option \<Rightarrow> string \<Rightarrow> string option \<times> string option" where
  "cutLinkLine P acc raw =
     (case acc of (expected, legacyTail) \<Rightarrow>
        case jsonParse P raw of
          None \<Rightarrow> (expected, legacyTail)
        | Some v \<Rightarrow>
            if \<not> isAuditCutRecord v then (expected, legacyTail)
            else (if legacyOnlyCut v \<and> field ''version'' v = Some (JNum 2) then expected
                  else strOf (field ''removedTo'' v),
                  if numOr0 (field ''removedLegacy'' v) > 0 \<and> field ''legacyTail'' v \<noteq> None
                  then strOf (field ''legacyTail'' v) else legacyTail))"

definition readCutLink :: "platform \<Rightarrow> audit_dir \<Rightarrow> string option" where
  "readCutLink P dir =
     (if (case collectChainFiles (map fst dir) of None \<Rightarrow> False | Some files \<Rightarrow> AUDIT_CUTS_BASENAME \<in> set (cfOrdered files))
      then case foldl (cutLinkLine P) (None, None) (splitNl (decodeUtf8 P (fileBytes dir AUDIT_CUTS_BASENAME))) of
             (expected, legacyTail) \<Rightarrow> (if expected \<noteq> None then expected else legacyTail)
      else None)"

text \<open>The scan runs over the lines newest first; \<open>tail\<close> is the invalid last line once it has been met.\<close>

definition tailOf :: "platform \<Rightarrow> audit_dir \<Rightarrow> chain_source \<Rightarrow> chain_tail" where
  "tailOf P dir source =
     (let valid = parsesAsObject P (csBytes source)
      in \<lparr>tlFile = csFile source, tlLine = csLine source, tlOffset = csOffset source, tlBytes = csBytes source,
          tlEndsWithNewline = (csOffset source + length (csBytes source) < length (fileBytes dir (csFile source))),
          tlValid = valid,
          tlDigest = (if valid then Some (digestOf P (js_trim (decodeUtf8 P (csBytes source)))) else None),
          tlPrevious = None\<rparr>)"

fun tailScan :: "platform \<Rightarrow> audit_dir \<Rightarrow> chain_tail option \<Rightarrow> chain_source list \<Rightarrow> chain_tail option" where
  "tailScan P dir None [] = None"
| "tailScan P dir (Some tail) [] = Some (tail\<lparr>tlPrevious := readCutLink P dir\<rparr>)"
| "tailScan P dir None (source # older) =
     (if isBlank (csBytes source) then tailScan P dir None older
      else if tlValid (tailOf P dir source) then Some (tailOf P dir source)
      else tailScan P dir (Some (tailOf P dir source)) older)"
| "tailScan P dir (Some tail) (source # older) =
     (if isBlank (csBytes source) then tailScan P dir (Some tail) older
      else if parsesAsObject P (csBytes source)
      then Some (tail\<lparr>tlPrevious := Some (digestOf P (js_trim (decodeUtf8 P (csBytes source))))\<rparr>)
      else tailScan P dir (Some tail) older)"

definition readChainTail :: "platform \<Rightarrow> audit_dir \<Rightarrow> chain_tail option" where
  "readChainTail P dir =
     (case collectChainFiles (map fst dir) of
        None \<Rightarrow> None
      | Some files \<Rightarrow>
          tailScan P dir None
            (rev (chainSources dir (filter (\<lambda>name. name \<noteq> AUDIT_CUTS_BASENAME) (cfOrdered files)))))"

end
