(* ===== verification/AuditWriter.thy ===== *)
theory AuditWriter
  imports AuditFiles "HOL-Library.Product_Lexorder"
begin

text \<open>
  The audit log's writer (\<open>src/src/audit/audit-log-writer.ts\<close>): the serialized write step with its
  ownership check, tail check and damage record, the rotation of the live log and the retention sweep.
  What one step meets outside (the fence, the clock, a write that returns short, a refused open, a failed
  unlink) is its argument \<open>step_env\<close>; a write that lands \<open>k\<close> bytes is \<open>Some k\<close>, a full one \<open>None\<close>.
  The writer is the one built without a head checkpoint, whose \<open>settleCheckpoint\<close> does nothing.
\<close>

subsection \<open>The disk and the writer\<close>

record audit_archive =
  arStamp :: string
  arBytes :: string
  arMtime :: int

record audit_disk =
  dkCuts :: "string option"
  dkArchives :: "audit_archive list"
  dkLive :: "string option"
  dkLiveMtime :: int

definition archiveName :: "string \<Rightarrow> string" where
  "archiveName stamp = AUDIT_LOG_BASENAME @ ''.'' @ stamp"

definition dirOf :: "audit_disk \<Rightarrow> audit_dir" where
  "dirOf disk =
     (case dkCuts disk of None \<Rightarrow> [] | Some b \<Rightarrow> [(AUDIT_CUTS_BASENAME, b)])
     @ map (\<lambda>a. (archiveName (arStamp a), arBytes a)) (dkArchives disk)
     @ (case dkLive disk of None \<Rightarrow> [] | Some b \<Rightarrow> [(AUDIT_LOG_BASENAME, b)])"

record audit_world =
  awDisk :: audit_disk
  awLanded :: "string option"
  awOwed :: bool
  awFence :: "int option"
  awMaintenanceRan :: bool

record audit_config =
  cfRotationSize :: nat
  cfRotationMaxAge :: int
  cfMaxArchives :: nat
  cfMaxArchiveAge :: int

record step_env =
  seFence :: "int option"
  seNow :: int
  seGenerationStart :: int
  seStamp :: string
  seRenameFails :: bool
  seEnvelope :: "(string \<times> json) list"
  seWriteNewline :: "nat option"
  seWriteDamage :: "nat option"
  seWriteRow :: "nat option"
  seReadable :: nat
  seCutsRefused :: bool
  seUnlinked :: nat
  seCutWritten :: bool

datatype audit_error = NotOwner | PartialWrite

subsection \<open>Writing\<close>

definition appendBytes :: "int \<Rightarrow> nat option \<Rightarrow> string \<Rightarrow> audit_world \<Rightarrow> (audit_error + unit) \<times> audit_world" where
  "appendBytes now short bytes w =
     (let disk = awDisk w;
          landed = (case short of None \<Rightarrow> bytes | Some k \<Rightarrow> take k bytes);
          live = (case dkLive disk of None \<Rightarrow> [] | Some b \<Rightarrow> b);
          w' = w\<lparr>awDisk := disk\<lparr>dkLive := Some (live @ landed), dkLiveMtime := now\<rparr>\<rparr>
      in (if length landed < length bytes then Inl PartialWrite else Inr (), w'))"

definition lineBytes :: "platform \<Rightarrow> json \<Rightarrow> string" where
  "lineBytes P v = utf8Bytes (jsonText P v @ [NL])"

definition js_trimEnd :: "string \<Rightarrow> string" where
  "js_trimEnd s = rev (dropWhile js_space (rev s))"

definition integrityRow :: "(string \<times> json) list \<Rightarrow> json \<Rightarrow> string option \<Rightarrow> json" where
  "integrityRow envelope payload previous =
     JObj ([(''eventType'', JStr ''audit-integrity-condition''), (''payload'', payload),
            (''prevDigest'', JStr (case previous of None \<Rightarrow> AUDIT_CHAIN_GENESIS | Some d \<Rightarrow> d)),
            (''digestAlg'', JStr ''sha256'')] @ envelope)"

definition damagePayload :: "platform \<Rightarrow> chain_tail \<Rightarrow> json" where
  "damagePayload P tail =
     JObj [(''condition'', JStr ''damaged-tail''), (''conditionVersion'', JNum 1), (''file'', JStr (tlFile tail)),
           (''line'', JNum (int (tlLine tail))), (''byteOffset'', JNum (int (tlOffset tail))),
           (''byteLength'', JNum (int (length (tlBytes tail)))), (''digestAlg'', JStr ''sha256''),
           (''digest'', JStr (sha256Hex P (tlBytes tail)))]"

definition recordDamage ::
    "platform \<Rightarrow> step_env \<Rightarrow> chain_tail \<Rightarrow> audit_world \<Rightarrow> (audit_error + unit) \<times> audit_world" where
  "recordDamage P env tail w =
     (let row = integrityRow (seEnvelope env) (damagePayload P tail) (tlPrevious tail)
      in case appendBytes (seNow env) (seWriteDamage env) (lineBytes P row) w of
           (Inl e, w') \<Rightarrow> (Inl e, w')
         | (Inr _, w') \<Rightarrow> (Inr (), w'\<lparr>awLanded := Some (digestOf P (js_trimEnd (jsonText P row @ [NL])))\<rparr>))"

definition checkTail :: "platform \<Rightarrow> step_env \<Rightarrow> audit_world \<Rightarrow> (audit_error + unit) \<times> audit_world" where
  "checkTail P env w =
     (let dir = dirOf (awDisk w);
          settled = (\<lambda>(r, w'). (case r of Inl e \<Rightarrow> (Inl e, w') | Inr _ \<Rightarrow> (Inr (), w'\<lparr>awOwed := False\<rparr>)))
      in case readChainTail P dir of
           None \<Rightarrow>
             settled (Inr (), w\<lparr>awLanded := Some (case readCutLink P dir of None \<Rightarrow> AUDIT_CHAIN_GENESIS | Some d \<Rightarrow> d)\<rparr>)
         | Some tail \<Rightarrow>
             (case (if \<not> tlEndsWithNewline tail \<and> tlFile tail = AUDIT_LOG_BASENAME
                    then appendBytes (seNow env) (seWriteNewline env) (utf8Bytes [NL]) w else (Inr (), w)) of
                (Inl e, w1) \<Rightarrow> (Inl e, w1)
              | (Inr _, w1) \<Rightarrow>
                  settled (if tlValid tail then (Inr (), w1\<lparr>awLanded := tlDigest tail\<rparr>)
                           else recordDamage P env tail w1)))"

subsection \<open>Retention\<close>

definition keptArchives :: "audit_config \<Rightarrow> int \<Rightarrow> audit_archive list \<Rightarrow> string set" where
  "keptArchives cfg now archives =
     set (map arStamp (filter (\<lambda>a. \<not> now - arMtime a > cfMaxArchiveAge cfg)
       (take (cfMaxArchives cfg) (rev (sort_key (\<lambda>a. (arMtime a, arStamp a)) archives)))))"

definition pruneCandidates :: "audit_config \<Rightarrow> int \<Rightarrow> audit_archive list \<Rightarrow> audit_archive list" where
  "pruneCandidates cfg now archives =
     sort_key arStamp (filter (\<lambda>a. arStamp a \<notin> keptArchives cfg now archives) archives)"

definition archiveCut :: "platform \<Rightarrow> audit_archive \<Rightarrow> cut_accumulator" where
  "archiveCut P a = appendCutText P createAuditCutAccumulator (decodeUtf8 P (arBytes a))"

definition owesCut :: "cut_accumulator \<Rightarrow> bool" where
  "owesCut acc \<longleftrightarrow> acFrom acc \<noteq> None \<or> acLegacy acc > 0"

definition pruneArchives :: "platform \<Rightarrow> audit_config \<Rightarrow> step_env \<Rightarrow> audit_disk \<Rightarrow> audit_disk" where
  "pruneArchives P cfg env disk =
     (let verified = take (seReadable env) (pruneCandidates cfg (seNow env) (dkArchives disk));
          cutsNeeded = list_ex (\<lambda>a. owesCut (archiveCut P a)) verified
      in if verified = [] \<or> cutsNeeded \<and> seCutsRefused env then disk
         else let removed = take (seUnlinked env) verified;
                  total = foldl mergeAuditCutAccumulator createAuditCutAccumulator (map (archiveCut P) removed);
                  cuts = (case dkCuts disk of None \<Rightarrow> [] | Some b \<Rightarrow> b)
              in disk\<lparr>dkArchives := filter (\<lambda>a. arStamp a \<notin> set (map arStamp removed)) (dkArchives disk),
                      dkCuts :=
                        (if \<not> cutsNeeded then dkCuts disk
                         else case finalizeAuditCutRecord total (seNow env) of
                                None \<Rightarrow> Some cuts
                              | Some c \<Rightarrow> Some (cuts @ (if seCutWritten env then lineBytes P (cutJson c) else [])))\<rparr>)"

definition rotationDue :: "audit_config \<Rightarrow> step_env \<Rightarrow> string \<Rightarrow> bool" where
  "rotationDue cfg env live \<longleftrightarrow>
     length live \<ge> cfRotationSize cfg \<or> seNow env - seGenerationStart env \<ge> cfRotationMaxAge cfg"

definition maybeRotate :: "platform \<Rightarrow> audit_config \<Rightarrow> step_env \<Rightarrow> audit_disk \<Rightarrow> audit_disk" where
  "maybeRotate P cfg env disk =
     (case dkLive disk of
        None \<Rightarrow> disk
      | Some live \<Rightarrow>
          if \<not> rotationDue cfg env live \<or> seRenameFails env then disk
          else pruneArchives P cfg env
                 (disk\<lparr>dkLive := None,
                       dkArchives := dkArchives disk @
                         [\<lparr>arStamp = seStamp env, arBytes = live, arMtime = dkLiveMtime disk\<rparr>]\<rparr>))"

definition runArchiveMaintenance :: "platform \<Rightarrow> audit_config \<Rightarrow> step_env \<Rightarrow> audit_world \<Rightarrow> audit_world" where
  "runArchiveMaintenance P cfg env w =
     (if seFence env = None \<or> awMaintenanceRan w then w
      else w\<lparr>awMaintenanceRan := True, awDisk := pruneArchives P cfg env (awDisk w)\<rparr>)"

subsection \<open>The write step\<close>

definition rowJson :: "(string \<times> json) list \<Rightarrow> string option \<Rightarrow> json" where
  "rowJson entry landed =
     JObj ([(''prevDigest'', JStr (case landed of None \<Rightarrow> AUDIT_CHAIN_GENESIS | Some d \<Rightarrow> d)),
            (''digestAlg'', JStr ''sha256'')] @ entry)"

definition writeRow ::
    "platform \<Rightarrow> audit_config \<Rightarrow> step_env \<Rightarrow> (string \<times> json) list \<Rightarrow> audit_world \<Rightarrow> (audit_error + unit) \<times> audit_world" where
  "writeRow P cfg env entry w =
     (let row = rowJson entry (awLanded w)
      in case appendBytes (seNow env) (seWriteRow env) (lineBytes P row)
                (w\<lparr>awDisk := maybeRotate P cfg env (awDisk w)\<rparr>) of
           (Inl e, w') \<Rightarrow> (Inl e, w'\<lparr>awOwed := True\<rparr>)
         | (Inr _, w') \<Rightarrow>
             (Inr (), w'\<lparr>awLanded := Some (digestOf P (js_trimEnd (jsonText P row @ [NL]))), awFence := seFence env\<rparr>))"

definition writeStep ::
    "platform \<Rightarrow> audit_config \<Rightarrow> step_env \<Rightarrow> (string \<times> json) list \<Rightarrow> audit_world \<Rightarrow> (audit_error + unit) \<times> audit_world" where
  "writeStep P cfg env entry w =
     (if seFence env = None then (Inl NotOwner, w)
      else let w1 = (if seFence env \<noteq> awFence w then w\<lparr>awOwed := True\<rparr> else w)
           in case (if awOwed w1 then checkTail P env w1 else (Inr (), w1)) of
                (Inl e, w2) \<Rightarrow> (Inl e, w2)
              | (Inr _, w2) \<Rightarrow> writeRow P cfg env entry w2)"

end
