(* ===== verification/AuditDisk.thy ===== *)
theory AuditDisk
  imports AuditWriter
begin

text \<open>
  The lines of an audit directory: what the platform promises of the texts the writer hands it, which
  lines the verifier meets for a disk, and how an append, a rotation and a prune change them.
\<close>

subsection \<open>What the platform promises\<close>

text \<open>An object value as JavaScript has it repeats no key.\<close>

fun wfJson :: "json \<Rightarrow> bool" where
  "wfJson (JObj fs) = (distinct (map fst fs) \<and> list_all (\<lambda>p. wfJson (snd p)) fs)"
| "wfJson (JArr vs) = list_all wfJson vs"
| "wfJson _ = True"

text \<open>The text of an object is one line without surrounding white space that parses back to the object,
  its bytes decode to it, and nothing shorter than it parses.\<close>

definition printed :: "platform \<Rightarrow> json \<Rightarrow> bool" where
  "printed P v \<longleftrightarrow>
     (let t = jsonText P v; b = utf8Bytes t
      in t \<noteq> [] \<and> js_trim t = t \<and> jsonParse P t = Some v \<and> NL \<notin> set b \<and> decodeUtf8 P b = t
         \<and> (\<forall>k. 0 < k \<and> k < length b \<longrightarrow>
               js_trim (decodeUtf8 P (take k b)) \<noteq> [] \<and> jsonParse P (js_trim (decodeUtf8 P (take k b))) = None)
         \<and> (\<forall>k. 0 < k \<and> k \<le> length b \<longrightarrow> js_trim (take k b) \<noteq> []))"

definition platform_ok :: "platform \<Rightarrow> bool" where
  "platform_ok P \<longleftrightarrow>
     (\<forall>fs. wfJson (JObj fs) \<longrightarrow> printed P (JObj fs))
     \<and> decodeUtf8 P [] = [] \<and> jsonParse P [] = None
     \<and> (\<forall>a b. decodeUtf8 P (a @ NL # b) = decodeUtf8 P a @ NL # decodeUtf8 P b)
     \<and> (\<forall>a. NL \<notin> set a \<longrightarrow> NL \<notin> set (decodeUtf8 P a))"

lemma decode_lines: "platform_ok P \<Longrightarrow> splitNl (decodeUtf8 P b) = map (decodeUtf8 P) (splitNl b)"
proof (induction "length b" arbitrary: b rule: less_induct)
  case less
  show ?case
  proof (cases "NL \<in> set b")
    case False
    with less.prems show ?thesis by (simp add: platform_ok_def)
  next
    case True
    then obtain l r where b: "b = l @ NL # r" "NL \<notin> set l" using split_list_first [OF True] by blast
    then have "splitNl (decodeUtf8 P r) = map (decodeUtf8 P) (splitNl r)" using less by simp
    with b less.prems show ?thesis by (simp add: platform_ok_def splitNl_append)
  qed
qed

lemma js_trimEnd_newline: "js_trim t = t \<Longrightarrow> js_trimEnd (t @ [NL]) = t"
proof -
  assume t: "js_trim t = t"
  have "js_space NL" by (simp add: js_space_def NL_def)
  then have "js_trimEnd (t @ [NL]) = js_trimEnd t" by (simp add: js_trimEnd_def)
  moreover have "js_trimEnd t = js_trimEnd (js_trim t)" using t by simp
  moreover have "js_trimEnd (js_trim t) = js_trim t"
    by (simp add: js_trimEnd_def js_trim_def)
  ultimately show ?thesis using t by argo
qed

lemma utf8_NL [simp]: "utf8Bytes [NL] = [NL]"
  by (simp add: utf8Bytes_def NL_def)

lemma utf8_append [simp]: "utf8Bytes (a @ b) = utf8Bytes a @ utf8Bytes b"
  by (simp add: utf8Bytes_def)

lemma lineBytes_eq: "lineBytes P v = utf8Bytes (jsonText P v) @ [NL]"
  by (simp add: lineBytes_def)

subsection \<open>The files of a disk\<close>

definition disk_ok :: "audit_disk \<Rightarrow> bool" where
  "disk_ok disk \<longleftrightarrow>
     sorted_wrt (<) (map arStamp (dkArchives disk)) \<and> list_all (\<lambda>a. archiveStamp (arStamp a)) (dkArchives disk)
     \<and> sorted (map arMtime (dkArchives disk)) \<and> (\<forall>a\<in>set (dkArchives disk). arMtime a \<le> dkLiveMtime disk)"

lemma archive_names:
  "take (length AUDIT_LOG_BASENAME) (archiveName s) = AUDIT_LOG_BASENAME"
  "stampOf (archiveName s) = s" "archiveName s \<noteq> AUDIT_LOG_BASENAME"
  "archiveStamp s \<Longrightarrow> archiveName s \<noteq> AUDIT_CUTS_BASENAME"
  by (auto simp: archiveName_def stampOf_def AUDIT_LOG_BASENAME_def AUDIT_CUTS_BASENAME_def archiveStamp_def)

lemma base_names:
  "take (length AUDIT_LOG_BASENAME) AUDIT_LOG_BASENAME = AUDIT_LOG_BASENAME"
  "take (length AUDIT_LOG_BASENAME) AUDIT_CUTS_BASENAME = AUDIT_LOG_BASENAME"
  "AUDIT_CUTS_BASENAME \<noteq> AUDIT_LOG_BASENAME"
  by (auto simp: AUDIT_LOG_BASENAME_def AUDIT_CUTS_BASENAME_def)

lemma archive_fresh:
  assumes "\<forall>a\<in>set xs. archiveStamp (arStamp a)"
  shows "AUDIT_LOG_BASENAME \<notin> (\<lambda>a. archiveName (arStamp a)) ` set xs"
    "AUDIT_CUTS_BASENAME \<notin> (\<lambda>a. archiveName (arStamp a)) ` set xs"
  using assms archive_names(3,4) by (metis (no_types, lifting) imageE)+

definition orderedNames :: "audit_disk \<Rightarrow> string list" where
  "orderedNames disk =
     (if dkCuts disk = None then [] else [AUDIT_CUTS_BASENAME])
     @ map (\<lambda>a. archiveName (arStamp a)) (dkArchives disk)
     @ (if dkLive disk = None then [] else [AUDIT_LOG_BASENAME])"

lemma dirOf_names: "map fst (dirOf disk) = orderedNames disk"
  by (simp add: dirOf_def orderedNames_def comp_def split: option.split)

lemma sorted_lt_le: "sorted_wrt (<) (xs :: 'a::linorder list) \<Longrightarrow> sorted xs"
  by (metis strict_sorted_iff)

lemma collect_dir:
  assumes "disk_ok disk"
  shows "collectChainFiles (orderedNames disk) =
     (if orderedNames disk = [] then None else Some \<lparr>cfOrdered = orderedNames disk, cfUnrecognized = []\<rparr>)"
proof -
  let ?as = "map (\<lambda>a. archiveName (arStamp a)) (dkArchives disk)"
  have st: "\<forall>a\<in>set (dkArchives disk). archiveStamp (arStamp a)" using assms by (simp add: disk_ok_def list_all_iff)
  have names: "filter (\<lambda>name. take (length AUDIT_LOG_BASENAME) name = AUDIT_LOG_BASENAME) (orderedNames disk) = orderedNames disk"
    by (rule filter_True) (auto simp: orderedNames_def archive_names base_names)
  have others: "filter (\<lambda>name. name \<noteq> AUDIT_LOG_BASENAME \<and> name \<noteq> AUDIT_CUTS_BASENAME) (orderedNames disk) = ?as"
    using st by (simp add: orderedNames_def base_names) (rule filter_True, auto simp: archive_names)
  have stamps: "filter (\<lambda>name. archiveStamp (stampOf name)) ?as = ?as"
    "filter (\<lambda>name. \<not> archiveStamp (stampOf name)) ?as = []"
    using st by (auto simp: archive_names intro: filter_True)
  have "sorted (map stampOf ?as)"
    using assms by (simp add: disk_ok_def comp_def archive_names sorted_lt_le)
  then have "sort_key stampOf ?as = ?as" by (rule sort_key_id_if_sorted)
  then show ?thesis
    using archive_fresh [OF st] unfolding collectChainFiles_def names others stamps Let_def
    by (simp add: orderedNames_def base_names base_names(3) [symmetric])
qed

lemma fileBytes_dir:
  assumes "disk_ok disk"
  shows "fileBytes (dirOf disk) AUDIT_CUTS_BASENAME = (case dkCuts disk of None \<Rightarrow> [] | Some b \<Rightarrow> b)"
    and "fileBytes (dirOf disk) AUDIT_LOG_BASENAME = (case dkLive disk of None \<Rightarrow> [] | Some b \<Rightarrow> b)"
    and "a \<in> set (dkArchives disk) \<Longrightarrow> fileBytes (dirOf disk) (archiveName (arStamp a)) = arBytes a"
proof -
  let ?as = "map (\<lambda>a. (archiveName (arStamp a), arBytes a)) (dkArchives disk)"
  have st: "\<forall>a\<in>set (dkArchives disk). archiveStamp (arStamp a)" using assms by (simp add: disk_ok_def list_all_iff)
  have none: "map_of ?as AUDIT_LOG_BASENAME = None" "map_of ?as AUDIT_CUTS_BASENAME = None"
    using archive_fresh [OF st] by (simp_all add: map_of_eq_None_iff image_image)
  show "fileBytes (dirOf disk) AUDIT_CUTS_BASENAME = (case dkCuts disk of None \<Rightarrow> [] | Some b \<Rightarrow> b)"
    using none base_names(3) base_names(3) [symmetric] by (simp add: fileBytes_def dirOf_def map_add_def split: option.split)
  show "fileBytes (dirOf disk) AUDIT_LOG_BASENAME = (case dkLive disk of None \<Rightarrow> [] | Some b \<Rightarrow> b)"
    using none base_names(3) base_names(3) [symmetric] by (simp add: fileBytes_def dirOf_def map_add_def split: option.split)
  assume a: "a \<in> set (dkArchives disk)"
  have "inj archiveName" by (rule inj_on_inverseI [where g = stampOf]) (simp add: archive_names)
  moreover have "distinct (map arStamp (dkArchives disk))" using assms by (simp add: disk_ok_def strict_sorted_iff)
  ultimately have "distinct (map fst ?as)" by (auto simp: distinct_map inj_on_def)
  then have "map_of ?as (archiveName (arStamp a)) = Some (arBytes a)" using a by (auto intro: map_of_is_SomeI)
  moreover have "archiveName (arStamp a) \<noteq> AUDIT_CUTS_BASENAME" using a st archive_names(4) by auto
  ultimately show "fileBytes (dirOf disk) (archiveName (arStamp a)) = arBytes a"
    using archive_names(3) by (simp add: fileBytes_def dirOf_def map_add_def split: option.split)
qed

subsection \<open>The lines of a disk\<close>

lemma split_bytes: "map csBytes (splitChainFrom f n k b) = splitNl b"
proof (induction f n k b rule: splitChainFrom.induct)
  case (1 f n k b)
  show ?case
  proof (cases "dropWhile (\<lambda>c. c \<noteq> NL) b = []")
    case True
    then show ?thesis by (subst splitChainFrom.simps, subst splitNl_step) (simp only: Let_def if_True list.map chain_source.simps)
  next
    case False
    from 1 [OF refl refl refl this] False show ?thesis
      by (subst splitChainFrom.simps, subst splitNl_step) (simp only: Let_def if_False list.map chain_source.simps)
  qed
qed

definition fileLines :: "string option \<Rightarrow> string list" where
  "fileLines b = (case b of None \<Rightarrow> [] | Some x \<Rightarrow> splitNl x)"

definition rowLines :: "audit_disk \<Rightarrow> string list" where
  "rowLines disk = concat (map (\<lambda>a. splitNl (arBytes a)) (dkArchives disk)) @ fileLines (dkLive disk)"

definition rowNames :: "audit_disk \<Rightarrow> string list" where
  "rowNames disk = map (\<lambda>a. archiveName (arStamp a)) (dkArchives disk)
     @ (if dkLive disk = None then [] else [AUDIT_LOG_BASENAME])"

lemma sources_append: "chainSources dir (xs @ ys) = chainSources dir xs @ chainSources dir ys"
  by (simp add: chainSources_def)

lemma row_sources:
  assumes "disk_ok disk"
  shows "map csBytes (chainSources (dirOf disk) (rowNames disk)) = rowLines disk"
proof -
  have "map csBytes (chainSources (dirOf disk) (map (\<lambda>a. archiveName (arStamp a)) (dkArchives disk))) =
      concat (map (\<lambda>a. splitNl (arBytes a)) (dkArchives disk))"
    using fileBytes_dir(3) [OF assms]
    by (auto simp: chainSources_def map_concat comp_def splitChainBytes_def split_bytes intro!: arg_cong [where f = concat])
  moreover have "map csBytes (chainSources (dirOf disk) (if dkLive disk = None then [] else [AUDIT_LOG_BASENAME])) =
      fileLines (dkLive disk)"
    using fileBytes_dir(2) [OF assms]
    by (auto simp: chainSources_def splitChainBytes_def split_bytes fileLines_def)
  ultimately show ?thesis by (simp add: rowNames_def rowLines_def sources_append)
qed

lemma disk_sources:
  assumes "disk_ok disk"
  shows "map csBytes (chainSources (dirOf disk) (orderedNames disk)) = fileLines (dkCuts disk) @ rowLines disk"
proof -
  have "orderedNames disk = (if dkCuts disk = None then [] else [AUDIT_CUTS_BASENAME]) @ rowNames disk"
    by (simp add: orderedNames_def rowNames_def)
  moreover have "map csBytes (chainSources (dirOf disk) (if dkCuts disk = None then [] else [AUDIT_CUTS_BASENAME])) =
      fileLines (dkCuts disk)"
    using fileBytes_dir(1) [OF assms]
    by (auto simp: chainSources_def splitChainBytes_def split_bytes fileLines_def)
  ultimately show ?thesis using row_sources [OF assms] by (simp add: sources_append)
qed

end
