(* ===== verification/AuditTail.thy ===== *)
theory AuditTail
  imports AuditDisk
begin

text \<open>
  The last line of the chain: what \<open>readChainTail\<close> and \<open>readCutLink\<close> answer for a disk whose lines walk,
  and that the answer is the link at which the verifier stands.
\<close>

definition lineItem :: "platform \<Rightarrow> string \<Rightarrow> chain_item" where
  "lineItem P b = (decodeUtf8 P b, Some \<lparr>csFile = [], csLine = 0, csOffset = 0, csBytes = b\<rparr>)"

definition shown :: "platform \<Rightarrow> string list \<Rightarrow> string list" where
  "shown P ls = filter (\<lambda>b. js_trim (decodeUtf8 P b) \<noteq> []) ls"

lemma shown_append [simp]: "shown P (xs @ ys) = shown P xs @ shown P ys"
  by (simp add: shown_def)

lemma shown_idem [simp]: "shown P (shown P ls) = shown P ls"
  by (simp add: shown_def)

lemma shown_items: "shownItems (map (lineItem P) ls) = map (lineItem P) (shown P ls)"
  by (induction ls) (auto simp: shownItems_def shown_def lineItem_def blankLine_def)

definition linkOf :: "walk_state \<Rightarrow> string option" where
  "linkOf st = (if wkChainBegun st then Some (wkExpected st) else wkLegacyTail st)"

definition linkText :: "walk_state \<Rightarrow> string" where
  "linkText st = (case linkOf st of None \<Rightarrow> AUDIT_CHAIN_GENESIS | Some d \<Rightarrow> d)"

lemma sameLink_linkOf: "sameLink a b \<Longrightarrow> linkOf a = linkOf b"
  by (auto simp: sameLink_def linkOf_def split: if_splits)

lemma linkText_accepted: "linkAccepted st (linkText st)"
  by (auto simp: linkAccepted_def linkText_def linkOf_def split: option.split)

definition rowOk :: "platform \<Rightarrow> string \<Rightarrow> bool" where
  "rowOk P b \<longleftrightarrow> (js_trim b = []) = (js_trim (decodeUtf8 P b) = []) \<and> archivedRow P (decodeUtf8 P b)"

definition cutOk :: "platform \<Rightarrow> string \<Rightarrow> bool" where
  "cutOk P b \<longleftrightarrow> decodeUtf8 P b = []
     \<or> (\<exists>c. decodeUtf8 P b \<noteq> [] \<and> js_trim (decodeUtf8 P b) = decodeUtf8 P b
            \<and> jsonParse P (decodeUtf8 P b) = Some (cutJson c))"

abbreviation rowDigest :: "platform \<Rightarrow> string \<Rightarrow> string" where
  "rowDigest P b \<equiv> digestOf P (js_trim (decodeUtf8 P b))"

subsection \<open>The last row\<close>

lemma row_link:
  assumes "walkLine P probe n (lineItem P b) rest s = Inr s'" "js_trim (decodeUtf8 P b) \<noteq> []"
    "jsonParse P (js_trim (decodeUtf8 P b)) = Some v" "archivedRow P (decodeUtf8 P b)"
  shows "linkOf s' = Some (rowDigest P b)"
proof -
  from assms(3,4) have "isObject v" "\<not> isAuditCutRecord v" by (simp_all add: archivedRow_def)
  with assms have "walkRow P probe n (js_trim (decodeUtf8 P b)) v s = Inr s'"
    by (auto simp: walkLine_def lineItem_def split: if_splits)
  then show ?thesis
    by (auto simp: walkRow_def Let_def linkOf_def beginChain_def split: option.splits if_splits)
qed

lemma last_row:
  assumes w: "walkLines P probe n (map (lineItem P) (xs @ [b])) s0 = Inr s"
    and ne: "js_trim (decodeUtf8 P b) \<noteq> []" and ok: "archivedRow P (decodeUtf8 P b)"
  shows "parsesAsObject P b \<and> linkOf s = Some (rowDigest P b)"
proof -
  from w obtain s1 where s1: "walkLine P probe (n + length xs) (lineItem P b) [] s1 = Inr s"
    by (auto simp: walkLines_parts then_ok_Inr_iff)
  obtain v where v: "jsonParse P (js_trim (decodeUtf8 P b)) = Some v"
    using s1 ne by (cases "jsonParse P (js_trim (decodeUtf8 P b))")
      (auto simp: walkLine_def lineItem_def diagnoseDamage_def nextRow_def)
  moreover from v ok have "isObject v" by (simp add: archivedRow_def)
  ultimately show ?thesis using row_link [OF s1 ne v ok] by (simp add: parsesAsObject_def)
qed

subsection \<open>The link after the cut records\<close>

definition cutLinkMatches :: "string option \<times> string option \<Rightarrow> walk_state \<Rightarrow> bool" where
  "cutLinkMatches acc st \<longleftrightarrow>
     fst acc = (if wkChainBegun st then Some (wkExpected st) else None)
     \<and> (\<not> wkChainBegun st \<longrightarrow> snd acc = wkLegacyTail st)"

lemma cut_link_line:
  assumes "cutLinkMatches acc s" "walkCut n (cutJson c) s = Inr s'" "jsonParse P raw = Some (cutJson c)"
  shows "cutLinkMatches (cutLinkLine P acc raw) s'"
proof -
  obtain e t where acc: "acc = (e, t)" by (cases acc)
  have v: "field ''version'' (cutJson c) = Some (JNum 2)" by (simp add: cutJson_def map_add_def split: option.split)
  have tl: "strOf (map_option JStr (ctTail c)) = ctTail c" by (cases "ctTail c") simp_all
  have line: "cutLinkLine P (e, t) raw =
      (if legacyOnlyCut (cutJson c) then e else Some (ctTo c),
       if ctLegacy c > 0 \<and> ctTail c \<noteq> None then ctTail c else t)"
    using assms(3) by (auto simp: cutLinkLine_def cutJson_fields(1,3-6,8) v tl numOr0_def)
  have w: "s' = (if legacyOnlyCut (cutJson c) then countCut (cutJson c) s
      else (beginChain (countCut (cutJson c) s) (ctFrom c))\<lparr>wkExpected := ctTo c\<rparr>)"
    using assms(2) by (auto simp: walkCut_def cutJson_fields(1-7) Let_def split: if_splits)
  show ?thesis
    using assms(1) unfolding acc line w cutLinkMatches_def
    by (auto simp: countCut_cutJson beginChain_def split: if_splits)
qed

lemma cut_link_lines:
  assumes "platform_ok P"
  shows "\<forall>l\<in>set ls. cutOk P l \<Longrightarrow> walkLines P probe n (map (lineItem P) (shown P ls)) s = Inr s' \<Longrightarrow>
     cutLinkMatches acc s \<Longrightarrow> cutLinkMatches (foldl (cutLinkLine P) acc (map (decodeUtf8 P) ls)) s'"
proof (induction ls arbitrary: n s acc)
  case (Cons l ls)
  from Cons.prems(1) consider "decodeUtf8 P l = []"
    | c where "decodeUtf8 P l \<noteq> []" "js_trim (decodeUtf8 P l) = decodeUtf8 P l" "jsonParse P (decodeUtf8 P l) = Some (cutJson c)"
    by (auto simp: cutOk_def)
  then show ?case
  proof cases
    case 1
    then have "cutLinkLine P acc (decodeUtf8 P l) = acc"
      using assms by (cases acc) (simp add: cutLinkLine_def platform_ok_def)
    with 1 Cons show ?thesis by (simp add: shown_def js_trim_def)
  next
    case 2
    then have "shown P (l # ls) = l # shown P ls" by (simp add: shown_def)
    with Cons.prems(2) obtain s1 where
      s1: "walkLine P probe n (lineItem P l) (map (lineItem P) (shown P ls)) s = Inr s1"
        "walkLines P probe (n + 1) (map (lineItem P) (shown P ls)) s1 = Inr s'"
      by (auto simp: then_ok_Inr_iff)
    have "cutLine P c (fst (lineItem P l))" using 2 by (simp add: cutLine_def lineItem_def)
    with s1(1) have "walkCut n (cutJson c) s = Inr s1" by (simp add: walkLine_cut)
    from cut_link_line [OF Cons.prems(3) this 2(3)] Cons.IH [OF _ s1(2)] Cons.prems(1) show ?thesis by simp
  qed
qed (simp add: shown_def)

lemma readCutLink_disk:
  assumes P: "platform_ok P" and d: "disk_ok disk" and cuts: "\<forall>l\<in>set (fileLines (dkCuts disk)). cutOk P l"
    and w: "walkLines P probe n (map (lineItem P) (shown P (fileLines (dkCuts disk)))) walkStart = Inr s"
  shows "readCutLink P (dirOf disk) = linkOf s"
proof (cases "dkCuts disk")
  case None
  with w have "s = walkStart" by (simp add: fileLines_def shown_def)
  moreover have "AUDIT_CUTS_BASENAME \<notin> set (orderedNames disk)"
    using None d archive_fresh(2) [of "dkArchives disk"] base_names(3)
    by (auto simp: orderedNames_def disk_ok_def list_all_iff)
  ultimately show ?thesis
    using collect_dir [OF d] by (auto simp: readCutLink_def dirOf_names linkOf_def walkStart_def)
next
  case (Some b)
  have m: "cutLinkMatches (None, None) walkStart" by (simp add: cutLinkMatches_def walkStart_def)
  have lines: "splitNl (decodeUtf8 P (fileBytes (dirOf disk) AUDIT_CUTS_BASENAME)) = map (decodeUtf8 P) (fileLines (dkCuts disk))"
    using fileBytes_dir(1) [OF d] Some by (simp add: decode_lines [OF P] fileLines_def)
  have "AUDIT_CUTS_BASENAME \<in> set (orderedNames disk)" using Some by (simp add: orderedNames_def)
  then have "readCutLink P (dirOf disk) =
      (case foldl (cutLinkLine P) (None, None) (map (decodeUtf8 P) (fileLines (dkCuts disk))) of
         (expected, legacyTail) \<Rightarrow> (if expected \<noteq> None then expected else legacyTail))"
    using collect_dir [OF d] unfolding readCutLink_def dirOf_names lines by auto
  with cut_link_lines [OF P cuts w m] show ?thesis
    by (auto simp: cutLinkMatches_def linkOf_def split: prod.split if_splits)
qed

subsection \<open>The scan for the tail\<close>

definition shownSources :: "chain_source list \<Rightarrow> chain_source list" where
  "shownSources ss = filter (\<lambda>s. \<not> isBlank (csBytes s)) ss"

lemma tailScan_shown: "tailScan P dir t ss = tailScan P dir t (shownSources ss)"
  by (induction P dir t ss rule: tailScan.induct) (auto simp: shownSources_def Let_def)

lemma tailScan_previous:
  "\<forall>s\<in>set ss. \<not> isBlank (csBytes s) \<Longrightarrow>
     tailScan P dir (Some t) ss = Some (t\<lparr>tlPrevious :=
       (case filter (\<lambda>s. parsesAsObject P (csBytes s)) ss of [] \<Rightarrow> readCutLink P dir
        | s # _ \<Rightarrow> Some (rowDigest P (csBytes s)))\<rparr>)"
  by (induction ss) auto

lemma split_offsets:
  "splitChainFrom f n k b = xs @ [s] \<Longrightarrow>
     csOffset s + length (csBytes s) = k + length b \<and> (\<forall>x\<in>set xs. csOffset x + length (csBytes x) < k + length b)
     \<and> (\<forall>x\<in>set (xs @ [s]). csFile x = f)"
proof (induction f n k b arbitrary: xs s rule: splitChainFrom.induct)
  case (1 f n k b)
  let ?l = "takeWhile (\<lambda>c. c \<noteq> NL) b" and ?r = "dropWhile (\<lambda>c. c \<noteq> NL) b"
  let ?s = "\<lparr>csFile = f, csLine = n, csOffset = k, csBytes = ?l\<rparr>"
  have len: "length b = length ?l + length ?r" by (metis length_append takeWhile_dropWhile_id)
  show ?case
  proof (cases "?r = []")
    case True
    have "splitChainFrom f n k b = [?s]" by (subst splitChainFrom.simps) (simp only: Let_def True simp_thms if_True)
    with "1.prems" have "xs @ [s] = [?s]" by (rule trans [OF sym])
    then have "xs = []" "s = ?s" by (cases xs; simp)+
    moreover have "length ?l = length b" using len True by (metis add.right_neutral list.size(3))
    ultimately show ?thesis by simp
  next
    case False
    have e: "splitChainFrom f n k b = ?s # splitChainFrom f (n + 1) (k + length ?l + 1) (tl ?r)"
      by (subst splitChainFrom.simps) (simp only: Let_def False if_False)
    have ne: "splitChainFrom f (n + 1) (k + length ?l + 1) (tl ?r) \<noteq> []"
      using split_bytes [of f "n + 1" "k + length ?l + 1" "tl ?r"] splitNl_ne by (metis list.simps(8))
    with "1.prems" e obtain ys where ys: "xs = ?s # ys" "splitChainFrom f (n + 1) (k + length ?l + 1) (tl ?r) = ys @ [s]"
      by (cases xs) auto
    have "length ?r = Suc (length (tl ?r))" using False by (cases ?r) auto
    moreover note ih = "1.IH" [OF refl refl refl False ys(2)]
    ultimately have a: "length b = length ?l + Suc (length (tl ?r))" using len by presburger
    have "csOffset s + length (csBytes s) = k + length b" using ih a by presburger
    moreover have "\<forall>x\<in>set ys. csOffset x + length (csBytes x) < k + length b" using ih a by fastforce
    ultimately show ?thesis using ih a unfolding ys(1) by auto
  qed
qed

definition terminated :: "audit_disk \<Rightarrow> bool" where
  "terminated disk \<longleftrightarrow> (case dkLive disk of None \<Rightarrow> True | Some b \<Rightarrow> b = [] \<or> last b = NL)"

text \<open>A live log that does not end in a newline ends in a line that is not blank.\<close>

definition tailShown :: "platform \<Rightarrow> audit_disk \<Rightarrow> bool" where
  "tailShown P disk \<longleftrightarrow>
     (terminated disk \<or> (case dkLive disk of None \<Rightarrow> True | Some b \<Rightarrow> \<not> isBlank (last (splitNl b))))"

lemma splitNl_last: "b = [] \<or> last b = NL \<Longrightarrow> last (splitNl b) = []"
proof (cases "b = []")
  case False
  moreover assume "b = [] \<or> last b = NL"
  ultimately have "b = butlast b @ NL # []" by (metis append_butlast_last_id)
  then show ?thesis by (metis last_appendR list.distinct(1) last.simps splitNl.simps(1) splitNl_append)
qed simp

lemma tail_newline:
  assumes d: "disk_ok disk" and ts: "tailShown P disk"
    and src: "chainSources (dirOf disk) (rowNames disk) = xs @ s # bs" "\<forall>b\<in>set bs. isBlank (csBytes b)" "\<not> isBlank (csBytes s)"
  shows "(\<not> tlEndsWithNewline (tailOf P (dirOf disk) s) \<and> tlFile (tailOf P (dirOf disk) s) = AUDIT_LOG_BASENAME)
     \<longleftrightarrow> \<not> terminated disk"
proof -
  let ?as = "chainSources (dirOf disk) (map (\<lambda>a. archiveName (arStamp a)) (dkArchives disk))"
  have files: "csFile x \<noteq> AUDIT_LOG_BASENAME" if "x \<in> set ?as" for x
  proof -
    from that obtain a :: audit_archive where "x \<in> set (splitChainBytes (archiveName (arStamp a)) (fileBytes (dirOf disk) (archiveName (arStamp a))))"
      by (auto simp: chainSources_def)
    then have "csFile x = archiveName (arStamp a)"
      by (metis split_offsets splitChainBytes_def append_butlast_last_id empty_iff list.set(1))
    then show ?thesis by (simp add: archive_names)
  qed
  show ?thesis
  proof (cases "dkLive disk")
    case None
    then have "s \<in> set ?as" using src(1) by (simp add: rowNames_def)
    from files [OF this] None show ?thesis by (simp add: tailOf_def Let_def terminated_def)
  next
    case (Some b)
    let ?ls = "splitChainFrom AUDIT_LOG_BASENAME 1 0 b"
    have all: "?as @ ?ls = xs @ s # bs" using src(1) Some fileBytes_dir(2) [OF d]
      by (simp add: rowNames_def sources_append) (simp add: chainSources_def splitChainBytes_def)
    have ne: "?ls \<noteq> []" using split_bytes [of AUDIT_LOG_BASENAME 1 0 b] splitNl_ne by (metis list.simps(8))
    then obtain ys l where ys: "?ls = ys @ [l]" by (metis append_butlast_last_id)
    note off = split_offsets [OF ys]
    have lb: "csBytes l = last (splitNl b)"
      using split_bytes [of AUDIT_LOG_BASENAME 1 0 b] ys by (metis last_map last_snoc ne)
    have fb: "fileBytes (dirOf disk) AUDIT_LOG_BASENAME = b" using fileBytes_dir(2) [OF d] Some by simp
    show ?thesis
    proof (cases "terminated disk")
      case True
      then have "isBlank (csBytes l)" using lb splitNl_last Some by (simp add: terminated_def isBlank_def js_trim_def)
      then have "s \<noteq> l" using src(3) by auto
      moreover have "s \<in> set ?as \<or> s \<in> set ys \<or> s = l" using all ys
        by (metis Un_iff in_set_conv_decomp set_ConsD set_append empty_iff list.set(1))
      ultimately show ?thesis using files off True fb by (auto simp: tailOf_def Let_def)
    next
      case False
      then have nb: "\<not> isBlank (csBytes l)" using ts Some lb by (simp add: tailShown_def)
      have "bs = []"
      proof (rule ccontr)
        assume "bs \<noteq> []"
        then have "last (xs @ s # bs) = last bs" by simp
        moreover have "last (?as @ ?ls) = l" using ys by simp
        ultimately have "l = last bs" using all by metis
        with nb src(2) \<open>bs \<noteq> []\<close> show False by (metis last_in_set)
      qed
      with all ys have "s = l" by (metis append_assoc last_snoc)
      with off fb False show ?thesis by (simp add: tailOf_def Let_def)
    qed
  qed
qed

text \<open>What the tail check reads, from the lines alone.\<close>

lemma row_names: "disk_ok disk \<Longrightarrow> filter (\<lambda>name. name \<noteq> AUDIT_CUTS_BASENAME) (orderedNames disk) = rowNames disk"
  using base_names(3) archive_fresh(2) [of "dkArchives disk"]
  by (auto simp: orderedNames_def rowNames_def disk_ok_def list_all_iff filter_empty_conv intro!: filter_True)

lemma readChainTail_disk:
  assumes "disk_ok disk" "rowLines disk \<noteq> []"
  shows "readChainTail P (dirOf disk) =
    tailScan P (dirOf disk) None (rev (shownSources (chainSources (dirOf disk) (rowNames disk))))"
proof -
  have "orderedNames disk \<noteq> []"
    using assms(2) by (auto simp: orderedNames_def rowLines_def fileLines_def)
  then show ?thesis
    using collect_dir [OF assms(1)] row_names [OF assms(1)]
    by (simp add: readChainTail_def dirOf_names tailScan_shown [of _ _ _ "rev _"] shownSources_def rev_filter)
qed

lemma shown_sources:
  assumes d: "disk_ok disk" and rows: "\<forall>b\<in>set (rowLines disk). rowOk P b"
  shows "map csBytes (shownSources (chainSources (dirOf disk) (rowNames disk))) = shown P (rowLines disk)"
proof -
  have "shown P (rowLines disk) = filter (\<lambda>b. \<not> isBlank b) (rowLines disk)"
    using rows by (auto simp: shown_def rowOk_def isBlank_def intro: filter_cong)
  then show ?thesis
    by (simp add: shownSources_def row_sources [OF d, symmetric] filter_map comp_def)
qed

lemma filter_snoc:
  assumes "filter Q S = ys @ [s]"
  shows "\<exists>us vs. S = us @ s # vs \<and> filter Q us = ys \<and> (\<forall>v\<in>set vs. \<not> Q v) \<and> Q s"
proof -
  from assms have "filter Q (rev S) = s # rev ys" by (simp add: rev_filter [symmetric])
  then obtain us vs where "rev S = us @ s # vs" "\<forall>u\<in>set us. \<not> Q u" "Q s" "rev ys = filter Q vs"
    by (auto simp: filter_eq_Cons_iff)
  then have "S = rev vs @ s # rev us \<and> filter Q (rev vs) = ys \<and> (\<forall>v\<in>set (rev us). \<not> Q v) \<and> Q s"
    by (simp add: rev_swap rev_filter [symmetric])
  then show ?thesis by blast
qed

lemma tail_none:
  assumes d: "disk_ok disk" and rows: "\<forall>b\<in>set (rowLines disk). rowOk P b" and none: "shown P (rowLines disk) = []"
  shows "readChainTail P (dirOf disk) = None"
proof (cases "rowLines disk = []")
  case True
  then have "rowNames disk = []"
    using splitNl_ne by (auto simp: rowLines_def rowNames_def fileLines_def split: option.splits)
  then show ?thesis
    using collect_dir [OF d] row_names [OF d]
    by (simp add: readChainTail_def dirOf_names chainSources_def)
next
  case False
  have "shownSources (chainSources (dirOf disk) (rowNames disk)) = []"
    using shown_sources [OF d rows] none by simp
  then show ?thesis using readChainTail_disk [OF d False] by simp
qed

lemma tail_some:
  assumes d: "disk_ok disk" and rows: "\<forall>b\<in>set (rowLines disk). rowOk P b" and ts: "tailShown P disk"
    and sh: "shown P (rowLines disk) = xs @ [b]"
  shows "\<exists>t. readChainTail P (dirOf disk) = Some t \<and> tlBytes t = b \<and> tlValid t = parsesAsObject P b
     \<and> (tlValid t \<longrightarrow> tlDigest t = Some (rowDigest P b))
     \<and> (\<not> tlEndsWithNewline t \<and> tlFile t = AUDIT_LOG_BASENAME \<longleftrightarrow> \<not> terminated disk)
     \<and> (\<not> tlValid t \<longrightarrow> tlPrevious t =
          (case filter (parsesAsObject P) (rev xs) of [] \<Rightarrow> readCutLink P (dirOf disk) | y # _ \<Rightarrow> Some (rowDigest P y)))"
proof -
  let ?S = "chainSources (dirOf disk) (rowNames disk)"
  have ne: "rowLines disk \<noteq> []" using sh by (auto simp: shown_def)
  have "map csBytes (shownSources ?S) = xs @ [b]" using shown_sources [OF d rows] sh by simp
  then obtain ys s where ys: "shownSources ?S = ys @ [s]" "map csBytes ys = xs" "csBytes s = b"
    by (auto simp: map_eq_append_conv)
  from filter_snoc [OF ys(1) [unfolded shownSources_def]] obtain us vs where
    S: "?S = us @ s # vs" "\<forall>v\<in>set vs. isBlank (csBytes v)" "\<not> isBlank (csBytes s)"
    and us: "filter (\<lambda>s. \<not> isBlank (csBytes s)) us = ys" by auto
  note nl = tail_newline [OF d ts S]
  let ?t = "tailOf P (dirOf disk) s"
  have nbs: "\<forall>y\<in>set (rev ys). \<not> isBlank (csBytes y)"
    using us by auto
  have t: "readChainTail P (dirOf disk) = (if tlValid ?t then Some ?t else tailScan P (dirOf disk) (Some ?t) (rev ys))"
    using readChainTail_disk [OF d ne] S(3) ys(1) by simp
  have prev: "(case filter (\<lambda>s. parsesAsObject P (csBytes s)) (rev ys) of [] \<Rightarrow> readCutLink P (dirOf disk)
        | s # _ \<Rightarrow> Some (rowDigest P (csBytes s))) =
      (case filter (parsesAsObject P) (rev xs) of [] \<Rightarrow> readCutLink P (dirOf disk) | y # _ \<Rightarrow> Some (rowDigest P y))"
  proof -
    have "filter (parsesAsObject P) (rev xs) = map csBytes (filter (\<lambda>s. parsesAsObject P (csBytes s)) (rev ys))"
      by (simp add: ys(2) [symmetric] rev_map filter_map comp_def)
    then show ?thesis by (cases "filter (\<lambda>s. parsesAsObject P (csBytes s)) (rev ys)") simp_all
  qed
  have base: "tlBytes ?t = b" "tlValid ?t = parsesAsObject P b" "tlValid ?t \<Longrightarrow> tlDigest ?t = Some (rowDigest P b)"
    using ys(3) by (simp_all add: tailOf_def Let_def)
  show ?thesis
  proof (cases "tlValid ?t")
    case True
    with t base nl show ?thesis by auto
  next
    case False
    then have "readChainTail P (dirOf disk) = Some (?t\<lparr>tlPrevious :=
       (case filter (parsesAsObject P) (rev xs) of [] \<Rightarrow> readCutLink P (dirOf disk) | y # _ \<Rightarrow> Some (rowDigest P y))\<rparr>)"
      using t tailScan_previous [OF nbs, of P "dirOf disk" ?t] prev by simp
    with False base nl show ?thesis by auto
  qed
qed

end
