(* ===== verification/AuditPrune.thy ===== *)
theory AuditPrune
  imports AuditTail
begin

text \<open>
  What the retention sweep removes from a disk in order: a prefix of the archives, whose lines the cut
  record it writes accounts for.
\<close>

lemma filter_dropWhile_mono:
  "sorted (map f xs) \<Longrightarrow> (\<And>x y. Q x \<Longrightarrow> f x \<le> f y \<Longrightarrow> Q y) \<Longrightarrow> filter Q xs = dropWhile (\<lambda>x. \<not> Q x) xs"
proof (induction xs)
  case (Cons x xs)
  show ?case
  proof (cases "Q x")
    case True
    with Cons.prems have "\<forall>y\<in>set xs. Q y" by auto
    with True show ?thesis by simp
  next
    case False
    with Cons show ?thesis by simp
  qed
qed simp

lemma dropWhile_eq_drop: "\<exists>k. dropWhile Q xs = drop k xs"
  by (metis dropWhile_eq_drop)

lemma candidates_prefix:
  assumes d: "disk_ok disk"
  shows "\<exists>k. pruneCandidates cfg now (dkArchives disk) = take k (dkArchives disk)"
proof -
  let ?xs = "dkArchives disk"
  let ?Q = "\<lambda>a. \<not> now - arMtime a > cfMaxArchiveAge cfg"
  have st: "sorted_wrt (<) (map arStamp ?xs)" and mt: "sorted (map arMtime ?xs)" using d by (simp_all add: disk_ok_def)
  have "sorted (map (\<lambda>a. (arMtime a, arStamp a)) ?xs)"
    using st mt unfolding sorted_wrt_iff_nth_less by (auto simp: less_eq_prod_def order.order_iff_strict)
  then have key: "sort_key (\<lambda>a. (arMtime a, arStamp a)) ?xs = ?xs" by (rule sort_key_id_if_sorted)
  let ?m = "length ?xs - cfMaxArchives cfg"
  have tk: "take (cfMaxArchives cfg) (rev ?xs) = rev (drop ?m ?xs)" by (simp add: take_rev)
  have srt: "sorted (map arMtime (drop ?m ?xs))" using mt by (simp add: drop_map [symmetric] sorted_wrt_drop)
  have "filter ?Q (drop ?m ?xs) = dropWhile (\<lambda>a. \<not> ?Q a) (drop ?m ?xs)"
    by (rule filter_dropWhile_mono [OF srt]) auto
  then obtain k where k: "filter ?Q (drop ?m ?xs) = drop k ?xs"
    using dropWhile_eq_drop [of "\<lambda>a. \<not> ?Q a" "drop ?m ?xs"] by (metis drop_drop)
  have kept: "keptArchives cfg now ?xs = set (map arStamp (drop k ?xs))"
    unfolding keptArchives_def key tk rev_filter [symmetric] k by simp
  have dist: "distinct (map arStamp ?xs)" using st by (simp add: strict_sorted_iff)
  have "filter (\<lambda>a. arStamp a \<notin> set (map arStamp (drop k ?xs))) ?xs = take k ?xs"
  proof -
    have "distinct (map arStamp (take k ?xs) @ map arStamp (drop k ?xs))"
      using dist by (metis append_take_drop_id map_append)
    then have "\<forall>a\<in>set (take k ?xs). arStamp a \<notin> set (map arStamp (drop k ?xs))" by auto
    then have "filter (\<lambda>a. arStamp a \<notin> set (map arStamp (drop k ?xs))) (take k ?xs) = take k ?xs"
      by (simp add: filter_True)
    moreover have "filter (\<lambda>a. arStamp a \<notin> set (map arStamp (drop k ?xs))) (drop k ?xs) = []"
      by (simp add: filter_empty_conv)
    ultimately show ?thesis by (metis append_Nil2 append_take_drop_id filter_append)
  qed
  then have "filter (\<lambda>a. arStamp a \<notin> keptArchives cfg now ?xs) ?xs = take k ?xs" by (simp add: kept)
  moreover have "sorted (map arStamp (take k ?xs))"
    using sorted_lt_le [OF st] by (simp add: take_map [symmetric] sorted_wrt_take)
  ultimately have "pruneCandidates cfg now ?xs = take k ?xs"
    by (simp add: pruneCandidates_def sort_key_id_if_sorted)
  then show ?thesis ..
qed

lemma kept_after_prefix:
  assumes "disk_ok disk"
  shows "filter (\<lambda>a. arStamp a \<notin> set (map arStamp (take j (dkArchives disk)))) (dkArchives disk) = drop j (dkArchives disk)"
proof -
  let ?xs = "dkArchives disk"
  have "distinct (map arStamp (take j ?xs) @ map arStamp (drop j ?xs))"
    using assms by (metis append_take_drop_id disk_ok_def map_append strict_sorted_iff)
  then have "filter (\<lambda>a. arStamp a \<notin> set (map arStamp (take j ?xs))) (drop j ?xs) = drop j ?xs"
    by (auto intro!: filter_True)
  moreover have "filter (\<lambda>a. arStamp a \<notin> set (map arStamp (take j ?xs))) (take j ?xs) = []"
    by (simp add: filter_empty_conv)
  ultimately show ?thesis by (metis append_Nil append_take_drop_id filter_append)
qed

subsection \<open>The cut record of the removed archives\<close>

lemma appendCutLine_blank: "js_trim l = [] \<Longrightarrow> appendCutLine P acc l = acc"
  by (simp add: appendCutLine_def)

lemma cutRecordFor_shown: "cutRecordFor P (map (decodeUtf8 P) (shown P ls)) cutAt = cutRecordFor P (map (decodeUtf8 P) ls) cutAt"
proof -
  have "foldl (appendCutLine P) acc (map (decodeUtf8 P) (shown P ls)) = foldl (appendCutLine P) acc (map (decodeUtf8 P) ls)" for acc
    by (induction ls arbitrary: acc) (auto simp: shown_def appendCutLine_blank)
  then show ?thesis by (simp add: cutRecordFor_def)
qed

definition archiveLines :: "audit_archive list \<Rightarrow> string list" where
  "archiveLines arcs = concat (map (\<lambda>a. splitNl (arBytes a)) arcs)"

lemma total_cut:
  assumes "platform_ok P"
  shows "finalizeAuditCutRecord (foldl mergeAuditCutAccumulator createAuditCutAccumulator (map (archiveCut P) arcs)) cutAt
     = cutRecordFor P (map (decodeUtf8 P) (archiveLines arcs)) cutAt"
proof -
  have "map (archiveCut P) arcs = map (appendCutText P createAuditCutAccumulator) (map (\<lambda>a. decodeUtf8 P (arBytes a)) arcs)"
    by (simp add: archiveCut_def)
  moreover have "concat (map splitNl (map (\<lambda>a. decodeUtf8 P (arBytes a)) arcs)) = map (decodeUtf8 P) (archiveLines arcs)"
    by (simp add: archiveLines_def comp_def decode_lines [OF assms] map_concat)
  ultimately show ?thesis by (simp only: merged_cut_record)
qed

lemma legacy_count: "0 \<le> acLegacy acc \<Longrightarrow> 0 \<le> acLegacy (foldl (appendCutLine P) acc ls)"
proof (induction ls arbitrary: acc)
  case (Cons l ls)
  have "0 \<le> acLegacy (appendCutLine P acc l)"
    using Cons.prems by (simp add: appendCutLine_def Let_def split: row_link.split)
  with Cons.IH show ?case by simp
qed simp

lemma nothing_owed:
  "\<forall>a\<in>set arcs. \<not> owesCut (archiveCut P a) \<Longrightarrow> acFrom acc = None \<Longrightarrow> acLegacy acc = 0 \<Longrightarrow>
     finalizeAuditCutRecord (foldl mergeAuditCutAccumulator acc (map (archiveCut P) arcs)) cutAt = None"
proof (induction arcs arbitrary: acc)
  case Nil
  then show ?case by (simp add: finalizeAuditCutRecord_def)
next
  case (Cons a arcs)
  have "0 \<le> acLegacy (archiveCut P a)"
    unfolding archiveCut_def appendCutText_lines by (rule legacy_count) (simp add: createAuditCutAccumulator_def)
  with Cons show ?case by (simp add: owesCut_def mergeAuditCutAccumulator_def)
qed

end
