(* ===== verification/AuditInvariant.thy ===== *)
theory AuditInvariant
  imports AuditPrune
begin

text \<open>
  The invariant of the audit log: its lines are well formed, and either they walk, the writer's link being
  the one the verifier stands at, or the last line is a torn one the next step has to find.
\<close>

abbreviation walks :: "platform \<Rightarrow> string list \<Rightarrow> walk_state \<Rightarrow> bool" where
  "walks P ls st \<equiv> walkLines P None 0 (map (lineItem P) ls) walkStart = Inr st"

definition endsLine :: "string option \<Rightarrow> bool" where
  "endsLine b \<longleftrightarrow> (case b of None \<Rightarrow> True | Some x \<Rightarrow> x = [] \<or> last x = NL)"

abbreviation cutLines :: "platform \<Rightarrow> audit_disk \<Rightarrow> string list" where
  "cutLines P disk \<equiv> shown P (fileLines (dkCuts disk))"

definition linesOk :: "platform \<Rightarrow> audit_disk \<Rightarrow> bool" where
  "linesOk P disk \<longleftrightarrow>
     disk_ok disk \<and> (\<forall>l\<in>set (fileLines (dkCuts disk)). cutOk P l) \<and> endsLine (dkCuts disk)
     \<and> (\<forall>b\<in>set (rowLines disk). rowOk P b) \<and> tailShown P disk"

definition standsAt :: "platform \<Rightarrow> audit_disk \<Rightarrow> walk_state \<Rightarrow> bool" where
  "standsAt P disk st \<longleftrightarrow> walks P (cutLines P disk @ shown P (rowLines disk)) st"

definition intactLog :: "platform \<Rightarrow> audit_world \<Rightarrow> bool" where
  "intactLog P w \<longleftrightarrow> linesOk P (awDisk w) \<and>
     (\<exists>st. standsAt P (awDisk w) st
           \<and> (\<not> awOwed w \<longrightarrow> awLanded w = Some (linkText st) \<and> terminated (awDisk w)))"

definition tornLog :: "platform \<Rightarrow> audit_world \<Rightarrow> bool" where
  "tornLog P w \<longleftrightarrow> linesOk P (awDisk w) \<and> awOwed w
     \<and> (\<exists>pre f st. shown P (fileLines (dkLive (awDisk w))) = pre @ [f]
           \<and> jsonParse P (js_trim (decodeUtf8 P f)) = None
           \<and> walks P (cutLines P (awDisk w) @ shown P (archiveLines (dkArchives (awDisk w))) @ pre) st)"

lemma rowLines_parts: "rowLines disk = archiveLines (dkArchives disk) @ fileLines (dkLive disk)"
  by (simp add: rowLines_def archiveLines_def)

lemma walks_snoc:
  "walks P ls st \<Longrightarrow> walkLine P None (length ls) (lineItem P b) [] st = Inr st' \<Longrightarrow> walks P (ls @ [b]) st'"
  by (simp add: walkLines_append_ok)

subsection \<open>Appending\<close>

definition liveBytes :: "audit_disk \<Rightarrow> string" where
  "liveBytes disk = (case dkLive disk of None \<Rightarrow> [] | Some b \<Rightarrow> b)"

abbreviation appended :: "audit_disk \<Rightarrow> int \<Rightarrow> string \<Rightarrow> audit_disk" where
  "appended disk now y \<equiv> disk\<lparr>dkLive := Some (liveBytes disk @ y), dkLiveMtime := now\<rparr>"

lemma live_lines:
  assumes "terminated disk"
  shows "\<exists>ls e. fileLines (dkLive disk) = ls @ e \<and> (e = [] \<or> e = [[]])
     \<and> (\<forall>y. splitNl (liveBytes disk @ y) = ls @ splitNl y)"
proof (cases "dkLive disk")
  case None
  then show ?thesis by (auto simp: fileLines_def liveBytes_def)
next
  case (Some b)
  show ?thesis
  proof (cases "b = []")
    case True
    with Some show ?thesis by (auto simp: fileLines_def liveBytes_def intro: exI [of _ "[]"])
  next
    case False
    with Some assms obtain c where b: "b = c @ [NL]"
      by (auto simp: terminated_def) (metis append_butlast_last_id)
    have "splitNl (b @ y) = splitNl c @ splitNl y" for y using splitNl_append [of c y] b by simp
    moreover have "fileLines (dkLive disk) = splitNl c @ [[]]"
      using splitNl_append [of c "[]"] b Some by (simp add: fileLines_def)
    ultimately show ?thesis using Some by (auto simp: liveBytes_def intro!: exI [of _ "splitNl c"])
  qed
qed

lemma shown_Nil [simp]: "platform_ok P \<Longrightarrow> shown P ([] # ls) = shown P ls"
  by (simp add: shown_def platform_ok_def js_trim_def)

lemma shown_empty [simp]: "shown P [] = []"
  by (simp add: shown_def)

lemma rowOk_Nil: "platform_ok P \<Longrightarrow> rowOk P []"
  by (simp add: rowOk_def platform_ok_def js_trim_def archivedRow_def)

lemma disk_ok_live: "disk_ok disk \<Longrightarrow> dkLiveMtime disk \<le> now \<Longrightarrow> disk_ok (disk\<lparr>dkLive := b, dkLiveMtime := now\<rparr>)"
  by (auto simp: disk_ok_def)

lemma append_lines:
  assumes P: "platform_ok P" and ok: "linesOk P disk" and t: "terminated disk" and now: "dkLiveMtime disk \<le> now"
    and y: "NL \<notin> set y" "rowOk P y" "js_trim y \<noteq> []"
  shows "linesOk P (appended disk now y) \<and> linesOk P (appended disk now (y @ [NL]))
     \<and> shown P (fileLines (dkLive (appended disk now y))) = shown P (fileLines (dkLive disk)) @ [y]
     \<and> shown P (fileLines (dkLive (appended disk now (y @ [NL])))) = shown P (fileLines (dkLive disk)) @ [y]
     \<and> terminated (appended disk now (y @ [NL]))"
proof -
  from live_lines [OF t] obtain ls e where ls: "fileLines (dkLive disk) = ls @ e" "e = [] \<or> e = [[]]"
    "\<And>y. splitNl (liveBytes disk @ y) = ls @ splitNl y" by blast
  have nb: "js_trim (decodeUtf8 P y) \<noteq> []" using y by (simp add: rowOk_def)
  have se: "shown P e = []" using ls(2) P by (auto simp: shown_def platform_ok_def js_trim_def)
  have spl: "splitNl (y @ [NL]) = [y, []]" using splitNl_append [of y "[]"] y(1) by simp
  have l1: "fileLines (dkLive (appended disk now y)) = ls @ [y]"
    using y(1) by (simp add: fileLines_def ls(3))
  have l2: "fileLines (dkLive (appended disk now (y @ [NL]))) = ls @ [y, []]"
    by (simp add: fileLines_def ls(3) spl)
  have sh: "shown P [y] = [y]" "shown P [y, []] = [y]"
    using nb P by (simp_all add: shown_def platform_ok_def js_trim_def)
  have rows: "\<forall>b\<in>set ls. rowOk P b" "\<forall>b\<in>set (archiveLines (dkArchives disk)). rowOk P b"
    using ok ls(1) by (auto simp: linesOk_def rowLines_parts)
  have "last (splitNl (liveBytes disk @ y)) = y" using ls(3) y(1) by simp
  then have t1: "tailShown P (appended disk now y)" using y(3) by (simp add: tailShown_def isBlank_def)
  have t2: "terminated (appended disk now (y @ [NL]))" by (simp add: terminated_def)
  have ok1: "linesOk P (appended disk now y)"
    using ok rows y(2) t1 disk_ok_live [OF _ now]
    by (auto simp: linesOk_def rowLines_parts l1 [simplified])
  have ok2: "linesOk P (appended disk now (y @ [NL]))"
    using ok rows y(2) t2 disk_ok_live [OF _ now] rowOk_Nil [OF P]
    by (auto simp: linesOk_def rowLines_parts l2 [simplified] tailShown_def)
  show ?thesis using ok1 ok2 t2 l1 l2 sh se ls(1) by simp
qed

lemma append_nothing:
  assumes ok: "linesOk P disk" and now: "dkLiveMtime disk \<le> now" and P: "platform_ok P"
  shows "linesOk P (appended disk now []) \<and> shown P (fileLines (dkLive (appended disk now []))) = shown P (fileLines (dkLive disk))
     \<and> terminated (appended disk now []) = terminated disk"
  using ok disk_ok_live [OF _ now] P rowOk_Nil [OF P]
  by (auto simp: linesOk_def rowLines_parts fileLines_def liveBytes_def tailShown_def terminated_def split: option.splits)

lemma append_newline:
  assumes ok: "linesOk P disk" and now: "dkLiveMtime disk \<le> now" and P: "platform_ok P" and t: "\<not> terminated disk"
  shows "linesOk P (appended disk now [NL])
     \<and> shown P (fileLines (dkLive (appended disk now [NL]))) = shown P (fileLines (dkLive disk))
     \<and> terminated (appended disk now [NL])"
proof -
  from t obtain b where b: "dkLive disk = Some b" by (auto simp: terminated_def split: option.splits)
  have l: "fileLines (dkLive (appended disk now [NL])) = fileLines (dkLive disk) @ [[]]"
    using splitNl_append [of b "[]"] b by (simp add: fileLines_def liveBytes_def)
  have t2: "terminated (appended disk now [NL])" by (simp add: terminated_def)
  have "linesOk P (appended disk now [NL])"
    using ok disk_ok_live [OF _ now] rowOk_Nil [OF P] t2
    by (auto simp: linesOk_def rowLines_parts l [simplified] tailShown_def)
  with l t2 P show ?thesis by simp
qed

subsection \<open>A row lands\<close>

lemma walk_linked_row:
  assumes w: "walks P ls st" and t: "decodeUtf8 P y = t" "js_trim t = t" "t \<noteq> []" "jsonParse P t = Some v"
    and v: "strOf (field ''prevDigest'' v) = Some (linkText st)" "isObject v" "\<not> isAuditCutRecord v"
  shows "\<exists>st'. walks P (ls @ [y]) st' \<and> linkOf st' = Some (digestOf P t)"
proof -
  have "v \<noteq> JNull" using v(2) by auto
  then have "walkLine P None (length ls) (lineItem P y) [] st = walkRow P None (length ls) t v st"
    using t v(3) by (simp add: walkLine_def lineItem_def)
  moreover have "\<exists>st'. walkRow P None (length ls) t v st = Inr st'"
    using v(1) linkText_accepted by (simp add: walkRow_def Let_def)
  ultimately obtain st' where st': "walkLine P None (length ls) (lineItem P y) [] st = Inr st'" by auto
  have "linkOf st' = Some (rowDigest P y)"
    by (rule row_link [OF st', of v]) (use t v in \<open>simp_all add: archivedRow_def\<close>)
  with walks_snoc [OF w st'] t show ?thesis by auto
qed

subsection \<open>The tail check\<close>

definition keysFree :: "string list \<Rightarrow> (string \<times> json) list \<Rightarrow> bool" where
  "keysFree ks fs \<longleftrightarrow> distinct (ks @ map fst fs) \<and> list_all (\<lambda>p. wfJson (snd p)) fs"

definition entryOk :: "(string \<times> json) list \<Rightarrow> bool" where
  "entryOk entry \<longleftrightarrow> keysFree [''prevDigest'', ''digestAlg'', ''kind''] entry"

definition envelopeOk :: "(string \<times> json) list \<Rightarrow> bool" where
  "envelopeOk envelope \<longleftrightarrow> keysFree [''eventType'', ''payload'', ''prevDigest'', ''digestAlg'', ''kind''] envelope"

lemma row_fields:
  assumes "entryOk entry"
  shows "wfJson (rowJson entry d)" "strOf (field ''prevDigest'' (rowJson entry d)) =
      Some (case d of None \<Rightarrow> AUDIT_CHAIN_GENESIS | Some x \<Rightarrow> x)"
    "isObject (rowJson entry d)" "\<not> isAuditCutRecord (rowJson entry d)"
proof -
  have "map_of entry ''kind'' = None" using assms by (auto simp: entryOk_def keysFree_def map_of_eq_None_iff)
  then show "\<not> isAuditCutRecord (rowJson entry d)" by (simp add: isAuditCutRecord_def rowJson_def)
qed (use assms in \<open>auto simp: entryOk_def keysFree_def rowJson_def\<close>)

lemma integrity_fields:
  assumes "envelopeOk envelope" "wfJson payload"
  shows "wfJson (integrityRow envelope payload d)" "strOf (field ''prevDigest'' (integrityRow envelope payload d)) =
      Some (case d of None \<Rightarrow> AUDIT_CHAIN_GENESIS | Some x \<Rightarrow> x)"
    "isObject (integrityRow envelope payload d)" "\<not> isAuditCutRecord (integrityRow envelope payload d)"
proof -
  have "map_of envelope ''kind'' = None" using assms by (auto simp: envelopeOk_def keysFree_def map_of_eq_None_iff)
  then show "\<not> isAuditCutRecord (integrityRow envelope payload d)" by (simp add: isAuditCutRecord_def integrityRow_def)
qed (use assms in \<open>auto simp: envelopeOk_def keysFree_def integrityRow_def\<close>)

lemma printed_row:
  assumes "platform_ok P" "wfJson (JObj fs)" "isObject (JObj fs)" "\<not> isAuditCutRecord (JObj fs)"
  defines "y \<equiv> utf8Bytes (jsonText P (JObj fs))"
  shows "NL \<notin> set y" "rowOk P y" "js_trim y \<noteq> []" "decodeUtf8 P y = jsonText P (JObj fs)" "y \<noteq> []"
    "js_trim (jsonText P (JObj fs)) = jsonText P (JObj fs)" "jsonText P (JObj fs) \<noteq> []"
    "jsonParse P (jsonText P (JObj fs)) = Some (JObj fs)"
proof -
  have pr: "printed P (JObj fs)" using assms by (simp add: platform_ok_def)
  then have all: "jsonText P (JObj fs) \<noteq> []" "js_trim (jsonText P (JObj fs)) = jsonText P (JObj fs)"
    "jsonParse P (jsonText P (JObj fs)) = Some (JObj fs)" "NL \<notin> set y" "decodeUtf8 P y = jsonText P (JObj fs)"
    "\<forall>k. 0 < k \<and> k \<le> length y \<longrightarrow> js_trim (take k y) \<noteq> []"
    unfolding y_def by (simp_all add: printed_def Let_def)
  show "y \<noteq> []" using all(1,5) assms(1) by (auto simp: platform_ok_def)
  then show ne: "js_trim y \<noteq> []" using all(6) by (metis length_greater_0_conv order_refl take_all)
  show "rowOk P y" using ne all assms(4) by (simp add: rowOk_def archivedRow_def)
  show "NL \<notin> set y" "decodeUtf8 P y = jsonText P (JObj fs)" "jsonText P (JObj fs) \<noteq> []"
    "js_trim (jsonText P (JObj fs)) = jsonText P (JObj fs)" "jsonParse P (jsonText P (JObj fs)) = Some (JObj fs)"
    using all by simp_all
qed

text \<open>A fragment of a row that a short write left.\<close>

lemma printed_fragment:
  assumes "platform_ok P" "wfJson (JObj fs)"
  defines "y \<equiv> utf8Bytes (jsonText P (JObj fs))"
  assumes k: "0 < k" "k < length y"
  shows "NL \<notin> set (take k y)" "rowOk P (take k y)" "js_trim (take k y) \<noteq> []"
    "jsonParse P (js_trim (decodeUtf8 P (take k y))) = None"
proof -
  have pr: "printed P (JObj fs)" using assms by (simp add: platform_ok_def)
  then have *: "NL \<notin> set y" "js_trim (decodeUtf8 P (take k y)) \<noteq> []"
    "jsonParse P (js_trim (decodeUtf8 P (take k y))) = None" "js_trim (take k y) \<noteq> []"
    using k unfolding y_def by (simp_all add: printed_def Let_def)
  from * show "rowOk P (take k y)" by (simp add: rowOk_def archivedRow_def)
  from * show "NL \<notin> set (take k y)" by (meson in_set_takeD)
  from * show "js_trim (take k y) \<noteq> []" "jsonParse P (js_trim (decodeUtf8 P (take k y))) = None" by simp_all
qed

definition readyLog :: "platform \<Rightarrow> audit_world \<Rightarrow> bool" where
  "readyLog P w \<longleftrightarrow> linesOk P (awDisk w) \<and> terminated (awDisk w)
     \<and> (\<exists>st. standsAt P (awDisk w) st \<and> awLanded w = Some (linkText st))"

lemma ready_intact: "readyLog P w \<Longrightarrow> intactLog P w"
  by (auto simp: readyLog_def intactLog_def)

lemma last_shown_row:
  assumes w: "walks P (cs @ xs @ [b]) st" and sh: "shown P ls = xs @ [b]" and ok: "\<forall>l\<in>set ls. rowOk P l"
  shows "parsesAsObject P b \<and> linkOf st = Some (rowDigest P b)"
proof -
  have b: "b \<in> set (shown P ls)" using sh by simp
  then have "js_trim (decodeUtf8 P b) \<noteq> []" "archivedRow P (decodeUtf8 P b)"
    using ok by (auto simp: shown_def rowOk_def)
  with last_row [where P = P and xs = "cs @ xs" and b = b and s = st] w show ?thesis by simp
qed

lemma previous_link:
  assumes P: "platform_ok P" and ok: "linesOk P disk" and w: "walks P (cutLines P disk @ pre) st"
    and sh: "shown P (rowLines disk) = pre @ [f]"
  shows "(case filter (parsesAsObject P) (rev pre) of [] \<Rightarrow> readCutLink P (dirOf disk) | y # _ \<Rightarrow> Some (rowDigest P y))
    = linkOf st"
proof (cases pre rule: rev_cases)
  case Nil
  then show ?thesis using readCutLink_disk [OF P, where disk = disk and s = st] ok w by (simp add: linesOk_def)
next
  case (snoc xs b)
  have vis: "\<forall>l\<in>set (xs @ [b]). l \<in> set (shown P (rowLines disk))" using sh snoc by simp
  then have "shown P (xs @ [b]) = xs @ [b]" unfolding shown_def by (intro filter_True) auto
  moreover have "\<forall>l\<in>set (xs @ [b]). rowOk P l"
    using vis ok by (auto simp: linesOk_def shown_def)
  ultimately have "parsesAsObject P b \<and> linkOf st = Some (rowDigest P b)"
    using last_shown_row [where P = P and cs = "cutLines P disk" and xs = xs and b = b and st = st and ls = "xs @ [b]"] w snoc by simp
  with snoc show ?thesis by simp
qed

end
