(* ===== verification/AuditKeep.thy ===== *)
theory AuditKeep
  imports AuditInvariant
begin

text \<open>
  The tail check and the retention sweep keep the audit log's invariant: the check ends with the writer
  standing where the verifier does, a torn last line diagnosed, and the sweep leaves the walk where it was.
\<close>

subsection \<open>The tail check\<close>

definition envOk :: "step_env \<Rightarrow> audit_disk \<Rightarrow> bool" where
  "envOk env disk \<longleftrightarrow>
     dkLiveMtime disk \<le> seNow env \<and> envelopeOk (seEnvelope env) \<and> seWriteDamage env \<in> {None, Some 0}
     \<and> archiveStamp (seStamp env) \<and> (\<forall>a\<in>set (dkArchives disk). arStamp a < seStamp env) \<and> seCutWritten env"

definition settledFrom :: "audit_world \<Rightarrow> audit_world \<Rightarrow> step_env \<Rightarrow> bool" where
  "settledFrom w w' env \<longleftrightarrow> dkArchives (awDisk w') = dkArchives (awDisk w) \<and> dkLiveMtime (awDisk w') \<le> seNow env"

lemma appendBytes_full:
  "appendBytes now None b w = (Inr (), w\<lparr>awDisk := appended (awDisk w) now b\<rparr>)"
  by (simp add: appendBytes_def Let_def liveBytes_def)

lemma appendBytes_short:
  "appendBytes now (Some k) b w =
     (if k < length b then Inl PartialWrite else Inr (), w\<lparr>awDisk := appended (awDisk w) now (take k b)\<rparr>)"
  by (simp add: appendBytes_def Let_def liveBytes_def)

lemma appendBytes_cases:
  obtains k where "k < length b" "appendBytes now short b w = (Inl PartialWrite, w\<lparr>awDisk := appended (awDisk w) now (take k b)\<rparr>)"
  | "appendBytes now short b w = (Inr (), w\<lparr>awDisk := appended (awDisk w) now b\<rparr>)"
proof (cases short)
  case None
  then show ?thesis using that(2) by (simp add: appendBytes_full)
next
  case (Some k)
  then show ?thesis
    using that(1) [of k] that(2) by (cases "k < length b") (simp_all add: appendBytes_short)
qed

lemma stands_rows: "standsAt P disk st \<longleftrightarrow>
    walks P (cutLines P disk @ shown P (archiveLines (dkArchives disk)) @ shown P (fileLines (dkLive disk))) st"
  by (simp add: standsAt_def rowLines_parts)

text \<open>Terminating the tail's line, when it needs it.\<close>

lemma newline_step:
  assumes P: "platform_ok P" and ok: "linesOk P (awDisk w)" and now: "dkLiveMtime (awDisk w) \<le> now"
    and r: "(if \<not> terminated (awDisk w) then appendBytes now short [NL] w else (Inr (), w)) = (r, w')"
  shows "linesOk P (awDisk w') \<and> shown P (fileLines (dkLive (awDisk w'))) = shown P (fileLines (dkLive (awDisk w)))
     \<and> (r = Inr () \<longrightarrow> terminated (awDisk w')) \<and> dkArchives (awDisk w') = dkArchives (awDisk w)
     \<and> dkCuts (awDisk w') = dkCuts (awDisk w) \<and> dkLiveMtime (awDisk w') \<le> now
     \<and> awOwed w' = awOwed w \<and> awLanded w' = awLanded w \<and> awFence w' = awFence w"
proof (cases "terminated (awDisk w)")
  case True
  with r ok now show ?thesis by auto
next
  case False
  then have a: "appendBytes now short [NL] w = (r, w')" using r by simp
  consider k where "k < length [NL]" "appendBytes now short [NL] w = (Inl PartialWrite, w\<lparr>awDisk := appended (awDisk w) now (take k [NL])\<rparr>)"
    | "appendBytes now short [NL] w = (Inr (), w\<lparr>awDisk := appended (awDisk w) now [NL]\<rparr>)"
    by (rule appendBytes_cases)
  then show ?thesis
  proof cases
    case 1
    then have "r = Inl PartialWrite" "w' = w\<lparr>awDisk := appended (awDisk w) now []\<rparr>" using a by auto
    with append_nothing [OF ok now P] show ?thesis by simp
  next
    case 2
    then have "r = Inr ()" "w' = w\<lparr>awDisk := appended (awDisk w) now [NL]\<rparr>" using a by auto
    with append_newline [OF ok now P False] show ?thesis by simp
  qed
qed

lemma shown_live_or_rows:
  assumes "shown P (rowLines disk) = xs" "shown P (fileLines (dkLive disk)) = pre @ [f]"
  shows "xs = (shown P (archiveLines (dkArchives disk)) @ pre) @ [f]"
  using assms by (simp add: rowLines_parts)

lemma not_terminated_shown:
  assumes "linesOk P disk" "\<not> terminated disk"
  shows "shown P (rowLines disk) \<noteq> []"
proof -
  from assms(2) obtain b where b: "dkLive disk = Some b" by (auto simp: terminated_def split: option.splits)
  have l: "last (splitNl b) \<in> set (rowLines disk)" using b by (simp add: rowLines_parts fileLines_def)
  moreover have "\<not> isBlank (last (splitNl b))" using assms b by (simp add: linesOk_def tailShown_def)
  ultimately have "js_trim (decodeUtf8 P (last (splitNl b))) \<noteq> []" using assms(1) by (auto simp: linesOk_def rowOk_def isBlank_def)
  with l show ?thesis by (auto simp: shown_def filter_empty_conv)
qed

lemma checkTail_some:
  assumes "readChainTail P (dirOf (awDisk w)) = Some t" "\<not> tlEndsWithNewline t \<and> tlFile t = AUDIT_LOG_BASENAME \<longleftrightarrow> \<not> terminated (awDisk w)"
    "(if \<not> terminated (awDisk w) then appendBytes (seNow env) (seWriteNewline env) [NL] w else (Inr (), w)) = (r1, w1)"
  shows "checkTail P env w =
    (case r1 of Inl e \<Rightarrow> (Inl e, w1)
     | Inr _ \<Rightarrow> (case (if tlValid t then (Inr (), w1\<lparr>awLanded := tlDigest t\<rparr>) else recordDamage P env t w1) of
                  (Inl e, w2) \<Rightarrow> (Inl e, w2) | (Inr _, w2) \<Rightarrow> (Inr (), w2\<lparr>awOwed := False\<rparr>)))"
  unfolding checkTail_def Let_def assms(1) option.case assms(2) utf8_NL assms(3)
  by (cases r1) (simp_all add: case_prod_beta split: sum.split)

lemma checkTail_intact:
  assumes P: "platform_ok P" and env: "envOk env (awDisk w)" and i: "intactLog P w" and ow: "awOwed w"
    and c: "checkTail P env w = (r, w')"
  shows "(if r = Inr () then readyLog P w' \<and> \<not> awOwed w' else intactLog P w' \<and> awOwed w') \<and> settledFrom w w' env"
proof -
  from i obtain st where ok: "linesOk P (awDisk w)" and st: "standsAt P (awDisk w) st" by (auto simp: intactLog_def)
  have d: "disk_ok (awDisk w)" and rows: "\<forall>b\<in>set (rowLines (awDisk w)). rowOk P b" and ts: "tailShown P (awDisk w)"
    and cuts: "\<forall>l\<in>set (fileLines (dkCuts (awDisk w))). cutOk P l" using ok by (simp_all add: linesOk_def)
  have now: "dkLiveMtime (awDisk w) \<le> seNow env" using env by (simp add: envOk_def)
  show ?thesis
  proof (cases "shown P (rowLines (awDisk w))" rule: rev_cases)
    case Nil
    have "readCutLink P (dirOf (awDisk w)) = linkOf st"
      using readCutLink_disk [OF P d cuts] st Nil by (simp add: standsAt_def)
    then have e: "r = Inr ()" "w' = w\<lparr>awLanded := Some (linkText st), awOwed := False\<rparr>"
      using c tail_none [OF d rows Nil] by (auto simp: checkTail_def Let_def linkText_def)
    have "terminated (awDisk w)" using not_terminated_shown [OF ok] Nil by auto
    with e ok st now show ?thesis by (auto simp: readyLog_def settledFrom_def)
  next
    case (snoc xs b)
    have lr: "parsesAsObject P b \<and> linkOf st = Some (rowDigest P b)"
      by (rule last_shown_row [OF _ snoc rows, of "cutLines P (awDisk w)"]) (use st snoc in \<open>simp add: standsAt_def\<close>)
    from tail_some [OF d rows ts snoc] lr obtain t where t: "readChainTail P (dirOf (awDisk w)) = Some t"
      "tlValid t" "tlDigest t = Some (rowDigest P b)"
      "\<not> tlEndsWithNewline t \<and> tlFile t = AUDIT_LOG_BASENAME \<longleftrightarrow> \<not> terminated (awDisk w)" by auto
    obtain r1 w1 where nl: "(if \<not> terminated (awDisk w) then appendBytes (seNow env) (seWriteNewline env) [NL] w else (Inr (), w)) = (r1, w1)"
      by fastforce
    note n = newline_step [OF P ok now nl]
    have st1: "standsAt P (awDisk w1) st" using st n by (simp add: stands_rows)
    have "(r, w') = (case r1 of Inl e \<Rightarrow> (Inl e, w1) | Inr _ \<Rightarrow> (Inr (), w1\<lparr>awLanded := tlDigest t, awOwed := False\<rparr>))"
      using checkTail_some [OF t(1,4) nl] c t(2) by (auto split: sum.splits)
    then show ?thesis
      using n st1 t(3) lr ow
      by (cases r1) (auto simp: readyLog_def intactLog_def settledFrom_def linkText_def)
  qed
qed

lemma damage_walk:
  assumes P: "platform_ok P" and w: "walks P ls st" and f: "jsonParse P (js_trim (decodeUtf8 P f)) = None"
    "js_trim (decodeUtf8 P f) \<noteq> []" and t: "tlBytes t = f" "tlPrevious t = linkOf st" and env: "envelopeOk envelope"
  defines "v \<equiv> integrityRow envelope (damagePayload P t) (tlPrevious t)"
  shows "\<exists>st'. walks P (ls @ [f, utf8Bytes (jsonText P v)]) st' \<and> linkOf st' = Some (digestOf P (jsonText P v))"
proof -
  have wf: "wfJson (damagePayload P t)" by (simp add: damagePayload_def)
  note vf = integrity_fields [OF env wf, of "tlPrevious t", folded v_def]
  have v: "\<exists>fs. v = JObj fs" by (simp add: v_def integrityRow_def)
  then obtain fs where fs: "v = JObj fs" by blast
  note pr = printed_row [OF P, of fs, folded fs, OF vf(1,3,4)]
  let ?y = "utf8Bytes (jsonText P v)"
  have nr: "nextRow [lineItem P ?y] = Some (jsonText P v)"
    using pr by (simp add: nextRow_def lineItem_def blankLine_def)
  have "diagnoses P v f (linkOf st)"
    using env by (simp add: diagnoses_def v_def integrityRow_def damagePayload_def t)
  moreover have "v \<noteq> JNull" using vf(3) by auto
  ultimately obtain dd where
    "diagnoseDamage P (length ls) (lineItem P f) [lineItem P ?y] (linkOf st) = Inr (Some dd)"
    using nr pr(6,8) by (simp add: diagnoseDamage_def lineItem_def itemBytes_def)
  then have wf1: "walkLine P None (length ls) (lineItem P f) [lineItem P ?y] st = Inr (st\<lparr>wkDamages := wkDamages st @ [dd]\<rparr>)"
    using f by (simp add: walkLine_def lineItem_def linkOf_def cong: if_cong)
  let ?s = "st\<lparr>wkDamages := wkDamages st @ [dd]\<rparr>"
  have lt: "linkText ?s = linkText st" by (simp add: linkText_def linkOf_def)
  have prev: "strOf (field ''prevDigest'' v) = Some (linkText ?s)"
    using vf(2) t(2) unfolding lt by (simp add: linkText_def)
  have "walkLine P None (length ls + 1) (lineItem P ?y) [] ?s = walkRow P None (length ls + 1) (jsonText P v) v ?s"
    using pr vf \<open>v \<noteq> JNull\<close> by (simp add: walkLine_def lineItem_def)
  moreover have "\<exists>st'. walkRow P None (length ls + 1) (jsonText P v) v ?s = Inr st'"
    using prev linkText_accepted by (simp add: walkRow_def Let_def)
  ultimately obtain st' where s': "walkLine P None (length ls + 1) (lineItem P ?y) [] ?s = Inr st'" by auto
  have "linkOf st' = Some (rowDigest P ?y)"
    by (rule row_link [OF s', of v]) (use pr vf in \<open>simp_all add: archivedRow_def\<close>)
  moreover have "walks P (ls @ [f, ?y]) st'"
    using w wf1 s' by (simp add: walkLines_append_ok)
  ultimately show ?thesis using pr by auto
qed

lemma recordDamage_eq:
  fixes P t env
  defines "v \<equiv> integrityRow (seEnvelope env) (damagePayload P t) (tlPrevious t)"
  assumes "platform_ok P" "envelopeOk (seEnvelope env)" "seWriteDamage env \<in> {None, Some 0}"
  shows "recordDamage P env t w =
    (if seWriteDamage env = None
     then (Inr (), w\<lparr>awDisk := appended (awDisk w) (seNow env) (utf8Bytes (jsonText P v) @ [NL]),
                     awLanded := Some (digestOf P (jsonText P v))\<rparr>)
     else (Inl PartialWrite, w\<lparr>awDisk := appended (awDisk w) (seNow env) []\<rparr>))"
proof -
  have wf: "wfJson (damagePayload P t)" by (simp add: damagePayload_def)
  note vf = integrity_fields [OF assms(3) wf, of "tlPrevious t", folded v_def]
  obtain fs where fs: "v = JObj fs" by (auto simp: v_def integrityRow_def)
  note pr = printed_row [OF assms(2), of fs, folded fs, OF vf(1,3,4)]
  have te: "js_trimEnd (jsonText P v @ [NL]) = jsonText P v" using pr(6) by (rule js_trimEnd_newline)
  show ?thesis
    using assms(4) te
    by (auto simp: recordDamage_def Let_def v_def [symmetric] lineBytes_eq appendBytes_full appendBytes_short)
qed

lemma checkTail_torn:
  assumes P: "platform_ok P" and env: "envOk env (awDisk w)" and i: "tornLog P w"
    and c: "checkTail P env w = (r, w')"
  shows "(if r = Inr () then readyLog P w' \<and> \<not> awOwed w' else tornLog P w' \<and> awOwed w') \<and> settledFrom w w' env"
proof -
  let ?a = "shown P (archiveLines (dkArchives (awDisk w)))"
  from i obtain pre f st where ok: "linesOk P (awDisk w)" and ow: "awOwed w"
    and lv: "shown P (fileLines (dkLive (awDisk w))) = pre @ [f]"
    and f: "jsonParse P (js_trim (decodeUtf8 P f)) = None"
    and st: "walks P (cutLines P (awDisk w) @ ?a @ pre) st" by (auto simp: tornLog_def)
  have d: "disk_ok (awDisk w)" and rows: "\<forall>b\<in>set (rowLines (awDisk w)). rowOk P b" and ts: "tailShown P (awDisk w)"
    using ok by (simp_all add: linesOk_def)
  have now: "dkLiveMtime (awDisk w) \<le> seNow env" and eo: "envelopeOk (seEnvelope env)"
    and wd: "seWriteDamage env \<in> {None, Some 0}" using env by (simp_all add: envOk_def)
  have sh: "shown P (rowLines (awDisk w)) = (?a @ pre) @ [f]" using lv by (simp add: rowLines_parts)
  have fne: "js_trim (decodeUtf8 P f) \<noteq> []"
  proof -
    have "f \<in> set (shown P (rowLines (awDisk w)))" using sh by simp
    then show ?thesis by (simp add: shown_def)
  qed
  have nv: "\<not> parsesAsObject P f" using f by (simp add: parsesAsObject_def)
  have prev: "(case filter (parsesAsObject P) (rev (?a @ pre)) of [] \<Rightarrow> readCutLink P (dirOf (awDisk w)) | y # _ \<Rightarrow> Some (rowDigest P y)) = linkOf st"
    by (rule previous_link [OF P ok _ sh]) (use st in simp)
  from tail_some [OF d rows ts sh] nv obtain t where t: "readChainTail P (dirOf (awDisk w)) = Some t"
    "tlBytes t = f" "\<not> tlValid t"
    "\<not> tlEndsWithNewline t \<and> tlFile t = AUDIT_LOG_BASENAME \<longleftrightarrow> \<not> terminated (awDisk w)"
    "tlPrevious t = linkOf st" unfolding prev by auto
  obtain r1 w1 where nl: "(if \<not> terminated (awDisk w) then appendBytes (seNow env) (seWriteNewline env) [NL] w else (Inr (), w)) = (r1, w1)"
    by fastforce
  note n = newline_step [OF P ok now nl]
  let ?v = "integrityRow (seEnvelope env) (damagePayload P t) (tlPrevious t)"
  let ?y = "utf8Bytes (jsonText P ?v)"
  have torn1: "tornLog P w1" using n lv f st ow by (auto simp: tornLog_def)
  have c1: "(r, w') = (case r1 of Inl e \<Rightarrow> (Inl e, w1)
     | Inr _ \<Rightarrow> (case recordDamage P env t w1 of (Inl e, w2) \<Rightarrow> (Inl e, w2) | (Inr _, w2) \<Rightarrow> (Inr (), w2\<lparr>awOwed := False\<rparr>)))"
    using checkTail_some [OF t(1,4) nl] c t(3) by simp
  show ?thesis
  proof (cases r1)
    case (Inl e)
    with c1 torn1 n show ?thesis by (auto simp: tornLog_def settledFrom_def)
  next
    case (Inr u)
    then have term1: "terminated (awDisk w1)" using n by simp
    have ok1: "linesOk P (awDisk w1)" and now1: "dkLiveMtime (awDisk w1) \<le> seNow env" using n by simp_all
    show ?thesis
    proof (cases "seWriteDamage env")
      case (Some k)
      then have "r = Inl PartialWrite" "w' = w1\<lparr>awDisk := appended (awDisk w1) (seNow env) []\<rparr>"
        using c1 Inr recordDamage_eq [OF P eo wd, of t w1] by auto
      with append_nothing [OF ok1 now1 P] torn1 n show ?thesis by (auto simp: tornLog_def settledFrom_def)
    next
      case None
      then have rw: "r = Inr ()" "w' = w1\<lparr>awDisk := appended (awDisk w1) (seNow env) (?y @ [NL]),
          awLanded := Some (digestOf P (jsonText P ?v)), awOwed := False\<rparr>"
        using c1 Inr recordDamage_eq [OF P eo wd, of t w1] by auto
      have wf: "wfJson (damagePayload P t)" by (simp add: damagePayload_def)
      note vf = integrity_fields [OF eo wf, of "tlPrevious t"]
      obtain fs where fs: "?v = JObj fs" by (auto simp: integrityRow_def)
      note pr = printed_row [OF P, of fs, folded fs, OF vf(1,3,4)]
      note al = append_lines [OF P ok1 term1 now1 pr(1,2,3)]
      from damage_walk [OF P st f fne t(2,5) eo] obtain st' where
        st': "walks P ((cutLines P (awDisk w) @ ?a @ pre) @ [f, ?y]) st'" "linkOf st' = Some (digestOf P (jsonText P ?v))" by blast
      have "standsAt P (awDisk w') st'"
        using st'(1) al n lv rw(2) by (simp add: stands_rows)
      moreover have "awLanded w' = Some (linkText st')" using st'(2) rw(2) by (simp add: linkText_def)
      ultimately show ?thesis using al n rw by (auto simp: readyLog_def settledFrom_def)
    qed
  qed
qed

subsection \<open>The retention sweep\<close>

definition cutOf :: "platform \<Rightarrow> step_env \<Rightarrow> audit_disk \<Rightarrow> nat \<Rightarrow> audit_cut option" where
  "cutOf P env disk j = cutRecordFor P (map (decodeUtf8 P) (archiveLines (take j (dkArchives disk)))) (seNow env)"

lemma prune_shape:
  assumes P: "platform_ok P" and d: "disk_ok disk" and cw: "seCutWritten env"
  shows "\<exists>j cuts. pruneArchives P cfg env disk = disk\<lparr>dkArchives := drop j (dkArchives disk), dkCuts := cuts\<rparr>
     \<and> (case cutOf P env disk j of
          None \<Rightarrow> cuts = dkCuts disk \<or> (dkCuts disk = None \<and> cuts = Some [])
        | Some c \<Rightarrow> cuts = Some ((case dkCuts disk of None \<Rightarrow> [] | Some b \<Rightarrow> b) @ lineBytes P (cutJson c)))"
proof -
  from candidates_prefix [OF d, of cfg "seNow env"] obtain k where
    k: "pruneCandidates cfg (seNow env) (dkArchives disk) = take k (dkArchives disk)" by blast
  let ?ver = "take (min (seReadable env) k) (dkArchives disk)"
  let ?need = "list_ex (\<lambda>a. owesCut (archiveCut P a)) ?ver"
  have ver: "take (seReadable env) (take k (dkArchives disk)) = ?ver" by simp
  show ?thesis
  proof (cases "?ver = [] \<or> ?need \<and> seCutsRefused env")
    case True
    then have "pruneArchives P cfg env disk = disk" unfolding pruneArchives_def k ver Let_def by simp
    moreover have "cutOf P env disk 0 = None"
      by (simp add: cutOf_def archiveLines_def cutRecordFor_def finalizeAuditCutRecord_def createAuditCutAccumulator_def)
    ultimately show ?thesis by (intro exI [of _ 0] exI [of _ "dkCuts disk"]) simp
  next
    case False
    let ?j = "min (seUnlinked env) (min (seReadable env) k)"
    have rem: "take (seUnlinked env) ?ver = take ?j (dkArchives disk)" by simp
    have fin: "finalizeAuditCutRecord (foldl mergeAuditCutAccumulator createAuditCutAccumulator
        (map (archiveCut P) (take ?j (dkArchives disk)))) (seNow env) = cutOf P env disk ?j"
      using total_cut [OF P] by (simp add: cutOf_def)
    have none: "cutOf P env disk ?j = None" if "\<not> ?need"
    proof -
      have "set (take ?j (dkArchives disk)) \<subseteq> set ?ver" by (rule set_take_subset_set_take) auto
      with that have "\<forall>a\<in>set (take ?j (dkArchives disk)). \<not> owesCut (archiveCut P a)"
        by (auto simp: list_ex_iff)
      from nothing_owed [OF this, of createAuditCutAccumulator "seNow env"] fin show ?thesis
        by (simp add: createAuditCutAccumulator_def)
    qed
    have e: "pruneArchives P cfg env disk = disk\<lparr>dkArchives := drop ?j (dkArchives disk),
        dkCuts := (if \<not> ?need then dkCuts disk
                   else case cutOf P env disk ?j of None \<Rightarrow> Some (case dkCuts disk of None \<Rightarrow> [] | Some b \<Rightarrow> b)
                   | Some c \<Rightarrow> Some ((case dkCuts disk of None \<Rightarrow> [] | Some b \<Rightarrow> b) @ lineBytes P (cutJson c)))\<rparr>"
    proof -
      have f: "(?ver = [] \<or> ?need \<and> seCutsRefused env) = False" using False by blast
      have c: "seCutWritten env = True" using cw by simp
      show ?thesis
        unfolding pruneArchives_def k ver Let_def rem fin f c kept_after_prefix [OF d, of ?j] if_True if_False by (rule refl)
    qed
    show ?thesis
      by (rule exI [of _ ?j], rule exI, rule conjI, rule e)
        (use none in \<open>auto split: option.split\<close>)
  qed
qed

lemma js_trim_Nil [simp]: "js_trim [] = []"
  by (simp add: js_trim_def)

lemma cutJson_obj: "\<exists>fs. cutJson c = JObj fs" "wfJson (cutJson c)"
  by (auto simp: cutJson_def split: option.split)

lemma cut_append:
  fixes c :: audit_cut and o1 :: "string option"
  assumes P: "platform_ok P" and e: "endsLine o1"
  defines "y \<equiv> utf8Bytes (jsonText P (cutJson c))"
  defines "o2 \<equiv> Some ((case o1 of None \<Rightarrow> [] | Some b \<Rightarrow> b) @ lineBytes P (cutJson c))"
  shows "shown P (fileLines o2) = shown P (fileLines o1) @ [y]" "endsLine o2"
    "(\<forall>l\<in>set (fileLines o1). cutOk P l) \<Longrightarrow> (\<forall>l\<in>set (fileLines o2). cutOk P l)"
    "cutLine P c (decodeUtf8 P y)"
proof -
  obtain fs where fs: "cutJson c = JObj fs" using cutJson_obj by blast
  then have "printed P (cutJson c)" using P cutJson_obj(2) [of c] by (simp add: platform_ok_def)
  then have pr: "jsonText P (cutJson c) \<noteq> []" "js_trim (jsonText P (cutJson c)) = jsonText P (cutJson c)"
    "jsonParse P (jsonText P (cutJson c)) = Some (cutJson c)" "NL \<notin> set y" "decodeUtf8 P y = jsonText P (cutJson c)"
    unfolding y_def by (simp_all add: printed_def Let_def)
  show cl: "cutLine P c (decodeUtf8 P y)" using pr by (simp add: cutLine_def)
  have t: "terminated (undefined\<lparr>dkLive := o1\<rparr>)" using e by (simp add: terminated_def endsLine_def)
  from live_lines [OF t] obtain ls d where ls: "fileLines o1 = ls @ d" "d = [] \<or> d = [[]]"
    "\<And>y. splitNl ((case o1 of None \<Rightarrow> [] | Some b \<Rightarrow> b) @ y) = ls @ splitNl y" by (auto simp: liveBytes_def)
  have "splitNl (y @ [NL]) = [y, []]" using splitNl_append [of y "[]"] pr(4) by simp
  then have l2: "fileLines o2 = ls @ [y, []]" using ls(3) by (simp add: o2_def fileLines_def lineBytes_eq y_def)
  have "shown P d = []" using ls(2) P by (auto simp: shown_def platform_ok_def js_trim_def)
  moreover have "shown P [y, []] = [y]" using pr P by (simp add: shown_def platform_ok_def)
  ultimately show "shown P (fileLines o2) = shown P (fileLines o1) @ [y]" using ls(1) l2 by simp
  show "endsLine o2" by (simp add: o2_def endsLine_def lineBytes_eq)
  have "cutOk P y" "cutOk P []" using pr P by (auto simp: cutOk_def platform_ok_def)
  then show "(\<forall>l\<in>set (fileLines o1). cutOk P l) \<Longrightarrow> (\<forall>l\<in>set (fileLines o2). cutOk P l)"
    using ls(1) l2 by auto
qed

lemma fst_lineItem [simp]: "fst (lineItem P b) = decodeUtf8 P b"
  by (simp add: lineItem_def)

lemma cutOk_parsed: "cutOk P l \<Longrightarrow> parsedLine P (lineItem P l)"
  by (auto simp: cutOk_def parsedLine_def blankLine_def js_trim_def)

lemma archiveLines_split: "archiveLines arcs = archiveLines (take j arcs) @ archiveLines (drop j arcs)"
  by (metis archiveLines_def append_take_drop_id concat_append map_append)

lemma prune_walk:
  fixes cfg :: audit_config
  assumes P: "platform_ok P" and ok: "linesOk P disk" and cw: "seCutWritten env"
    and w: "walks P (cutLines P disk @ shown P (archiveLines (dkArchives disk)) @ ys) st"
  defines "disk' \<equiv> pruneArchives P cfg env disk"
  shows "linesOk P disk' \<and> dkLive disk' = dkLive disk \<and> dkLiveMtime disk' = dkLiveMtime disk
     \<and> set (dkArchives disk') \<subseteq> set (dkArchives disk)
     \<and> (\<exists>st'. walks P (cutLines P disk' @ shown P (archiveLines (dkArchives disk')) @ ys) st' \<and> sameLink st st')"
proof -
  have d: "disk_ok disk" and cuts: "\<forall>l\<in>set (fileLines (dkCuts disk)). cutOk P l" and el: "endsLine (dkCuts disk)"
    and rows: "\<forall>b\<in>set (rowLines disk). rowOk P b" and ts: "tailShown P disk" using ok by (simp_all add: linesOk_def)
  from prune_shape [OF P d cw, of cfg] obtain j cs where
    e: "disk' = disk\<lparr>dkArchives := drop j (dkArchives disk), dkCuts := cs\<rparr>"
    and c: "case cutOf P env disk j of None \<Rightarrow> cs = dkCuts disk \<or> (dkCuts disk = None \<and> cs = Some [])
        | Some c \<Rightarrow> cs = Some ((case dkCuts disk of None \<Rightarrow> [] | Some b \<Rightarrow> b) @ lineBytes P (cutJson c))"
    unfolding disk'_def by blast
  let ?rem = "archiveLines (take j (dkArchives disk))" and ?keep = "archiveLines (drop j (dkArchives disk))"
  have "\<exists>ls. shown P (fileLines cs) = cutLines P disk @ ls \<and> endsLine cs \<and> (\<forall>l\<in>set (fileLines cs). cutOk P l)
      \<and> cutFor P (map (decodeUtf8 P) ?rem) (seNow env) (map (decodeUtf8 P) ls)"
  proof (cases "cutOf P env disk j")
    case None
    then have "cutFor P (map (decodeUtf8 P) ?rem) (seNow env) []" by (simp add: cutFor_def cutOf_def)
    moreover have "shown P (fileLines cs) = cutLines P disk" "endsLine cs" "\<forall>l\<in>set (fileLines cs). cutOk P l"
      using c None el cuts P by (auto simp: fileLines_def shown_def endsLine_def platform_ok_def js_trim_def cutOk_def)
    ultimately show ?thesis by (intro exI [of _ "[]"]) simp
  next
    case (Some cr)
    then have cs: "cs = Some ((case dkCuts disk of None \<Rightarrow> [] | Some b \<Rightarrow> b) @ lineBytes P (cutJson cr))" using c by simp
    note ca = cut_append [OF P el, of cr, folded cs]
    have "cutFor P (map (decodeUtf8 P) ?rem) (seNow env) (map (decodeUtf8 P) [utf8Bytes (jsonText P (cutJson cr))])"
      using Some ca(4) by (simp add: cutFor_def cutOf_def)
    with ca cuts show ?thesis by blast
  qed
  then obtain ls where ls: "shown P (fileLines cs) = cutLines P disk @ ls" "endsLine cs" "\<forall>l\<in>set (fileLines cs). cutOk P l"
    "cutFor P (map (decodeUtf8 P) ?rem) (seNow env) (map (decodeUtf8 P) ls)" by blast
  have spl: "shown P (archiveLines (dkArchives disk)) = shown P ?rem @ shown P ?keep"
    by (metis archiveLines_split shown_append)
  have w': "walkLines P None 0 (map (lineItem P) (cutLines P disk) @ map (lineItem P) (shown P ?rem)
      @ map (lineItem P) (shown P ?keep @ ys)) walkStart = Inr st" using w spl by simp
  have "\<exists>st'. walkLines P None 0 (map (lineItem P) (cutLines P disk) @ map (lineItem P) ls
      @ map (lineItem P) (shown P ?keep @ ys)) walkStart = Inr st' \<and> sameLink st st'"
  proof (rule walk_pruned [OF w'])
    show "\<forall>x\<in>set (map (lineItem P) (cutLines P disk)). parsedLine P x"
      using cuts cutOk_parsed by (auto simp: shown_def)
    show "\<forall>x\<in>set (map (lineItem P) (shown P ?rem)). archivedRow P (fst x)"
      using rows archiveLines_split [of "dkArchives disk" j] by (auto simp: shown_def rowLines_parts rowOk_def)
    show "cutFor P (map fst (map (lineItem P) (shown P ?rem))) (seNow env) (map fst (map (lineItem P) ls))"
      using ls(4) cutRecordFor_shown [of P ?rem] by (simp add: comp_def cutFor_def)
  qed
  then obtain st' where st': "walks P (shown P (fileLines cs) @ shown P ?keep @ ys) st'" "sameLink st st'"
    using ls(1) by auto
  have dk: "disk_ok disk'"
  proof -
    have "sorted_wrt (<) (drop j (map arStamp (dkArchives disk)))" "sorted (drop j (map arMtime (dkArchives disk)))"
      using d by (simp_all add: disk_ok_def sorted_wrt_drop)
    then show ?thesis using d unfolding e by (auto simp: disk_ok_def drop_map list_all_iff dest: in_set_dropD)
  qed
  have "\<forall>b\<in>set (rowLines disk'). rowOk P b"
    using rows archiveLines_split [of "dkArchives disk" j] unfolding e by (auto simp: rowLines_parts)
  then have "linesOk P disk'" using dk ls(2,3) ts unfolding e by (simp add: linesOk_def tailShown_def terminated_def)
  with st' show ?thesis unfolding e by (auto dest: in_set_dropD)
qed

lemma prune_ready:
  assumes P: "platform_ok P" and cw: "seCutWritten env" and i: "readyLog P w"
  shows "readyLog P (w\<lparr>awDisk := pruneArchives P cfg env (awDisk w)\<rparr>)"
proof -
  from i obtain st where ok: "linesOk P (awDisk w)" and t: "terminated (awDisk w)" and l: "awLanded w = Some (linkText st)"
    and st: "walks P (cutLines P (awDisk w) @ shown P (archiveLines (dkArchives (awDisk w))) @ shown P (fileLines (dkLive (awDisk w)))) st"
    by (auto simp: readyLog_def stands_rows)
  note pw = prune_walk [OF P ok cw st, of cfg]
  then obtain st' where st': "standsAt P (pruneArchives P cfg env (awDisk w)) st'" "sameLink st st'"
    by (auto simp: stands_rows)
  have "linkText st' = linkText st" using sameLink_linkOf [OF st'(2)] by (simp add: linkText_def)
  with st' pw t l show ?thesis by (auto simp: readyLog_def terminated_def)
qed

lemma prune_intact:
  assumes P: "platform_ok P" and cw: "seCutWritten env" and i: "intactLog P w"
  shows "intactLog P (w\<lparr>awDisk := pruneArchives P cfg env (awDisk w)\<rparr>)"
proof (cases "awOwed w")
  case False
  with i have "readyLog P w" by (auto simp: intactLog_def readyLog_def)
  with prune_ready [OF P cw] ready_intact show ?thesis by blast
next
  case True
  from i obtain st where ok: "linesOk P (awDisk w)"
    and st: "walks P (cutLines P (awDisk w) @ shown P (archiveLines (dkArchives (awDisk w))) @ shown P (fileLines (dkLive (awDisk w)))) st"
    by (auto simp: intactLog_def stands_rows)
  from prune_walk [OF P ok cw st, of cfg] True show ?thesis by (auto simp: intactLog_def stands_rows)
qed

lemma prune_torn:
  assumes P: "platform_ok P" and cw: "seCutWritten env" and i: "tornLog P w"
  shows "tornLog P (w\<lparr>awDisk := pruneArchives P cfg env (awDisk w)\<rparr>)"
proof -
  from i obtain pre f st where ok: "linesOk P (awDisk w)" and ow: "awOwed w"
    and lv: "shown P (fileLines (dkLive (awDisk w))) = pre @ [f]" "jsonParse P (js_trim (decodeUtf8 P f)) = None"
    and st: "walks P (cutLines P (awDisk w) @ shown P (archiveLines (dkArchives (awDisk w))) @ pre) st"
    by (auto simp: tornLog_def)
  from prune_walk [OF P ok cw st, of cfg] ow lv show ?thesis by (auto simp: tornLog_def)
qed

end
