(* ===== verification/AuditSafety.thy ===== *)
theory AuditSafety
  imports AuditKeep "HOL-Library.Countable"
begin

text \<open>
  The audit log stays verifiable over any sequence of its writer's steps: rows that land, rows cut short,
  rotations, retention sweeps, and windows that take the log over.
\<close>

subsection \<open>Rotation\<close>

lemma rotate_ready:
  assumes P: "platform_ok P" and env: "envOk env (awDisk w)" and i: "readyLog P w"
  shows "readyLog P (w\<lparr>awDisk := maybeRotate P cfg env (awDisk w)\<rparr>)"
proof (cases "maybeRotate P cfg env (awDisk w) = awDisk w")
  case True
  with i show ?thesis by simp
next
  case False
  let ?disk = "awDisk w"
  from False obtain live where live: "dkLive ?disk = Some live"
    and e: "maybeRotate P cfg env ?disk = pruneArchives P cfg env
       (?disk\<lparr>dkLive := None, dkArchives := dkArchives ?disk @
          [\<lparr>arStamp = seStamp env, arBytes = live, arMtime = dkLiveMtime ?disk\<rparr>]\<rparr>)"
    by (auto simp: maybeRotate_def split: option.splits if_splits)
  let ?mid = "?disk\<lparr>dkLive := None, dkArchives := dkArchives ?disk @
          [\<lparr>arStamp = seStamp env, arBytes = live, arMtime = dkLiveMtime ?disk\<rparr>]\<rparr>"
  from i obtain st where ok: "linesOk P ?disk" and st: "standsAt P ?disk st" and l: "awLanded w = Some (linkText st)"
    by (auto simp: readyLog_def)
  have rows: "rowLines ?mid = rowLines ?disk" using live by (simp add: rowLines_def fileLines_def)
  have "disk_ok ?mid"
    using ok env by (auto simp: linesOk_def disk_ok_def envOk_def sorted_wrt_append sorted_append)
  then have "linesOk P ?mid" using ok rows by (simp add: linesOk_def tailShown_def terminated_def)
  moreover have "standsAt P ?mid st" using st rows by (simp add: standsAt_def)
  ultimately have "readyLog P (w\<lparr>awDisk := ?mid\<rparr>)" using l by (auto simp: readyLog_def terminated_def)
  from prune_ready [OF P _ this, of env cfg] env show ?thesis by (simp add: e envOk_def)
qed

lemma rotate_mtime: "dkLiveMtime (maybeRotate P cfg env disk) = dkLiveMtime disk"
proof -
  have "dkLiveMtime (pruneArchives P cfg env d) = dkLiveMtime d" for d by (simp add: pruneArchives_def Let_def)
  then show ?thesis by (simp add: maybeRotate_def split: option.split)
qed

subsection \<open>The row write\<close>

definition soundLog :: "platform \<Rightarrow> audit_world \<Rightarrow> bool" where
  "soundLog P w \<longleftrightarrow> intactLog P w \<or> tornLog P w"

lemma take_snoc_cases:
  assumes "k < length (y @ [c])"
  obtains "take k (y @ [c]) = []" | "0 < k" "k < length y" "take k (y @ [c]) = take k y" | "take k (y @ [c]) = y"
  using assms that by (cases "k = 0"; cases "k = length y") auto

lemma append_row_outcomes:
  assumes P: "platform_ok P" and i: "readyLog P w" and now: "dkLiveMtime (awDisk w) \<le> seNow env"
    and entry: "entryOk entry"
  defines "v \<equiv> rowJson entry (awLanded w)"
  defines "y \<equiv> utf8Bytes (jsonText P v)"
  shows "soundLog P (w\<lparr>awDisk := appended (awDisk w) (seNow env) [], awOwed := True\<rparr>)"
    and "0 < k \<Longrightarrow> k < length y \<Longrightarrow> soundLog P (w\<lparr>awDisk := appended (awDisk w) (seNow env) (take k y), awOwed := True\<rparr>)"
    and "soundLog P (w\<lparr>awDisk := appended (awDisk w) (seNow env) y, awOwed := True\<rparr>)"
    and "readyLog P (w\<lparr>awDisk := appended (awDisk w) (seNow env) (y @ [NL]),
           awLanded := Some (digestOf P (jsonText P v)), awFence := f\<rparr>)"
proof -
  from i obtain st where ok: "linesOk P (awDisk w)" and t: "terminated (awDisk w)" and st: "standsAt P (awDisk w) st"
    and l: "awLanded w = Some (linkText st)" by (auto simp: readyLog_def)
  note vf = row_fields [OF entry, of "awLanded w", folded v_def]
  obtain fs where fs: "v = JObj fs" by (simp add: v_def rowJson_def)
  note pr = printed_row [OF P, of fs, folded fs, OF vf(1,3,4), folded y_def]
  note al = append_lines [OF P ok t now pr(1,2,3)]
  have prev: "strOf (field ''prevDigest'' v) = Some (linkText st)" using vf(2) l by simp
  from walk_linked_row [OF st [unfolded stands_rows] pr(4,6,7,8) prev vf(3,4)] obtain st' where
    st': "walks P ((cutLines P (awDisk w) @ shown P (archiveLines (dkArchives (awDisk w))) @ shown P (fileLines (dkLive (awDisk w)))) @ [y]) st'"
    "linkOf st' = Some (digestOf P (jsonText P v))" by blast
  show "soundLog P (w\<lparr>awDisk := appended (awDisk w) (seNow env) [], awOwed := True\<rparr>)"
    using append_nothing [OF ok now P] st by (auto simp: soundLog_def intactLog_def stands_rows)
  show "soundLog P (w\<lparr>awDisk := appended (awDisk w) (seNow env) y, awOwed := True\<rparr>)"
    using al st'(1) by (auto simp: soundLog_def intactLog_def stands_rows)
  show "readyLog P (w\<lparr>awDisk := appended (awDisk w) (seNow env) (y @ [NL]),
           awLanded := Some (digestOf P (jsonText P v)), awFence := f\<rparr>)"
    using al st' by (auto simp: readyLog_def stands_rows linkText_def)
  assume k: "0 < k" "k < length y"
  note fr = printed_fragment [OF P vf(1) [unfolded fs], folded fs, folded y_def, OF k]
  note al = append_lines [OF P ok t now fr(1,2,3)]
  show "soundLog P (w\<lparr>awDisk := appended (awDisk w) (seNow env) (take k y), awOwed := True\<rparr>)"
    using al st fr(4) by (auto simp: soundLog_def tornLog_def stands_rows)
qed

lemma writeRow_keeps:
  assumes P: "platform_ok P" and env: "envOk env (awDisk w)" and i: "readyLog P w" and entry: "entryOk entry"
    and r: "writeRow P cfg env entry w = (r, w')"
  shows "if r = Inr () then readyLog P w' \<and> awOwed w' = awOwed w else soundLog P w' \<and> awOwed w'"
proof -
  let ?w = "w\<lparr>awDisk := maybeRotate P cfg env (awDisk w)\<rparr>"
  let ?v = "rowJson entry (awLanded ?w)"
  let ?y = "utf8Bytes (jsonText P ?v)"
  have i1: "readyLog P ?w" by (rule rotate_ready [OF P env i])
  have now: "dkLiveMtime (awDisk ?w) \<le> seNow env" using env by (simp add: rotate_mtime envOk_def)
  note out = append_row_outcomes [OF P i1 now entry]
  note vf = row_fields [OF entry, of "awLanded w"]
  obtain fs where fs: "?v = JObj fs" by (simp add: rowJson_def)
  have te: "js_trimEnd (jsonText P ?v @ [NL]) = jsonText P ?v"
    by (rule js_trimEnd_newline) (use printed_row(6) [OF P, of fs, folded fs] vf in simp)
  consider k where "k < length (lineBytes P ?v)"
      "appendBytes (seNow env) (seWriteRow env) (lineBytes P ?v) ?w = (Inl PartialWrite, ?w\<lparr>awDisk := appended (awDisk ?w) (seNow env) (take k (lineBytes P ?v))\<rparr>)"
    | "appendBytes (seNow env) (seWriteRow env) (lineBytes P ?v) ?w = (Inr (), ?w\<lparr>awDisk := appended (awDisk ?w) (seNow env) (lineBytes P ?v)\<rparr>)"
    by (rule appendBytes_cases)
  then show ?thesis
  proof cases
    case 1
    then have rw: "r = Inl PartialWrite" "w' = ?w\<lparr>awDisk := appended (awDisk ?w) (seNow env) (take k (lineBytes P ?v)), awOwed := True\<rparr>"
      using r by (auto simp: writeRow_def Let_def)
    have k: "k < length (?y @ [NL])" using 1(1) by (simp add: lineBytes_eq)
    have w': "w' = ?w\<lparr>awDisk := appended (awDisk ?w) (seNow env) (take k (?y @ [NL])), awOwed := True\<rparr>"
      using rw(2) by (simp only: lineBytes_eq)
    have "soundLog P w'"
    proof (rule take_snoc_cases [OF k])
      assume e: "take k (?y @ [NL]) = []"
      show ?thesis unfolding w' e by (rule out(1))
    next
      assume e: "0 < k" "k < length ?y" "take k (?y @ [NL]) = take k ?y"
      show ?thesis unfolding w' e(3) using out(2) e(1,2) by simp
    next
      assume e: "take k (?y @ [NL]) = ?y"
      show ?thesis unfolding w' e using out(3) by simp
    qed
    with rw show ?thesis by simp
  next
    case 2
    then have rw: "r = Inr ()" "w' = ?w\<lparr>awDisk := appended (awDisk ?w) (seNow env) (?y @ [NL]),
        awLanded := Some (digestOf P (jsonText P ?v)), awFence := seFence env\<rparr>"
      using r te by (auto simp: writeRow_def Let_def lineBytes_eq)
    with out(4) show ?thesis by simp
  qed
qed

lemma envOk_settled: "envOk env (awDisk w) \<Longrightarrow> settledFrom w w' env \<Longrightarrow> envOk env (awDisk w')"
  by (simp add: envOk_def settledFrom_def)

lemma writeStep_keeps:
  assumes P: "platform_ok P" and env: "envOk env (awDisk w)" and i: "soundLog P w" and entry: "entryOk entry"
    and r: "writeStep P cfg env entry w = (r, w')"
  shows "soundLog P w' \<and> (r = Inr () \<longrightarrow> intactLog P w' \<and> \<not> awOwed w')"
proof (cases "seFence env = None")
  case True
  with r i show ?thesis by (auto simp: writeStep_def)
next
  case False
  define w1 where "w1 = (if seFence env \<noteq> awFence w then w\<lparr>awOwed := True\<rparr> else w)"
  have i1: "soundLog P w1" using i by (auto simp: w1_def soundLog_def intactLog_def tornLog_def)
  have e1: "envOk env (awDisk w1)" using env by (simp add: w1_def)
  obtain r2 w2 where c: "(if awOwed w1 then checkTail P env w1 else (Inr (), w1)) = (r2, w2)" by fastforce
  have main: "(if r2 = Inr () then readyLog P w2 \<and> \<not> awOwed w2 else soundLog P w2 \<and> awOwed w2) \<and> envOk env (awDisk w2)"
  proof (cases "awOwed w1")
    case True
    then have ct: "checkTail P env w1 = (r2, w2)" using c by simp
    show ?thesis
    proof (cases "intactLog P w1")
      case True
      from checkTail_intact [OF P e1 True \<open>awOwed w1\<close> ct] envOk_settled [OF e1] show ?thesis
        by (auto simp: soundLog_def split: if_splits)
    next
      case False
      then have "tornLog P w1" using i1 by (simp add: soundLog_def)
      from checkTail_torn [OF P e1 this ct] envOk_settled [OF e1] show ?thesis
        by (auto simp: soundLog_def split: if_splits)
    qed
  next
    case False
    then have "intactLog P w1" using i1 by (auto simp: soundLog_def tornLog_def)
    then have "readyLog P w1" using False by (auto simp: intactLog_def readyLog_def)
    with c False e1 show ?thesis by auto
  qed
  have ws: "writeStep P cfg env entry w = (case r2 of Inl e \<Rightarrow> (Inl e, w2) | Inr _ \<Rightarrow> writeRow P cfg env entry w2)"
    unfolding writeStep_def Let_def w1_def [symmetric] c using False by (auto split: sum.split)
  show ?thesis
  proof (cases r2)
    case (Inl e)
    with ws r main show ?thesis by auto
  next
    case (Inr u)
    then have "writeRow P cfg env entry w2 = (r, w')" using ws r by simp
    from writeRow_keeps [OF P _ _ entry this] main Inr show ?thesis
      by (auto simp: soundLog_def ready_intact split: if_splits)
  qed
qed

subsection \<open>Sequences of steps\<close>

text \<open>A writer's serialized step, its maintenance sweep, and a new writer built over the log (another
  window, or this one after a restart), which knows nothing of it until its first tail check.\<close>

inductive auditStep :: "platform \<Rightarrow> audit_config \<Rightarrow> audit_world \<Rightarrow> audit_world \<Rightarrow> bool"
  for P :: platform and cfg :: audit_config where
  writes: "envOk env (awDisk w) \<Longrightarrow> entryOk entry \<Longrightarrow> writeStep P cfg env entry w = (r, w') \<Longrightarrow> auditStep P cfg w w'"
| maintain: "envOk env (awDisk w) \<Longrightarrow> auditStep P cfg w (runArchiveMaintenance P cfg env w)"
| takeOver: "auditStep P cfg w (w\<lparr>awLanded := None, awOwed := True, awFence := None, awMaintenanceRan := False\<rparr>)"

definition legacyLine :: "platform \<Rightarrow> string \<Rightarrow> bool" where
  "legacyLine P b \<longleftrightarrow> rowOk P b
     \<and> (js_trim (decodeUtf8 P b) \<noteq> [] \<longrightarrow>
          (\<exists>v. jsonParse P (js_trim (decodeUtf8 P b)) = Some v \<and> strOf (field ''prevDigest'' v) = None))"

definition initialLog :: "platform \<Rightarrow> audit_world \<Rightarrow> bool" where
  "initialLog P w \<longleftrightarrow> awOwed w \<and> dkCuts (awDisk w) = None \<and> dkArchives (awDisk w) = []
     \<and> tailShown P (awDisk w) \<and> (\<forall>b\<in>set (rowLines (awDisk w)). legacyLine P b)"

lemma legacy_walks:
  "\<forall>b\<in>set ls. legacyLine P b \<and> js_trim (decodeUtf8 P b) \<noteq> [] \<Longrightarrow> \<not> wkChainBegun st \<Longrightarrow>
     \<exists>st'. walkLines P probe n (map (lineItem P) ls) st = Inr st'"
proof (induction ls arbitrary: n st)
  case (Cons b ls)
  then obtain v where v: "jsonParse P (js_trim (decodeUtf8 P b)) = Some v" "strOf (field ''prevDigest'' v) = None"
    "isObject v" "\<not> isAuditCutRecord v" "js_trim (decodeUtf8 P b) \<noteq> []"
    by (auto simp: legacyLine_def rowOk_def archivedRow_def)
  then have "v \<noteq> JNull" by auto
  with v Cons.prems(2) obtain s1 where
    "walkLine P probe n (lineItem P b) (map (lineItem P) ls) st = Inr s1" "\<not> wkChainBegun s1"
    by (auto simp: walkLine_def walkRow_def lineItem_def)
  with Cons show ?case by auto
qed simp

lemma initial_sound: "platform_ok P \<Longrightarrow> initialLog P w \<Longrightarrow> soundLog P w"
proof -
  assume P: "platform_ok P" and i: "initialLog P w"
  have "\<exists>st. walks P (shown P (rowLines (awDisk w))) st"
    by (rule legacy_walks) (use i in \<open>auto simp: initialLog_def shown_def walkStart_def\<close>)
  then obtain st where "standsAt P (awDisk w) st"
    using i by (auto simp: standsAt_def initialLog_def fileLines_def)
  moreover have "linesOk P (awDisk w)"
    using i by (auto simp: initialLog_def linesOk_def disk_ok_def fileLines_def endsLine_def legacyLine_def)
  ultimately show ?thesis using i by (auto simp: soundLog_def intactLog_def initialLog_def)
qed

lemma step_keeps:
  assumes P: "platform_ok P"
  shows "auditStep P cfg w w' \<Longrightarrow> soundLog P w \<Longrightarrow> soundLog P w'"
proof (induction rule: auditStep.induct)
  case (writes env w entry r w')
  then show ?case using writeStep_keeps [OF P] by blast
next
  case (maintain env w)
  have cw: "seCutWritten env" using maintain(1) by (simp add: envOk_def)
  have "soundLog P (w\<lparr>awDisk := pruneArchives P cfg env (awDisk w)\<rparr>)"
    using maintain(2) prune_intact [OF P cw] prune_torn [OF P cw] by (auto simp: soundLog_def)
  then have "soundLog P (w\<lparr>awMaintenanceRan := True, awDisk := pruneArchives P cfg env (awDisk w)\<rparr>)"
    by (simp add: soundLog_def intactLog_def tornLog_def)
  with maintain(2) show ?case by (simp add: runArchiveMaintenance_def)
next
  case (takeOver w)
  then show ?case by (auto simp: soundLog_def intactLog_def tornLog_def)
qed

lemma reach_sound:
  "(auditStep P cfg)\<^sup>*\<^sup>* w0 w \<Longrightarrow> platform_ok P \<Longrightarrow> initialLog P w0 \<Longrightarrow> soundLog P w"
  by (induction rule: rtranclp_induct) (auto intro: initial_sound step_keeps)

subsection \<open>The verdict on the directory\<close>

lemma source_items:
  "chainItems (map (\<lambda>s. decodeUtf8 P (csBytes s)) S) (Some S) = map (\<lambda>s. (decodeUtf8 P (csBytes s), Some s)) S"
  by (rule nth_equalityI) (auto simp: chainItems_def nth_enumerate_eq)

lemma same_items:
  "list_all2 sameItem (map (lineItem P) (shown P (map csBytes S)))
     (shownItems (map (\<lambda>s. (decodeUtf8 P (csBytes s), Some s)) S))"
  by (induction S) (auto simp: shown_def shownItems_def blankLine_def sameItem_def lineItem_def itemBytes_def)

lemma torn_verdict:
  assumes w: "walkLines P None 0 (map (lineItem P) ls) walkStart = Inr st"
    and f: "jsonParse P (js_trim (decodeUtf8 P f)) = None" "js_trim (decodeUtf8 P f) \<noteq> []"
    and it: "list_all2 sameItem (map (lineItem P) (ls @ [f])) (shownItems xs)"
  shows "\<exists>n. walkLines P probe 0 xs walkStart = Inl (Inr (ChainFail Malformed n NotValidJson))"
proof -
  from it obtain ys y where ys: "shownItems xs = ys @ [y]" "list_all2 sameItem (map (lineItem P) ls) ys" "sameItem (lineItem P f) y"
    by (auto simp: list_all2_append1 list_all2_Cons1)
  from filter_snoc [OF ys(1) [unfolded shownItems_def]] obtain us vs where
    xs: "xs = us @ y # vs" and us: "shownItems us = ys" and vs: "\<forall>v\<in>set vs. blankLine (fst v)"
    by (auto simp: shownItems_def)
  from walkLines_hidden [OF w sameLink_refl] ys(2) us obtain s where
    s: "walkLines P probe 0 us walkStart = Inr s" by blast
  have "shownItems vs = []" using vs by (simp add: shownItems_def)
  then have "nextRow vs = None" by (simp add: nextRow_shown)
  then have "walkLine P probe (length us) y vs s = Inl (Inr (ChainFail Malformed (length us + 1) NotValidJson))"
    using f ys(3) by (simp add: walkLine_def sameItem_def diagnoseDamage_def)
  with s show ?thesis by (simp add: xs walkLines_append_ok)
qed

definition logVerdict :: "platform \<Rightarrow> audit_world \<Rightarrow> string option \<Rightarrow> (js_throw + chain_verdict) option" where
  "logVerdict P w probe = map_option snd (verifyAuditChainAt P (dirOf (awDisk w)) probe)"

lemma sound_verdict:
  assumes P: "platform_ok P" and s: "soundLog P w" and ne: "logVerdict P w probe = Some v"
  shows "(\<exists>r. v = Inr (ChainOk r)) \<or> (awOwed w \<and> tornLog P w \<and> (\<exists>n. v = Inr (ChainFail Malformed n NotValidJson)))"
proof -
  let ?disk = "awDisk w"
  have ok: "linesOk P ?disk" using s by (auto simp: soundLog_def intactLog_def tornLog_def)
  then have d: "disk_ok ?disk" by (simp add: linesOk_def)
  let ?S = "chainSources (dirOf ?disk) (orderedNames ?disk)"
  let ?items = "map (\<lambda>s. (decodeUtf8 P (csBytes s), Some s)) ?S"
  have v: "v = walkVerdict probe (walkLines P probe 0 ?items walkStart)"
    using ne collect_dir [OF d]
    by (auto simp: logVerdict_def verifyAuditChainAt_def dirOf_names verifyChain_def source_items split: if_splits)
  have it: "list_all2 sameItem (map (lineItem P) (cutLines P ?disk @ shown P (rowLines ?disk))) (shownItems ?items)"
    using same_items [of P ?S] disk_sources [OF d] by simp
  show ?thesis
  proof (cases "intactLog P w")
    case True
    then obtain st where "walks P (cutLines P ?disk @ shown P (rowLines ?disk)) st"
      by (auto simp: intactLog_def standsAt_def)
    from walkLines_hidden [OF this sameLink_refl it, of probe 0] obtain st' where
      "walkLines P probe 0 ?items walkStart = Inr st'" by blast
    with v show ?thesis by (simp add: walkVerdict_def)
  next
    case False
    then have t: "tornLog P w" using s by (simp add: soundLog_def)
    then obtain pre f st where lv: "shown P (fileLines (dkLive ?disk)) = pre @ [f]"
      "jsonParse P (js_trim (decodeUtf8 P f)) = None"
      and st: "walks P (cutLines P ?disk @ shown P (archiveLines (dkArchives ?disk)) @ pre) st"
      and ow: "awOwed w" by (auto simp: tornLog_def)
    have f: "js_trim (decodeUtf8 P f) \<noteq> []"
    proof -
      have "f \<in> set (shown P (fileLines (dkLive ?disk)))" using lv by simp
      then show ?thesis by (simp add: shown_def)
    qed
    have "list_all2 sameItem (map (lineItem P) ((cutLines P ?disk @ shown P (archiveLines (dkArchives ?disk)) @ pre) @ [f])) (shownItems ?items)"
      using it lv by (simp add: rowLines_parts)
    from torn_verdict [OF st lv(2) f this, of probe] obtain n where
      "walkLines P probe 0 ?items walkStart = Inl (Inr (ChainFail Malformed n NotValidJson))" by blast
    with v t ow show ?thesis by (simp add: walkVerdict_def)
  qed
qed

subsection \<open>A platform that keeps the promises\<close>

instance json :: countable
  by countable_datatype

definition unaryText :: "nat \<Rightarrow> string" where
  "unaryText n = CHR ''{'' # replicate n CHR ''a'' @ [CHR ''}'']"

definition unaryPlatform :: platform where
  "unaryPlatform =
     \<lparr>jsonParse = (\<lambda>t. if t = unaryText (length t - 2) then Some (from_nat (length t - 2)) else None),
      jsonText = (\<lambda>v. unaryText (to_nat v)), decodeUtf8 = (\<lambda>b. b), sha256Hex = (\<lambda>b. b)\<rparr>"

lemma unary_trim:
  "set t \<subseteq> {CHR ''{'', CHR ''a'', CHR ''}''} \<Longrightarrow> js_trim t = t"
proof -
  assume t: "set t \<subseteq> {CHR ''{'', CHR ''a'', CHR ''}''}"
  then have "\<forall>c\<in>set t. \<not> js_space c" by (auto simp: js_space_def)
  then show ?thesis unfolding js_trim_def by (metis dropWhile_idem_hd hd_in_set rev_rev_ident set_rev)
qed

lemma unary_set: "set (unaryText n) \<subseteq> {CHR ''{'', CHR ''a'', CHR ''}''}"
  by (auto simp: unaryText_def)

lemma unary_bytes: "set t \<subseteq> {CHR ''{'', CHR ''a'', CHR ''}''} \<Longrightarrow> utf8Bytes t = t"
  by (induction t) (auto simp: utf8Bytes_def)

lemma unary_prefix:
  assumes "0 < k" "k < length (unaryText n)"
  shows "take k (unaryText n) \<noteq> unaryText m"
proof
  assume e: "take k (unaryText n) = unaryText m"
  from assms have "last (take k (unaryText n)) \<in> {CHR ''{'', CHR ''a''}"
    by (cases k) (auto simp: unaryText_def last_conv_nth nth_Cons' nth_append)
  moreover have "last (unaryText m) = CHR ''}''" by (simp add: unaryText_def)
  ultimately show False using e by simp
qed

lemma unary_ok: "platform_ok unaryPlatform"
proof -
  have "printed unaryPlatform v" for v
  proof -
    have b: "utf8Bytes (jsonText unaryPlatform v) = unaryText (to_nat v)"
      by (simp add: unaryPlatform_def unary_bytes unary_set)
    have tk: "js_trim (take k (unaryText (to_nat v))) = take k (unaryText (to_nat v))" for k
      by (rule unary_trim) (meson order_trans set_take_subset unary_set)
    have nl: "NL \<notin> set (unaryText (to_nat v))" using unary_set [of "to_nat v"] by (auto simp: NL_def)
    have "unaryText (to_nat v) \<noteq> []" by (simp add: unaryText_def)
    then show ?thesis
      unfolding printed_def Let_def b
      using nl tk unary_prefix by (simp add: unaryPlatform_def unary_trim unary_set) (simp add: unaryText_def)
  qed
  then show ?thesis by (simp add: platform_ok_def unaryPlatform_def unaryText_def)
qed

text \<open>C12. The writer's log verifies after any sequence of its steps that \<open>envOk\<close> admits, from an empty
  directory or a log of rows written before the chain: writes whose row lands or stops short, tail checks,
  rotations, retention sweeps and writers built over the log.  \<open>envOk\<close> admits a step only if the clock is not
  behind the live file, the archive stamp is larger than every earlier one (the code formats the local time,
  which can step back), a damage row lands whole or not at all, and a cut record is written when rows are
  removed; outside it the log can break, as \<open>torn_damage_row\<close> and the code's own notice of an unwritten cut
  say.  The one exception under \<open>envOk\<close> is a torn last line, which the next step owes a tail check for: there
  the verdict is \<open>malformed\<close>, and it is gone once a write has succeeded.\<close>

theorem writer_log_verifies:
  assumes "platform_ok P" "initialLog P w0" "(auditStep P cfg)\<^sup>*\<^sup>* w0 w"
  shows "case logVerdict P w probe of
           None \<Rightarrow> dirOf (awDisk w) = []
         | Some v \<Rightarrow> (\<exists>r. v = Inr (ChainOk r))
             \<or> (awOwed w \<and> (\<exists>n. v = Inr (ChainFail Malformed n NotValidJson)))"
proof (cases "logVerdict P w probe")
  case None
  have "linesOk P (awDisk w)"
    using reach_sound [OF assms(3,1,2)] by (auto simp: soundLog_def intactLog_def tornLog_def)
  then have "disk_ok (awDisk w)" by (simp add: linesOk_def)
  from collect_dir [OF this] None have "orderedNames (awDisk w) = []"
    by (auto simp: logVerdict_def verifyAuditChainAt_def dirOf_names Let_def split: if_splits)
  then have "dirOf (awDisk w) = []" by (metis dirOf_names map_is_Nil_conv)
  with None show ?thesis by simp
next
  case (Some v)
  from sound_verdict [OF assms(1) reach_sound [OF assms(3,1,2)] Some] Some show ?thesis by auto
qed

definition emptyLog :: audit_world where
  "emptyLog = \<lparr>awDisk = \<lparr>dkCuts = None, dkArchives = [], dkLive = None, dkLiveMtime = 0\<rparr>,
     awLanded = None, awOwed = True, awFence = None, awMaintenanceRan = False\<rparr>"

definition firstStep :: step_env where
  "firstStep = \<lparr>seFence = Some 1, seNow = 5, seGenerationStart = 5, seStamp = ''20260101-000000'', seRenameFails = False,
     seEnvelope = [], seWriteNewline = None, seWriteDamage = None, seWriteRow = Some 3, seReadable = 9,
     seCutsRefused = False, seUnlinked = 9, seCutWritten = True\<rparr>"

definition demoConfig :: audit_config where
  "demoConfig = \<lparr>cfRotationSize = 100, cfRotationMaxAge = 100, cfMaxArchives = 2, cfMaxArchiveAge = 100\<rparr>"

theorem writer_log_verifies_witness:
  "let w = snd (writeStep unaryPlatform demoConfig (firstStep\<lparr>seWriteRow := None\<rparr>) [(''eventType'', JStr ''phase'')]
             (snd (writeStep unaryPlatform demoConfig firstStep [(''eventType'', JStr ''phase'')] emptyLog)))
   in case logVerdict unaryPlatform w None of
        None \<Rightarrow> dirOf (awDisk w) = []
      | Some v \<Rightarrow> (\<exists>r. v = Inr (ChainOk r))
          \<or> (awOwed w \<and> (\<exists>n. v = Inr (ChainFail Malformed n NotValidJson)))"
proof -
  let ?e = "[(''eventType'', JStr ''phase'')]"
  let ?w1 = "snd (writeStep unaryPlatform demoConfig firstStep ?e emptyLog)"
  have i: "initialLog unaryPlatform emptyLog"
    by (simp add: initialLog_def emptyLog_def tailShown_def terminated_def rowLines_def fileLines_def)
  have entry: "entryOk ?e" by (simp add: entryOk_def keysFree_def)
  have env: "envOk firstStep (awDisk emptyLog)" "envelopeOk []" "archiveStamp ''20260101-000000''"
    by (auto simp: envOk_def firstStep_def emptyLog_def envelopeOk_def keysFree_def) code_simp+
  have env2: "envOk (firstStep\<lparr>seWriteRow := None\<rparr>) (awDisk ?w1)"
  proof -
    obtain r1 w1 where w1: "writeStep unaryPlatform demoConfig firstStep ?e emptyLog = (r1, w1)" by fastforce
    have "dkArchives (awDisk w1) = [] \<and> dkLiveMtime (awDisk w1) \<le> 5"
      using w1 by (auto simp: writeStep_def firstStep_def emptyLog_def checkTail_def readChainTail_def collectChainFiles_def dirOf_def
          writeRow_def maybeRotate_def appendBytes_def Let_def split: if_splits)
    with w1 env show ?thesis by (simp add: envOk_def firstStep_def)
  qed
  have s1: "auditStep unaryPlatform demoConfig emptyLog ?w1"
    by (rule auditStep.writes [OF env(1) entry]) (rule prod.collapse [symmetric])
  have s2: "auditStep unaryPlatform demoConfig ?w1
      (snd (writeStep unaryPlatform demoConfig (firstStep\<lparr>seWriteRow := None\<rparr>) ?e ?w1))"
    by (rule auditStep.writes [OF env2 entry]) (rule prod.collapse [symmetric])
  let ?R = "auditStep unaryPlatform demoConfig"
  have "?R\<^sup>*\<^sup>* emptyLog ?w1" by (rule r_into_rtranclp [where r = ?R, OF s1])
  then have "?R\<^sup>*\<^sup>* emptyLog (snd (writeStep unaryPlatform demoConfig (firstStep\<lparr>seWriteRow := None\<rparr>) ?e ?w1))"
    by (rule rtranclp.rtrancl_into_rtrancl [where r = ?R, OF _ s2])
  from writer_log_verifies [OF unary_ok i this, of None] show ?thesis by (simp only: Let_def)
qed

subsection \<open>A damage row that is itself cut short\<close>

text \<open>When the write of the damage row stops short, the log ends in two lines that do not parse, and the
  next tail check diagnoses only the last of them.\<close>

lemma torn_damage_row:
  assumes P: "platform_ok P" and i: "tornLog P w" and now: "dkLiveMtime (awDisk w) \<le> seNow env"
    and eo: "envelopeOk (seEnvelope env)" and wn: "seWriteNewline env = None"
    and t: "readChainTail P (dirOf (awDisk w)) = Some t" and wd: "seWriteDamage env = Some k"
    and k: "0 < k" "k < length (utf8Bytes (jsonText P (integrityRow (seEnvelope env) (damagePayload P t) (tlPrevious t))))"
  shows "\<exists>pre f g. shown P (fileLines (dkLive (awDisk (snd (checkTail P env w))))) = pre @ [f, g]
     \<and> jsonParse P (js_trim (decodeUtf8 P f)) = None \<and> jsonParse P (js_trim (decodeUtf8 P g)) = None"
proof -
  let ?a = "shown P (archiveLines (dkArchives (awDisk w)))"
  let ?v = "integrityRow (seEnvelope env) (damagePayload P t) (tlPrevious t)"
  let ?y = "utf8Bytes (jsonText P ?v)"
  from i obtain pre f st where ok: "linesOk P (awDisk w)"
    and lv: "shown P (fileLines (dkLive (awDisk w))) = pre @ [f]"
    and f: "jsonParse P (js_trim (decodeUtf8 P f)) = None" by (auto simp: tornLog_def)
  have d: "disk_ok (awDisk w)" and rows: "\<forall>b\<in>set (rowLines (awDisk w)). rowOk P b" and ts: "tailShown P (awDisk w)"
    using ok by (simp_all add: linesOk_def)
  have sh: "shown P (rowLines (awDisk w)) = (?a @ pre) @ [f]" using lv by (simp add: rowLines_parts)
  have nv: "\<not> parsesAsObject P f" using f by (simp add: parsesAsObject_def)
  have tt: "\<not> tlValid t" "\<not> tlEndsWithNewline t \<and> tlFile t = AUDIT_LOG_BASENAME \<longleftrightarrow> \<not> terminated (awDisk w)"
    using tail_some [OF d rows ts sh] t nv by auto
  obtain r1 w1 where nl: "(if \<not> terminated (awDisk w) then appendBytes (seNow env) (seWriteNewline env) [NL] w else (Inr (), w)) = (r1, w1)"
    by fastforce
  then have r1: "r1 = Inr ()" using wn by (auto simp: appendBytes_full split: if_splits)
  note n = newline_step [OF P ok now nl]
  have wf: "wfJson (damagePayload P t)" by (simp add: damagePayload_def)
  note vf = integrity_fields [OF eo wf, of "tlPrevious t"]
  obtain fs where fs: "?v = JObj fs" by (auto simp: integrityRow_def)
  have "k < length (?y @ [NL])" using k by simp
  then have rd: "recordDamage P env t w1 = (Inl PartialWrite, w1\<lparr>awDisk := appended (awDisk w1) (seNow env) (take k ?y)\<rparr>)"
    using k wd by (simp add: recordDamage_def Let_def lineBytes_eq appendBytes_short)
  have c: "snd (checkTail P env w) = w1\<lparr>awDisk := appended (awDisk w1) (seNow env) (take k ?y)\<rparr>"
    using checkTail_some [OF t tt(2) nl] r1 tt(1) rd by simp
  have ok1: "linesOk P (awDisk w1)" and t1: "terminated (awDisk w1)" and now1: "dkLiveMtime (awDisk w1) \<le> seNow env"
    and lv1: "shown P (fileLines (dkLive (awDisk w1))) = pre @ [f]" using n r1 lv by simp_all
  note fr = printed_fragment [OF P vf(1) [unfolded fs], folded fs, OF k]
  have "shown P (fileLines (dkLive (awDisk (snd (checkTail P env w))))) = pre @ [f, take k ?y]"
    using append_lines [OF P ok1 t1 now1 fr(1,2,3)] lv1 unfolding c by simp
  with f fr(4) show ?thesis by blast
qed

end
