(* ===== verification/AuditCheckpoint.thy ===== *)
theory AuditCheckpoint
  imports AuditWalk
begin

text \<open>
  The head checkpoint's pure core (\<open>src/src/audit/audit-checkpoint.ts\<close>): the stored record and its parse,
  the classification of what a verification found against it, and the mode the writer settles in.  The
  module \<open>createHash\<close> of the workspace key is not modelled; a key is a string.
\<close>

datatype checkpoint_origin = OriginNew | OriginAdopted | OriginReset

record head_checkpoint =
  hcKey :: string
  hcOrigin :: checkpoint_origin
  hcHeadDigest :: string
  hcPosition :: int
  hcEstablishedAt :: int
  hcUpdatedAt :: int

record retired_checkpoint = head_checkpoint +
  hcRetiredAt :: int
  hcRetiredPosition :: int

datatype unreadable_reason = Corrupt | VersionUnknown | Unreachable

datatype checkpoint_read =
    CheckpointAbsent | CheckpointActive head_checkpoint | CheckpointRetired retired_checkpoint
  | CheckpointUnreadable unreadable_reason

fun originOf :: "json option \<Rightarrow> checkpoint_origin option" where
  "originOf (Some (JStr s)) =
     (if s = ''new'' then Some OriginNew else if s = ''adopted'' then Some OriginAdopted
      else if s = ''reset'' then Some OriginReset else None)"
| "originOf _ = None"

definition countOf :: "json option \<Rightarrow> int option" where
  "countOf v = (case numOf v of Some n \<Rightarrow> if n \<ge> 0 then Some n else None | None \<Rightarrow> None)"

text \<open>The parse reads an object that is not an array; every number is finite.\<close>

definition parseCheckpoint :: "platform \<Rightarrow> string \<Rightarrow> string \<Rightarrow> checkpoint_read" where
  "parseCheckpoint P body key =
     (case jsonParse P body of
        Some (JObj fs) \<Rightarrow>
          (let v = JObj fs
           in case numOf (field ''version'' v) of
                None \<Rightarrow> CheckpointUnreadable Corrupt
              | Some version \<Rightarrow>
                  if version \<noteq> 1 then CheckpointUnreadable VersionUnknown
                  else (case (originOf (field ''origin'' v), strOf (field ''headDigest'' v), countOf (field ''position'' v),
                              numOf (field ''establishedAtMs'' v), numOf (field ''updatedAtMs'' v)) of
                          (Some origin, Some headDigest, Some position, Some establishedAt, Some updatedAt) \<Rightarrow>
                            if field ''workspaceKey'' v \<noteq> Some (JStr key) then CheckpointUnreadable Corrupt
                            else if field ''state'' v = Some (JStr ''active'')
                            then CheckpointActive \<lparr>hcKey = key, hcOrigin = origin, hcHeadDigest = headDigest,
                                   hcPosition = position, hcEstablishedAt = establishedAt, hcUpdatedAt = updatedAt\<rparr>
                            else if field ''state'' v = Some (JStr ''retired'')
                            then (case (numOf (field ''retiredAtMs'' v), countOf (field ''retiredPosition'' v)) of
                                    (Some retiredAt, Some retiredPosition) \<Rightarrow>
                                      CheckpointRetired \<lparr>hcKey = key, hcOrigin = origin, hcHeadDigest = headDigest,
                                        hcPosition = position, hcEstablishedAt = establishedAt, hcUpdatedAt = updatedAt,
                                        hcRetiredAt = retiredAt, hcRetiredPosition = retiredPosition\<rparr>
                                  | _ \<Rightarrow> CheckpointUnreadable Corrupt)
                            else CheckpointUnreadable Corrupt
                        | _ \<Rightarrow> CheckpointUnreadable Corrupt))
      | _ \<Rightarrow> CheckpointUnreadable Corrupt)"

datatype shorter_detail = TailRemoved | HeadAbsent

datatype not_performed = CheckpointUnreadableReason unreadable_reason | ChainNotIntact

datatype loss_state =
    NewWorkspace
  | Consistent int
  | Adopted int int
  | Shorter int int shorter_detail
  | Missing int
  | NoCheckpointForLocation
  | NotPerformed not_performed

definition probeFound :: "chain_report \<Rightarrow> int option" where
  "probeFound r = (case vrProbe r of None \<Rightarrow> None | Some (_, at_position) \<Rightarrow> at_position)"

definition classifyLoss :: "checkpoint_read \<Rightarrow> chain_verdict option \<Rightarrow> loss_state" where
  "classifyLoss read check =
     (case read of
        CheckpointUnreadable reason \<Rightarrow> NotPerformed (CheckpointUnreadableReason reason)
      | _ \<Rightarrow>
          (case check of
             Some (ChainFail _ _ _) \<Rightarrow> NotPerformed ChainNotIntact
           | _ \<Rightarrow>
               (case read of
                  CheckpointActive cp \<Rightarrow>
                    (case check of
                       Some (ChainOk r) \<Rightarrow>
                         if probeFound r = Some (hcPosition cp) \<or> hcPosition cp \<le> vrPrunedThrough r
                         then (if hcOrigin cp = OriginAdopted then Adopted (hcPosition cp) (hcEstablishedAt cp)
                               else Consistent (hcPosition cp))
                         else if vrTail r < hcPosition cp then Shorter (hcPosition cp) (vrTail r) TailRemoved
                         else Shorter (hcPosition cp) (vrTail r) HeadAbsent
                     | _ \<Rightarrow> Missing (hcPosition cp))
                | _ \<Rightarrow> if check = None then NewWorkspace else NoCheckpointForLocation)))"

datatype checkpoint_mode = ModeNew | ModeAdopt | ModeTrack | ModeLoss | ModeReset | ModeOff

record settle_facts =
  sfFilesPresent :: bool
  sfTailDigest :: "string option"
  sfWalk :: "chain_verdict option"

definition settleCheckpointMode :: "checkpoint_read \<Rightarrow> settle_facts \<Rightarrow> checkpoint_mode \<times> int" where
  "settleCheckpointMode read facts =
     (case read of
        CheckpointUnreadable _ \<Rightarrow> (ModeOff, 0)
      | CheckpointActive cp \<Rightarrow>
          if \<not> sfFilesPresent facts then (ModeLoss, 0)
          else if sfTailDigest facts = Some (hcHeadDigest cp) then (ModeTrack, hcPosition cp)
          else (case sfWalk facts of
                  Some (ChainOk r) \<Rightarrow>
                    if probeFound r = Some (hcPosition cp) \<or> hcPosition cp \<le> vrPrunedThrough r
                    then (ModeTrack, vrTail r) else (ModeLoss, 0)
                | _ \<Rightarrow> (ModeOff, 0))
      | _ \<Rightarrow>
          if \<not> sfFilesPresent facts
          then (case read of CheckpointRetired _ \<Rightarrow> (ModeReset, 0) | _ \<Rightarrow> (ModeNew, 0))
          else (case sfWalk facts of Some (ChainOk r) \<Rightarrow> (ModeAdopt, vrTail r) | _ \<Rightarrow> (ModeOff, 0)))"

text \<open>The writer advances a checkpoint exactly when a verification would not report a loss: it settles
  in \<open>loss\<close> when the classification is shorter or missing, tracks when it is consistent or adopted, and
  stays off when none was performed.  (The cheap answer, the head being the tail, is not asked here.)\<close>

theorem settle_matches_classification:
  assumes "sfFilesPresent facts \<longleftrightarrow> sfWalk facts \<noteq> None" "sfTailDigest facts \<noteq> Some (hcHeadDigest cp)"
  shows "(fst (settleCheckpointMode (CheckpointActive cp) facts) = ModeLoss \<longleftrightarrow>
            (\<exists>e f d. classifyLoss (CheckpointActive cp) (sfWalk facts) = Shorter e f d)
            \<or> (\<exists>e. classifyLoss (CheckpointActive cp) (sfWalk facts) = Missing e))
    \<and> (fst (settleCheckpointMode (CheckpointActive cp) facts) = ModeTrack \<longleftrightarrow>
            (\<exists>p. classifyLoss (CheckpointActive cp) (sfWalk facts) = Consistent p)
            \<or> (\<exists>p t. classifyLoss (CheckpointActive cp) (sfWalk facts) = Adopted p t))
    \<and> (fst (settleCheckpointMode (CheckpointActive cp) facts) = ModeOff \<longleftrightarrow>
            (\<exists>n. classifyLoss (CheckpointActive cp) (sfWalk facts) = NotPerformed n))"
proof (cases "sfWalk facts")
  case None
  with assms show ?thesis by (simp add: settleCheckpointMode_def classifyLoss_def)
next
  case (Some v)
  with assms show ?thesis by (cases v) (auto simp: settleCheckpointMode_def classifyLoss_def)
qed

theorem settle_matches_classification_witness:
  "fst (settleCheckpointMode
     (CheckpointActive \<lparr>hcKey = ''k'', hcOrigin = OriginNew, hcHeadDigest = ''d'', hcPosition = 3, hcEstablishedAt = 1, hcUpdatedAt = 2\<rparr>)
     \<lparr>sfFilesPresent = False, sfTailDigest = None, sfWalk = None\<rparr>) = ModeLoss"
  using settle_matches_classification
    [of "\<lparr>sfFilesPresent = False, sfTailDigest = None, sfWalk = None\<rparr>"
        "\<lparr>hcKey = ''k'', hcOrigin = OriginNew, hcHeadDigest = ''d'', hcPosition = 3, hcEstablishedAt = 1, hcUpdatedAt = 2\<rparr>"]
  by (simp add: classifyLoss_def)

definition historyKept :: "checkpoint_read \<Rightarrow> chain_report \<Rightarrow> bool" where
  "historyKept read r \<longleftrightarrow>
     (case classifyLoss read (Some (ChainOk r)) of Consistent _ \<Rightarrow> True | Adopted _ _ \<Rightarrow> True | _ \<Rightarrow> False)"

definition plainRows :: "chain_report \<Rightarrow> bool" where
  "plainRows r \<longleftrightarrow> vrCuts r = 0 \<and> vrUnchainedPrefix r = 0 \<and> vrDamages r = []"

lemma kept_probe:
  assumes "historyKept (CheckpointActive cp) r" "vrPrunedThrough r = 0" "0 < hcPosition cp"
    "verifyChain P xs sx (Some d) = Inr (ChainOk r)"
  shows "vrProbe r = Some (d, Some (hcPosition cp))"
proof -
  from assms(4) have "\<exists>p. vrProbe r = Some (d, p)" by (auto simp: verdict_ok chainReport_def)
  with assms(1-3) show ?thesis
    by (auto simp: historyKept_def classifyLoss_def probeFound_def split: if_splits)
qed

text \<open>C14. A history that is consistent with its checkpoint is the one the checkpoint was taken of: two logs
  of chained rows that both verify and are both consistent with the same checkpoint hold the same rows up
  to its position, as long as the digest does not collide on their rows.\<close>

theorem consistent_history_is_pinned:
  assumes "verifyChain P xs sx (Some (hcHeadDigest cp)) = Inr (ChainOk rx)" "plainRows rx"
    and "verifyChain P ys sy (Some (hcHeadDigest cp)) = Inr (ChainOk ry)" "plainRows ry"
    and "historyKept (CheckpointActive cp) rx" "historyKept (CheckpointActive cp) ry" "0 < hcPosition cp"
    and "inj_on (digestOf P) (set (chainRows xs) \<union> set (chainRows ys))"
  shows "nat (hcPosition cp) \<le> length (chainRows xs)
    \<and> take (nat (hcPosition cp)) (chainRows xs) = take (nat (hcPosition cp)) (chainRows ys)"
proof -
  have x: "vrCuts rx = 0" "vrUnchainedPrefix rx = 0" "vrDamages rx = []" using assms(2) by (simp_all add: plainRows_def)
  have y: "vrCuts ry = 0" "vrUnchainedPrefix ry = 0" "vrDamages ry = []" using assms(4) by (simp_all add: plainRows_def)
  have px: "vrProbe rx = Some (hcHeadDigest cp, Some (hcPosition cp))"
    by (rule kept_probe [OF assms(5) clean_not_pruned [OF assms(1) x] assms(7,1)])
  have py: "vrProbe ry = Some (hcHeadDigest cp, Some (hcPosition cp))"
    by (rule kept_probe [OF assms(6) clean_not_pruned [OF assms(3) y] assms(7,3)])
  from checkpoint_pins_history [OF assms(1,3) x y px py assms(8)] show ?thesis by simp
qed

theorem consistent_history_is_pinned_witness:
  "take (nat 2) (chainRows [''{a}'', '' {b}'', ''{c}'']) = take (nat 2) (chainRows [''{a}'', ''{b}''])"
proof -
  let ?cp = "\<lparr>hcKey = ''k'', hcOrigin = OriginNew, hcHeadDigest = ''{b}'', hcPosition = 2, hcEstablishedAt = 1,
    hcUpdatedAt = 2\<rparr> :: head_checkpoint"
  have a: "verifyChain demoPlatform [''{a}'', '' {b}'', ''{c}''] None (Some ''{b}'') =
      Inr (ChainOk \<lparr>vrEntries = 3, vrCuts = 0, vrUnchainedPrefix = 0, vrPrunedLegacy = 0,
        vrTransition = Some FromGenesis, vrDamages = [], vrPrunedThrough = 0, vrTail = 3,
        vrProbe = Some (''{b}'', Some 2)\<rparr>)"
    by code_simp
  have b: "verifyChain demoPlatform [''{a}'', ''{b}''] None (Some ''{b}'') =
      Inr (ChainOk \<lparr>vrEntries = 2, vrCuts = 0, vrUnchainedPrefix = 0, vrPrunedLegacy = 0,
        vrTransition = Some FromGenesis, vrDamages = [], vrPrunedThrough = 0, vrTail = 2,
        vrProbe = Some (''{b}'', Some 2)\<rparr>)"
    by code_simp
  have rows: "chainRows [''{a}'', '' {b}'', ''{c}''] = [''{a}'', ''{b}'', ''{c}'']" "chainRows [''{a}'', ''{b}''] = [''{a}'', ''{b}'']"
    by code_simp+
  have dig: "map (digestOf demoPlatform) [''{a}'', ''{b}'', ''{c}''] = [''{a}'', ''{b}'', ''{c}'']" by code_simp
  have "inj_on (digestOf demoPlatform)
      (set (chainRows [''{a}'', '' {b}'', ''{c}'']) \<union> set (chainRows [''{a}'', ''{b}'']))"
    unfolding rows using dig by (intro inj_onI) auto
  with consistent_history_is_pinned [where P = demoPlatform and cp = ?cp, simplified head_checkpoint.simps, OF a _ b]
  show ?thesis by (simp add: plainRows_def historyKept_def classifyLoss_def probeFound_def)
qed

end
