(* ===== verification/TerminalTransition.thy ===== *)
theory TerminalTransition
  imports QueueBehaviour
begin

text \<open>
  \<open>src/services/terminal-transition-coordinator.ts\<close>: the journal through which a Run ends, with
  what it calls of \<open>state/workspace-state.ts\<close> (intents, history partitions), of
  \<open>services/history-recorder.ts\<close>, and the writers it completes: \<open>persistTransition\<close> of
  \<open>controller/workflow-controller.ts\<close> and the writes of \<open>services/run-terminal-effects.ts\<close>.  An
  action maps a state to a result and a state.  Each durable write consumes one \<open>Fate\<close>: it lands, the
  storage rejects it, or the host dies before it; when no fate is given it lands.  Log lines, notices,
  audit rows and the metrics rollup are left out; a history entry holds the description as given, and the
  file of the full description (best effort) is left out.
\<close>

subsection \<open>State\<close>

record TerminalTransitionIntent =
  tiRun :: WorkflowRun
  tiCreatedAt :: int
  tiDescription :: "string option"

record HistoryEntry =
  heRunId :: string
  heTerminalStatus :: WorkflowRunStatus
  heDescription :: string
  heCompletedAt :: int

type_synonym HistoryMap = "(string \<times> HistoryEntry list) list"

datatype Fate = Lands | Fails | HostDies

record TransitionState =
  tsIntents :: "(string \<times> TerminalTransitionIntent) list"
  tsRuns :: RunMap
  tsQueues :: QueueMap
  tsHistory :: HistoryMap
  tsWrittenHere :: "(string \<times> int) list"
  tsFates :: "Fate list"

text \<open>What the coordinator asks of its surroundings: the store, the holder that a read of the ownership
  record reports with its heartbeat, and whether a history store is wired.\<close>

record TransitionEnv =
  teStore :: StoreEnv
  teHolder :: "string \<Rightarrow> (string \<times> int) option"
  teHistoryStore :: bool

datatype 'a Result = Returned 'a | Raised | HostDead

type_synonym 'a act = "TransitionState \<Rightarrow> 'a Result \<times> TransitionState"

definition give :: "'a \<Rightarrow> 'a act" where
  "give a s = (Returned a, s)"

definition bind_act :: "'a act \<Rightarrow> ('a \<Rightarrow> 'b act) \<Rightarrow> 'b act" where
  "bind_act m f s = (case m s of (r, s') \<Rightarrow>
     (case r of Returned a \<Rightarrow> f a s' | Raised \<Rightarrow> (Raised, s') | HostDead \<Rightarrow> (HostDead, s')))"

definition catch_act :: "'a act \<Rightarrow> 'a act \<Rightarrow> 'a act" where
  "catch_act m h s = (case m s of (r, s') \<Rightarrow> (if r = Raised then h s' else (r, s')))"

definition durable :: "(TransitionState \<Rightarrow> TransitionState) \<Rightarrow> unit act" where
  "durable g s =
     (case tsFates s of
        [] \<Rightarrow> (Returned (), g s)
      | f # fs \<Rightarrow>
          (let s' = s\<lparr>tsFates := fs\<rparr>
           in case f of Lands \<Rightarrow> (Returned (), g s') | Fails \<Rightarrow> (Raised, s') | HostDies \<Rightarrow> (HostDead, s')))"

subsection \<open>The store's side\<close>

definition journalledIntent :: "TransitionState \<Rightarrow> string \<Rightarrow> TerminalTransitionIntent option" where
  "journalledIntent s rid = map_of (tsIntents s) rid"

definition setTerminalTransitionIntent :: "string \<Rightarrow> TerminalTransitionIntent option \<Rightarrow> unit act" where
  "setTerminalTransitionIntent rid intent =
     durable (\<lambda>s. s\<lparr>tsIntents := (case intent of None \<Rightarrow> AList.delete rid (tsIntents s)
                                 | Some i \<Rightarrow> AList.update rid i (tsIntents s))\<rparr>)"

definition removeTerminalIntentIfOwn :: "string \<Rightarrow> int \<Rightarrow> bool act" where
  "removeTerminalIntentIfOwn rid createdAt s =
     (if map_option tiCreatedAt (journalledIntent s rid) \<noteq> Some createdAt then give False s
      else bind_act (setTerminalTransitionIntent rid None) (\<lambda>u. give True) s)"

definition HISTORY_CAP_PER_QUEUE :: nat where "HISTORY_CAP_PER_QUEUE = 50"

definition MAX_DELETED_HISTORY_PARTITIONS :: nat where "MAX_DELETED_HISTORY_PARTITIONS = 20"

definition HISTORY_UNATTRIBUTED_QUEUE_ID :: string where
  "HISTORY_UNATTRIBUTED_QUEUE_ID = ''__unattributed__''"

definition partitionOf :: "HistoryMap \<Rightarrow> string \<Rightarrow> HistoryEntry list" where
  "partitionOf hm q = (case map_of hm q of None \<Rightarrow> [] | Some es \<Rightarrow> es)"

definition latestCompletedAt :: "HistoryMap \<Rightarrow> string \<Rightarrow> int" where
  "latestCompletedAt hm q = fold (\<lambda>e m. max m (heCompletedAt e)) (partitionOf hm q) 0"

definition pruneExcessDeletedHistoryPartitions :: "(string \<Rightarrow> bool) \<Rightarrow> HistoryMap \<Rightarrow> HistoryMap option" where
  "pruneExcessDeletedHistoryPartitions registered hm =
     (let deletedKeys = filter (\<lambda>q. q \<noteq> HISTORY_UNATTRIBUTED_QUEUE_ID \<and> \<not> registered q) (map fst hm)
      in if length deletedKeys \<le> MAX_DELETED_HISTORY_PARTITIONS then None
         else let toDrop = take (length deletedKeys - MAX_DELETED_HISTORY_PARTITIONS)
                    (sort_key (latestCompletedAt hm) deletedKeys)
              in Some (filter (\<lambda>(q, es). q \<notin> set toDrop) hm))"

text \<open>The map that \<open>appendHistory\<close> writes, or \<open>None\<close> for a repeat, which writes nothing.\<close>

definition sameEnding :: "HistoryEntry \<Rightarrow> HistoryEntry \<Rightarrow> bool" where
  "sameEnding a b \<longleftrightarrow> heRunId a = heRunId b \<and> heTerminalStatus a = heTerminalStatus b"

definition appendedHistory :: "(string \<Rightarrow> bool) \<Rightarrow> string \<Rightarrow> HistoryEntry \<Rightarrow> HistoryMap \<Rightarrow> HistoryMap option" where
  "appendedHistory registered q entry hm =
     (let existing = partitionOf hm q
      in if list_ex (\<lambda>e. sameEnding e entry) existing then None
         else let nxt = existing @ [entry];
                  overflow = length nxt - HISTORY_CAP_PER_QUEUE;
                  updated = AList.update q (drop overflow nxt) hm
              in Some (case pruneExcessDeletedHistoryPartitions registered updated of
                   Some pruned \<Rightarrow> pruned | None \<Rightarrow> updated))"

definition getHistory :: "HistoryMap \<Rightarrow> HistoryEntry list" where
  "getHistory hm = concat (map snd hm)"

definition getRequest :: "TransitionState \<Rightarrow> string \<Rightarrow> FeatureRequest option" where
  "getRequest s taskId = map_option snd (findTaskOwner (tsQueues s) taskId)"

definition queueIdForExistingTask :: "TransitionState \<Rightarrow> string \<Rightarrow> string option" where
  "queueIdForExistingTask s taskId = map_option rowQueueId (getRequest s taskId)"

subsection \<open>Writes of the Run, the row and history\<close>

text \<open>A refusal of the store is a value; \<open>Raised\<close> is a write that the storage rejected.\<close>

definition writeRun :: "(RunMap \<Rightarrow> unit RunRefusal + 'a \<times> RunMap) \<Rightarrow> (unit RunRefusal + 'a) act" where
  "writeRun f s =
     (case f (tsRuns s) of
        Inl e \<Rightarrow> give (Inl e) s
      | Inr (a, runs') \<Rightarrow> bind_act (durable (\<lambda>t. t\<lparr>tsRuns := runs'\<rparr>)) (\<lambda>u. give (Inr a)) s)"

definition isOwnershipRefusal :: "unit RunRefusal \<Rightarrow> bool" where
  "isOwnershipRefusal e = (case e of OwnershipLost \<Rightarrow> True | FenceRefused f \<Rightarrow> f = Superseded | _ \<Rightarrow> False)"

definition requestStatusOf :: "WorkflowRunStatus \<Rightarrow> FeatureRequestStatus option" where
  "requestStatusOf st =
     (case st of Completed \<Rightarrow> Some StCompleted | RunFailed \<Rightarrow> Some StFailed | Canceled \<Rightarrow> Some StCanceled
       | Running \<Rightarrow> None | Paused \<Rightarrow> Some StPaused)"

text \<open>\<open>queue.finish\<close>: the answer is whether the table admitted it; anything else it throws.\<close>

definition finishTask :: "TransitionEnv \<Rightarrow> string \<Rightarrow> WorkflowRunStatus \<Rightarrow> string option \<Rightarrow> bool act" where
  "finishTask te taskId st err s =
     (case requestStatusOf st of
        None \<Rightarrow> give False s
      | Some target \<Rightarrow>
          (case finish (teStore te) (tsQueues s) (tsRuns s) taskId target err of
             (Ok, qm') \<Rightarrow> bind_act (durable (\<lambda>t. t\<lparr>tsQueues := qm'\<rparr>)) (\<lambda>u. give True) s
           | (NotOk r, qm') \<Rightarrow> give False s
           | (Thrown r, qm') \<Rightarrow> (Raised, s)))"

text \<open>\<open>HistoryRecorder.record\<close>: false when the append failed.\<close>

definition historyEntryOf :: "WorkflowRun \<Rightarrow> string \<Rightarrow> HistoryEntry" where
  "historyEntryOf run description = \<lparr>heRunId = runId run, heTerminalStatus = runStatus run,
     heDescription = description, heCompletedAt = lastTransitionAt run\<rparr>"

definition recordHistory :: "TransitionEnv \<Rightarrow> WorkflowRun \<Rightarrow> string \<Rightarrow> bool act" where
  "recordHistory te run description s =
     (if \<not> teHistoryStore te then give True s
      else
        (let q = (case queueIdForExistingTask s (featureId run) of Some q \<Rightarrow> q | None \<Rightarrow> HISTORY_UNATTRIBUTED_QUEUE_ID)
         in case appendedHistory (knownQueue (teStore te)) q (historyEntryOf run description) (tsHistory s) of
              None \<Rightarrow> give True s
            | Some hm \<Rightarrow> catch_act (bind_act (durable (\<lambda>t. t\<lparr>tsHistory := hm\<rparr>)) (\<lambda>u. give True)) (give False) s))"

definition recordHistoryIfAbsent :: "TransitionEnv \<Rightarrow> WorkflowRun \<Rightarrow> string \<Rightarrow> bool act" where
  "recordHistoryIfAbsent te run description s =
     (if list_ex (\<lambda>e. heRunId e = runId run \<and> heTerminalStatus e = runStatus run) (getHistory (tsHistory s))
      then give True s else recordHistory te run description s)"

subsection \<open>The coordinator\<close>

definition rememberWritten :: "string \<Rightarrow> int \<Rightarrow> unit act" where
  "rememberWritten rid createdAt s = (Returned (), s\<lparr>tsWrittenHere := AList.update rid createdAt (tsWrittenHere s)\<rparr>)"

definition forgetWritten :: "string \<Rightarrow> unit act" where
  "forgetWritten rid s = (Returned (), s\<lparr>tsWrittenHere := AList.delete rid (tsWrittenHere s)\<rparr>)"

text \<open>\<open>begin\<close>; the answer is the \<open>createdAt\<close> of the journalled intent.\<close>

definition beginTransition :: "TransitionEnv \<Rightarrow> WorkflowRun \<Rightarrow> string option \<Rightarrow> int option act" where
  "beginTransition te run description s =
     (if \<not> isTerminalRunStatus (runStatus run) then give None s
      else
        (let createdAt = clock (teStore te);
             fresh = bind_act (setTerminalTransitionIntent (runId run)
                         (Some \<lparr>tiRun = run, tiCreatedAt = createdAt, tiDescription = description\<rparr>))
                       (\<lambda>u. bind_act (rememberWritten (runId run) createdAt) (\<lambda>u. give (Some createdAt)))
         in case journalledIntent s (runId run) of
              None \<Rightarrow> fresh s
            | Some existing \<Rightarrow>
                if runStatus (tiRun existing) \<noteq> runStatus run then fresh s
                else if tiDescription existing \<noteq> None \<or> description = None then give (Some (tiCreatedAt existing)) s
                else bind_act (setTerminalTransitionIntent (runId run) (Some (existing\<lparr>tiDescription := description\<rparr>)))
                       (\<lambda>u. give (Some (tiCreatedAt existing))) s))"

definition abandonRefused :: "WorkflowRun \<Rightarrow> int \<Rightarrow> unit act" where
  "abandonRefused run createdAt s =
     (let mine = (map_of (tsWrittenHere s) (runId run) = Some createdAt)
      in bind_act (forgetWritten (runId run)) (\<lambda>u.
           if mine then catch_act (bind_act (removeTerminalIntentIfOwn (runId run) createdAt) (\<lambda>b. give ())) (give ())
           else give ()) s)"

definition dropIntent :: "WorkflowRun \<Rightarrow> unit act" where
  "dropIntent run = setTerminalTransitionIntent (runId run) None"

definition clearIfRecorded :: "TransitionEnv \<Rightarrow> WorkflowRun \<Rightarrow> string \<Rightarrow> unit act" where
  "clearIfRecorded te run description =
     bind_act (recordHistoryIfAbsent te run description)
       (\<lambda>ok. if ok then setTerminalTransitionIntent (runId run) None else give ())"

definition projectRowGone :: "TransitionEnv \<Rightarrow> WorkflowRun \<Rightarrow> string \<Rightarrow> unit act" where
  "projectRowGone = clearIfRecorded"

definition projectLanded :: "TransitionEnv \<Rightarrow> WorkflowRun \<Rightarrow> string \<Rightarrow> unit act" where
  "projectLanded = clearIfRecorded"

text \<open>The Run's record is written under the window's claim; an answer other than the refusal goes on.\<close>

definition commitRun :: "TransitionEnv \<Rightarrow> string \<Rightarrow> WorkflowRun \<Rightarrow> (unit RunRefusal + unit) act" where
  "commitRun te queueId run =
     writeRun (\<lambda>runs. then_ok (runCommitClaim (teStore te) queueId)
       (\<lambda>claim. then_ok (setRun (teStore te) runs queueId (Some run) claim) (\<lambda>runs'. Inr ((), runs'))))"

definition projectInterrupted :: "TransitionEnv \<Rightarrow> WorkflowRun \<Rightarrow> string \<Rightarrow> FeatureRequestStatus \<Rightarrow> int option \<Rightarrow> unit act" where
  "projectInterrupted te run description rowStatus createdAt =
     (if decideTaskTransition OpFinish (Some rowStatus) (requestStatusOf (runStatus run)) False False \<noteq> None
      then dropIntent run
      else
        (let finishAndRecord = bind_act (finishTask te (featureId run) (runStatus run) None)
               (\<lambda>ok. if ok then clearIfRecorded te run description else dropIntent run)
         in (\<lambda>s. case findRunByTask (tsRuns s) (featureId run) of
               Some (queueId, active) \<Rightarrow>
                 if runId active = runId run then
                   (case commitRun te queueId run s of
                      (Returned (Inr u), s') \<Rightarrow> finishAndRecord s'
                    | (Returned (Inl e), s') \<Rightarrow>
                        (case createdAt of
                           Some c \<Rightarrow> if isOwnershipRefusal e then abandonRefused run c s' else give () s'
                         | None \<Rightarrow> give () s')
                    | (Raised, s') \<Rightarrow> give () s'
                    | (HostDead, s') \<Rightarrow> (HostDead, s'))
                 else finishAndRecord s
             | None \<Rightarrow> finishAndRecord s)))"

definition completeTransition :: "TransitionEnv \<Rightarrow> WorkflowRun \<Rightarrow> string \<Rightarrow> unit act" where
  "completeTransition te run description =
     (if \<not> isTerminalRunStatus (runStatus run) then give ()
      else bind_act (beginTransition te run (Some description)) (\<lambda>createdAt s.
        (let body =
           (case getRequest s (featureId run) of
              None \<Rightarrow> projectRowGone te run description
            | Some row \<Rightarrow>
                if frStatus row = StInFlight \<and> frRunId row \<noteq> Some (runId run) then dropIntent run
                else if Some (frStatus row) = requestStatusOf (runStatus run) then projectLanded te run description
                else if (case journalledIntent s (runId run) of None \<Rightarrow> False | Some j \<Rightarrow> tiCreatedAt j < frUpdatedAt row)
                  then dropIntent run
                else projectInterrupted te run description (frStatus row) createdAt)
         in catch_act body (give ()) s)))"

subsection \<open>Replay\<close>

definition STALENESS_THRESHOLD_MS :: int where "STALENESS_THRESHOLD_MS = 15000"

definition rivalHolds :: "TransitionEnv \<Rightarrow> string \<Rightarrow> string \<Rightarrow> bool" where
  "rivalHolds te queueId selfOwnerId =
     (if verifyFence (teStore te) (queueResource queueId) selfOwnerId 0 = FenceUnavailable then True
      else (case teHolder te (queueResource queueId) of
          None \<Rightarrow> False
        | Some (owner, heartbeatAt) \<Rightarrow>
            owner \<noteq> selfOwnerId \<and> clock (teStore te) - heartbeatAt \<le> STALENESS_THRESHOLD_MS))"

definition deferralReason :: "TransitionEnv \<Rightarrow> TransitionState \<Rightarrow> WorkflowRun \<Rightarrow> string \<Rightarrow> bool" where
  "deferralReason te s run selfOwnerId =
     (let queueId = (case findRunById (tsRuns s) (runId run) of
            Some (q, r) \<Rightarrow> Some q
          | None \<Rightarrow> map_option fst (findRunByTask (tsRuns s) (featureId run)))
      in case queueId of None \<Rightarrow> False | Some q \<Rightarrow> rivalHolds te q selfOwnerId)"

definition replayIntent :: "TransitionEnv \<Rightarrow> string option \<Rightarrow> TerminalTransitionIntent \<Rightarrow> unit act" where
  "replayIntent te selfOwnerId intent s =
     (if (case selfOwnerId of None \<Rightarrow> False | Some me \<Rightarrow> deferralReason te s (tiRun intent) me) then give () s
      else catch_act (completeTransition te (tiRun intent)
             (case tiDescription intent of Some d \<Rightarrow> d | None \<Rightarrow> featureId (tiRun intent))) (give ()) s)"

fun replayAll :: "TransitionEnv \<Rightarrow> string option \<Rightarrow> TerminalTransitionIntent list \<Rightarrow> unit act" where
  "replayAll te selfOwnerId [] s = give () s"
| "replayAll te selfOwnerId (i # is) s = bind_act (replayIntent te selfOwnerId i) (\<lambda>u. replayAll te selfOwnerId is) s"

definition replay :: "TransitionEnv \<Rightarrow> string option \<Rightarrow> unit act" where
  "replay te selfOwnerId s = replayAll te selfOwnerId (map snd (tsIntents s)) s"

subsection \<open>The writers it completes\<close>

text \<open>
  \<open>changedRunFields\<close> applied to the current Run: a field in which the driver's Run differs from the
  one it started from is overwritten, any other keeps its current value.
\<close>

definition changed :: "'a \<Rightarrow> 'a \<Rightarrow> 'a \<Rightarrow> 'a" where
  "changed before after current = (if before \<noteq> after then after else current)"

definition changedRunFields :: "WorkflowRun \<Rightarrow> WorkflowRun \<Rightarrow> WorkflowRun \<Rightarrow> WorkflowRun" where
  "changedRunFields p n c =
     \<lparr>runId = changed (runId p) (runId n) (runId c),
      featureId = changed (featureId p) (featureId n) (featureId c),
      runStatus = changed (runStatus p) (runStatus n) (runStatus c),
      currentPhase = changed (currentPhase p) (currentPhase n) (currentPhase c),
      currentIteration = changed (currentIteration p) (currentIteration n) (currentIteration c),
      lastTransitionAt = changed (lastTransitionAt p) (lastTransitionAt n) (lastTransitionAt c),
      phasesCompleted = changed (phasesCompleted p) (phasesCompleted n) (phasesCompleted c),
      degradedPhases = changed (degradedPhases p) (degradedPhases n) (degradedPhases c),
      failureCause = changed (failureCause p) (failureCause n) (failureCause c),
      pipeline = changed (pipeline p) (pipeline n) (pipeline c),
      plannedTotal = changed (plannedTotal p) (plannedTotal n) (plannedTotal c),
      delayedRetryCount = changed (delayedRetryCount p) (delayedRetryCount n) (delayedRetryCount c),
      pendingRetryAt = changed (pendingRetryAt p) (pendingRetryAt n) (pendingRetryAt c),
      pendingRetryCause = changed (pendingRetryCause p) (pendingRetryCause n) (pendingRetryCause c),
      creditPause = changed (creditPause p) (creditPause n) (creditPause c),
      phaseOverrides = changed (phaseOverrides p) (phaseOverrides n) (phaseOverrides c),
      manualPauseAt = changed (manualPauseAt p) (manualPauseAt n) (manualPauseAt c),
      manualPauseCause = changed (manualPauseCause p) (manualPauseCause n) (manualPauseCause c),
      phaseBreakpoints = changed (phaseBreakpoints p) (phaseBreakpoints n) (phaseBreakpoints c),
      resumeTargetPhaseId = changed (resumeTargetPhaseId p) (resumeTargetPhaseId n) (resumeTargetPhaseId c),
      resumePrompt = changed (resumePrompt p) (resumePrompt n) (resumePrompt c),
      writtenAtFence = changed (writtenAtFence p) (writtenAtFence n) (writtenAtFence c)\<rparr>"

definition persistTransition :: "TransitionEnv \<Rightarrow> WorkflowRun \<Rightarrow> WorkflowRun \<Rightarrow> WorkflowRun act" where
  "persistTransition te prev nxt s =
     (let located = (case findRunById (tsRuns s) (runId nxt) of
            Some (q, r) \<Rightarrow> Some q | None \<Rightarrow> queueIdForExistingTask s (featureId nxt))
      in bind_act (beginTransition te nxt None) (\<lambda>createdAt.
           case located of
             None \<Rightarrow> give nxt
           | Some q \<Rightarrow>
               bind_act (writeRun (\<lambda>runs. then_ok (runCommitClaim (teStore te) q) (\<lambda>claim.
                   updateRun (teStore te) runs q \<lparr>updRunId = runId nxt, updAllowed = LIVE_RUN_STATUSES,
                     updPatch = (\<lambda>c. Inr (changedRunFields prev nxt c))\<rparr> claim)))
                 (\<lambda>r. case r of
                    Inr saved \<Rightarrow> give saved
                  | Inl e \<Rightarrow>
                      (case createdAt of
                         Some c \<Rightarrow>
                           if isOwnershipRefusal e then bind_act (abandonRefused nxt c) (\<lambda>u. give nxt)
                           else if isRunRaceRefusal e then give nxt else (\<lambda>s. (Raised, s))
                       | None \<Rightarrow> if isRunRaceRefusal e then give nxt else (\<lambda>s. (Raised, s))))) s)"

text \<open>\<open>settleTerminalRun\<close>: the row and history, both swallowed, with the error the row records.\<close>

definition settleTerminalRun :: "TransitionEnv \<Rightarrow> WorkflowRun \<Rightarrow> string \<Rightarrow> string option \<Rightarrow> unit act" where
  "settleTerminalRun te run description queueError =
     bind_act (catch_act (bind_act (finishTask te (featureId run) (runStatus run) queueError) (\<lambda>ok. give ())) (give ()))
       (\<lambda>u. bind_act (recordHistory te run description) (\<lambda>ok. give ()))"

text \<open>The end of a Run in the driver: the arm that settles it, then \<open>complete\<close>, whose throw is caught.\<close>

definition endRun :: "TransitionEnv \<Rightarrow> WorkflowRun \<Rightarrow> WorkflowRun \<Rightarrow> string \<Rightarrow> string option \<Rightarrow> unit act" where
  "endRun te prev nxt description queueError =
     bind_act (persistTransition te prev nxt) (\<lambda>run.
       bind_act (settleTerminalRun te run description queueError) (\<lambda>u.
         catch_act (completeTransition te run description) (give ())))"

end
