(* ===== verification/TransitionRecovery.thy ===== *)
theory TransitionRecovery
  imports TerminalTransition
begin

text \<open>
  The journal under crashes.  \<open>triple\<close> is the validity of a specification of an action whose writes may
  be rejected or cut by the end of the host; an \<open>Ending\<close> fixes the Run that ends and \<open>pending\<close>,
  \<open>finished\<close> are the states between its first durable write and its last.
\<close>

subsection \<open>Triples\<close>

fun answers :: "('a \<Rightarrow> TransitionState \<Rightarrow> bool) \<Rightarrow> (TransitionState \<Rightarrow> bool) \<Rightarrow> 'a Result \<Rightarrow> TransitionState \<Rightarrow> bool" where
  "answers Q E (Returned a) s = Q a s"
| "answers Q E Raised s = E s"
| "answers Q E HostDead s = E s"

definition triple :: "(TransitionState \<Rightarrow> bool) \<Rightarrow> 'a act \<Rightarrow> ('a \<Rightarrow> TransitionState \<Rightarrow> bool) \<Rightarrow> (TransitionState \<Rightarrow> bool) \<Rightarrow> bool" where
  "triple P m Q E \<longleftrightarrow> (\<forall>s. P s \<longrightarrow> answers Q E (fst (m s)) (snd (m s)))"

lemma triple_bind:
  assumes "triple P m R E" "\<And>a. triple (R a) (f a) Q E"
  shows "triple P (bind_act m f) Q E"
  unfolding triple_def
proof (intro allI impI)
  fix s assume s: "P s"
  obtain r s' where m: "m s = (r, s')" by force
  from assms(1) s have "answers R E r s'" by (auto simp: triple_def m dest: spec [of _ s])
  then show "answers Q E (fst (bind_act m f s)) (snd (bind_act m f s))"
    using assms(2) by (cases r) (simp_all add: bind_act_def m triple_def)
qed

lemma triple_catch:
  assumes "triple P m Q E" "triple E h Q E"
  shows "triple P (catch_act m h) Q E"
  unfolding triple_def
proof (intro allI impI)
  fix s assume s: "P s"
  obtain r s' where m: "m s = (r, s')" by force
  from assms(1) s have "answers Q E r s'" by (auto simp: triple_def m dest: spec [of _ s])
  then show "answers Q E (fst (catch_act m h s)) (snd (catch_act m h s))"
    using assms(2) by (cases r) (simp_all add: catch_act_def m triple_def)
qed

lemma triple_give: "(\<And>s. P s \<Longrightarrow> Q a s) \<Longrightarrow> triple P (give a) Q E"
  by (simp add: triple_def give_def)

lemma triple_state: "(\<And>s. P s \<Longrightarrow> triple (\<lambda>t. t = s) m Q E) \<Longrightarrow> triple P m Q E"
  by (simp add: triple_def)


lemma answers_mono:
  "answers Q E r s \<Longrightarrow> (\<And>a s. Q a s \<Longrightarrow> Q' a s) \<Longrightarrow> (\<And>s. E s \<Longrightarrow> E' s) \<Longrightarrow> answers Q' E' r s"
  by (cases r) simp_all

lemma triple_weaken:
  assumes "triple P m Q E" "\<And>s. P' s \<Longrightarrow> P s" "\<And>a s. Q a s \<Longrightarrow> Q' a s" "\<And>s. E s \<Longrightarrow> E' s"
  shows "triple P' m Q' E'"
  using assms answers_mono [of Q E _ _ Q' E'] unfolding triple_def by blast

lemma triple_run:
  assumes "triple P m' Q E" "P s" "m s = m' s" "\<And>a s. Q a s \<Longrightarrow> Q' a s" "\<And>s. E s \<Longrightarrow> E' s"
  shows "triple (\<lambda>t. t = s) m Q' E'"
  using assms answers_mono [of Q E _ _ Q' E'] by (simp add: triple_def)

lemma triple_answers: "triple P m Q E \<Longrightarrow> P s \<Longrightarrow> m s = (r, s') \<Longrightarrow> answers Q E r s'"
  by (auto simp: triple_def dest: spec [of _ s])

text \<open>
  \<open>calm b\<close> marks the two ways a specification is read: with any fates, where a failed write leaves the
  state as it was, and undisturbed, where no write fails.
\<close>

definition calm :: "bool \<Rightarrow> TransitionState \<Rightarrow> bool" where
  "calm b s \<longleftrightarrow> (b \<longrightarrow> tsFates s = [])"

definition fateless :: "(TransitionState \<Rightarrow> bool) \<Rightarrow> bool" where
  "fateless P \<longleftrightarrow> (\<forall>s fs. P (s\<lparr>tsFates := fs\<rparr>) = P s)"

lemma triple_durable:
  assumes P: "fateless P" and Q: "\<And>s. P s \<Longrightarrow> Q (g s)" and g: "\<And>s. tsFates (g s) = tsFates s"
  shows "triple (\<lambda>s. P s \<and> calm b s) (durable g) (\<lambda>u s. Q s \<and> calm b s) (\<lambda>s. P s \<and> \<not> b)"
proof -
  have "P (s\<lparr>tsFates := fs\<rparr>)" if "P s" for s fs using P that by (simp add: fateless_def)
  then show ?thesis
    using Q g by (auto simp: triple_def durable_def calm_def Let_def split: list.split Fate.split)
qed

subsection \<open>Finishing the row\<close>

lemma owner_of_row:
  assumes "store_ok qm" "q \<noteq> []" "findRequest t (qRequests (getQueue now qm q)) = Some row"
  shows "findTaskOwner qm t = Some (q, row)"
proof -
  have i: "t \<in> frId ` set (qRequests (getQueue now qm q))" "frId row = t"
    using assms(3) by (auto simp: findRequest_def find_Some_iff) 
  obtain p where p: "map_of qm q = Some p" using getQueue_ids [OF assms(1,2) i(1)] by blast
  have g: "p = persist (getQueue now qm q)" by (rule getQueue_Some [OF assms(1) p])
  then have fr: "findRequest t (pqRequests p) = Some row" using assms(3) by simp
  obtain k x where o: "List.find (\<lambda>(q, p). findRequest t (pqRequests p) \<noteq> None) qm = Some (k, x)"
    using fr map_of_SomeD [OF p] by (cases "List.find (\<lambda>(q, p). findRequest t (pqRequests p) \<noteq> None) qm")
      (force simp: find_None_iff)+
  then obtain r where r: "(k, x) \<in> set qm" "findRequest t (pqRequests x) = Some r"
    by (auto simp: find_Some_iff) (metis nth_mem)
  have "findTaskOwner qm t = Some (k, r)" unfolding findTaskOwner_def o by (simp add: r(2))
  moreover have "map_of qm k = Some x" using r(1) assms(1) by (simp add: store_ok_def)
  moreover have "t \<in> taskIds p \<inter> taskIds x"
    using fr r(2) by (auto simp: taskIds_def findRequest_def find_Some_iff) (metis imageI nth_mem)+
  ultimately have "k = q" using assms(1) p unfolding store_ok_def by blast
  then show ?thesis using \<open>findTaskOwner qm t = Some (k, r)\<close> \<open>map_of qm k = Some x\<close> p fr r(2) by simp
qed

lemma find_map_row:
  assumes "\<And>r. frId (f r) = frId r" "findRequest t rs = Some row"
  shows "findRequest t (map (\<lambda>r. if frId r = t then f r else r) rs) = Some (f row)"
  using assms(2) by (induction rs) (auto simp: findRequest_def assms(1) split: if_splits)

lemma finish_lands:
  assumes "store_ok qm" "findTaskOwner qm t = Some (q, row)" "commit_open env q" "frStatus row = StInFlight"
    "isTerminalRequestStatus st"
  shows "\<exists>qm' row'. finish env qm runs t st err = (Ok, qm') \<and> store_ok qm' \<and>
    findTaskOwner qm' t = Some (q, row') \<and> frStatus row' = st"
proof -
  let ?run = "map_option snd (findRunByTask runs t)"
  let ?f = "\<lambda>r. terminalCapture ?run (r\<lparr>frStatus := st, frCompletedAt := Some (clock env), frUpdatedAt := clock env,
        frLastError := (if st = StFailed then err else frLastError r)\<rparr>)"
  let ?B = "\<lambda>queue. (setRow t ?f queue)\<lparr>qInFlightId := (if qInFlightId queue = Some t then None else qInFlightId queue)\<rparr>"
  note own = owner_queueId [OF assms(1,2)]
  have dec: "decideTaskTransition OpFinish (Some (frStatus row)) (Some st) False False = None"
    using assms(4,5) by (simp add: decideTaskTransition_def)
  obtain qm' where w: "commitMutation env qm q (transitionRow OpFinish (Some st) False False t ?B) = Inr ((), qm')"
    "qRequests (getQueue 0 qm' q) = map (\<lambda>r. if frId r = t then ?f r else r) (qRequests (getQueue (clock env) qm q))"
    using transition_read [OF assms(1-3), where op = OpFinish and tst = "Some st" and b = False and a = False
        and body = ?B and f = ?f and now = 0] dec
    by (auto simp: terminalCapture_def)
  have fin: "finish env qm runs t st err = (Ok, qm')"
    using w(1) by (simp add: finish_def own finishMutation_def taskTransition_def)
  have ok: "store_ok qm'" by (rule transitions_ok(2) [OF assms(1) fin])
  have "findRequest t (qRequests (getQueue 0 qm' q)) = Some (?f row)"
    unfolding w(2) by (rule find_map_row [OF _ owner_find [OF assms(1,2)]]) (simp add: terminalCapture_def)
  from owner_of_row [OF ok findTaskOwner_ok(1) [OF assms(1,2)] this] fin ok show ?thesis
    by (auto simp: terminalCapture_def)
qed

subsection \<open>A Run that ends\<close>

record Ending =
  enQueue :: string
  enBefore :: WorkflowRun
  enAfter :: WorkflowRun
  enAt :: int
  enHistory :: HistoryMap

definition sameRun :: "WorkflowRun \<Rightarrow> WorkflowRun \<Rightarrow> bool" where
  "sameRun x y \<longleftrightarrow> (\<exists>w. x = y\<lparr>writtenAtFence := w\<rparr>)"

lemma sameRun_simps:
  assumes "sameRun x y"
  shows "runId x = runId y" "featureId x = featureId y" "runStatus x = runStatus y"
    "lastTransitionAt x = lastTransitionAt y" "run_ok x = run_ok y" "sameRun (stampFence c x) y"
proof -
  obtain w where w: "x = y\<lparr>writtenAtFence := w\<rparr>" using assms by (auto simp: sameRun_def)
  show "runId x = runId y" "featureId x = featureId y" "runStatus x = runStatus y" "lastTransitionAt x = lastTransitionAt y"
    by (simp_all add: w)
  show "run_ok x = run_ok y" by (simp add: w run_ok_split)
  show "sameRun (stampFence c x) y" unfolding sameRun_def w by (cases c) (auto simp: stampFence_def)
qed

lemma sameRun_refl [simp]: "sameRun x x" "sameRun (stampFence c x) x"
proof -
  show "sameRun x x" unfolding sameRun_def by (rule exI [of _ "writtenAtFence x"]) simp
  then show "sameRun (stampFence c x) x" by (rule sameRun_simps(6))
qed

definition endsAs :: "Ending \<Rightarrow> HistoryEntry \<Rightarrow> bool" where
  "endsAs e h \<longleftrightarrow> heRunId h = runId (enAfter e) \<and> heTerminalStatus h = runStatus (enAfter e)"

definition endingOk :: "Ending \<Rightarrow> bool" where
  "endingOk e \<longleftrightarrow> run_ok (enBefore e) \<and> run_ok (enAfter e) \<and> runStatus (enBefore e) \<in> set LIVE_RUN_STATUSES \<and>
     runId (enBefore e) = runId (enAfter e) \<and> featureId (enBefore e) = featureId (enAfter e) \<and>
     isTerminalRunStatus (runStatus (enAfter e)) \<and>
     filter (endsAs e) (getHistory (enHistory e)) = [] \<and> distinct (map fst (enHistory e))"

definition runOver :: "Ending \<Rightarrow> RunMap \<Rightarrow> bool" where
  "runOver e runs \<longleftrightarrow> (\<exists>r. map_of runs (enQueue e) = Some r \<and> sameRun r (enAfter e))"

definition runHeld :: "Ending \<Rightarrow> RunMap \<Rightarrow> bool" where
  "runHeld e runs \<longleftrightarrow> distinct (map fst runs) \<and>
     (map_of runs (enQueue e) = Some (enBefore e) \<or> runOver e runs) \<and>
     (\<forall>(k, x) \<in> set runs. runId x = runId (enAfter e) \<or> featureId x = featureId (enAfter e) \<longrightarrow> k = enQueue e)"

definition rowOver :: "Ending \<Rightarrow> QueueMap \<Rightarrow> bool" where
  "rowOver e qm \<longleftrightarrow> (\<exists>row. findTaskOwner qm (featureId (enAfter e)) = Some (enQueue e, row) \<and>
     Some (frStatus row) = requestStatusOf (runStatus (enAfter e)))"

definition rowOpen :: "Ending \<Rightarrow> QueueMap \<Rightarrow> bool" where
  "rowOpen e qm \<longleftrightarrow> (\<exists>row. findTaskOwner qm (featureId (enAfter e)) = Some (enQueue e, row) \<and>
     frStatus row = StInFlight \<and> frRunId row = Some (runId (enAfter e)) \<and> frUpdatedAt row \<le> enAt e)"

definition historyOver :: "Ending \<Rightarrow> HistoryMap \<Rightarrow> bool" where
  "historyOver e hm \<longleftrightarrow> (\<exists>known x d. known (enQueue e) \<and> sameRun x (enAfter e) \<and>
     appendedHistory known (enQueue e) (historyEntryOf x d) (enHistory e) = Some hm)"

definition stage :: "Ending \<Rightarrow> TransitionState \<Rightarrow> bool" where
  "stage e s \<longleftrightarrow> runHeld e (tsRuns s) \<and> store_ok (tsQueues s) \<and>
     (rowOpen e (tsQueues s) \<or> rowOver e (tsQueues s) \<and> runOver e (tsRuns s)) \<and>
     (tsHistory s = enHistory e \<or> historyOver e (tsHistory s))"

definition intentOf :: "Ending \<Rightarrow> TransitionState \<Rightarrow> bool" where
  "intentOf e s \<longleftrightarrow> (\<exists>i. tsIntents s = [(runId (enAfter e), i)] \<and> sameRun (tiRun i) (enAfter e) \<and> tiCreatedAt i = enAt e)"

definition ready :: "Ending \<Rightarrow> TransitionState \<Rightarrow> bool" where
  "ready e s \<longleftrightarrow> stage e s \<and> tsIntents s = [] \<and> map_of (tsRuns s) (enQueue e) = Some (enBefore e) \<and>
     rowOpen e (tsQueues s) \<and> tsHistory s = enHistory e"

definition pending :: "Ending \<Rightarrow> TransitionState \<Rightarrow> bool" where
  "pending e s \<longleftrightarrow> stage e s \<and> intentOf e s"

definition finished :: "Ending \<Rightarrow> TransitionState \<Rightarrow> bool" where
  "finished e s \<longleftrightarrow> stage e s \<and> tsIntents s = [] \<and> rowOver e (tsQueues s) \<and> historyOver e (tsHistory s)"

lemmas stage_defs = ready_def pending_def finished_def stage_def intentOf_def

text \<open>The window owns the queue and the history store is wired.\<close>

definition envOk :: "TransitionEnv \<Rightarrow> Ending \<Rightarrow> bool" where
  "envOk te e \<longleftrightarrow> commit_open (teStore te) (enQueue e) \<and> knownQueue (teStore te) (enQueue e) \<and> teHistoryStore te"

subsection \<open>Looking up the Run\<close>

lemma runHeld_lookup:
  assumes "runHeld e runs" "endingOk e"
  shows "\<exists>r. map_of runs (enQueue e) = Some r \<and> run_ok r \<and> runId r = runId (enAfter e) \<and>
    findRunById runs (runId (enAfter e)) = Some (enQueue e, r) \<and> findRunByTask runs (featureId (enAfter e)) = Some (enQueue e, r)"
proof -
  obtain r where r: "map_of runs (enQueue e) = Some r" "run_ok r" "runId r = runId (enAfter e)" "featureId r = featureId (enAfter e)"
    using assms by (auto simp: runHeld_def runOver_def endingOk_def sameRun_simps)
  have u: "(k, x) = (enQueue e, r)" if "(k, x) \<in> set runs" "runId x = runId (enAfter e) \<or> featureId x = featureId (enAfter e)" for k x
  proof -
    have "k = enQueue e" using assms(1) that unfolding runHeld_def by blast
    moreover have "map_of runs k = Some x" using that(1) assms(1) unfolding runHeld_def by simp
    ultimately show ?thesis using r(1) by simp
  qed
  have f: "List.find P runs = Some (enQueue e, r)"
    if "\<And>k x. P (k, x) \<Longrightarrow> runId x = runId (enAfter e) \<or> featureId x = featureId (enAfter e)" "P (enQueue e, r)" for P
  proof (cases "List.find P runs")
    case None
    then show ?thesis using that(2) map_of_SomeD [OF r(1)] by (auto simp: find_None_iff)
  next
    case (Some y)
    then have "y \<in> set runs" "P y" by (auto simp: find_Some_iff)
    then show ?thesis using u that(1) Some by (metis surj_pair)
  qed
  show ?thesis unfolding findRunById_def findRunByTask_def
    by (intro exI [of _ r] conjI f) (use r in auto)
qed

lemma runHeld_update:
  assumes "runHeld e runs" "sameRun x (enAfter e)"
  shows "runHeld e (AList.update (enQueue e) x runs)" "runOver e (AList.update (enQueue e) x runs)"
proof -
  show o: "runOver e (AList.update (enQueue e) x runs)" using assms(2) by (simp add: runOver_def update_conv')
  have "distinct (map fst (AList.update (enQueue e) x runs))" using assms(1) by (simp add: runHeld_def distinct_update)
  moreover have "k = enQueue e"
    if "(k, y) \<in> set (AList.update (enQueue e) x runs)" "runId y = runId (enAfter e) \<or> featureId y = featureId (enAfter e)" for k y
  proof -
    have "map_of (AList.update (enQueue e) x runs) k = Some y"
      by (rule map_of_is_SomeI) (use that(1) calculation in simp_all)
    then show ?thesis using that(2) assms(1) unfolding runHeld_def
      by (cases "k = enQueue e") (auto simp: update_conv' dest: map_of_SomeD)
  qed
  ultimately show "runHeld e (AList.update (enQueue e) x runs)" using o unfolding runHeld_def by blast
qed

subsection \<open>History\<close>

lemma matches_update:
  assumes "distinct (map fst hm)" "filter P (getHistory hm) = []"
  shows "filter P (getHistory (AList.update q es hm)) = filter P es"
  using assms by (induction hm) (auto simp: getHistory_def filter_concat comp_def)

lemma partitionOf_in: "h \<in> set (partitionOf hm q) \<Longrightarrow> \<exists>es. (q, es) \<in> set hm \<and> h \<in> set es"
  by (cases "map_of hm q") (auto simp: partitionOf_def dest: map_of_SomeD)

lemma matches_partition: "filter P (getHistory hm) = [] \<Longrightarrow> filter P (partitionOf hm q) = []"
  using partitionOf_in by (fastforce simp: getHistory_def filter_empty_conv)

lemma map_of_keys: "K q \<Longrightarrow> map_of (filter (\<lambda>(k, x). K k) m) q = map_of m q"
  by (induction m) auto

lemma matches_keys:
  assumes "distinct (map fst hm)" "K q" "map_of hm q = Some es" "length (filter P (getHistory hm)) = length (filter P es)"
  shows "length (filter P (getHistory (filter (\<lambda>(k, x). K k) hm))) = length (filter P es)"
proof -
  have sub: "length (filter P (getHistory (filter (\<lambda>(k, x). K k) m))) \<le> length (filter P (getHistory m))" for m
    by (induction m) (auto simp: getHistory_def)
  have "length (filter P es) \<le> length (filter P (getHistory m))" if "map_of m q = Some es" for m
    using that by (induction m) (auto simp: getHistory_def split: if_splits)
  from this [of "filter (\<lambda>(k, x). K k) hm"] sub [of hm] show ?thesis
    using assms(2,3,4) map_of_keys [of K q hm] by fastforce
qed

lemma pruned_keeps:
  assumes "pruneExcessDeletedHistoryPartitions known hm = Some hm'" "known q"
  shows "\<exists>K. K q \<and> hm' = filter (\<lambda>(k, x). K k) hm"
proof -
  define D where "D = take (length (filter (\<lambda>q. q \<noteq> HISTORY_UNATTRIBUTED_QUEUE_ID \<and> \<not> known q) (map fst hm)) - MAX_DELETED_HISTORY_PARTITIONS)
     (sort_key (latestCompletedAt hm) (filter (\<lambda>q. q \<noteq> HISTORY_UNATTRIBUTED_QUEUE_ID \<and> \<not> known q) (map fst hm)))"
  have "hm' = filter (\<lambda>(k, x). k \<notin> set D) hm"
    using assms(1) by (simp add: pruneExcessDeletedHistoryPartitions_def Let_def D_def split: if_splits)
  moreover have "set D \<subseteq> {q. q \<noteq> HISTORY_UNATTRIBUTED_QUEUE_ID \<and> \<not> known q}"
    unfolding D_def using set_take_subset by fastforce
  then have "q \<notin> set D" using assms(2) by auto
  ultimately show ?thesis by (intro exI [of _ "\<lambda>k. k \<notin> set D"] conjI)
qed

lemma endsAs_entry [simp]: "sameRun x (enAfter e) \<Longrightarrow> endsAs e (historyEntryOf x d)"
  by (simp add: endsAs_def historyEntryOf_def sameRun_simps)

lemma sameEnding_entry: "sameRun x (enAfter e) \<Longrightarrow> sameEnding h (historyEntryOf x d) = endsAs e h"
  by (simp add: sameEnding_def endsAs_def historyEntryOf_def sameRun_simps)

lemma historyOver_matches:
  assumes "historyOver e hm" "endingOk e"
  shows "length (filter (endsAs e) (getHistory hm)) = 1" "list_ex (endsAs e) (partitionOf hm (enQueue e))"
proof -
  let ?h = "enHistory e" and ?q = "enQueue e"
  obtain known x d where k: "known ?q" "sameRun x (enAfter e)" "appendedHistory known ?q (historyEntryOf x d) ?h = Some hm"
    using assms(1) by (auto simp: historyOver_def)
  let ?ex = "partitionOf ?h ?q" and ?en = "historyEntryOf x d"
  let ?es = "drop (length (?ex @ [?en]) - HISTORY_CAP_PER_QUEUE) (?ex @ [?en])"
  have h: "distinct (map fst ?h)" "filter (endsAs e) (getHistory ?h) = []" using assms(2) by (simp_all add: endingOk_def)
  have es: "?es = drop (length (?ex @ [?en]) - HISTORY_CAP_PER_QUEUE) ?ex @ [?en]"
    by (simp add: HISTORY_CAP_PER_QUEUE_def)
  have "filter (endsAs e) (drop n ?ex) = []" for n
    using matches_partition [OF h(2), of ?q] by (auto simp: filter_empty_conv dest: in_set_dropD)
  then have one: "length (filter (endsAs e) ?es) = 1" unfolding es using k(2) by simp
  let ?u = "AList.update ?q ?es ?h"
  have u: "distinct (map fst ?u)" "map_of ?u ?q = Some ?es" "length (filter (endsAs e) (getHistory ?u)) = length (filter (endsAs e) ?es)"
    using h by (simp_all add: distinct_update update_conv' matches_update)
  have "hm = (case pruneExcessDeletedHistoryPartitions known ?u of Some pruned \<Rightarrow> pruned | None \<Rightarrow> ?u)"
    using k(3) by (simp add: appendedHistory_def Let_def split: if_splits)
  then have "\<exists>K. K ?q \<and> hm = filter (\<lambda>(k, x). K k) ?u"
    using pruned_keeps [where known = known and q = ?q] k(1) by (cases "pruneExcessDeletedHistoryPartitions known ?u") (auto intro: exI [of _ "\<lambda>k. True"])
  then obtain K where K: "K ?q" "hm = filter (\<lambda>(k, x). K k) ?u" by blast
  show "length (filter (endsAs e) (getHistory hm)) = 1"
    using matches_keys [where K = K and q = ?q and P = "endsAs e", OF u(1) K(1) u(2,3)] one K(2) by simp
  have "partitionOf hm ?q = ?es" using u(2) by (simp add: partitionOf_def K(2) map_of_keys [of K, OF K(1)])
  then show "list_ex (endsAs e) (partitionOf hm ?q)"
    using one by (metis filter_False length_greater_0_conv less_numeral_extra(1) list_ex_iff)
qed

lemma list_ex_history: "list_ex P (partitionOf hm q) \<Longrightarrow> list_ex P (getHistory hm)"
  by (force simp: getHistory_def list_ex_iff dest: partitionOf_in)

lemma appended_cases:
  assumes "endingOk e" "sameRun x (enAfter e)"
  shows "appendedHistory known (enQueue e) (historyEntryOf x d) (enHistory e) \<noteq> None"
    "historyOver e hm \<Longrightarrow> appendedHistory known (enQueue e) (historyEntryOf x d) hm = None"
    "list_ex (\<lambda>h. heRunId h = runId x \<and> heTerminalStatus h = runStatus x) (getHistory hm) = list_ex (endsAs e) (getHistory hm)"
proof -
  have "filter (endsAs e) (partitionOf (enHistory e) (enQueue e)) = []"
    using assms(1) by (intro matches_partition) (simp add: endingOk_def)
  then show "appendedHistory known (enQueue e) (historyEntryOf x d) (enHistory e) \<noteq> None"
    by (auto simp: appendedHistory_def Let_def sameEnding_entry [OF assms(2)] filter_empty_conv list_ex_iff)
  show "historyOver e hm \<Longrightarrow> appendedHistory known (enQueue e) (historyEntryOf x d) hm = None"
    using historyOver_matches(2) [OF _ assms(1)]
    by (simp add: appendedHistory_def Let_def sameEnding_entry [OF assms(2)])
  show "list_ex (\<lambda>h. heRunId h = runId x \<and> heTerminalStatus h = runStatus x) (getHistory hm) = list_ex (endsAs e) (getHistory hm)"
    by (simp add: endsAs_def sameRun_simps [OF assms(2)] list_ex_iff)
qed

subsection \<open>The writes\<close>

lemma stage_fates [simp]:
  "pending e (s\<lparr>tsFates := fs\<rparr>) = pending e s" "ready e (s\<lparr>tsFates := fs\<rparr>) = ready e s"
  "finished e (s\<lparr>tsFates := fs\<rparr>) = finished e s"
  "pending e (s\<lparr>tsWrittenHere := w\<rparr>) = pending e s" "ready e (s\<lparr>tsWrittenHere := w\<rparr>) = ready e s"
  "finished e (s\<lparr>tsWrittenHere := w\<rparr>) = finished e s"
  by (simp_all add: stage_defs)

definition owes :: "Ending \<Rightarrow> bool \<Rightarrow> bool \<Rightarrow> TransitionState \<Rightarrow> bool" where
  "owes e run row s \<longleftrightarrow> pending e s \<and> (run \<longrightarrow> runOver e (tsRuns s)) \<and>
     (if row then rowOver e (tsQueues s) else rowOpen e (tsQueues s))"

lemma owes_fates [simp]: "owes e a b (s\<lparr>tsFates := fs\<rparr>) = owes e a b s"
  by (simp add: owes_def)

lemma fateless_owes [simp]: "fateless (owes e a b)" "fateless (pending e)" "fateless (ready e)"
  by (simp_all add: fateless_def)

lemma owes_pending: "owes e a b s \<Longrightarrow> pending e s"
  by (simp add: owes_def)

lemma row_owner:
  assumes "owes e a b s"
  shows "queueIdForExistingTask s (featureId (enAfter e)) = Some (enQueue e)"
proof -
  obtain row where r: "findTaskOwner (tsQueues s) (featureId (enAfter e)) = Some (enQueue e, row)"
    using assms by (cases b) (auto simp: owes_def rowOpen_def rowOver_def)
  have "store_ok (tsQueues s)" using assms by (simp add: owes_def pending_def stage_def)
  from findTaskOwner_ok(2) [OF this r] r show ?thesis by (simp add: queueIdForExistingTask_def getRequest_def)
qed

lemma commitRun_triple:
  assumes "envOk te e" "endingOk e" "sameRun x (enAfter e)"
  shows "triple (\<lambda>s. owes e a b s \<and> calm c s) (commitRun te (enQueue e) x)
    (\<lambda>r s. r = Inr () \<and> owes e True b s \<and> calm c s) (\<lambda>s. owes e a b s \<and> \<not> c)"
proof (rule triple_state)
  fix s assume s: "owes e a b s \<and> calm c s"
  let ?q = "enQueue e" and ?env = "teStore te"
  let ?y = "stampFence (claimOf ?env ?q) x"
  have held: "runHeld e (tsRuns s)" using s by (simp add: owes_def pending_def stage_def)
  obtain r where r: "map_of (tsRuns s) ?q = Some r" "run_ok r" using runHeld_lookup [OF held assms(2)] by blast
  have "validateRunInvariants x (Some r) = None"
    using validate_run_ok [of "Some r" x] r(2) assms(2,3) by (simp add: endingOk_def sameRun_simps)
  then have set: "setRun ?env (tsRuns s) ?q (Some x) (claimOf ?env ?q) = Inr (AList.update ?q ?y (tsRuns s))"
    using assms(1) by (simp add: setRun_def getRun_def r(1) envOk_def commit_open_simps)
  have eq: "commitRun te ?q x s = bind_act (durable (\<lambda>t. t\<lparr>tsRuns := AList.update ?q ?y (tsRuns s)\<rparr>)) (\<lambda>u. give (Inr ())) s"
    using assms(1) by (simp add: commitRun_def writeRun_def envOk_def commit_open_simps set)
  have same: "sameRun ?y (enAfter e)" using assms(3) by (rule sameRun_simps(6))
  have "triple (\<lambda>t. (owes e a b t \<and> tsRuns t = tsRuns s) \<and> calm c t)
    (bind_act (durable (\<lambda>t. t\<lparr>tsRuns := AList.update ?q ?y (tsRuns s)\<rparr>)) (\<lambda>u. give (Inr ())))
    (\<lambda>r t. r = Inr () \<and> owes e True b t \<and> calm c t) (\<lambda>t. (owes e a b t \<and> tsRuns t = tsRuns s) \<and> \<not> c)"
  proof (rule triple_bind, rule triple_durable)
    show "owes e True b (t\<lparr>tsRuns := AList.update ?q ?y (tsRuns s)\<rparr>)" if "owes e a b t \<and> tsRuns t = tsRuns s" for t
      using that runHeld_update [OF held same] by (auto simp: owes_def pending_def stage_def intentOf_def)
  qed (auto simp: fateless_def intro: triple_give)
  from triple_run [where m = "commitRun te ?q x" and s = s, OF this _ eq] s
  show "triple (\<lambda>t. t = s) (commitRun te ?q x) (\<lambda>r s. r = Inr () \<and> owes e True b s \<and> calm c s) (\<lambda>s. owes e a b s \<and> \<not> c)"
    by simp
qed

lemma requestStatus_terminal:
  "isTerminalRunStatus st \<Longrightarrow> \<exists>t. requestStatusOf st = Some t \<and> isTerminalRequestStatus t \<and> t \<noteq> StInFlight"
  by (cases st) (auto simp: isTerminalRunStatus_def requestStatusOf_def isTerminalRequestStatus_def)

lemma finishTask_triple:
  assumes "envOk te e" "endingOk e"
  shows "triple (\<lambda>s. owes e True False s \<and> calm c s) (finishTask te (featureId (enAfter e)) (runStatus (enAfter e)) err)
    (\<lambda>ok s. ok \<and> owes e True True s \<and> calm c s) (\<lambda>s. owes e True False s \<and> \<not> c)"
proof (rule triple_state)
  fix s assume s: "owes e True False s \<and> calm c s"
  let ?t = "featureId (enAfter e)"
  obtain st where st: "requestStatusOf (runStatus (enAfter e)) = Some st" "isTerminalRequestStatus st"
    using requestStatus_terminal assms(2) unfolding endingOk_def by blast
  obtain row where row: "findTaskOwner (tsQueues s) ?t = Some (enQueue e, row)" "frStatus row = StInFlight" "store_ok (tsQueues s)"
    using s by (auto simp: owes_def rowOpen_def pending_def stage_def)
  obtain qm' row' where f: "finish (teStore te) (tsQueues s) (tsRuns s) ?t st err = (Ok, qm')" "store_ok qm'"
    "findTaskOwner qm' ?t = Some (enQueue e, row')" "frStatus row' = st"
    using finish_lands [OF row(3,1) _ row(2) st(2)] assms(1) unfolding envOk_def by metis
  have eq: "finishTask te ?t (runStatus (enAfter e)) err s = bind_act (durable (\<lambda>t. t\<lparr>tsQueues := qm'\<rparr>)) (\<lambda>u. give True) s"
    by (simp add: finishTask_def st(1) f(1))
  have over: "rowOver e qm'" using f(3,4) st(1) by (simp add: rowOver_def)
  have "triple (\<lambda>t. owes e True False t \<and> calm c t) (bind_act (durable (\<lambda>t. t\<lparr>tsQueues := qm'\<rparr>)) (\<lambda>u. give True))
      (\<lambda>ok t. ok \<and> owes e True True t \<and> calm c t) (\<lambda>t. owes e True False t \<and> \<not> c)"
    by (rule triple_bind, rule triple_durable [where Q = "owes e True True"])
      (use over f(2) in \<open>auto simp: owes_def pending_def stage_def intentOf_def fateless_def intro: triple_give\<close>)
  from triple_run [where m = "finishTask te ?t (runStatus (enAfter e)) err" and s = s, OF this s eq]
  show "triple (\<lambda>t. t = s) (finishTask te ?t (runStatus (enAfter e)) err)
    (\<lambda>ok s. ok \<and> owes e True True s \<and> calm c s) (\<lambda>s. owes e True False s \<and> \<not> c)"
    by simp
qed

lemma recordHistory_triple:
  assumes "envOk te e" "endingOk e" "sameRun x (enAfter e)"
  shows "triple (\<lambda>s. owes e a b s \<and> calm c s) (recordHistory te x d)
    (\<lambda>ok s. (c \<longrightarrow> ok) \<and> (ok \<longrightarrow> historyOver e (tsHistory s)) \<and> owes e a b s \<and> calm c s) (\<lambda>s. owes e a b s \<and> \<not> c)"
proof (rule triple_state)
  fix s assume s: "owes e a b s \<and> calm c s"
  let ?Q = "\<lambda>ok s. (c \<longrightarrow> ok) \<and> (ok \<longrightarrow> historyOver e (tsHistory s)) \<and> owes e a b s \<and> calm c s"
  let ?known = "knownQueue (teStore te)" and ?en = "historyEntryOf x d"
  have own: "queueIdForExistingTask s (featureId x) = Some (enQueue e)"
    using row_owner [of e a b s] s assms(3) by (simp add: sameRun_simps)
  have eq: "recordHistory te x d s = (case appendedHistory ?known (enQueue e) ?en (tsHistory s) of None \<Rightarrow> give True s
      | Some hm \<Rightarrow> catch_act (bind_act (durable (\<lambda>t. t\<lparr>tsHistory := hm\<rparr>)) (\<lambda>u. give True)) (give False) s)"
    using assms(1) by (simp add: recordHistory_def envOk_def own)
  show "triple (\<lambda>t. t = s) (recordHistory te x d) ?Q (\<lambda>s. owes e a b s \<and> \<not> c)"
  proof (cases "historyOver e (tsHistory s)")
    case True
    then have "appendedHistory ?known (enQueue e) ?en (tsHistory s) = None" by (rule appended_cases(2) [OF assms(2,3)])
    with eq True s show ?thesis by (simp add: triple_def give_def)
  next
    case False
    then have h: "tsHistory s = enHistory e" using s by (simp add: owes_def pending_def stage_def)
    then obtain hm where hm: "appendedHistory ?known (enQueue e) ?en (tsHistory s) = Some hm"
      using appended_cases(1) [OF assms(2,3)] by fastforce
    have over: "historyOver e hm" using hm h assms(1,3) unfolding historyOver_def envOk_def by metis
    have "triple (\<lambda>t. owes e a b t \<and> calm c t) (bind_act (durable (\<lambda>t. t\<lparr>tsHistory := hm\<rparr>)) (\<lambda>u. give True))
        (\<lambda>ok t. ok \<and> historyOver e (tsHistory t) \<and> owes e a b t \<and> calm c t) (\<lambda>t. owes e a b t \<and> \<not> c)"
      by (rule triple_bind, rule triple_durable [where Q = "\<lambda>t. historyOver e (tsHistory t) \<and> owes e a b t"])
        (use over in \<open>auto simp: owes_def pending_def stage_def intentOf_def fateless_def intro: triple_give\<close>)
    from triple_weaken [OF this, where Q' = ?Q and E' = "\<lambda>t. owes e a b t \<and> \<not> c"]
    have "triple (\<lambda>t. owes e a b t \<and> calm c t) (bind_act (durable (\<lambda>t. t\<lparr>tsHistory := hm\<rparr>)) (\<lambda>u. give True)) ?Q (\<lambda>t. owes e a b t \<and> \<not> c)"
      by simp
    then have "triple (\<lambda>t. owes e a b t \<and> calm c t) (catch_act (bind_act (durable (\<lambda>t. t\<lparr>tsHistory := hm\<rparr>)) (\<lambda>u. give True)) (give False)) ?Q (\<lambda>t. owes e a b t \<and> \<not> c)"
      by (rule triple_catch) (rule triple_give, simp add: calm_def)
    from triple_run [where m = "recordHistory te x d" and s = s, OF this s] eq hm show ?thesis by simp
  qed
qed

lemma recordIfAbsent_triple:
  assumes "envOk te e" "endingOk e" "sameRun x (enAfter e)"
  shows "triple (\<lambda>s. owes e a b s \<and> calm c s) (recordHistoryIfAbsent te x d)
    (\<lambda>ok s. (c \<longrightarrow> ok) \<and> (ok \<longrightarrow> historyOver e (tsHistory s)) \<and> owes e a b s \<and> calm c s) (\<lambda>s. owes e a b s \<and> \<not> c)"
proof (rule triple_state)
  fix s assume s: "owes e a b s \<and> calm c s"
  have eq: "recordHistoryIfAbsent te x d s = (if list_ex (endsAs e) (getHistory (tsHistory s)) then give True s else recordHistory te x d s)"
    by (simp add: recordHistoryIfAbsent_def appended_cases(3) [OF assms(2,3)])
  show "triple (\<lambda>t. t = s) (recordHistoryIfAbsent te x d)
    (\<lambda>ok s. (c \<longrightarrow> ok) \<and> (ok \<longrightarrow> historyOver e (tsHistory s)) \<and> owes e a b s \<and> calm c s) (\<lambda>s. owes e a b s \<and> \<not> c)"
  proof (cases "list_ex (endsAs e) (getHistory (tsHistory s))")
    case True
    then have "tsHistory s \<noteq> enHistory e" using assms(2) by (auto simp: endingOk_def list_ex_iff filter_empty_conv)
    then have "historyOver e (tsHistory s)" using s by (simp add: owes_def pending_def stage_def)
    with eq True s show ?thesis by (simp add: triple_def give_def)
  next
    case False
    from triple_run [where m = "recordHistoryIfAbsent te x d" and s = s, OF recordHistory_triple [OF assms] s]
    show ?thesis using eq False by simp
  qed
qed

definition closing :: "Ending \<Rightarrow> bool \<Rightarrow> TransitionState \<Rightarrow> bool" where
  "closing e c s \<longleftrightarrow> (finished e s \<or> pending e s \<and> \<not> c) \<and> calm c s"

lemma clear_triple:
  assumes "envOk te e" "endingOk e" "sameRun x (enAfter e)"
  shows "triple (\<lambda>s. owes e True True s \<and> calm c s) (clearIfRecorded te x d) (\<lambda>u. closing e c) (\<lambda>s. pending e s \<and> \<not> c)"
  unfolding clearIfRecorded_def
proof (rule triple_bind)
  show "triple (\<lambda>s. owes e True True s \<and> calm c s) (recordHistoryIfAbsent te x d)
    (\<lambda>ok s. (c \<longrightarrow> ok) \<and> (ok \<longrightarrow> historyOver e (tsHistory s)) \<and> owes e True True s \<and> calm c s) (\<lambda>s. pending e s \<and> \<not> c)"
    by (rule triple_weaken [OF recordIfAbsent_triple [OF assms]]) (auto dest: owes_pending)
  fix ok
  show "triple (\<lambda>s. (c \<longrightarrow> ok) \<and> (ok \<longrightarrow> historyOver e (tsHistory s)) \<and> owes e True True s \<and> calm c s)
      (if ok then setTerminalTransitionIntent (runId x) None else give ()) (\<lambda>u. closing e c) (\<lambda>s. pending e s \<and> \<not> c)"
  proof (cases ok)
    case True
    have "triple (\<lambda>s. (historyOver e (tsHistory s) \<and> owes e True True s) \<and> calm c s) (setTerminalTransitionIntent (runId x) None)
      (\<lambda>u s. finished e s \<and> calm c s) (\<lambda>s. (historyOver e (tsHistory s) \<and> owes e True True s) \<and> \<not> c)"
      unfolding setTerminalTransitionIntent_def
      by (rule triple_durable)
        (auto simp: fateless_def owes_def pending_def finished_def stage_def intentOf_def sameRun_simps [OF assms(3)])
    then show ?thesis using True
      by (auto elim!: triple_weaken simp: closing_def dest: owes_pending)
  next
    case False
    then show ?thesis by (auto intro!: triple_give simp: closing_def dest: owes_pending)
  qed
qed

subsection \<open>Completing and replaying\<close>

lemma begin_triple:
  assumes "endingOk e" "sameRun x (enAfter e)"
  shows "triple (\<lambda>s. pending e s \<and> calm c s) (beginTransition te x d)
    (\<lambda>r s. r = Some (enAt e) \<and> pending e s \<and> calm c s) (\<lambda>s. pending e s \<and> \<not> c)"
proof (rule triple_state)
  fix s assume s: "pending e s \<and> calm c s"
  let ?rid = "runId (enAfter e)"
  obtain i where i: "tsIntents s = [(?rid, i)]" "sameRun (tiRun i) (enAfter e)" "tiCreatedAt i = enAt e"
    using s by (auto simp: pending_def intentOf_def)
  let ?i = "i\<lparr>tiDescription := d\<rparr>"
  have eq: "beginTransition te x d s = (if tiDescription i \<noteq> None \<or> d = None then give (Some (enAt e)) s
      else bind_act (setTerminalTransitionIntent ?rid (Some ?i)) (\<lambda>u. give (Some (enAt e))) s)"
    using assms i by (simp add: beginTransition_def Let_def journalledIntent_def endingOk_def sameRun_simps)
  have "triple (\<lambda>t. (pending e t \<and> tsIntents t = tsIntents s) \<and> calm c t)
      (bind_act (setTerminalTransitionIntent ?rid (Some ?i)) (\<lambda>u. give (Some (enAt e))))
      (\<lambda>r t. r = Some (enAt e) \<and> pending e t \<and> calm c t) (\<lambda>t. (pending e t \<and> tsIntents t = tsIntents s) \<and> \<not> c)"
    unfolding setTerminalTransitionIntent_def
    by (rule triple_bind, rule triple_durable [where Q = "pending e"])
      (use i in \<open>auto simp: fateless_def pending_def stage_def intentOf_def intro: triple_give\<close>)
  note set = triple_run [where m = "beginTransition te x d" and s = s, OF this]
  show "triple (\<lambda>t. t = s) (beginTransition te x d)
    (\<lambda>r s. r = Some (enAt e) \<and> pending e s \<and> calm c s) (\<lambda>s. pending e s \<and> \<not> c)"
  proof (cases "tiDescription i \<noteq> None \<or> d = None")
    case True
    then show ?thesis using eq s by (simp add: triple_def give_def)
  next
    case False
    then have "beginTransition te x d s =
        bind_act (setTerminalTransitionIntent ?rid (Some ?i)) (\<lambda>u. give (Some (enAt e))) s" using eq by auto
    then show ?thesis by (rule set [rotated]) (use s in auto)
  qed
qed

lemma interrupted_triple:
  assumes "envOk te e" "endingOk e" "sameRun x (enAfter e)"
  shows "triple (\<lambda>s. owes e False False s \<and> calm c s) (projectInterrupted te x d StInFlight (Some (enAt e)))
    (\<lambda>u. closing e c) (\<lambda>s. pending e s \<and> \<not> c)"
proof (rule triple_state)
  fix s assume s: "owes e False False s \<and> calm c s"
  let ?after = "bind_act (finishTask te (featureId x) (runStatus x) None)
      (\<lambda>ok. if ok then clearIfRecorded te x d else dropIntent x)"
  have "runHeld e (tsRuns s)" using s by (simp add: owes_def pending_def stage_def)
  then obtain r where r: "runId r = runId x" "findRunByTask (tsRuns s) (featureId x) = Some (enQueue e, r)"
    using runHeld_lookup assms(2) unfolding sameRun_simps(1,2) [OF assms(3)] by blast
  have dec: "decideTaskTransition OpFinish (Some StInFlight) (requestStatusOf (runStatus x)) False False = None"
    using requestStatus_terminal assms(2,3) by (fastforce simp: decideTaskTransition_def endingOk_def sameRun_simps)
  obtain a s' where cm: "commitRun te (enQueue e) x s = (a, s')" by force
  note a = triple_answers [OF commitRun_triple [OF assms] s cm]
  have after: "triple (\<lambda>s. owes e True False s \<and> calm c s) ?after (\<lambda>u. closing e c) (\<lambda>s. pending e s \<and> \<not> c)"
  proof (rule triple_bind)
    show "triple (\<lambda>s. owes e True False s \<and> calm c s) (finishTask te (featureId x) (runStatus x) None)
      (\<lambda>ok s. ok \<and> owes e True True s \<and> calm c s) (\<lambda>s. pending e s \<and> \<not> c)"
      unfolding sameRun_simps(2,3) [OF assms(3)]
      by (rule triple_weaken [OF finishTask_triple [OF assms(1,2)]]) (auto dest: owes_pending)
    show "triple (\<lambda>s. ok \<and> owes e True True s \<and> calm c s) (if ok then clearIfRecorded te x d else dropIntent x)
      (\<lambda>u. closing e c) (\<lambda>s. pending e s \<and> \<not> c)" for ok
      using clear_triple [OF assms] by (cases ok) (auto simp: triple_def)
  qed
  have eq: "projectInterrupted te x d StInFlight (Some (enAt e)) s =
      (case commitRun te (enQueue e) x s of
         (Returned (Inr u), s') \<Rightarrow> ?after s'
       | (Returned (Inl e'), s') \<Rightarrow> if isOwnershipRefusal e' then abandonRefused x (enAt e) s' else give () s'
       | (Raised, s') \<Rightarrow> give () s'
       | (HostDead, s') \<Rightarrow> (HostDead, s'))"
    by (simp add: projectInterrupted_def dec Let_def r split: prod.split sum.split Result.split)
  show "triple (\<lambda>t. t = s) (projectInterrupted te x d StInFlight (Some (enAt e))) (\<lambda>u. closing e c) (\<lambda>s. pending e s \<and> \<not> c)"
  proof (cases a)
    case (Returned v)
    with a show ?thesis
      using after eq cm by (auto simp: triple_def dest: owes_pending)
  qed (use a eq cm in \<open>auto simp: triple_def give_def closing_def calm_def dest: owes_pending\<close>)
qed

lemma pending_row:
  assumes "pending e s" "endingOk e"
  shows "\<exists>row. getRequest s (featureId (enAfter e)) = Some row \<and>
    ((frStatus row = StInFlight \<and> frRunId row = Some (runId (enAfter e)) \<and> frUpdatedAt row \<le> enAt e \<and> owes e False False s) \<or>
     (Some (frStatus row) = requestStatusOf (runStatus (enAfter e)) \<and> frStatus row \<noteq> StInFlight \<and> owes e True True s))"
proof -
  obtain st where st: "requestStatusOf (runStatus (enAfter e)) = Some st" "st \<noteq> StInFlight"
    using requestStatus_terminal assms(2) unfolding endingOk_def by blast
  show ?thesis
    using assms(1) st by (auto simp: pending_def stage_def owes_def rowOpen_def rowOver_def getRequest_def)
qed

lemma closing_weaken: "triple P m (\<lambda>u. closing e c) (\<lambda>s. pending e s \<and> \<not> c) \<Longrightarrow>
    triple P (catch_act m (give ())) (\<lambda>u. closing e c) (\<lambda>s. pending e s \<and> \<not> c)"
  by (rule triple_catch) (auto intro!: triple_give simp: closing_def calm_def)

lemma complete_triple:
  assumes "envOk te e" "endingOk e" "sameRun x (enAfter e)"
  shows "triple (\<lambda>s. pending e s \<and> calm c s) (completeTransition te x d) (\<lambda>u. closing e c) (\<lambda>s. pending e s \<and> \<not> c)"
proof -
  note sr = sameRun_simps(1-3) [OF assms(3)]
  let ?body = "\<lambda>createdAt s. (case getRequest s (featureId x) of
      None \<Rightarrow> projectRowGone te x d
    | Some row \<Rightarrow>
        if frStatus row = StInFlight \<and> frRunId row \<noteq> Some (runId x) then dropIntent x
        else if Some (frStatus row) = requestStatusOf (runStatus x) then projectLanded te x d
        else if (case journalledIntent s (runId x) of None \<Rightarrow> False | Some j \<Rightarrow> tiCreatedAt j < frUpdatedAt row)
          then dropIntent x
        else projectInterrupted te x d (frStatus row) createdAt)"
  have rest: "triple (\<lambda>s. r = Some (enAt e) \<and> pending e s \<and> calm c s)
      (\<lambda>s. catch_act (?body r s) (give ()) s) (\<lambda>u. closing e c) (\<lambda>s. pending e s \<and> \<not> c)" for r
  proof (rule triple_state)
    fix s assume s: "r = Some (enAt e) \<and> pending e s \<and> calm c s"
    obtain row where row: "getRequest s (featureId (enAfter e)) = Some row"
      "(frStatus row = StInFlight \<and> frRunId row = Some (runId (enAfter e)) \<and> frUpdatedAt row \<le> enAt e \<and> owes e False False s) \<or>
       (Some (frStatus row) = requestStatusOf (runStatus (enAfter e)) \<and> frStatus row \<noteq> StInFlight \<and> owes e True True s)"
      using pending_row assms(2) s by blast
    have j: "\<exists>i. journalledIntent s (runId x) = Some i \<and> tiCreatedAt i = enAt e"
      using s by (auto simp: pending_def intentOf_def journalledIntent_def sr)
    have no: "requestStatusOf (runStatus (enAfter e)) \<noteq> Some StInFlight"
      using requestStatus_terminal assms(2) unfolding endingOk_def by fastforce
    show "triple (\<lambda>t. t = s) (\<lambda>s. catch_act (?body r s) (give ()) s) (\<lambda>u. closing e c) (\<lambda>s. pending e s \<and> \<not> c)"
    proof (cases "frStatus row = StInFlight")
      case True
      then have o: "owes e False False s" "frRunId row = Some (runId (enAfter e))" "frUpdatedAt row \<le> enAt e" using row(2) by auto
      then have "?body r s = projectInterrupted te x d StInFlight (Some (enAt e))"
        using True no row(1) j s by (auto simp: sr)
      then show ?thesis
        by (intro triple_run [where m = "\<lambda>s. catch_act (?body r s) (give ()) s", OF closing_weaken [OF interrupted_triple [OF assms]]])
          (use o s in auto)
    next
      case False
      then have o: "owes e True True s" "Some (frStatus row) = requestStatusOf (runStatus (enAfter e))" using row(2) by auto
      then have "?body r s = projectLanded te x d" using False row(1) by (simp add: sr)
      then show ?thesis
        by (intro triple_run [where m = "\<lambda>s. catch_act (?body r s) (give ()) s", OF closing_weaken [OF clear_triple [OF assms]]])
          (use o s in \<open>auto simp: projectLanded_def\<close>)
    qed
  qed
  have "isTerminalRunStatus (runStatus x)" using assms(2) by (simp add: endingOk_def sr)
  then have "completeTransition te x d = bind_act (beginTransition te x (Some d)) (\<lambda>r s. catch_act (?body r s) (give ()) s)"
    by (simp add: completeTransition_def Let_def)
  then show ?thesis using triple_bind [OF begin_triple [OF assms(2,3)] rest] by simp
qed

definition undisturbed :: "TransitionEnv \<Rightarrow> string \<Rightarrow> string option \<Rightarrow> bool" where
  "undisturbed te q me \<longleftrightarrow> (\<forall>owner. me = Some owner \<longrightarrow> \<not> rivalHolds te q owner)"

definition settled :: "Ending \<Rightarrow> TransitionState \<Rightarrow> bool" where
  "settled e s \<longleftrightarrow> pending e s \<or> finished e s"

lemma replay_triple:
  assumes "envOk te e" "endingOk e" "c \<Longrightarrow> undisturbed te (enQueue e) me"
  shows "triple (\<lambda>s. settled e s \<and> calm c s) (replay te me) (\<lambda>u s. settled e s \<and> (c \<longrightarrow> finished e s)) (\<lambda>s. settled e s \<and> \<not> c)"
proof (rule triple_state)
  fix s assume s: "settled e s \<and> calm c s"
  show "triple (\<lambda>t. t = s) (replay te me) (\<lambda>u s. settled e s \<and> (c \<longrightarrow> finished e s)) (\<lambda>s. settled e s \<and> \<not> c)"
  proof (cases "finished e s")
    case True
    then have "replay te me s = give () s" by (simp add: replay_def finished_def)
    then show ?thesis using s True by (simp add: triple_def give_def)
  next
    case False
    then have p: "pending e s" using s by (simp add: settled_def)
    then obtain i where i: "tsIntents s = [(runId (enAfter e), i)]" "sameRun (tiRun i) (enAfter e)"
      by (auto simp: pending_def intentOf_def)
    let ?d = "case tiDescription i of Some d \<Rightarrow> d | None \<Rightarrow> featureId (tiRun i)"
    let ?deferred = "case me of None \<Rightarrow> False | Some owner \<Rightarrow> deferralReason te s (tiRun i) owner"
    have held: "runHeld e (tsRuns s)" using p by (simp add: pending_def stage_def)
    have "deferralReason te s (tiRun i) owner = rivalHolds te (enQueue e) owner" for owner
      using runHeld_lookup [OF held assms(2)] sameRun_simps(1,2) [OF i(2)] by (auto simp: deferralReason_def)
    then have calm: "\<not> c" if ?deferred using assms(3) that by (auto simp: undisturbed_def split: option.splits)
    have eq: "replay te me s = (if ?deferred then give () s
        else bind_act (catch_act (completeTransition te (tiRun i) ?d) (give ())) (\<lambda>u. give ()) s)"
      by (auto simp: replay_def i(1) replayIntent_def bind_act_def give_def split: option.splits Result.split prod.split)
    have "triple (\<lambda>s. pending e s \<and> calm c s) (bind_act (catch_act (completeTransition te (tiRun i) ?d) (give ())) (\<lambda>u. give ()))
        (\<lambda>u. closing e c) (\<lambda>s. pending e s \<and> \<not> c)"
      by (rule triple_bind [OF closing_weaken [OF complete_triple [OF assms(1,2) i(2)]]]) (rule triple_give)
    note finish_it = triple_run [where m = "replay te me" and s = s, OF this]
    show ?thesis
    proof (cases ?deferred)
      case True
      then show ?thesis using eq s calm by (simp add: triple_def give_def)
    next
      case False
      then have "replay te me s = bind_act (catch_act (completeTransition te (tiRun i) ?d) (give ())) (\<lambda>u. give ()) s"
        using eq by (simp only: if_False)
      then show ?thesis
        by (rule finish_it [rotated]) (use p s in \<open>auto simp: closing_def settled_def\<close>)
    qed
  qed
qed

subsection \<open>The end of a Run\<close>

lemma changedRunFields_same: "changedRunFields p n p = n"
  by (simp add: changedRunFields_def changed_def)

definition durableState :: "TransitionState \<Rightarrow> (string \<times> TerminalTransitionIntent) list \<times> RunMap \<times> QueueMap \<times> HistoryMap" where
  "durableState s = (tsIntents s, tsRuns s, tsQueues s, tsHistory s)"

lemma durableState_fates [simp]:
  "durableState (s\<lparr>tsFates := fs\<rparr>) = durableState s" "durableState (s\<lparr>tsWrittenHere := w\<rparr>) = durableState s"
  by (simp_all add: durableState_def)

lemma persist_triple:
  assumes "envOk te e" "endingOk e" "clock (teStore te) = enAt e" "ready e s"
  shows "triple (\<lambda>t. t = s) (persistTransition te (enBefore e) (enAfter e))
    (\<lambda>r t. sameRun r (enAfter e) \<and> owes e True False t) (\<lambda>t. durableState t = durableState s \<or> pending e t)"
proof -
  let ?q = "enQueue e" and ?n = "enAfter e" and ?env = "teStore te"
  let ?y = "stampFence (claimOf ?env ?q) ?n"
  let ?i = "\<lparr>tiRun = ?n, tiCreatedAt = enAt e, tiDescription = None\<rparr>"
  let ?u = "\<lambda>runs. then_ok (runCommitClaim ?env ?q) (\<lambda>claim. updateRun ?env runs ?q
      \<lparr>updRunId = runId ?n, updAllowed = LIVE_RUN_STATUSES, updPatch = (\<lambda>c. Inr (changedRunFields (enBefore e) ?n c))\<rparr> claim)"
  let ?P = "\<lambda>t. owes e False False t \<and> map_of (tsRuns t) ?q = Some (enBefore e)"
  have st: "runHeld e (tsRuns s)" "tsIntents s = []" "map_of (tsRuns s) ?q = Some (enBefore e)"
    using assms(4) by (simp_all add: ready_def stage_def)
  obtain r where loc: "findRunById (tsRuns s) (runId ?n) = Some (?q, r)" using runHeld_lookup [OF st(1) assms(2)] by blast
  have new: "?P (t\<lparr>tsIntents := [(runId ?n, ?i)]\<rparr>)" if "durableState t = durableState s" for t
  proof -
    have "ready e t" using that assms(4) by (simp add: ready_def stage_def durableState_def)
    then show ?thesis using sameRun_refl(1) [of ?n] by (auto simp: ready_def owes_def pending_def stage_def intentOf_def)
  qed
  have jr: "triple (\<lambda>t. durableState t = durableState s \<and> calm False t)
      (setTerminalTransitionIntent (runId ?n) (Some ?i)) (\<lambda>u t. ?P t \<and> calm False t) (\<lambda>t. durableState t = durableState s \<and> \<not> False)"
    unfolding setTerminalTransitionIntent_def
    by (rule triple_durable) (use new st(2) in \<open>auto simp: fateless_def durableState_def\<close>)
  have "triple (\<lambda>t. t = s) (beginTransition te ?n None) (\<lambda>c t. c = Some (enAt e) \<and> ?P t) (\<lambda>t. durableState t = durableState s \<or> pending e t)"
  proof (rule triple_run)
    show "triple (\<lambda>t. durableState t = durableState s \<and> calm False t)
      (bind_act (setTerminalTransitionIntent (runId ?n) (Some ?i))
        (\<lambda>u. bind_act (rememberWritten (runId ?n) (enAt e)) (\<lambda>u. give (Some (enAt e)))))
      (\<lambda>c t. c = Some (enAt e) \<and> ?P t) (\<lambda>t. durableState t = durableState s)"
    proof (rule triple_bind [where R = "\<lambda>u. ?P"])
      show "triple (\<lambda>t. durableState t = durableState s \<and> calm False t) (setTerminalTransitionIntent (runId ?n) (Some ?i))
        (\<lambda>u. ?P) (\<lambda>t. durableState t = durableState s)" by (rule triple_weaken [OF jr]) auto
    qed (simp add: triple_def bind_act_def rememberWritten_def give_def owes_def)
    show "beginTransition te ?n None s = bind_act (setTerminalTransitionIntent (runId ?n) (Some ?i))
        (\<lambda>u. bind_act (rememberWritten (runId ?n) (enAt e)) (\<lambda>u. give (Some (enAt e)))) s"
      using assms(2,3) st(2) by (simp add: beginTransition_def endingOk_def Let_def journalledIntent_def)
  qed (simp_all add: calm_def)
  note beg = this
  have wr: "triple ?P (writeRun ?u) (\<lambda>r t. r = Inr ?y \<and> owes e True False t) (\<lambda>t. durableState t = durableState s \<or> pending e t)"
  proof (rule triple_state)
    fix t assume t: "?P t"
    have held: "runHeld e (tsRuns t)" using t by (simp add: owes_def pending_def stage_def)
    have ok: "run_ok (enBefore e)" "run_ok ?n" "runId (enBefore e) = runId ?n" "runStatus (enBefore e) \<in> set LIVE_RUN_STATUSES"
      using assms(2) by (simp_all add: endingOk_def)
    have "validateRunInvariants ?n (Some (enBefore e)) = None" using validate_run_ok [of "Some (enBefore e)" ?n] ok by simp
    then have up: "(?u (tsRuns t) :: unit RunRefusal + WorkflowRun \<times> RunMap) = Inr (?y, AList.update ?q ?y (tsRuns t))"
      using assms(1) updateRun_open [where env = ?env and q = ?q and runs = "tsRuns t" and run = "enBefore e" and m = ?n
          and u = "\<lparr>updRunId = runId ?n, updAllowed = LIVE_RUN_STATUSES, updPatch = (\<lambda>c. Inr (changedRunFields (enBefore e) ?n c))\<rparr>"] t ok
      by (simp add: envOk_def commit_open_simps getRun_def changedRunFields_same)
    have "triple (\<lambda>w. (?P w \<and> tsRuns w = tsRuns t) \<and> calm False w)
        (bind_act (durable (\<lambda>w. w\<lparr>tsRuns := AList.update ?q ?y (tsRuns t)\<rparr>)) (\<lambda>u. give (Inr ?y :: unit RunRefusal + WorkflowRun)))
        (\<lambda>r w. r = Inr ?y \<and> owes e True False w) (\<lambda>w. (?P w \<and> tsRuns w = tsRuns t) \<and> \<not> False)"
    proof (rule triple_bind, rule triple_durable)
      show "owes e True False (w\<lparr>tsRuns := AList.update ?q ?y (tsRuns t)\<rparr>)" if "?P w \<and> tsRuns w = tsRuns t" for w
        using that runHeld_update [OF held sameRun_refl(2)] by (auto simp: owes_def pending_def stage_def intentOf_def)
    qed (auto simp: fateless_def intro: triple_give)
    then show "triple (\<lambda>w. w = t) (writeRun ?u) (\<lambda>r t. r = Inr ?y \<and> owes e True False t) (\<lambda>t. durableState t = durableState s \<or> pending e t)"
    proof (rule triple_run)
      show "writeRun ?u t = bind_act (durable (\<lambda>w. w\<lparr>tsRuns := AList.update ?q ?y (tsRuns t)\<rparr>)) (\<lambda>u. give (Inr ?y)) t"
        unfolding writeRun_def up by simp
    qed (use t in \<open>auto simp: calm_def dest: owes_pending\<close>)
  qed
  let ?g = "\<lambda>createdAt r. (case r of
      Inr saved \<Rightarrow> give saved
    | Inl err \<Rightarrow>
        (case createdAt of
           Some c \<Rightarrow>
             if isOwnershipRefusal err then bind_act (abandonRefused ?n c) (\<lambda>u. give ?n)
             else if isRunRaceRefusal err then give ?n else (\<lambda>s. (Raised, s))
         | None \<Rightarrow> if isRunRaceRefusal err then give ?n else (\<lambda>s. (Raised, s))))"
  have "triple (\<lambda>t. t = s) (bind_act (beginTransition te ?n None) (\<lambda>c. bind_act (writeRun ?u) (?g c)))
    (\<lambda>r t. sameRun r ?n \<and> owes e True False t) (\<lambda>t. durableState t = durableState s \<or> pending e t)"
  proof (rule triple_bind [OF beg])
    fix c
    show "triple (\<lambda>t. c = Some (enAt e) \<and> ?P t) (bind_act (writeRun ?u) (?g c))
      (\<lambda>r t. sameRun r ?n \<and> owes e True False t) (\<lambda>t. durableState t = durableState s \<or> pending e t)"
    proof (rule triple_bind [where R = "\<lambda>r t. r = Inr ?y \<and> owes e True False t"])
      show "triple (\<lambda>t. c = Some (enAt e) \<and> ?P t) (writeRun ?u) (\<lambda>r t. r = Inr ?y \<and> owes e True False t)
        (\<lambda>t. durableState t = durableState s \<or> pending e t)" by (rule triple_weaken [OF wr]) auto
    qed (auto simp: triple_def give_def)
  qed
  then show ?thesis by (rule triple_run) (simp_all add: persistTransition_def Let_def loc option.case)
qed

lemma settle_triple:
  assumes "envOk te e" "endingOk e" "sameRun x (enAfter e)"
  shows "triple (owes e True False) (settleTerminalRun te x d err) (\<lambda>u. pending e) (pending e)"
  unfolding settleTerminalRun_def sameRun_simps(2,3) [OF assms(3)]
proof (rule triple_bind [where R = "\<lambda>u s. \<exists>row. owes e True row s"])
  note fin = finishTask_triple [OF assms(1,2), where c = False and err = err]
  have "triple (owes e True False) (bind_act (finishTask te (featureId (enAfter e)) (runStatus (enAfter e)) err) (\<lambda>ok. give ()))
      (\<lambda>u s. \<exists>row. owes e True row s) (owes e True False)"
  proof (rule triple_bind [where R = "\<lambda>ok. owes e True True"])
    show "triple (owes e True False) (finishTask te (featureId (enAfter e)) (runStatus (enAfter e)) err) (\<lambda>ok. owes e True True) (owes e True False)"
      by (rule triple_weaken [OF fin]) (auto simp: calm_def)
  qed (blast intro: triple_give)
  then have "triple (owes e True False) (catch_act (bind_act (finishTask te (featureId (enAfter e)) (runStatus (enAfter e)) err) (\<lambda>ok. give ())) (give ()))
      (\<lambda>u s. \<exists>row. owes e True row s) (owes e True False)"
    by (rule triple_catch) (blast intro: triple_give)
  then show "triple (owes e True False) (catch_act (bind_act (finishTask te (featureId (enAfter e)) (runStatus (enAfter e)) err) (\<lambda>ok. give ())) (give ()))
      (\<lambda>u s. \<exists>row. owes e True row s) (pending e)"
    by (rule triple_weaken) (auto dest: owes_pending)
  show "triple (\<lambda>s. \<exists>row. owes e True row s) (bind_act (recordHistory te x d) (\<lambda>ok. give ())) (\<lambda>u. pending e) (pending e)"
  proof (rule triple_bind [where R = "\<lambda>ok. pending e"])
    have "triple (owes e True row) (recordHistory te x d) (\<lambda>ok. pending e) (pending e)" for row
      by (rule triple_weaken [OF recordHistory_triple [OF assms, where a = True and b = row and c = False]])
        (auto simp: calm_def dest: owes_pending)
    then show "triple (\<lambda>s. \<exists>row. owes e True row s) (recordHistory te x d) (\<lambda>ok. pending e) (pending e)"
      unfolding triple_def by blast
  qed (blast intro: triple_give)
qed

lemma endRun_triple:
  assumes "envOk te e" "endingOk e" "clock (teStore te) = enAt e" "ready e s"
  shows "triple (\<lambda>t. t = s) (endRun te (enBefore e) (enAfter e) d err) (\<lambda>u. settled e) (\<lambda>t. durableState t = durableState s \<or> settled e t)"
  unfolding endRun_def
proof (rule triple_bind)
  show "triple (\<lambda>t. t = s) (persistTransition te (enBefore e) (enAfter e)) (\<lambda>x t. sameRun x (enAfter e) \<and> owes e True False t)
    (\<lambda>t. durableState t = durableState s \<or> settled e t)"
    by (rule triple_weaken [OF persist_triple [OF assms]]) (auto simp: settled_def)
next
  fix x :: WorkflowRun
  show "triple (\<lambda>t. sameRun x (enAfter e) \<and> owes e True False t)
    (bind_act (settleTerminalRun te x d err) (\<lambda>u. catch_act (completeTransition te x d) (give ())))
    (\<lambda>u. settled e) (\<lambda>t. durableState t = durableState s \<or> settled e t)"
  proof (cases "sameRun x (enAfter e)")
    case True
    have "triple (pending e) (catch_act (completeTransition te x d) (give ())) (\<lambda>u. settled e) (settled e)"
      by (rule triple_weaken [OF closing_weaken [OF complete_triple [OF assms(1,2) True, where c = False]]])
        (auto simp: calm_def closing_def settled_def)
    moreover have "triple (owes e True False) (settleTerminalRun te x d err) (\<lambda>u. pending e) (settled e)"
      by (rule triple_weaken [OF settle_triple [OF assms(1,2) True]]) (auto simp: settled_def)
    ultimately have "triple (owes e True False) (bind_act (settleTerminalRun te x d err) (\<lambda>u. catch_act (completeTransition te x d) (give ())))
      (\<lambda>u. settled e) (settled e)" by (blast intro: triple_bind)
    then show ?thesis by (rule triple_weaken) auto
  qed (simp add: triple_def)
qed

end
