(* ===== verification/TransitionSafety.thy ===== *)
theory TransitionSafety
  imports TransitionRecovery
begin

text \<open>
  What the terminal-transition journal promises: a Run that started to end ends whatever the storage and
  the host do, replay leaves a Run that has moved on alone, and one sequence in which an intent that was
  left over from an earlier ending makes replay drop the one that is needed.
\<close>

subsection \<open>Recovery\<close>

text \<open>A new activation of the extension: the coordinator's memory is gone.\<close>

definition restarted :: "Fate list \<Rightarrow> TransitionState \<Rightarrow> TransitionState" where
  "restarted fates s = s\<lparr>tsWrittenHere := [], tsFates := fates\<rparr>"

fun activations :: "(TransitionEnv \<times> string option \<times> Fate list) list \<Rightarrow> TransitionState \<Rightarrow> TransitionState" where
  "activations [] s = s"
| "activations ((te, me, fates) # as) s = activations as (snd (replay te me (restarted fates s)))"

definition recovered :: "Ending \<Rightarrow> TransitionState \<Rightarrow> bool" where
  "recovered e s \<longleftrightarrow>
     (\<exists>r. getRun (tsRuns s) (enQueue e) = Some r \<and> sameRun r (enAfter e)) \<and>
     (\<exists>row. getRequest s (featureId (enAfter e)) = Some row \<and> Some (frStatus row) = requestStatusOf (runStatus (enAfter e))) \<and>
     length (filter (endsAs e) (getHistory (tsHistory s))) = 1 \<and> tsIntents s = []"

lemma finished_recovered:
  assumes "finished e s" "endingOk e"
  shows "recovered e s"
proof -
  obtain st where st: "requestStatusOf (runStatus (enAfter e)) = Some st" "st \<noteq> StInFlight"
    using requestStatus_terminal assms(2) unfolding endingOk_def by blast
  then have "runOver e (tsRuns s)" using assms(1) by (auto simp: finished_def stage_def rowOpen_def rowOver_def)
  then show ?thesis using assms historyOver_matches(1) [OF _ assms(2)]
    by (auto simp: recovered_def finished_def runOver_def getRun_def rowOver_def getRequest_def)
qed

lemma settled_restarted [simp]: "settled e (restarted fs s) = settled e s"
  by (simp add: settled_def restarted_def)

lemma empty_journal_replay: "tsIntents s = [] \<Longrightarrow> replay te me s = (Returned (), s)"
  by (simp add: replay_def give_def)

lemma activations_settled:
  assumes "\<forall>(te, me, fs) \<in> set as. envOk te e" "endingOk e" "settled e s"
  shows "settled e (activations as s)"
  using assms(1,3)
proof (induction as arbitrary: s)
  case (Cons a as)
  obtain te me fs where a: "a = (te, me, fs)" by (cases a)
  have ok: "envOk te e" using Cons.prems(1) by (simp add: a)
  obtain r s' where m: "replay te me (restarted fs s) = (r, s')" by force
  have "answers (\<lambda>u s. settled e s \<and> (False \<longrightarrow> finished e s)) (\<lambda>s. settled e s \<and> \<not> False) r s'"
    by (rule triple_answers [OF replay_triple [OF ok assms(2), where c = False] _ m]) (use Cons.prems(2) in \<open>simp_all add: calm_def\<close>)
  then have "settled e s'" by (cases r) auto
  then show ?case using Cons by (simp add: a m)
qed simp

text \<open>
  C10. A Run that ends while its window owns the queue ends completely, when it starts from an empty journal,
  holds its queue's slot, has a task row that is still open, and its history has no entry of this ending yet.
  Whatever the storage then rejects and wherever the host dies, during the ending and during any number of
  activations after it, either nothing at all was written and the Run is as it was, or one replay undisturbed
  by a rival window leaves the Run in its terminal status, its task row in the same one, exactly one history
  entry of the ending and an empty journal.  With an intent of an earlier ending left in the journal this is
  false: the last section shows what happens then.
\<close>
theorem crash_recovery:
  fixes d :: string and err :: "string option"
  assumes "endingOk e" "ready e s" "envOk te e" "clock (teStore te) = enAt e"
    and "\<forall>(te', me', fs) \<in> set as. envOk te' e" and "envOk te1 e" "undisturbed te1 (enQueue e) me1"
  defines "ended \<equiv> snd (endRun te (enBefore e) (enAfter e) d err s)"
  shows "durableState ended = durableState s \<or>
    recovered e (snd (replay te1 me1 (restarted [] (activations as ended))))"
proof -
  obtain r where m: "endRun te (enBefore e) (enAfter e) d err s = (r, ended)" unfolding ended_def by (metis prod.collapse)
  have "answers (\<lambda>u. settled e) (\<lambda>t. durableState t = durableState s \<or> settled e t) r ended"
    by (rule triple_answers [OF endRun_triple [OF assms(3,1,4,2)] refl m])
  then consider "durableState ended = durableState s" | "settled e ended" by (cases r) auto
  then show ?thesis
  proof cases
    case 2
    then have a: "settled e (activations as ended)" by (rule activations_settled [OF assms(5,1)])
    obtain r' s' where m': "replay te1 me1 (restarted [] (activations as ended)) = (r', s')" by force
    have "answers (\<lambda>u s. settled e s \<and> (True \<longrightarrow> finished e s)) (\<lambda>s. settled e s \<and> \<not> True) r' s'"
      by (rule triple_answers [OF replay_triple [OF assms(6,1), where c = True] _ m'])
        (use a assms(7) in \<open>simp_all add: calm_def restarted_def settled_def\<close>)
    then have "finished e s'" by (cases r') auto
    then show ?thesis using finished_recovered [OF _ assms(1)] m' by simp
  qed simp
qed

definition endedRun :: WorkflowRun where
  "endedRun = (sampleRun [''plan''])\<lparr>runStatus := Completed, lastTransitionAt := 100\<rparr>"

definition sampleEnding :: Ending where
  "sampleEnding = \<lparr>enQueue = ''q'', enBefore = sampleRun [''plan''], enAfter = endedRun, enAt = 100, enHistory = []\<rparr>"

definition endingTasks :: QueueMap where
  "endingTasks = [(''q'', persist ((plainQueue [(plainTask ''t1'' 0)\<lparr>frStatus := StInFlight, frRunId := Some ''r1''\<rparr>])\<lparr>qInFlightId := Some ''t1''\<rparr>))]"

definition endingState :: "Fate list \<Rightarrow> TransitionState" where
  "endingState fs = \<lparr>tsIntents = [], tsRuns = [(''q'', sampleRun [''plan''])], tsQueues = endingTasks, tsHistory = [],
     tsWrittenHere = [], tsFates = fs\<rparr>"

definition endingEnv :: TransitionEnv where
  "endingEnv = \<lparr>teStore = queueEnv, teHolder = (\<lambda>r. None), teHistoryStore = True\<rparr>"

lemma ending_store [simp]: "store_ok endingTasks"
  by (auto simp: store_ok_def endingTasks_def queue_shape_def slot_ok_def lifecycle_ok_def filed_def dense_def rows_def plainTask_def newRequest_def
      plainQueue_def bornEmptyQueue_def split: if_splits intro!: exI)

lemma ending_owner [simp]:
  "findTaskOwner endingTasks ''t1'' = Some (''q'', (plainTask ''t1'' 0)\<lparr>frStatus := StInFlight, frRunId := Some ''r1''\<rparr>)"
  by code_simp

lemma sampleEnding_ok [simp]: "endingOk sampleEnding" "envOk endingEnv sampleEnding" "ready sampleEnding (endingState fs)"
proof -
  have "run_ok (sampleRun [''plan''])" by (rule sampleRun_ok) simp
  then show "endingOk sampleEnding"
    by (simp add: endingOk_def sampleEnding_def endedRun_def run_ok_split core_defs LIVE_RUN_STATUSES_def isTerminalRunStatus_def
        getHistory_def breakpoints_ok_def sampleRun_def)
  show "envOk endingEnv sampleEnding" by (simp add: envOk_def endingEnv_def sampleEnding_def)
  show "ready sampleEnding (endingState fs)"
    by (simp add: ready_def stage_def runHeld_def rowOpen_def sampleEnding_def endingState_def endedRun_def sampleRun_def plainTask_def newRequest_def)
qed

lemma crash_recovery_witness:
  "recovered sampleEnding (snd (replay endingEnv (Some ''me'') (restarted []
     (snd (endRun endingEnv (sampleRun [''plan'']) endedRun ''text'' None (endingState [Lands, HostDies]))))))"
proof -
  have "tsIntents (snd (endRun endingEnv (sampleRun [''plan'']) endedRun ''text'' None (endingState [Lands, HostDies]))) \<noteq> []"
    by code_simp
  then have "durableState (snd (endRun endingEnv (sampleRun [''plan'']) endedRun ''text'' None (endingState [Lands, HostDies])))
      \<noteq> durableState (endingState [Lands, HostDies])"
    by (auto simp: durableState_def endingState_def)
  moreover have "undisturbed endingEnv ''q'' (Some ''me'')"
    by (simp add: undisturbed_def rivalHolds_def endingEnv_def queueEnv_def sampleEnv_def)
  moreover have "clock (teStore endingEnv) = 100" by (simp add: endingEnv_def)
  moreover have "enQueue sampleEnding = ''q''" "enBefore sampleEnding = sampleRun [''plan'']" "enAfter sampleEnding = endedRun"
    "enAt sampleEnding = 100" by (simp_all add: sampleEnding_def)
  ultimately show ?thesis
    using crash_recovery [of sampleEnding "endingState [Lands, HostDies]" endingEnv "[]" endingEnv "Some ''me''" "''text''" None]
    by simp
qed

subsection \<open>A Run that has moved on\<close>

text \<open>The result of an action that wrote neither a Run nor a queue.\<close>

definition spared :: "TransitionState \<Rightarrow> 'a Result \<times> TransitionState \<Rightarrow> bool" where
  "spared s r \<longleftrightarrow> tsRuns (snd r) = tsRuns s \<and> tsQueues (snd r) = tsQueues s"

lemma spared_give [simp]: "spared s (give a s)"
  by (simp add: spared_def give_def)

lemma spared_bind: "(\<And>s. spared s (m s)) \<Longrightarrow> (\<And>a s. spared s (f a s)) \<Longrightarrow> spared s (bind_act m f s)"
  by (cases "m s"; cases "fst (m s)") (auto simp: spared_def bind_act_def, (metis snd_conv)+)

lemma spared_catch: "spared s (m s) \<Longrightarrow> (\<And>s. spared s (h s)) \<Longrightarrow> spared s (catch_act m h s)"
  by (cases "m s") (auto simp: spared_def catch_act_def)

lemma spared_durable: "(\<And>s. tsRuns (g s) = tsRuns s \<and> tsQueues (g s) = tsQueues s) \<Longrightarrow> spared s (durable g s)"
  by (auto simp: spared_def durable_def Let_def split: list.split Fate.split)

lemma spared_intent [simp]: "spared s (setTerminalTransitionIntent rid i s)"
  unfolding setTerminalTransitionIntent_def by (rule spared_durable) simp

lemma spared_begin: "spared s (beginTransition te run d s)"
proof -
  have "spared s (rememberWritten rid c s)" for rid c s by (simp add: spared_def rememberWritten_def)
  then show ?thesis
    by (auto simp: beginTransition_def Let_def split: option.split intro!: spared_bind)
qed

lemma spared_clear: "spared s (clearIfRecorded te run d s)"
  unfolding clearIfRecorded_def
proof (rule spared_bind)
  show "spared s (recordHistoryIfAbsent te run d s)" for s
    by (auto simp: recordHistoryIfAbsent_def recordHistory_def Let_def split: option.split
        intro!: spared_catch spared_bind spared_durable)
qed (simp split: if_split)

text \<open>The row that a replayed intent may still write over: untouched since the intent was journalled.\<close>

definition untouchedRow :: "TransitionState \<Rightarrow> TerminalTransitionIntent \<Rightarrow> FeatureRequest \<Rightarrow> bool" where
  "untouchedRow s i row \<longleftrightarrow> getRequest s (featureId (tiRun i)) = Some row \<and>
     (frStatus row = StInFlight \<longrightarrow> frRunId row = Some (runId (tiRun i))) \<and>
     Some (frStatus row) \<noteq> requestStatusOf (runStatus (tiRun i)) \<and> frUpdatedAt row \<le> tiCreatedAt i \<and>
     decideTaskTransition OpFinish (Some (frStatus row)) (requestStatusOf (runStatus (tiRun i))) False False = None"

lemma begin_keeps_createdAt:
  assumes "journalledIntent s (runId run) = Some i" "runStatus (tiRun i) = runStatus run" "isTerminalRunStatus (runStatus run)"
    "beginTransition te run d s = (Returned c, s')"
  shows "map_option tiCreatedAt (journalledIntent s' (runId run)) = Some (tiCreatedAt i)"
proof -
  have "beginTransition te run d s = (if tiDescription i \<noteq> None \<or> d = None then give (Some (tiCreatedAt i)) s
      else bind_act (setTerminalTransitionIntent (runId run) (Some (i\<lparr>tiDescription := d\<rparr>))) (\<lambda>u. give (Some (tiCreatedAt i))) s)"
    using assms(1-3) by (simp add: beginTransition_def Let_def)
  then show ?thesis using assms(1,4)
    by (auto simp: give_def bind_act_def setTerminalTransitionIntent_def durable_def journalledIntent_def Let_def update_conv'
        split: if_splits list.splits Fate.splits)
qed

lemma complete_spares:
  assumes "journalledIntent s (runId (tiRun i)) = Some i" "\<And>row. \<not> untouchedRow s i row"
  shows "spared s (completeTransition te (tiRun i) d s)"
proof (cases "isTerminalRunStatus (runStatus (tiRun i))")
  case True
  let ?run = "tiRun i"
  obtain r s' where b: "beginTransition te ?run (Some d) s = (r, s')" by force
  have sp: "spared s (r, s')" using spared_begin [of s te ?run "Some d"] by (simp add: b)
  show ?thesis
  proof (cases r)
    case (Returned c)
    note crd = begin_keeps_createdAt [OF assms(1) refl True b [unfolded Returned]]
    have gr: "getRequest s' = getRequest s" using sp by (simp add: spared_def getRequest_def fun_eq_iff)
    let ?body = "(case getRequest s' (featureId ?run) of
        None \<Rightarrow> projectRowGone te ?run d
      | Some row \<Rightarrow>
          if frStatus row = StInFlight \<and> frRunId row \<noteq> Some (runId ?run) then dropIntent ?run
          else if Some (frStatus row) = requestStatusOf (runStatus ?run) then projectLanded te ?run d
          else if (case journalledIntent s' (runId ?run) of None \<Rightarrow> False | Some j \<Rightarrow> tiCreatedAt j < frUpdatedAt row)
            then dropIntent ?run
          else projectInterrupted te ?run d (frStatus row) c)"
    have "spared s' (?body s')"
    proof (cases "getRequest s' (featureId ?run)")
      case None
      then show ?thesis by (simp add: projectRowGone_def spared_clear)
    next
      case (Some row)
      have "\<not> untouchedRow s i row" by (rule assms(2))
      then show ?thesis using Some crd gr
        by (auto simp: untouchedRow_def projectLanded_def spared_clear dropIntent_def projectInterrupted_def split: option.splits)
    qed
    then have "spared s' (catch_act ?body (give ()) s')" by (rule spared_catch) simp
    then show ?thesis using sp True b Returned
      by (simp add: completeTransition_def bind_act_def Let_def spared_def)
  qed (use sp True b in \<open>simp_all add: completeTransition_def bind_act_def spared_def\<close>)
qed (simp add: completeTransition_def)

text \<open>
  C11. Replay writes a Run or a queue for a journalled intent only if the task still has its row, the row has
  not been written since the intent was journalled, it is in flight for the intent's own Run if it is in
  flight at all, and the transition table admits the finish; so whatever storage and host do, a Run that was
  resumed, retried, replaced or removed in the meantime is left alone.
\<close>
theorem replay_spares_moved_on:
  assumes "journalledIntent s (runId (tiRun i)) = Some i"
    and "s' = snd (replayIntent te me i s)" "tsRuns s' \<noteq> tsRuns s \<or> tsQueues s' \<noteq> tsQueues s"
  shows "\<exists>row. untouchedRow s i row"
proof (rule ccontr)
  assume n: "\<nexists>row. untouchedRow s i row"
  have "spared s (catch_act (completeTransition te (tiRun i) d) (give ()) s)" for d
  proof (rule spared_catch)
    show "spared s (completeTransition te (tiRun i) d s)" by (rule complete_spares [OF assms(1)]) (use n in auto)
  qed simp
  then have "spared s (replayIntent te me i s)" by (auto simp: replayIntent_def)
  then show False using assms(2,3) by (auto simp: spared_def)
qed

lemma replay_spares_moved_on_witness:
  "\<exists>row. untouchedRow ((endingState [])\<lparr>tsIntents := [(''r1'', \<lparr>tiRun = endedRun, tiCreatedAt = 100, tiDescription = None\<rparr>)]\<rparr>)
     \<lparr>tiRun = endedRun, tiCreatedAt = 100, tiDescription = None\<rparr> row"
proof -
  let ?i = "\<lparr>tiRun = endedRun, tiCreatedAt = 100, tiDescription = None\<rparr>"
  let ?s = "(endingState [])\<lparr>tsIntents := [(''r1'', ?i)]\<rparr>"
  have "map_option frStatus (getRequest (snd (replayIntent endingEnv None ?i ?s)) ''t1'') = Some StCompleted" by code_simp
  moreover have "map_option frStatus (getRequest ?s ''t1'') = Some StInFlight" by code_simp
  ultimately have "tsQueues (snd (replayIntent endingEnv None ?i ?s)) \<noteq> tsQueues ?s" by (auto simp: getRequest_def)
  then show ?thesis
    by (intro replay_spares_moved_on [OF _ refl, of ?s ?i endingEnv None])
      (auto simp: journalledIntent_def endedRun_def sampleRun_def)
qed

subsection \<open>A left-over intent\<close>

text \<open>
  C39. An intent that an earlier ending could not clear keeps its time of writing when the same Run, resumed
  and dispatched again, ends once more in the same status: if the host then dies between the write of the
  Run and that of the row, replay takes the dispatch for a resume, drops the intent, and leaves a Run that
  has ended with a task row in flight, an unfinished queue slot and no further history.
\<close>
theorem stale_intent_strands_row:
  fixes d d' :: string and err :: "string option"
  assumes ok: "endingOk e" "envOk te e" "envOk te' e" "undisturbed te' (enQueue e) me"
    and run: "runHeld e (tsRuns s)" "map_of (tsRuns s) (enQueue e) = Some (enBefore e)"
    and row: "store_ok (tsQueues s)" "findTaskOwner (tsQueues s) (featureId (enAfter e)) = Some (enQueue e, row)"
      "frStatus row = StInFlight" "frRunId row = Some (runId (enAfter e))"
    and stale: "tsIntents s = [(runId (enAfter e), i)]" "runId (tiRun i) = runId (enAfter e)" "featureId (tiRun i) = featureId (enAfter e)"
      "runStatus (tiRun i) = runStatus (enAfter e)" "tiDescription i = Some d'" "tiCreatedAt i < frUpdatedAt row"
    and fates: "tsFates s = [Lands, HostDies]"
  defines "s' \<equiv> snd (replay te' me (restarted [] (snd (endRun te (enBefore e) (enAfter e) d err s))))"
  shows "runOver e (tsRuns s') \<and> tsQueues s' = tsQueues s \<and> tsHistory s' = tsHistory s \<and> tsIntents s' = []"
proof -
  let ?q = "enQueue e" and ?n = "enAfter e" and ?env = "teStore te"
  let ?y = "stampFence (claimOf ?env ?q) ?n"
  let ?s1 = "s\<lparr>tsFates := [], tsRuns := AList.update ?q ?y (tsRuns s)\<rparr>"
  have trm: "isTerminalRunStatus (runStatus ?n)" using ok(1) by (simp add: endingOk_def)
  obtain st where st: "requestStatusOf (runStatus ?n) = Some st" "isTerminalRequestStatus st" "st \<noteq> StInFlight"
    using requestStatus_terminal [OF trm] by blast
  have o: "run_ok (enBefore e)" "run_ok ?n" "runId (enBefore e) = runId ?n" "runStatus (enBefore e) \<in> set LIVE_RUN_STATUSES"
    using ok(1) by (simp_all add: endingOk_def)
  have "validateRunInvariants ?n (Some (enBefore e)) = None" using validate_run_ok [of "Some (enBefore e)" ?n] o by simp
  then have up: "updateRun ?env (tsRuns s) ?q \<lparr>updRunId = runId ?n, updAllowed = LIVE_RUN_STATUSES,
      updPatch = (\<lambda>c. Inr (changedRunFields (enBefore e) ?n c) :: unit + WorkflowRun)\<rparr> (claimOf ?env ?q) = Inr (?y, AList.update ?q ?y (tsRuns s))"
    using ok(2) updateRun_open [where env = ?env and q = ?q and runs = "tsRuns s" and run = "enBefore e" and m = ?n
        and u = "\<lparr>updRunId = runId ?n, updAllowed = LIVE_RUN_STATUSES, updPatch = (\<lambda>c. Inr (changedRunFields (enBefore e) ?n c) :: unit + WorkflowRun)\<rparr>"] run(2) o
    by (simp add: envOk_def getRun_def changedRunFields_same)
  obtain r where loc: "findRunById (tsRuns s) (runId ?n) = Some (?q, r)" using runHeld_lookup [OF run(1) ok(1)] by blast
  have b1: "beginTransition te ?n None s = (Returned (Some (tiCreatedAt i)), s)"
    using trm stale(1,4) by (simp add: beginTransition_def Let_def journalledIntent_def give_def)
  have p: "persistTransition te (enBefore e) ?n s = (Returned ?y, s\<lparr>tsFates := [HostDies], tsRuns := AList.update ?q ?y (tsRuns s)\<rparr>)"
    using up ok(2) fates
    by (simp add: persistTransition_def Let_def loc bind_act_def b1 writeRun_def envOk_def commit_open_simps durable_def give_def)
  obtain qm' row' where f: "finish ?env (tsQueues s) (AList.update ?q ?y (tsRuns s)) (featureId ?n) st err = (Ok, qm')"
    using finish_lands [OF row(1,2) _ row(3) st(2)] ok(2) unfolding envOk_def by metis
  have ended: "endRun te (enBefore e) ?n d err s = (HostDead, ?s1)"
    by (simp add: endRun_def bind_act_def p settleTerminalRun_def catch_act_def finishTask_def st(1) f durable_def Let_def)
  define s2 where "s2 = restarted [] ?s1"
  have two: "tsIntents s2 = [(runId ?n, i)]" "tsFates s2 = []" "tsQueues s2 = tsQueues s" "tsHistory s2 = tsHistory s"
    "tsRuns s2 = AList.update ?q ?y (tsRuns s)" by (simp_all add: s2_def restarted_def stale(1))
  have same: "runHeld e (tsRuns s2)" "runOver e (tsRuns s2)"
    using runHeld_update [OF run(1) sameRun_refl(2)] by (simp_all add: two)
  have nodefer: "\<not> (case me of None \<Rightarrow> False | Some owner \<Rightarrow> deferralReason te' s2 (tiRun i) owner)"
    using ok(4) runHeld_lookup [OF same(1) ok(1)] stale(2,3)
    by (auto simp: undisturbed_def deferralReason_def split: option.split)
  have b2: "beginTransition te' (tiRun i) (Some d') s2 = (Returned (Some (tiCreatedAt i)), s2)"
    using trm stale by (simp add: beginTransition_def Let_def journalledIntent_def give_def two)
  have req: "getRequest s2 (featureId ?n) = Some row" using row(2) by (simp add: getRequest_def two)
  have c: "completeTransition te' (tiRun i) d' s2 = (Returned (), s2\<lparr>tsIntents := []\<rparr>)"
    using trm stale row(3,4) st
    by (simp add: completeTransition_def bind_act_def b2 Let_def req catch_act_def dropIntent_def setTerminalTransitionIntent_def
        durable_def two journalledIntent_def)
  have "replay te' me s2 = (Returned (), s2\<lparr>tsIntents := []\<rparr>)"
    using stale(1,5) nodefer c by (simp add: replay_def two replayIntent_def bind_act_def catch_act_def give_def)
  then have "s' = s2\<lparr>tsIntents := []\<rparr>" by (simp add: s'_def ended s2_def)
  then show ?thesis using same(2) by (simp add: two)
qed

definition failedRun :: WorkflowRun where
  "failedRun = (sampleRun [''plan''])\<lparr>runStatus := RunFailed, lastTransitionAt := 100\<rparr>"

definition failedEnding :: Ending where
  "failedEnding = \<lparr>enQueue = ''q'', enBefore = sampleRun [''plan''], enAfter = failedRun, enAt = 100, enHistory = []\<rparr>"

text \<open>How an intent is left over: both appends to history fail, the Run and its row have failed.\<close>

lemma failed_appends_keep_intent:
  "let s = snd (endRun endingEnv (sampleRun [''plan'']) failedRun ''text'' None (endingState [Lands, Lands, Lands, Fails, Lands, Fails]))
   in map fst (tsIntents s) = [''r1''] \<and> tsHistory s = [] \<and> map_option frStatus (getRequest s ''t1'') = Some StFailed"
  by code_simp

definition leftOver :: TerminalTransitionIntent where
  "leftOver = \<lparr>tiRun = failedRun, tiCreatedAt = 50, tiDescription = Some ''text''\<rparr>"

lemma stale_intent_strands_row_witness:
  "tsQueues (snd (replay endingEnv None (restarted [] (snd (endRun endingEnv (sampleRun [''plan'']) failedRun ''text'' None
     ((endingState [Lands, HostDies])\<lparr>tsIntents := [(''r1'', leftOver)]\<rparr>)))))) = endingTasks"
proof -
  let ?s = "(endingState [Lands, HostDies])\<lparr>tsIntents := [(''r1'', leftOver)]\<rparr>"
  have ok: "run_ok (sampleRun [''plan''])" by (rule sampleRun_ok) simp
  then have "endingOk failedEnding"
    by (simp add: endingOk_def failedEnding_def failedRun_def run_ok_split core_defs LIVE_RUN_STATUSES_def isTerminalRunStatus_def
        getHistory_def breakpoints_ok_def sampleRun_def)
  moreover have "envOk endingEnv failedEnding" "undisturbed endingEnv ''q'' None"
    by (simp_all add: envOk_def endingEnv_def failedEnding_def undisturbed_def)
  moreover have "runHeld failedEnding (tsRuns ?s)"
    by (simp add: runHeld_def failedEnding_def endingState_def failedRun_def sampleRun_def)
  ultimately show ?thesis
    using stale_intent_strands_row [of failedEnding endingEnv endingEnv None ?s
        "(plainTask ''t1'' 0)\<lparr>frStatus := StInFlight, frRunId := Some ''r1''\<rparr>" leftOver "''text''" "''text''" None]
    by (simp add: failedEnding_def endingState_def leftOver_def failedRun_def sampleRun_def plainTask_def newRequest_def
        ending_owner [unfolded plainTask_def newRequest_def, simplified])
qed

end
