(* ===== verification/WorkflowFrames.thy ===== *)
theory WorkflowFrames
  imports JsNumber RunStore
begin

text \<open>
  The definitions and the runtime record of a connected Workflow run: the parts of
  \<open>src/contracts/workflow-definitions.ts\<close> and \<open>src/contracts/run-request.ts\<close> that execution reads, and
  \<open>src/state/connected-workflow-run.ts\<close>, the aggregate of invocation frames with its operations and
  invariants.  A record keyed by an identifier is an association list in insertion order.  Deep copies and
  freezing have no counterpart.  The catalog and Pipeline snapshots, digests, launch material and the
  identifiers of input targets are left out of the records.
\<close>

subsection \<open>Definitions\<close>

datatype WorkflowNodeTerminalStatus = NodeCompleted | NodeFailed | NodeCanceled

datatype WorkflowSelectionRule = SelectFirst | SelectLast | SelectExactlyOne

datatype WorkflowConditionOperator =
    CoEquals | CoNotEquals | CoIn | CoExists | CoGreater | CoGreaterEq | CoLess | CoLessEq

datatype WorkflowConditionOperand = NodeOutput string string | NodeStatus string

datatype WorkflowConditionLiteral = LText string | LNum js_number | LBool bool

datatype ConditionRight = NoRight | OneRight WorkflowConditionLiteral | ManyRight "WorkflowConditionLiteral list"

record WorkflowCondition =
  cdLeft :: WorkflowConditionOperand
  cdOperator :: WorkflowConditionOperator
  cdRight :: ConditionRight

datatype WorkflowHandoffMode = HandoffAuto | HandoffManual

datatype TransitionTarget = ToNode string | ToReturn

record WorkflowConnection =
  wcFrom :: string
  wcTo :: TransitionTarget
  wcHandoff :: "WorkflowHandoffMode option"
  wcCondition :: "WorkflowCondition option"
  wcPriority :: "int option"
  wcIsDefault :: "bool option"

datatype WorkflowNodeKind = PhaseNode | CallNode

record WorkflowNode =
  wnNodeId :: string
  wnKind :: "WorkflowNodeKind option"
  wnPhaseId :: "string option"
  wnWorkflowId :: "string option"

record ResolvedPortValue =
  pvPortId :: string
  pvType :: string
  pvValue :: string
  pvItems :: "string list option"

record WorkflowPort =
  wpPortId :: string
  wpType :: string
  wpRequired :: "bool option"

datatype WorkflowInputBindingSource = FromInput string | FromOutput string string

record WorkflowInputBinding =
  ibNodeId :: string
  ibInputKey :: string
  ibType :: "string option"
  ibRequired :: "bool option"
  ibSource :: WorkflowInputBindingSource
  ibSelection :: "WorkflowSelectionRule option"

record WorkflowOutputBinding =
  obNodeId :: string
  obPortId :: string
  obOutputKey :: "string option"
  obSourcePortId :: "string option"
  obType :: "string option"
  obSelection :: "WorkflowSelectionRule option"

datatype WorkflowBinding = InputBinding WorkflowInputBinding | OutputBinding WorkflowOutputBinding

record WorkflowDefinition =
  wdWorkflowId :: string
  wdInputs :: "WorkflowPort list option"
  wdOutputs :: "WorkflowPort list option"
  wdNodes :: "WorkflowNode list"
  wdConnections :: "WorkflowConnection list"
  wdBindings :: "WorkflowBinding list option"
  wdStartNodeIds :: "string list"

record FrozenWorkflowClosure =
  fcWorkflows :: "(string \<times> WorkflowDefinition) list"
  fcPhases :: "string list"

subsection \<open>Decisions, attempts and frames\<close>

record OperandResolution =
  orOperand :: WorkflowConditionOperand
  orResolved :: bool
  orCompared :: "string option"

record ConnectionOutcome =
  coIndex :: nat
  coMatched :: bool
  coIsDefault :: bool

record RoutingDecision =
  rdNodeId :: string
  rdAttemptIndex :: nat
  rdDecidedAt :: int
  rdOperands :: "OperandResolution list"
  rdConnections :: "ConnectionOutcome list"
  rdDefaultApplied :: bool
  rdEligible :: "nat list"

datatype NodeAttemptStatus = PendingDispatch | InFlightAttempt | PausedAttempt | Ended WorkflowNodeTerminalStatus

record NodeAttemptRecord =
  naAttemptId :: string
  naAttemptIndex :: nat
  naNodeId :: string
  naNodeKind :: WorkflowNodeKind
  naTarget :: string
  naStatus :: NodeAttemptStatus
  naStartedAt :: int
  naCompletedAt :: "int option"
  naQueueItemId :: "string option"
  naChildInvocationId :: "string option"
  naDeclaredOutputs :: "(string \<times> ResolvedPortValue) list"
  naVerdict :: "bool option option"
  naFailureCode :: "string option"

datatype InvocationInputSource = EnvLaunch | EnvBinding | EnvContinuation

record InvocationInputEnvelope =
  ieInvocationId :: string
  ieTargetNodeId :: string
  ieSource :: InvocationInputSource
  ieInputsByPort :: "(string \<times> ResolvedPortValue) list"
  ieAcceptedAt :: int

record PendingHandoffRecord =
  phInvocationId :: string
  phFromNodeId :: string
  phFromAttemptId :: string
  phConnectionIndex :: nat
  phTarget :: TransitionTarget
  phPrefilled :: "(string \<times> ResolvedPortValue) list"
  phPausedAt :: int

datatype WorkflowInvocationStatus = FrInFlight | FrWaiting | FrPaused | FrEnded WorkflowNodeTerminalStatus

datatype WorkflowPauseCause = WpOperator | WpCredit | WpRecovery | WpSpend

datatype WorkflowDelayedRetryCause = WrTransient | WrRateLimit

record InvocationControlMarkers =
  cmManualPauseAt :: "int option"
  cmManualPauseCause :: "WorkflowPauseCause option"
  cmPendingRetryAt :: "int option"
  cmPendingRetryCause :: "WorkflowDelayedRetryCause option"
  cmDelayedRetryCount :: int
  cmSpendUsd :: js_number
  cmSpendBoundUsd :: "js_number option"
  cmMaxPhaseAttempts :: "nat option"

definition DEFAULT_INVOCATION_CONTROL_MARKERS :: InvocationControlMarkers where
  "DEFAULT_INVOCATION_CONTROL_MARKERS = \<lparr>cmManualPauseAt = None, cmManualPauseCause = None, cmPendingRetryAt = None,
     cmPendingRetryCause = None, cmDelayedRetryCount = 0, cmSpendUsd = Fin 0, cmSpendBoundUsd = None, cmMaxPhaseAttempts = None\<rparr>"

record WorkflowInvocationFrame =
  ivInvocationId :: string
  ivParentInvocationId :: "string option"
  ivParentCallNodeId :: "string option"
  ivParentAttemptId :: "string option"
  ivWorkflowId :: string
  ivDepth :: nat
  ivEntryNodeId :: string
  ivActiveNodeId :: "string option"
  ivStatus :: WorkflowInvocationStatus
  ivBoundInputs :: "(string \<times> ResolvedPortValue) list"
  ivResolvedOutputs :: "(string \<times> ResolvedPortValue) list"
  ivAttempts :: "(string \<times> NodeAttemptRecord list) list"
  ivDecisions :: "RoutingDecision list"
  ivPendingHandoff :: "PendingHandoffRecord option"
  ivControlMarkers :: "InvocationControlMarkers option"
  ivFailureCode :: "string option"
  ivStartedAt :: int
  ivCompletedAt :: "int option"

record ConnectedWorkflowRun =
  cwRunId :: string
  cwGraphNodes :: "string list"
  cwGraphConnections :: nat
  cwNodes :: "(string \<times> string list) list"
  cwDecisions :: "RoutingDecision list"
  cwRevision :: int
  cwQueueId :: "string option"
  cwClosure :: "FrozenWorkflowClosure option"
  cwInvocations :: "(string \<times> WorkflowInvocationFrame) list"
  cwInputEnvelopes :: "InvocationInputEnvelope list"
  cwPendingHandoff :: "PendingHandoffRecord option"
  cwCommandReceipts :: "string list"

subsection \<open>Invariants of the aggregate\<close>

definition COMPARED_MAX_LENGTH :: nat where "COMPARED_MAX_LENGTH = 64"

definition MAX_COMMAND_RECEIPTS :: nat where "MAX_COMMAND_RECEIPTS = 64"

definition DEFAULT_MAX_PHASE_ATTEMPTS :: nat where "DEFAULT_MAX_PHASE_ATTEMPTS = 5"

text \<open>\<open>renderCompared\<close> on text, the only kind of value an operand resolves to.\<close>

definition renderCompared :: "string \<Rightarrow> string option" where
  "renderCompared value = (if length value \<le> COMPARED_MAX_LENGTH then Some value else None)"

definition isAsciiLetter :: "char \<Rightarrow> bool" where
  "isAsciiLetter c \<longleftrightarrow> (let n = of_char c :: nat in (65 \<le> n \<and> n \<le> 90) \<or> (97 \<le> n \<and> n \<le> 122))"

text \<open>\<open>ABSOLUTE_PATH\<close>: a leading slash, a home path, a drive, or two backslashes.\<close>

definition BACKSLASH :: char where "BACKSLASH = char_of (92 :: nat)"

fun absolutePath :: "string \<Rightarrow> bool" where
  "absolutePath (a # b # c # r) \<longleftrightarrow> a = CHR ''/'' \<or> a = CHR ''~'' \<and> b = CHR ''/'' \<or> a = BACKSLASH \<and> b = BACKSLASH \<or>
     isAsciiLetter a \<and> b = CHR '':'' \<and> (c = BACKSLASH \<or> c = CHR ''/'')"
| "absolutePath [a, b] \<longleftrightarrow> a = CHR ''/'' \<or> a = CHR ''~'' \<and> b = CHR ''/'' \<or> a = BACKSLASH \<and> b = BACKSLASH"
| "absolutePath [a] \<longleftrightarrow> a = CHR ''/''"
| "absolutePath [] \<longleftrightarrow> False"

definition assertOperand :: "OperandResolution \<Rightarrow> bool" where
  "assertOperand operand =
     (case orCompared operand of
        None \<Rightarrow> True
      | Some compared \<Rightarrow> length compared \<le> COMPARED_MAX_LENGTH \<and> \<not> absolutePath compared)"

definition assertDecision :: "RoutingDecision \<Rightarrow> ConnectedWorkflowRun \<Rightarrow> bool" where
  "assertDecision decision run =
     (case map_of (cwNodes run) (rdNodeId decision) of
        None \<Rightarrow> False
      | Some attempts \<Rightarrow>
          rdAttemptIndex decision < length attempts \<and>
          list_all (\<lambda>outcome. coIndex outcome < cwGraphConnections run) (rdConnections decision) \<and>
          list_all (\<lambda>i. i \<in> set (map coIndex (rdConnections decision))) (rdEligible decision) \<and>
          \<not> (rdDefaultApplied decision \<and>
             list_ex (\<lambda>outcome. coMatched outcome \<and> \<not> coIsDefault outcome) (rdConnections decision)) \<and>
          list_all assertOperand (rdOperands decision))"

definition assertInvocationControlMarkers :: "WorkflowInvocationFrame \<Rightarrow> bool" where
  "assertInvocationControlMarkers frame =
     (case ivControlMarkers frame of
        None \<Rightarrow> True
      | Some m \<Rightarrow>
          (cmManualPauseAt m = None \<longleftrightarrow> cmManualPauseCause m = None) \<and>
          (cmPendingRetryAt m = None \<longleftrightarrow> cmPendingRetryCause m = None) \<and>
          (ivStatus frame = FrPaused \<longrightarrow> cmManualPauseAt m \<noteq> None \<and> cmManualPauseCause m \<noteq> None \<and>
             cmPendingRetryAt m = None \<and> cmPendingRetryCause m = None) \<and>
          (ivStatus frame \<in> {FrEnded NodeCanceled, FrEnded NodeCompleted} \<longrightarrow>
             cmPendingRetryAt m = None \<and> cmPendingRetryCause m = None))"

definition frameOk :: "string \<times> WorkflowInvocationFrame \<Rightarrow> bool" where
  "frameOk = (\<lambda>(invId, frame). ivInvocationId frame = invId \<and> assertInvocationControlMarkers frame \<and>
     list_all (\<lambda>(n, attempts). list_all (\<lambda>a. naStatus a = PendingDispatch \<longrightarrow> naCompletedAt a = None \<and> naQueueItemId a = None) attempts)
       (ivAttempts frame))"

definition assertConnectedRunInvariants :: "ConnectedWorkflowRun \<Rightarrow> bool" where
  "assertConnectedRunInvariants run \<longleftrightarrow>
     1 \<le> cwRevision run \<and> cwQueueId run \<noteq> Some [] \<and> list_all frameOk (cwInvocations run) \<and>
     length (cwCommandReceipts run) \<le> MAX_COMMAND_RECEIPTS \<and>
     list_all (\<lambda>(n, attempts). n \<in> set (cwGraphNodes run) \<and> attempts \<noteq> []) (cwNodes run) \<and>
     list_all (\<lambda>d. assertDecision d run) (cwDecisions run)"

subsection \<open>Operations\<close>

text \<open>Every operation checks the invariants before it answers; \<open>None\<close> is the thrown error.\<close>

definition checked :: "ConnectedWorkflowRun \<Rightarrow> ConnectedWorkflowRun option" where
  "checked run = (if assertConnectedRunInvariants run then Some run else None)"

definition bumped :: "ConnectedWorkflowRun \<Rightarrow> ConnectedWorkflowRun" where
  "bumped run = run\<lparr>cwRevision := cwRevision run + 1\<rparr>"

definition appendAttempt :: "ConnectedWorkflowRun \<Rightarrow> string \<Rightarrow> string \<Rightarrow> ConnectedWorkflowRun option" where
  "appendAttempt run nodeId queueItemId =
     (let existing = (case map_of (cwNodes run) nodeId of None \<Rightarrow> [] | Some xs \<Rightarrow> xs)
      in checked (bumped (run\<lparr>cwNodes := AList.update nodeId (existing @ [queueItemId]) (cwNodes run)\<rparr>)))"

definition appendDecision :: "ConnectedWorkflowRun \<Rightarrow> RoutingDecision \<Rightarrow> ConnectedWorkflowRun option" where
  "appendDecision run decision = checked (bumped (run\<lparr>cwDecisions := cwDecisions run @ [decision]\<rparr>))"

definition attemptsForNode :: "WorkflowInvocationFrame option \<Rightarrow> string \<Rightarrow> NodeAttemptRecord list" where
  "attemptsForNode frame nodeId =
     (case frame of None \<Rightarrow> [] | Some f \<Rightarrow> (case map_of (ivAttempts f) nodeId of None \<Rightarrow> [] | Some xs \<Rightarrow> xs))"

definition recordNodeAttempt :: "WorkflowInvocationFrame \<Rightarrow> NodeAttemptRecord \<Rightarrow> WorkflowInvocationFrame" where
  "recordNodeAttempt frame attempt =
     (let existing = attemptsForNode (Some frame) (naNodeId attempt);
          updated = (if list_ex (\<lambda>a. naAttemptId a = naAttemptId attempt) existing
                     then map (\<lambda>a. if naAttemptId a = naAttemptId attempt then attempt else a) existing
                     else existing @ [attempt])
      in frame\<lparr>ivActiveNodeId := Some (naNodeId attempt),
               ivAttempts := AList.update (naNodeId attempt) updated (ivAttempts frame)\<rparr>)"

definition upsertInvocationFrame :: "ConnectedWorkflowRun \<Rightarrow> WorkflowInvocationFrame \<Rightarrow> ConnectedWorkflowRun option" where
  "upsertInvocationFrame run frame =
     checked (bumped (run\<lparr>cwInvocations := AList.update (ivInvocationId frame) frame (cwInvocations run)\<rparr>))"

definition setPendingHandoff :: "ConnectedWorkflowRun \<Rightarrow> PendingHandoffRecord option \<Rightarrow> ConnectedWorkflowRun option" where
  "setPendingHandoff run handoff = checked (bumped (run\<lparr>cwPendingHandoff := handoff\<rparr>))"

definition appendInputEnvelope :: "ConnectedWorkflowRun \<Rightarrow> InvocationInputEnvelope \<Rightarrow> ConnectedWorkflowRun option" where
  "appendInputEnvelope run envelope = checked (bumped (run\<lparr>cwInputEnvelopes := cwInputEnvelopes run @ [envelope]\<rparr>))"

definition appendCommandReceipt :: "ConnectedWorkflowRun \<Rightarrow> string \<Rightarrow> ConnectedWorkflowRun option" where
  "appendCommandReceipt run receipt =
     (let existing = cwCommandReceipts run;
          trimmed = (if MAX_COMMAND_RECEIPTS \<le> length existing
                     then drop (length existing - MAX_COMMAND_RECEIPTS + 1) existing else existing)
      in checked (bumped (run\<lparr>cwCommandReceipts := trimmed @ [receipt]\<rparr>)))"

definition resolveRootInvocationId :: "ConnectedWorkflowRun \<Rightarrow> string" where
  "resolveRootInvocationId run =
     (case List.find (\<lambda>(k, f). ivParentInvocationId f = None) (cwInvocations run) of
        Some (k, f) \<Rightarrow> ivInvocationId f | None \<Rightarrow> cwRunId run @ '':root'')"

definition pauseInvocationControlMarkers :: "InvocationControlMarkers option \<Rightarrow> int \<Rightarrow> WorkflowPauseCause \<Rightarrow> InvocationControlMarkers" where
  "pauseInvocationControlMarkers markers stamp cause =
     (case markers of Some m \<Rightarrow> m | None \<Rightarrow> DEFAULT_INVOCATION_CONTROL_MARKERS)
       \<lparr>cmManualPauseAt := Some stamp, cmManualPauseCause := Some cause, cmPendingRetryAt := None, cmPendingRetryCause := None\<rparr>"

definition clearInvocationControlMarkers :: "InvocationControlMarkers option \<Rightarrow> InvocationControlMarkers" where
  "clearInvocationControlMarkers markers =
     (case markers of Some m \<Rightarrow> m | None \<Rightarrow> DEFAULT_INVOCATION_CONTROL_MARKERS)
       \<lparr>cmManualPauseAt := None, cmManualPauseCause := None, cmPendingRetryAt := None, cmPendingRetryCause := None\<rparr>"

end
