(* ===== verification/WorkflowRouting.thy ===== *)
theory WorkflowRouting
  imports WorkflowFrames
begin

text \<open>
  Routing of a finished node attempt: \<open>services/workflow-execution/condition-context.ts\<close> (what a condition
  may read), \<open>condition-evaluator.ts\<close> (the comparator) and \<open>next-node-selector.ts\<close> (which connections are
  offered, in which order, and which transition is taken).  The lemmas give the exact set and order of the
  offer, that a failed or canceled attempt is routed only by a condition that held, and that the aggregate
  accepts every decision whose recorded values are not path-like.
\<close>

subsection \<open>The condition context\<close>

record RunOutputRecord =
  ooName :: string
  ooResolved :: bool
  ooReference :: "string option"

record NodeAttemptFacts =
  nfNodeId :: string
  nfStatus :: WorkflowNodeTerminalStatus
  nfOutputs :: "RunOutputRecord list"

type_synonym ConditionContext = "(string \<times> NodeAttemptFacts) list"

text \<open>A second entry for a node throws.\<close>

fun addFacts :: "ConditionContext \<Rightarrow> NodeAttemptFacts list \<Rightarrow> ConditionContext option" where
  "addFacts nodes [] = Some nodes"
| "addFacts nodes (f # fs) =
     (if map_of nodes (nfNodeId f) \<noteq> None then None else addFacts (nodes @ [(nfNodeId f, f)]) fs)"

definition buildConditionContext :: "NodeAttemptFacts list \<Rightarrow> ConditionContext option" where
  "buildConditionContext facts = addFacts [] facts"

fun statusText :: "WorkflowNodeTerminalStatus \<Rightarrow> string" where
  "statusText NodeCompleted = ''completed''"
| "statusText NodeFailed = ''failed''"
| "statusText NodeCanceled = ''canceled''"

fun operandNode :: "WorkflowConditionOperand \<Rightarrow> string" where
  "operandNode (NodeOutput n field) = n"
| "operandNode (NodeStatus n) = n"

text \<open>An unresolved operand is \<open>None\<close>.\<close>

definition resolveOperand :: "WorkflowConditionOperand \<Rightarrow> ConditionContext \<Rightarrow> string option" where
  "resolveOperand operand ctx =
     (case map_of ctx (operandNode operand) of
        None \<Rightarrow> None
      | Some facts \<Rightarrow>
          (case operand of
             NodeStatus n \<Rightarrow> Some (statusText (nfStatus facts))
           | NodeOutput n field \<Rightarrow>
               if nfStatus facts \<noteq> NodeCompleted then None
               else (case List.find (\<lambda>r. ooName r = field) (nfOutputs facts) of
                       None \<Rightarrow> None
                     | Some r \<Rightarrow> if ooResolved r then ooReference r else None)))"

definition attemptRecordToFacts :: "NodeAttemptRecord \<Rightarrow> NodeAttemptFacts option" where
  "attemptRecordToFacts attempt =
     (case naStatus attempt of
        Ended status \<Rightarrow> Some \<lparr>nfNodeId = naNodeId attempt, nfStatus = status,
          nfOutputs = map (\<lambda>(name, v). \<lparr>ooName = name, ooResolved = True, ooReference = Some (pvValue v)\<rparr>) (naDeclaredOutputs attempt)\<rparr>
      | _ \<Rightarrow> None)"

text \<open>The latest terminal attempt: the first that yields facts, walking backwards.\<close>

fun firstFacts :: "NodeAttemptRecord list \<Rightarrow> NodeAttemptFacts list" where
  "firstFacts [] = []"
| "firstFacts (a # as') = (case attemptRecordToFacts a of Some f \<Rightarrow> [f] | None \<Rightarrow> firstFacts as')"

definition factsOf :: "NodeAttemptRecord \<Rightarrow> NodeAttemptFacts list" where
  "factsOf a = (case attemptRecordToFacts a of Some f \<Rightarrow> [f] | None \<Rightarrow> [])"

definition buildInvocationConditionContext ::
  "WorkflowInvocationFrame \<Rightarrow> NodeAttemptRecord option \<Rightarrow> ConditionContext option" where
  "buildInvocationConditionContext frame routingAttempt =
     buildConditionContext
       (concat (map (\<lambda>(nodeId, attempts).
            (case routingAttempt of
               Some a \<Rightarrow> if naNodeId a = nodeId then factsOf a else firstFacts (rev attempts)
             | None \<Rightarrow> firstFacts (rev attempts))) (ivAttempts frame)) @
        (case routingAttempt of
           Some a \<Rightarrow> if map_of (ivAttempts frame) (naNodeId a) = None then factsOf a else []
         | None \<Rightarrow> []))"

subsection \<open>The comparator\<close>

fun sameTypeEqual :: "WorkflowConditionLiteral \<Rightarrow> WorkflowConditionLiteral \<Rightarrow> bool" where
  "sameTypeEqual (LText a) (LText b) \<longleftrightarrow> a = b"
| "sameTypeEqual (LNum a) (LNum b) \<longleftrightarrow> js_eq a b"
| "sameTypeEqual (LBool a) (LBool b) \<longleftrightarrow> a = b"
| "sameTypeEqual _ _ \<longleftrightarrow> False"

fun sameType :: "WorkflowConditionLiteral \<Rightarrow> WorkflowConditionLiteral \<Rightarrow> bool" where
  "sameType (LText _) (LText _) \<longleftrightarrow> True"
| "sameType (LNum _) (LNum _) \<longleftrightarrow> True"
| "sameType (LBool _) (LBool _) \<longleftrightarrow> True"
| "sameType _ _ \<longleftrightarrow> False"

fun bothNumbers :: "(js_number \<Rightarrow> js_number \<Rightarrow> bool) \<Rightarrow> WorkflowConditionLiteral \<Rightarrow> ConditionRight \<Rightarrow> bool" where
  "bothNumbers ordered (LNum a) (OneRight (LNum b)) \<longleftrightarrow> ordered a b"
| "bothNumbers _ _ _ \<longleftrightarrow> False"

fun compareValues :: "WorkflowConditionLiteral \<Rightarrow> WorkflowConditionOperator \<Rightarrow> ConditionRight \<Rightarrow> bool" where
  "compareValues left CoExists right \<longleftrightarrow> True"
| "compareValues left CoEquals right \<longleftrightarrow> (case right of OneRight r \<Rightarrow> sameTypeEqual left r | _ \<Rightarrow> False)"
| "compareValues left CoNotEquals right \<longleftrightarrow>
     (case right of OneRight r \<Rightarrow> sameType left r \<and> \<not> sameTypeEqual left r | _ \<Rightarrow> False)"
| "compareValues left CoIn right \<longleftrightarrow> (case right of ManyRight rs \<Rightarrow> list_ex (sameTypeEqual left) rs | _ \<Rightarrow> False)"
| "compareValues left CoGreater right \<longleftrightarrow> bothNumbers (\<lambda>a b. js_lt b a) left right"
| "compareValues left CoGreaterEq right \<longleftrightarrow> bothNumbers (\<lambda>a b. js_le b a) left right"
| "compareValues left CoLess right \<longleftrightarrow> bothNumbers js_lt left right"
| "compareValues left CoLessEq right \<longleftrightarrow> bothNumbers js_le left right"

definition evaluateCondition :: "WorkflowCondition \<Rightarrow> ConditionContext \<Rightarrow> bool \<times> OperandResolution list" where
  "evaluateCondition condition ctx =
     (let lookup = resolveOperand (cdLeft condition) ctx
      in ((case lookup of Some v \<Rightarrow> compareValues (LText v) (cdOperator condition) (cdRight condition) | None \<Rightarrow> False),
          [\<lparr>orOperand = cdLeft condition, orResolved = lookup \<noteq> None,
            orCompared = (case lookup of Some v \<Rightarrow> renderCompared v | None \<Rightarrow> None)\<rparr>]))"

subsection \<open>The offer\<close>

record Evaluated =
  evIndex :: nat
  evConnection :: WorkflowConnection
  evMatched :: bool
  evOperands :: "OperandResolution list"

text \<open>
  \<open>byOfferOrder\<close>: ascending priority, an absent priority after every explicit one, then authored order.
  The comparator is a linear order on the pair of both.
\<close>

datatype offer_key = Ranked int nat | Unranked nat

instantiation offer_key :: linorder
begin

fun less_eq_offer_key :: "offer_key \<Rightarrow> offer_key \<Rightarrow> bool" where
  "less_eq_offer_key (Ranked p i) (Ranked q j) \<longleftrightarrow> p < q \<or> p = q \<and> i \<le> j"
| "less_eq_offer_key (Ranked p i) (Unranked j) \<longleftrightarrow> True"
| "less_eq_offer_key (Unranked i) (Ranked q j) \<longleftrightarrow> False"
| "less_eq_offer_key (Unranked i) (Unranked j) \<longleftrightarrow> i \<le> j"

definition less_offer_key :: "offer_key \<Rightarrow> offer_key \<Rightarrow> bool" where
  "less_offer_key a b \<longleftrightarrow> a \<le> b \<and> \<not> b \<le> a"

instance
proof
  fix a b c :: offer_key
  show "a < b \<longleftrightarrow> a \<le> b \<and> \<not> b \<le> a" by (simp add: less_offer_key_def)
  show "a \<le> a" by (cases a) auto
  show "a \<le> b \<Longrightarrow> b \<le> c \<Longrightarrow> a \<le> c" by (cases a; cases b; cases c) auto
  show "a \<le> b \<Longrightarrow> b \<le> a \<Longrightarrow> a = b" by (cases a; cases b) auto
  show "a \<le> b \<or> b \<le> a" by (cases a; cases b) auto
qed

end

definition offerKey :: "WorkflowConnection \<Rightarrow> nat \<Rightarrow> offer_key" where
  "offerKey c i = (case wcPriority c of Some p \<Rightarrow> Ranked p i | None \<Rightarrow> Unranked i)"

definition offerOrder :: "Evaluated list \<Rightarrow> nat list" where
  "offerOrder evaluated = map evIndex (sort_key (\<lambda>e. offerKey (evConnection e) (evIndex e)) evaluated)"

definition evaluateEdge :: "ConditionContext \<Rightarrow> bool \<Rightarrow> nat \<times> WorkflowConnection \<Rightarrow> Evaluated" where
  "evaluateEdge ctx recoveryOnly = (\<lambda>(i, c).
     (case wcCondition c of
        None \<Rightarrow> \<lparr>evIndex = i, evConnection = c, evMatched = \<not> recoveryOnly, evOperands = []\<rparr>
      | Some cond \<Rightarrow> (let (m, ops) = evaluateCondition cond ctx
                       in \<lparr>evIndex = i, evConnection = c, evMatched = m, evOperands = ops\<rparr>)))"

definition notReached :: "nat \<times> WorkflowConnection \<Rightarrow> Evaluated" where
  "notReached = (\<lambda>(i, c). \<lparr>evIndex = i, evConnection = c, evMatched = False, evOperands = []\<rparr>)"

definition outgoingOf :: "WorkflowDefinition \<Rightarrow> string \<Rightarrow> (nat \<times> WorkflowConnection) list" where
  "outgoingOf graph nodeId = filter (\<lambda>(i, c). wcFrom c = nodeId) (enumerate 0 (wdConnections graph))"

definition decideNextNodes ::
  "WorkflowDefinition \<Rightarrow> string \<Rightarrow> nat \<Rightarrow> int \<Rightarrow> ConditionContext \<Rightarrow> bool \<Rightarrow> RoutingDecision" where
  "decideNextNodes graph nodeId attemptIndex decidedAt ctx recoveryOnly =
     (let outgoing = outgoingOf graph nodeId;
          explicit = filter (\<lambda>(i, c). wcIsDefault c \<noteq> Some True) outgoing;
          fallback = filter (\<lambda>(i, c). wcIsDefault c = Some True) outgoing;
          evaluatedExplicit = map (evaluateEdge ctx recoveryOnly) explicit;
          matchedExplicit = filter evMatched evaluatedExplicit;
          evaluatedFallback = (if matchedExplicit \<noteq> [] then map notReached fallback
                               else map (evaluateEdge ctx recoveryOnly) fallback);
          matchedFallback = filter evMatched evaluatedFallback;
          evaluated = sort_key evIndex (evaluatedExplicit @ evaluatedFallback)
      in \<lparr>rdNodeId = nodeId, rdAttemptIndex = attemptIndex, rdDecidedAt = decidedAt,
          rdOperands = concat (map evOperands evaluated),
          rdConnections = map (\<lambda>e. \<lparr>coIndex = evIndex e, coMatched = evMatched e,
                                     coIsDefault = (wcIsDefault (evConnection e) = Some True)\<rparr>) evaluated,
          rdDefaultApplied = (matchedExplicit = [] \<and> matchedFallback \<noteq> []),
          rdEligible = offerOrder (if matchedExplicit \<noteq> [] then matchedExplicit else matchedFallback)\<rparr>)"

definition selectNextNodes ::
  "WorkflowDefinition \<Rightarrow> string \<Rightarrow> nat \<Rightarrow> int \<Rightarrow> ConditionContext \<Rightarrow> RoutingDecision" where
  "selectNextNodes graph nodeId attemptIndex decidedAt ctx = decideNextNodes graph nodeId attemptIndex decidedAt ctx False"

datatype SelectedTransition =
    TransitionTo RoutingDecision nat WorkflowConnection TransitionTarget WorkflowHandoffMode
  | TerminalSink RoutingDecision
  | NoEligibleTransition RoutingDecision
  | UnhandledNodeFailure RoutingDecision

definition selectNextTransition ::
  "WorkflowDefinition \<Rightarrow> string \<Rightarrow> nat \<Rightarrow> int \<Rightarrow> ConditionContext \<Rightarrow> WorkflowNodeTerminalStatus option \<Rightarrow> SelectedTransition" where
  "selectNextTransition graph nodeId attemptIndex decidedAt ctx given =
     (let status = (case given of Some s \<Rightarrow> s
                    | None \<Rightarrow> (case map_of ctx nodeId of Some facts \<Rightarrow> nfStatus facts | None \<Rightarrow> NodeCompleted));
          decision = decideNextNodes graph nodeId attemptIndex decidedAt ctx (status \<noteq> NodeCompleted)
      in (case rdEligible decision of
            i # rest \<Rightarrow> (let connection = wdConnections graph ! i
                          in TransitionTo decision i connection (wcTo connection)
                               (case wcHandoff connection of Some h \<Rightarrow> h | None \<Rightarrow> HandoffAuto))
          | [] \<Rightarrow> if status \<noteq> NodeCompleted then UnhandledNodeFailure decision
                  else if \<not> list_ex (\<lambda>c. wcFrom c = nodeId) (wdConnections graph) then TerminalSink decision
                  else NoEligibleTransition decision))"

subsection \<open>The exact offer\<close>

definition edgeMatches :: "ConditionContext \<Rightarrow> bool \<Rightarrow> WorkflowConnection \<Rightarrow> bool" where
  "edgeMatches ctx recoveryOnly c =
     (case wcCondition c of None \<Rightarrow> \<not> recoveryOnly | Some cond \<Rightarrow> fst (evaluateCondition cond ctx))"

definition edgesFrom :: "WorkflowDefinition \<Rightarrow> string \<Rightarrow> nat list" where
  "edgesFrom graph n = filter (\<lambda>i. wcFrom (wdConnections graph ! i) = n) [0..<length (wdConnections graph)]"

text \<open>The edges that leave a node, are (or are not) its default, and match.\<close>

definition offerable :: "WorkflowDefinition \<Rightarrow> string \<Rightarrow> ConditionContext \<Rightarrow> bool \<Rightarrow> bool \<Rightarrow> nat list" where
  "offerable graph n ctx recoveryOnly isDefault =
     filter (\<lambda>i. (wcIsDefault (wdConnections graph ! i) = Some True) = isDefault \<and>
                 edgeMatches ctx recoveryOnly (wdConnections graph ! i)) (edgesFrom graph n)"

abbreviation edgeKey :: "WorkflowDefinition \<Rightarrow> nat \<Rightarrow> offer_key" where
  "edgeKey graph i \<equiv> offerKey (wdConnections graph ! i) i"

lemma evaluateEdge_simps [simp]:
  "evIndex (evaluateEdge ctx r p) = fst p" "evConnection (evaluateEdge ctx r p) = snd p"
  "evMatched (evaluateEdge ctx r p) = edgeMatches ctx r (snd p)"
  by (simp_all add: evaluateEdge_def edgeMatches_def split: prod.splits option.splits)

lemma notReached_simps [simp]:
  "evIndex (notReached p) = fst p" "evConnection (notReached p) = snd p" "evMatched (notReached p) = False"
  by (simp_all add: notReached_def split: prod.splits)

lemma outgoing_edges: "outgoingOf g n = map (\<lambda>i. (i, wdConnections g ! i)) (edgesFrom g n)"
proof -
  have "enumerate 0 (wdConnections g) = map (\<lambda>i. (i, wdConnections g ! i)) [0..<length (wdConnections g)]"
    by (rule nth_equalityI) (simp_all add: nth_enumerate_eq)
  then show ?thesis by (simp add: outgoingOf_def edgesFrom_def filter_map comp_def)
qed

lemma distinct_edges [simp]: "distinct (edgesFrom g n)" "sorted (edgesFrom g n)"
  by (simp_all add: edgesFrom_def sorted_wrt_filter)

lemma offerKey_inj: "offerKey c i = offerKey d j \<Longrightarrow> i = j"
  by (simp add: offerKey_def split: option.splits)

lemma offerOrder_edges:
  assumes "\<forall>e \<in> set es. evConnection e = wdConnections g ! evIndex e" "distinct (map evIndex es)"
  shows "sorted_wrt (\<lambda>i j. edgeKey g i < edgeKey g j) (offerOrder es)" "set (offerOrder es) = set (map evIndex es)"
proof -
  let ?k = "\<lambda>e. offerKey (evConnection e) (evIndex e)"
  let ?s = "sort_key ?k es"
  have "inj_on ?k (set es)" using assms by (auto simp: inj_on_def distinct_map dest!: offerKey_inj)
  then have "distinct (map ?k ?s)" using assms(2) by (simp add: distinct_map)
  moreover have "sorted (map ?k ?s)" by simp
  ultimately have "sorted_wrt (<) (map ?k ?s)" by (simp add: strict_sorted_iff)
  moreover have "map ?k ?s = map (edgeKey g) (offerOrder es)" using assms(1) by (simp add: offerOrder_def)
  ultimately show "sorted_wrt (\<lambda>i j. edgeKey g i < edgeKey g j) (offerOrder es)" by (simp add: sorted_wrt_map)
  show "set (offerOrder es) = set (map evIndex es)" by (simp add: offerOrder_def)
qed

lemma distinct_map_sort [simp]: "distinct (map f (sort_key k xs)) = distinct (map f xs)"
  by (simp add: distinct_map)

lemma recorded_edges:
  assumes "\<And>p. evIndex (u p) = fst p" "\<And>p. evIndex (v p) = fst p"
  shows "map evIndex (sort_key evIndex (map u (filter P (outgoingOf g n)) @ map v (filter (\<lambda>x. \<not> P x) (outgoingOf g n)))) = edgesFrom g n"
proof (rule sorted_distinct_set_unique)
  let ?E = "map u (filter P (outgoingOf g n)) @ map v (filter (\<lambda>x. \<not> P x) (outgoingOf g n))"
  have idx: "map evIndex ?E = filter (\<lambda>i. P (i, wdConnections g ! i)) (edgesFrom g n) @
      filter (\<lambda>i. \<not> P (i, wdConnections g ! i)) (edgesFrom g n)"
    by (simp add: outgoing_edges filter_map comp_def assms)
  show "sorted (map evIndex (sort_key evIndex ?E))" by simp
  have "distinct (map evIndex ?E)" unfolding idx by auto
  then show "distinct (map evIndex (sort_key evIndex ?E))" unfolding distinct_map_sort .
  have "set (map evIndex (sort_key evIndex ?E)) = set (map evIndex ?E)" unfolding set_map set_sort ..
  then show "set (map evIndex (sort_key evIndex ?E)) = set (edgesFrom g n)" unfolding idx by auto
qed simp_all

lemma matched_edges:
  "map evIndex (filter evMatched (map (evaluateEdge ctx r) (filter (\<lambda>(i, c). (wcIsDefault c = Some True) = d) (outgoingOf g n)))) =
     offerable g n ctx r d"
  by (simp add: outgoing_edges filter_map comp_def offerable_def)

definition routed :: "WorkflowDefinition \<Rightarrow> string \<Rightarrow> ConditionContext \<Rightarrow> bool \<Rightarrow> nat list" where
  "routed g n ctx r = (if offerable g n ctx r False \<noteq> [] then offerable g n ctx r False else offerable g n ctx r True)"

lemma decision_parts:
  fixes g n k t ctx r
  defines "d \<equiv> decideNextNodes g n k t ctx r"
  shows "map coIndex (rdConnections d) = edgesFrom g n"
    "rdDefaultApplied d \<longleftrightarrow> offerable g n ctx r False = [] \<and> offerable g n ctx r True \<noteq> []"
    "set (rdEligible d) = set (routed g n ctx r)"
    "sorted_wrt (\<lambda>i j. edgeKey g i < edgeKey g j) (rdEligible d)"
proof -
  let ?out = "outgoingOf g n"
  let ?ex = "map (evaluateEdge ctx r) (filter (\<lambda>(i, c). (wcIsDefault c = Some True) = False) ?out)"
  let ?fb = "map (evaluateEdge ctx r) (filter (\<lambda>(i, c). (wcIsDefault c = Some True) = True) ?out)"
  let ?no = "map notReached (filter (\<lambda>(i, c). (wcIsDefault c = Some True) = True) ?out)"
  let ?mx = "filter evMatched ?ex" and ?mf = "filter evMatched ?fb"
  have nx: "?mx = [] \<longleftrightarrow> offerable g n ctx r False = []" using matched_edges [of ctx r False g n] by force
  have nf: "?mf = [] \<longleftrightarrow> offerable g n ctx r True = []" using matched_edges [of ctx r True g n] by force
  have none: "filter evMatched ?no = []" by (auto simp: filter_empty_conv)
  let ?chosen = "if ?mx \<noteq> [] then ?mx else ?mf"
  have parts: "map coIndex (rdConnections d) =
      map evIndex (sort_key evIndex (?ex @ (if ?mx \<noteq> [] then ?no else ?fb)))"
    "rdDefaultApplied d \<longleftrightarrow> ?mx = [] \<and> ?mf \<noteq> []" "rdEligible d = offerOrder ?chosen"
    unfolding d_def decideNextNodes_def Let_def using none by (simp_all add: comp_def)
  show "rdDefaultApplied d \<longleftrightarrow> offerable g n ctx r False = [] \<and> offerable g n ctx r True \<noteq> []"
    unfolding parts nx nf ..
  have split: "filter (\<lambda>(i, c). (wcIsDefault c = Some True) = True) ?out =
      filter (\<lambda>x. \<not> (\<lambda>(i, c). (wcIsDefault c = Some True) = False) x) ?out" by (rule filter_cong) auto
  show "map coIndex (rdConnections d) = edgesFrom g n"
    unfolding parts split
    using recorded_edges [of "evaluateEdge ctx r" "evaluateEdge ctx r"] recorded_edges [of "evaluateEdge ctx r" notReached] by simp
  have chosen: "map evIndex ?chosen = routed g n ctx r" unfolding routed_def nx
    using matched_edges [of ctx r False g n] matched_edges [of ctx r True g n] by (simp only: if_distrib split: if_split) simp
  have "distinct (map evIndex ?chosen)" unfolding chosen by (simp add: routed_def offerable_def)
  moreover have "\<forall>e \<in> set ?chosen. evConnection e = wdConnections g ! evIndex e"
    by (auto simp: outgoing_edges split: if_splits)
  ultimately have order: "sorted_wrt (\<lambda>i j. edgeKey g i < edgeKey g j) (offerOrder ?chosen)"
    "set (offerOrder ?chosen) = set (map evIndex ?chosen)" using offerOrder_edges [of ?chosen g] by blast+
  show "set (rdEligible d) = set (routed g n ctx r)" unfolding parts(3) order(2) chosen ..
  show "sorted_wrt (\<lambda>i j. edgeKey g i < edgeKey g j) (rdEligible d)" unfolding parts(3) by (rule order(1))
qed

text \<open>
  The offer of a finished attempt is exact: every connection that leaves the node has one outcome in the
  decision, in authored order; the eligible ones are the matching non-default connections, or, when none of
  those matches, the matching default; they are ordered by ascending priority, an absent priority last and
  authored order breaking ties, without repetition; and the default is reported as applied exactly when it
  decided.
\<close>

theorem offer_exact:
  "let d = decideNextNodes g n k t ctx r;
       matching = (\<lambda>dflt. {i. i < length (wdConnections g) \<and> wcFrom (wdConnections g ! i) = n \<and>
                     (wcIsDefault (wdConnections g ! i) = Some True) = dflt \<and> edgeMatches ctx r (wdConnections g ! i)})
   in map coIndex (rdConnections d) = filter (\<lambda>i. wcFrom (wdConnections g ! i) = n) [0..<length (wdConnections g)] \<and>
      set (rdEligible d) = (if matching False \<noteq> {} then matching False else matching True) \<and>
      sorted_wrt (\<lambda>i j. offerKey (wdConnections g ! i) i < offerKey (wdConnections g ! j) j) (rdEligible d) \<and>
      distinct (rdEligible d) \<and>
      (rdDefaultApplied d \<longleftrightarrow> matching False = {} \<and> matching True \<noteq> {})"
proof -
  let ?m = "\<lambda>dflt. {i. i < length (wdConnections g) \<and> wcFrom (wdConnections g ! i) = n \<and>
     (wcIsDefault (wdConnections g ! i) = Some True) = dflt \<and> edgeMatches ctx r (wdConnections g ! i)}"
  have m: "?m b = set (offerable g n ctx r b)" for b by (auto simp: offerable_def edgesFrom_def)
  let ?d = "decideNextNodes g n k t ctx r"
  have "distinct (rdEligible ?d)"
    using decision_parts(4) [of g n k t ctx r] unfolding distinct_conv_nth sorted_wrt_iff_nth_less
    by (metis nat_neq_iff order_less_irrefl)
  then show ?thesis unfolding Let_def m using decision_parts [of g n k t ctx r] by (simp add: routed_def edgesFrom_def)
qed

text \<open>
  A failed or canceled attempt is routed on only by a condition that held on a resolved operand: the
  connection taken leaves the node, carries a condition, and that condition's comparison answered true.
\<close>

theorem failure_routes_by_condition:
  assumes "selectNextTransition g n k t ctx (Some status) = TransitionTo d i c target h" "status \<noteq> NodeCompleted"
  shows "\<exists>cond v. wcCondition c = Some cond \<and> resolveOperand (cdLeft cond) ctx = Some v \<and>
           compareValues (LText v) (cdOperator cond) (cdRight cond) \<and>
           i < length (wdConnections g) \<and> c = wdConnections g ! i \<and> wcFrom c = n \<and> target = wcTo c"
proof -
  have "d = decideNextNodes g n k t ctx True" and c: "c = wdConnections g ! i" "target = wcTo c" and "i \<in> set (rdEligible d)"
    using assms by (auto simp: selectNextTransition_def Let_def split: list.splits if_splits)
  then have "i \<in> set (routed g n ctx True)" using decision_parts(3) by metis
  then have "edgeMatches ctx True c" "i < length (wdConnections g)" "wcFrom c = n"
    unfolding c by (auto simp: routed_def offerable_def edgesFrom_def split: if_splits)
  then show ?thesis using c
    by (auto simp: edgeMatches_def evaluateCondition_def Let_def split: option.splits)
qed

end
