(* ===== verification/WorkflowBinding.thy ===== *)
theory WorkflowBinding
  imports WorkflowFrames
begin

text \<open>
  Data binding inside one invocation frame, \<open>services/workflow-execution/binding-resolver.ts\<close>: the selection
  from a collection, the inputs of a node and the public outputs of a Workflow.  The lemmas give the origin
  of every bound value, that only the latest completed attempt of a node is ever read, and that a successful
  resolution has every required port.
\<close>

datatype BindingFailureCode = MissingRequiredInput | MissingRequiredOutput | CollectionSelectionViolation

datatype BindingResolution =
    Bound "(string \<times> ResolvedPortValue) list"
  | Unbound BindingFailureCode string

fun completedAttempt :: "NodeAttemptRecord \<Rightarrow> bool" where
  "completedAttempt a \<longleftrightarrow> naStatus a = Ended NodeCompleted"

definition latestCompletedAttemptForNode :: "WorkflowInvocationFrame \<Rightarrow> string \<Rightarrow> NodeAttemptRecord option" where
  "latestCompletedAttemptForNode frame nodeId = List.find completedAttempt (rev (attemptsForNode (Some frame) nodeId))"

definition collectionItems :: "ResolvedPortValue \<Rightarrow> string list" where
  "collectionItems candidate =
     (case pvItems candidate of
        Some items \<Rightarrow> items
      | None \<Rightarrow> if js_trim (pvValue candidate) = [] then [] else [pvValue candidate])"

definition oneItem :: "string \<Rightarrow> string \<Rightarrow> string \<Rightarrow> ResolvedPortValue" where
  "oneItem target type chosen = \<lparr>pvPortId = target, pvType = type, pvValue = chosen, pvItems = Some [chosen]\<rparr>"

fun applyCollectionSelection ::
  "WorkflowSelectionRule option \<Rightarrow> ResolvedPortValue \<Rightarrow> string \<Rightarrow> ResolvedPortValue option" where
  "applyCollectionSelection None candidate target = Some (candidate\<lparr>pvPortId := target\<rparr>)"
| "applyCollectionSelection (Some SelectFirst) candidate target =
     (case collectionItems candidate of [] \<Rightarrow> None | x # xs \<Rightarrow> Some (oneItem target (pvType candidate) x))"
| "applyCollectionSelection (Some SelectLast) candidate target =
     (let items = collectionItems candidate
      in if items = [] then None else Some (oneItem target (pvType candidate) (last items)))"
| "applyCollectionSelection (Some SelectExactlyOne) candidate target =
     (case collectionItems candidate of [x] \<Rightarrow> Some (oneItem target (pvType candidate) x) | _ \<Rightarrow> None)"

subsection \<open>Inputs of a node\<close>

definition retyped :: "string option \<Rightarrow> ResolvedPortValue \<Rightarrow> ResolvedPortValue" where
  "retyped type v = (case type of Some t \<Rightarrow> v\<lparr>pvType := t\<rparr> | None \<Rightarrow> v)"

definition completedOutput :: "WorkflowInvocationFrame \<Rightarrow> string \<Rightarrow> string \<Rightarrow> ResolvedPortValue option" where
  "completedOutput frame nodeId key =
     (case latestCompletedAttemptForNode frame nodeId of
        None \<Rightarrow> None | Some a \<Rightarrow> map_of (naDeclaredOutputs a) key)"

definition sourceValue :: "WorkflowInvocationFrame \<Rightarrow> WorkflowInputBindingSource \<Rightarrow> ResolvedPortValue option" where
  "sourceValue frame source =
     (case source of
        FromInput portId \<Rightarrow> map_of (ivBoundInputs frame) portId
      | FromOutput nodeId portId \<Rightarrow> completedOutput frame nodeId portId)"

definition inputField :: "string \<Rightarrow> string \<Rightarrow> string" where
  "inputField nodeId key = ''nodes.'' @ nodeId @ ''.inputs.'' @ key"

type_synonym port_values = "(string \<times> ResolvedPortValue) list"

fun bindInputs ::
  "WorkflowInvocationFrame \<Rightarrow> string \<Rightarrow> port_values option \<Rightarrow> WorkflowInputBinding list \<Rightarrow> port_values \<Rightarrow> BindingResolution" where
  "bindInputs frame nodeId overrides [] resolved = Bound resolved"
| "bindInputs frame nodeId overrides (b # bs) resolved =
     (case sourceValue frame (ibSource b) of
        None \<Rightarrow>
          if ibRequired b \<noteq> Some False \<and> (case overrides of Some os \<Rightarrow> map_of os (ibInputKey b) | None \<Rightarrow> None) = None
          then Unbound MissingRequiredInput (inputField nodeId (ibInputKey b))
          else bindInputs frame nodeId overrides bs resolved
      | Some raw \<Rightarrow>
          (case applyCollectionSelection (ibSelection b) (retyped (ibType b) raw) (ibInputKey b) of
             None \<Rightarrow> Unbound CollectionSelectionViolation (inputField nodeId (ibInputKey b))
           | Some v \<Rightarrow> bindInputs frame nodeId overrides bs (AList.update (ibInputKey b) v resolved)))"

definition applyOverrides :: "port_values option \<Rightarrow> port_values \<Rightarrow> port_values" where
  "applyOverrides overrides resolved =
     (case overrides of
        None \<Rightarrow> resolved
      | Some os \<Rightarrow> fold (\<lambda>(portId, v). AList.update portId (v\<lparr>pvPortId := portId\<rparr>)) os resolved)"

definition portFilled :: "port_values \<Rightarrow> string \<Rightarrow> bool" where
  "portFilled resolved portId =
     (case map_of resolved portId of None \<Rightarrow> False | Some v \<Rightarrow> js_trim (pvValue v) \<noteq> [])"

definition portsOf :: "WorkflowPort list option \<Rightarrow> WorkflowPort list" where
  "portsOf ports = (case ports of Some ps \<Rightarrow> ps | None \<Rightarrow> [])"

definition inputBindingsOf :: "WorkflowDefinition \<Rightarrow> string \<Rightarrow> WorkflowInputBinding list" where
  "inputBindingsOf workflow nodeId =
     List.map_filter (\<lambda>b. case b of InputBinding i \<Rightarrow> if ibNodeId i = nodeId then Some i else None | OutputBinding _ \<Rightarrow> None)
       (case wdBindings workflow of Some bs \<Rightarrow> bs | None \<Rightarrow> [])"

definition resolveNodeInputBindings ::
  "WorkflowDefinition \<Rightarrow> WorkflowInvocationFrame \<Rightarrow> string \<Rightarrow> WorkflowPort list option \<Rightarrow> port_values option \<Rightarrow> BindingResolution" where
  "resolveNodeInputBindings workflow frame targetNodeId targetInputPorts overrides =
     (case bindInputs frame targetNodeId overrides (inputBindingsOf workflow targetNodeId) [] of
        Unbound code at' \<Rightarrow> Unbound code at'
      | Bound bound \<Rightarrow>
          (let resolved = applyOverrides overrides bound
           in (case List.find (\<lambda>p. wpRequired p = Some True \<and> \<not> portFilled resolved (wpPortId p)) (portsOf targetInputPorts) of
                 Some p \<Rightarrow> Unbound MissingRequiredInput (inputField targetNodeId (wpPortId p))
               | None \<Rightarrow> Bound resolved)))"

subsection \<open>Public outputs of a Workflow\<close>

definition outputBindingsOf :: "WorkflowDefinition \<Rightarrow> WorkflowOutputBinding list" where
  "outputBindingsOf workflow =
     List.map_filter (\<lambda>b. case b of OutputBinding o' \<Rightarrow> Some o' | InputBinding _ \<Rightarrow> None)
       (case wdBindings workflow of Some bs \<Rightarrow> bs | None \<Rightarrow> [])"

text \<open>The key of a \<open>Map\<close> built from pairs holds the last pair.\<close>

definition declaredType :: "WorkflowDefinition \<Rightarrow> string \<Rightarrow> string option" where
  "declaredType workflow portId =
     map_option wpType (List.find (\<lambda>p. wpPortId p = portId) (rev (portsOf (wdOutputs workflow))))"

definition outputSourceKey :: "WorkflowOutputBinding \<Rightarrow> string" where
  "outputSourceKey b =
     (case obSourcePortId b of Some k \<Rightarrow> k
      | None \<Rightarrow> (case obOutputKey b of Some k \<Rightarrow> k | None \<Rightarrow> obPortId b))"

definition outputType :: "WorkflowDefinition \<Rightarrow> WorkflowOutputBinding \<Rightarrow> ResolvedPortValue \<Rightarrow> string" where
  "outputType workflow b raw =
     (case obType b of Some t \<Rightarrow> t
      | None \<Rightarrow> (case declaredType workflow (obPortId b) of Some t \<Rightarrow> t | None \<Rightarrow> pvType raw))"

definition outputField :: "string \<Rightarrow> string" where "outputField portId = ''outputs.'' @ portId"

fun bindOutputs ::
  "WorkflowDefinition \<Rightarrow> WorkflowInvocationFrame \<Rightarrow> WorkflowOutputBinding list \<Rightarrow> port_values \<Rightarrow> BindingResolution" where
  "bindOutputs workflow frame [] resolved = Bound resolved"
| "bindOutputs workflow frame (b # bs) resolved =
     (case completedOutput frame (obNodeId b) (outputSourceKey b) of
        None \<Rightarrow> bindOutputs workflow frame bs resolved
      | Some raw \<Rightarrow>
          (case applyCollectionSelection (obSelection b) (raw\<lparr>pvType := outputType workflow b raw\<rparr>) (obPortId b) of
             None \<Rightarrow> Unbound CollectionSelectionViolation (outputField (obPortId b))
           | Some v \<Rightarrow> bindOutputs workflow frame bs (AList.update (obPortId b) v resolved)))"

definition resolveWorkflowPublicOutputs :: "WorkflowDefinition \<Rightarrow> WorkflowInvocationFrame \<Rightarrow> BindingResolution" where
  "resolveWorkflowPublicOutputs workflow frame =
     (case bindOutputs workflow frame (outputBindingsOf workflow) [] of
        Unbound code at' \<Rightarrow> Unbound code at'
      | Bound resolved \<Rightarrow>
          (case List.find (\<lambda>p. wpRequired p \<noteq> Some False \<and> \<not> portFilled resolved (wpPortId p)) (portsOf (wdOutputs workflow)) of
             Some p \<Rightarrow> Unbound MissingRequiredOutput (outputField (wpPortId p))
           | None \<Rightarrow> Bound resolved))"


subsection \<open>Only completed attempts are read\<close>

definition completedOnly :: "WorkflowInvocationFrame \<Rightarrow> WorkflowInvocationFrame" where
  "completedOnly f = f\<lparr>ivAttempts := map (\<lambda>(n, as'). (n, filter completedAttempt as')) (ivAttempts f)\<rparr>"

lemma find_filter: "List.find P (filter P xs) = List.find P xs"
  by (induction xs) auto

lemma latest_completedOnly: "latestCompletedAttemptForNode (completedOnly f) n = latestCompletedAttemptForNode f n"
proof -
  have "attemptsForNode (Some (completedOnly f)) n = filter completedAttempt (attemptsForNode (Some f) n)"
    by (simp add: attemptsForNode_def completedOnly_def map_of_map split: option.splits)
  then show ?thesis by (simp only: latestCompletedAttemptForNode_def rev_filter find_filter)
qed

lemma sources_completedOnly [simp]:
  "completedOutput (completedOnly f) n k = completedOutput f n k"
  "sourceValue (completedOnly f) s = sourceValue f s"
proof -
  show out: "completedOutput (completedOnly f) n k = completedOutput f n k" for n k
    by (simp add: completedOutput_def latest_completedOnly)
  show "sourceValue (completedOnly f) s = sourceValue f s"
    by (simp add: sourceValue_def out split: WorkflowInputBindingSource.split) (simp add: completedOnly_def)
qed

lemma bindInputs_completedOnly: "bindInputs (completedOnly f) n ov bs r = bindInputs f n ov bs r"
  by (induction bs arbitrary: r) (simp_all cong: option.case_cong)

lemma bindOutputs_completedOnly: "bindOutputs w (completedOnly f) bs r = bindOutputs w f bs r"
  by (induction bs arbitrary: r) (simp_all cong: option.case_cong)

text \<open>
  Failed, canceled, paused and running attempts never reach a binding: the inputs of a node and the public
  outputs of a Workflow are the same when every attempt that did not complete is erased from the frame.
\<close>

theorem unfinished_attempts_invisible:
  "resolveNodeInputBindings w (f\<lparr>ivAttempts := map (\<lambda>(n, as'). (n, filter completedAttempt as')) (ivAttempts f)\<rparr>) t ports ov =
     resolveNodeInputBindings w f t ports ov \<and>
   resolveWorkflowPublicOutputs w (f\<lparr>ivAttempts := map (\<lambda>(n, as'). (n, filter completedAttempt as')) (ivAttempts f)\<rparr>) =
     resolveWorkflowPublicOutputs w f"
  using bindInputs_completedOnly [of f] bindOutputs_completedOnly [of w f]
  by (simp add: resolveNodeInputBindings_def resolveWorkflowPublicOutputs_def completedOnly_def)

subsection \<open>Where a bound value comes from\<close>

lemma selection_port: "applyCollectionSelection sel c k = Some v \<Longrightarrow> pvPortId v = k"
  by (induction sel c k rule: applyCollectionSelection.induct) (auto simp: oneItem_def Let_def split: list.splits if_splits)

definition boundBy :: "WorkflowInvocationFrame \<Rightarrow> string \<Rightarrow> ResolvedPortValue \<Rightarrow> WorkflowInputBinding \<Rightarrow> bool" where
  "boundBy f key v b \<longleftrightarrow> ibInputKey b = key \<and>
     (\<exists>raw. sourceValue f (ibSource b) = Some raw \<and>
            applyCollectionSelection (ibSelection b) (retyped (ibType b) raw) key = Some v)"

lemma bindInputs_origin:
  assumes "bindInputs f n ov bs r = Bound r'" "map_of r' key = Some v"
  shows "map_of r key = Some v \<or> (\<exists>b \<in> set bs. boundBy f key v b)"
  using assms
proof (induction bs arbitrary: r)
  case (Cons b bs)
  show ?case
  proof (cases "sourceValue f (ibSource b)")
    case None
    then show ?thesis using Cons by (auto split: if_splits)
  next
    case (Some raw)
    then obtain u where u: "applyCollectionSelection (ibSelection b) (retyped (ibType b) raw) (ibInputKey b) = Some u"
      "bindInputs f n ov bs (AList.update (ibInputKey b) u r) = Bound r'"
      using Cons.prems by (auto split: option.splits)
    then show ?thesis using Cons.IH [OF u(2) Cons.prems(2)] Some
      by (auto simp: update_conv' boundBy_def split: if_splits)
  qed
qed simp

lemma bindInputs_keeps: "bindInputs f n ov bs r = Bound r' \<Longrightarrow> map_of r key \<noteq> None \<Longrightarrow> map_of r' key \<noteq> None"
  by (induction bs arbitrary: r) (auto simp: update_conv' split: option.splits if_splits)

lemma bindInputs_required:
  assumes "bindInputs f n ov bs r = Bound r'" "b \<in> set bs" "ibRequired b \<noteq> Some False"
    "(case ov of Some os \<Rightarrow> map_of os (ibInputKey b) | None \<Rightarrow> None) = None"
  shows "map_of r' (ibInputKey b) \<noteq> None"
  using assms
proof (induction bs arbitrary: r)
  case (Cons c bs)
  show ?case
  proof (cases "b = c")
    case False
    then show ?thesis using Cons by (auto split: option.splits if_splits)
  next
    case True
    then obtain u where "bindInputs f n ov bs (AList.update (ibInputKey b) u r) = Bound r'"
      using Cons.prems by (auto split: option.splits if_splits)
    then show ?thesis by (rule bindInputs_keeps) (simp add: update_conv')
  qed
qed simp

definition overridesOf :: "port_values option \<Rightarrow> port_values" where
  "overridesOf ov = (case ov of None \<Rightarrow> [] | Some os \<Rightarrow> os)"

lemma applyOverrides_map_of:
  "map_of (applyOverrides ov r) key =
     (case map_of (rev (overridesOf ov)) key of Some u \<Rightarrow> Some (u\<lparr>pvPortId := key\<rparr>) | None \<Rightarrow> map_of r key)"
proof -
  have "map_of (fold (\<lambda>(portId, v). AList.update portId (v\<lparr>pvPortId := portId\<rparr>)) os r) key =
      (case map_of (rev os) key of Some u \<Rightarrow> Some (u\<lparr>pvPortId := key\<rparr>) | None \<Rightarrow> map_of r key)" for os
    by (induction os arbitrary: r) (auto simp: update_conv' map_add_def split: option.splits)
  then show ?thesis by (cases ov) (simp_all add: applyOverrides_def overridesOf_def)
qed

lemma resolved_inputs:
  assumes "resolveNodeInputBindings w f t ports ov = Bound r"
  obtains bound where "bindInputs f t ov (inputBindingsOf w t) [] = Bound bound" "r = applyOverrides ov bound"
    "\<forall>p \<in> set (portsOf ports). wpRequired p = Some True \<longrightarrow> portFilled r (wpPortId p)"
proof -
  obtain bound where b: "bindInputs f t ov (inputBindingsOf w t) [] = Bound bound"
    using assms by (auto simp: resolveNodeInputBindings_def split: BindingResolution.splits)
  then have "r = applyOverrides ov bound \<and>
      List.find (\<lambda>p. wpRequired p = Some True \<and> \<not> portFilled (applyOverrides ov bound) (wpPortId p)) (portsOf ports) = None"
    using assms by (auto simp: resolveNodeInputBindings_def Let_def split: option.splits)
  then show ?thesis using b that [of bound] by (auto simp: find_None_iff)
qed

text \<open>
  What a node receives is exactly accounted for: an operator override replaces the value of its port;
  every other value comes from a binding of that node, selected from a workflow input or a completed output
  of the same frame; every required binding and every required target port has a value.
\<close>

theorem node_inputs_accounted:
  assumes "resolveNodeInputBindings w f t ports ov = Bound r"
  shows "(case map_of (rev (overridesOf ov)) key of
            Some u \<Rightarrow> map_of r key = Some (u\<lparr>pvPortId := key\<rparr>)
          | None \<Rightarrow> \<forall>v. map_of r key = Some v \<longrightarrow> pvPortId v = key \<and>
              (\<exists>b \<in> set (inputBindingsOf w t). ibInputKey b = key \<and>
                 (\<exists>raw. sourceValue f (ibSource b) = Some raw \<and>
                    applyCollectionSelection (ibSelection b) (retyped (ibType b) raw) key = Some v))) \<and>
         (\<forall>b \<in> set (inputBindingsOf w t). ibRequired b \<noteq> Some False \<longrightarrow> map_of r (ibInputKey b) \<noteq> None) \<and>
         (\<forall>p \<in> set (portsOf ports). wpRequired p = Some True \<longrightarrow> portFilled r (wpPortId p))"
proof (rule resolved_inputs [OF assms], intro conjI)
  fix bound
  assume b: "bindInputs f t ov (inputBindingsOf w t) [] = Bound bound" and r: "r = applyOverrides ov bound"
  have from_bound: "pvPortId v = key \<and> (\<exists>b \<in> set (inputBindingsOf w t). boundBy f key v b)" if "map_of bound key = Some v" for key v
    using bindInputs_origin [OF b that] selection_port by (fastforce simp: boundBy_def)
  then show "case map_of (rev (overridesOf ov)) key of Some u \<Rightarrow> map_of r key = Some (u\<lparr>pvPortId := key\<rparr>)
      | None \<Rightarrow> \<forall>v. map_of r key = Some v \<longrightarrow> pvPortId v = key \<and>
          (\<exists>b \<in> set (inputBindingsOf w t). ibInputKey b = key \<and>
             (\<exists>raw. sourceValue f (ibSource b) = Some raw \<and>
                applyCollectionSelection (ibSelection b) (retyped (ibType b) raw) key = Some v))"
    unfolding r applyOverrides_map_of boundBy_def by (simp split: option.splits)
  show "\<forall>b \<in> set (inputBindingsOf w t). ibRequired b \<noteq> Some False \<longrightarrow> map_of r (ibInputKey b) \<noteq> None"
  proof (intro ballI impI)
    fix c assume c: "c \<in> set (inputBindingsOf w t)" "ibRequired c \<noteq> Some False"
    show "map_of r (ibInputKey c) \<noteq> None"
    proof (cases "map_of (overridesOf ov) (ibInputKey c)")
      case None
      then have "(case ov of Some os \<Rightarrow> map_of os (ibInputKey c) | None \<Rightarrow> None) = None"
        by (simp add: overridesOf_def split: option.splits)
      then show ?thesis using bindInputs_required [OF b c] unfolding r applyOverrides_map_of by (simp split: option.splits)
    next
      case (Some u)
      then have "ibInputKey c \<in> fst ` set (rev (overridesOf ov))" by (force dest: map_of_SomeD)
      then have "map_of (rev (overridesOf ov)) (ibInputKey c) \<noteq> None" by (simp add: map_of_eq_None_iff)
      then show ?thesis unfolding r applyOverrides_map_of by (auto split: option.splits)
    qed
  qed
qed

lemma public_outputs_filled:
  assumes "resolveWorkflowPublicOutputs w f = Bound r" "p \<in> set (portsOf (wdOutputs w))" "wpRequired p \<noteq> Some False"
  shows "portFilled r (wpPortId p)"
  using assms
  by (auto simp: resolveWorkflowPublicOutputs_def find_None_iff split: BindingResolution.splits option.splits)

end
