(* ===== verification/WorkflowStep.thy ===== *)
theory WorkflowStep
  imports WorkflowRouting WorkflowBinding TaskQueue
begin

text \<open>
  Execution of a connected Workflow run: the composable part of
  \<open>services/workflow-execution/connected-run-coordinator.ts\<close>, the frames and attempts of
  \<open>connected-run-factory.ts\<close>, and the compare-and-set write of \<open>state/workspace-state.ts\<close>.  Every recursive
  call of the coordinator is its last action, so one function body is one step: it ends the command, throws,
  or names the next call.  \<open>runCalls\<close> iterates the steps and is \<open>None\<close> when they do not end.

  The environment holds what a command meets: whether the claim and primacy fences let a write commit,
  whether the memento accepts it, and the injected \<open>dispatchPhase\<close>, which may change the store in any way
  while it is awaited.  Node paths, failure details and launch material are left out.
\<close>

subsection \<open>The store of connected runs\<close>

record coord_store =
  csRuns :: "(string \<times> ConnectedWorkflowRun) list"
  csRefused :: "string list"
  csKnownQueues :: "string list"
  csOrphansCanceled :: "(string \<times> string) list"
  csLeasesReleased :: "(string \<times> string) list"

record PhaseAttemptDispatchInput =
  pdRun :: ConnectedWorkflowRun
  pdFrame :: WorkflowInvocationFrame
  pdNode :: WorkflowNode
  pdPhaseId :: string
  pdBoundInputs :: port_values
  pdInputEnvelope :: InvocationInputEnvelope
  pdAttemptId :: string
  pdAttemptIndex :: nat
  pdQueueId :: string
  pdStartedAt :: int

datatype PhaseAttemptDispatchResult = PhaseEnqueued string | PhaseRejected string

record coord_env =
  ceCommits :: "coord_store \<Rightarrow> ConnectedWorkflowRun \<Rightarrow> bool"
  ceUpdates :: "coord_store \<Rightarrow> ConnectedWorkflowRun \<Rightarrow> bool"
  ceDispatchPhase :: "PhaseAttemptDispatchInput \<Rightarrow> coord_store \<Rightarrow> PhaseAttemptDispatchResult \<times> coord_store"
  ceCancelsOrphans :: bool

datatype ConnectedRunWriteResult = CasWritten ConnectedWorkflowRun | CasStale "ConnectedWorkflowRun option" | CasThrown

definition queueKnown :: "coord_store \<Rightarrow> ConnectedWorkflowRun \<Rightarrow> bool" where
  "queueKnown s run = (case cwQueueId run of None \<Rightarrow> True | Some q \<Rightarrow> q \<in> set (csKnownQueues s))"

definition compareAndSetConnectedRun ::
  "coord_env \<Rightarrow> ConnectedWorkflowRun \<Rightarrow> int \<Rightarrow> coord_store \<Rightarrow> ConnectedRunWriteResult \<times> coord_store" where
  "compareAndSetConnectedRun env next' expectedRevision s =
     (if cwRunId next' \<in> set (csRefused s) then (CasStale None, s)
      else let current = map_of (csRuns s) (cwRunId next')
           in if (case current of Some r \<Rightarrow> cwRevision r | None \<Rightarrow> 0) \<noteq> expectedRevision \<or> cwRevision next' \<le> expectedRevision
              then (CasStale current, s)
              else if \<not> ceCommits env s next' then (CasStale current, s)
              else if \<not> (assertConnectedRunInvariants next' \<and> queueKnown s next') then (CasThrown, s)
              else if \<not> ceUpdates env s next' then (CasThrown, s)
              else (CasWritten next', s\<lparr>csRuns := AList.update (cwRunId next') next' (csRuns s)\<rparr>))"

definition connectedQueueId :: "ConnectedWorkflowRun \<Rightarrow> string" where
  "connectedQueueId run = (case cwQueueId run of Some q \<Rightarrow> q | None \<Rightarrow> DEFAULT_QUEUE_ID)"

subsection \<open>Frames and attempts\<close>

fun decimalText :: "nat \<Rightarrow> string" where
  "decimalText n = (if n < 10 then [char_of (48 + n)] else decimalText (n div 10) @ [char_of (48 + n mod 10)])"

declare decimalText.simps [simp del]

definition attemptIdOf :: "string \<Rightarrow> string \<Rightarrow> nat \<Rightarrow> string" where
  "attemptIdOf invId nodeId k = invId @ '':'' @ nodeId @ '':attempt-'' @ decimalText k"

definition createInvocationFrame ::
  "string \<Rightarrow> string option \<Rightarrow> string option \<Rightarrow> string option \<Rightarrow> string \<Rightarrow> nat \<Rightarrow> string \<Rightarrow> port_values \<Rightarrow> int \<Rightarrow>
   InvocationControlMarkers option \<Rightarrow> WorkflowInvocationFrame" where
  "createInvocationFrame invId parent callNode parentAttempt workflowId depth entry inputs startedAt markers =
     \<lparr>ivInvocationId = invId, ivParentInvocationId = parent, ivParentCallNodeId = callNode,
      ivParentAttemptId = parentAttempt, ivWorkflowId = workflowId, ivDepth = depth, ivEntryNodeId = entry,
      ivActiveNodeId = Some entry, ivStatus = FrInFlight, ivBoundInputs = inputs, ivResolvedOutputs = [],
      ivAttempts = [], ivDecisions = [], ivPendingHandoff = None,
      ivControlMarkers = Some (case markers of Some m \<Rightarrow> m | None \<Rightarrow> DEFAULT_INVOCATION_CONTROL_MARKERS),
      ivFailureCode = None, ivStartedAt = startedAt, ivCompletedAt = None\<rparr>"

definition createChildWorkflowInvocationFrame ::
  "WorkflowInvocationFrame \<Rightarrow> string \<Rightarrow> string \<Rightarrow> WorkflowDefinition \<Rightarrow> port_values \<Rightarrow> int \<Rightarrow> WorkflowInvocationFrame" where
  "createChildWorkflowInvocationFrame parent callNode parentAttemptId child inputs startedAt =
     createInvocationFrame (ivInvocationId parent @ '':'' @ callNode @ '':'' @ parentAttemptId)
       (Some (ivInvocationId parent)) (Some callNode) (Some parentAttemptId) (wdWorkflowId child) (ivDepth parent + 1)
       (case wdStartNodeIds child of n # ns \<Rightarrow> n | [] \<Rightarrow> []) inputs startedAt None"

definition createNodeAttemptRecord ::
  "WorkflowInvocationFrame \<Rightarrow> string \<Rightarrow> WorkflowNodeKind \<Rightarrow> string \<Rightarrow> int \<Rightarrow> NodeAttemptStatus option \<Rightarrow> string option \<Rightarrow>
   NodeAttemptRecord" where
  "createNodeAttemptRecord frame nodeId nodeKind target startedAt status child =
     (let k = length (attemptsForNode (Some frame) nodeId) + 1
      in \<lparr>naAttemptId = attemptIdOf (ivInvocationId frame) nodeId k, naAttemptIndex = k, naNodeId = nodeId,
          naNodeKind = nodeKind, naTarget = target,
          naStatus = (case status of Some st \<Rightarrow> st | None \<Rightarrow> InFlightAttempt), naStartedAt = startedAt,
          naCompletedAt = None, naQueueItemId = None, naChildInvocationId = child, naDeclaredOutputs = [],
          naVerdict = None, naFailureCode = None\<rparr>)"

definition latestInputEnvelopeForTarget ::
  "ConnectedWorkflowRun \<Rightarrow> string \<Rightarrow> string \<Rightarrow> InvocationInputEnvelope option" where
  "latestInputEnvelopeForTarget run invId nodeId =
     List.find (\<lambda>e. ieInvocationId e = invId \<and> ieTargetNodeId e = nodeId) (rev (cwInputEnvelopes run))"

definition nodeKindOf :: "WorkflowNode \<Rightarrow> WorkflowNodeKind" where
  "nodeKindOf node =
     (case wnKind node of Some k \<Rightarrow> k | None \<Rightarrow> if wnPhaseId node \<noteq> None then PhaseNode else CallNode)"

definition findNode :: "WorkflowDefinition \<Rightarrow> string \<Rightarrow> WorkflowNode option" where
  "findNode workflow nodeId = List.find (\<lambda>n. wnNodeId n = nodeId) (wdNodes workflow)"

definition calledWorkflowId :: "WorkflowNode \<Rightarrow> string" where
  "calledWorkflowId node = (case wnWorkflowId node of Some w \<Rightarrow> w | None \<Rightarrow> [])"

text \<open>The input ports of the Workflow a call node names; a Phase node has none to check.\<close>

definition targetPortsOf :: "FrozenWorkflowClosure \<Rightarrow> WorkflowNode \<Rightarrow> WorkflowPort list option" where
  "targetPortsOf closure node =
     (case nodeKindOf node of
        PhaseNode \<Rightarrow> None
      | CallNode \<Rightarrow> (case map_of (fcWorkflows closure) (calledWorkflowId node) of Some w \<Rightarrow> wdInputs w | None \<Rightarrow> None))"

subsection \<open>Calls and outcomes\<close>

datatype ComposableWorkflowStepResult =
    PhaseDispatched ConnectedWorkflowRun string string string string
  | WaitingForHandoff ConnectedWorkflowRun string string string
  | WorkflowCompleted ConnectedWorkflowRun port_values
  | WorkflowFailed ConnectedWorkflowRun string string
  | WorkflowCanceled ConnectedWorkflowRun string
  | StepRejectedStale "ConnectedWorkflowRun option"

datatype coord_call =
    CallDispatch ConnectedWorkflowRun int string string int
  | CallSettle ConnectedWorkflowRun int string string "nat option" WorkflowNodeTerminalStatus int
      "port_values option" "bool option option" "string option"
  | CallFail ConnectedWorkflowRun int WorkflowInvocationFrame int string
  | CallCancel ConnectedWorkflowRun int WorkflowInvocationFrame int

datatype coord_tail = Continue coord_call | Finished ComposableWorkflowStepResult | Raised

definition orRaise :: "'a option \<Rightarrow> coord_store \<Rightarrow> ('a \<Rightarrow> coord_tail \<times> coord_store) \<Rightarrow> coord_tail \<times> coord_store" where
  "orRaise x s k = (case x of None \<Rightarrow> (Raised, s) | Some y \<Rightarrow> k y)"

definition persistRunStep ::
  "coord_env \<Rightarrow> ConnectedWorkflowRun \<Rightarrow> int \<Rightarrow> (ConnectedWorkflowRun \<Rightarrow> ComposableWorkflowStepResult) \<Rightarrow> coord_store \<Rightarrow>
   coord_tail \<times> coord_store" where
  "persistRunStep env next' expectedRevision buildResult s =
     (case compareAndSetConnectedRun env next' expectedRevision s of
        (CasWritten run, s') \<Rightarrow> (Finished (buildResult run), s')
      | (CasStale current, s') \<Rightarrow> (Finished (StepRejectedStale current), s')
      | (CasThrown, s') \<Rightarrow> (Raised, s'))"

text \<open>The attempt of the parent frame that waits for this frame.\<close>

definition parentAttemptOf :: "ConnectedWorkflowRun \<Rightarrow> WorkflowInvocationFrame \<Rightarrow> (WorkflowInvocationFrame \<times> NodeAttemptRecord) option" where
  "parentAttemptOf run frame =
     (case (ivParentInvocationId frame, ivParentCallNodeId frame) of
        (Some p, Some callNode) \<Rightarrow>
          (case map_of (cwInvocations run) p of
             None \<Rightarrow> None
           | Some parentFrame \<Rightarrow>
               map_option (\<lambda>a. (parentFrame, a))
                 (List.find (\<lambda>a. naChildInvocationId a = Some (ivInvocationId frame)) (attemptsForNode (Some parentFrame) callNode)))
      | _ \<Rightarrow> None)"

definition failFrame :: "coord_env \<Rightarrow> ConnectedWorkflowRun \<Rightarrow> int \<Rightarrow> WorkflowInvocationFrame \<Rightarrow> int \<Rightarrow> string \<Rightarrow> coord_store \<Rightarrow> coord_tail \<times> coord_store" where
  "failFrame env run expectedRevision frame completedAt code s =
     (let failed = frame\<lparr>ivActiveNodeId := None, ivStatus := FrEnded NodeFailed, ivCompletedAt := Some completedAt,
                         ivFailureCode := Some code\<rparr>
      in orRaise (upsertInvocationFrame run failed) s (\<lambda>nextRun.
           (case parentAttemptOf nextRun failed of
              Some (parent, a) \<Rightarrow>
                (Continue (CallSettle nextRun expectedRevision (ivInvocationId parent) (naNodeId a) (Some (naAttemptIndex a))
                   NodeFailed completedAt None None (Some code)), s)
            | None \<Rightarrow> persistRunStep env nextRun expectedRevision
                (\<lambda>persisted. WorkflowFailed persisted (ivInvocationId frame) code) s)))"

definition cancelFrame :: "coord_env \<Rightarrow> ConnectedWorkflowRun \<Rightarrow> int \<Rightarrow> WorkflowInvocationFrame \<Rightarrow> int \<Rightarrow> coord_store \<Rightarrow> coord_tail \<times> coord_store" where
  "cancelFrame env run expectedRevision frame completedAt s =
     (let canceled = frame\<lparr>ivActiveNodeId := None, ivStatus := FrEnded NodeCanceled, ivCompletedAt := Some completedAt,
                           ivPendingHandoff := None,
                           ivControlMarkers := map_option (\<lambda>m. clearInvocationControlMarkers (Some m)) (ivControlMarkers frame)\<rparr>
      in orRaise (upsertInvocationFrame run canceled) s (\<lambda>nextRun.
           (case parentAttemptOf nextRun canceled of
              Some (parent, a) \<Rightarrow>
                (Continue (CallSettle nextRun expectedRevision (ivInvocationId parent) (naNodeId a) (Some (naAttemptIndex a))
                   NodeCanceled completedAt None None None), s)
            | None \<Rightarrow> persistRunStep env nextRun expectedRevision
                (\<lambda>persisted. WorkflowCanceled persisted (ivInvocationId frame)) s)))"

subsection \<open>Dispatching a node\<close>

text \<open>Binding the enqueued item to the latest record after the write of the attempt was refused.\<close>

definition rebindEnqueued ::
  "coord_env \<Rightarrow> string \<Rightarrow> NodeAttemptRecord \<Rightarrow> string \<Rightarrow> string \<Rightarrow> ConnectedWorkflowRun option \<Rightarrow> coord_store \<Rightarrow> coord_tail \<times> coord_store" where
  "rebindEnqueued env invId pending queueItemId boundQueueId current s =
     (let orphaned = (\<lambda>s'. (Finished (StepRejectedStale current),
            if ceCancelsOrphans env then s'\<lparr>csOrphansCanceled := csOrphansCanceled s' @ [(queueItemId, boundQueueId)]\<rparr> else s'))
      in (case current of
            None \<Rightarrow> orphaned s
          | Some latestRun \<Rightarrow>
              (case map_of (cwInvocations latestRun) invId of
                 None \<Rightarrow> orphaned s
               | Some latestFrame \<Rightarrow>
                   if ivStatus latestFrame \<in> {FrInFlight, FrPaused} then
                     (case List.find (\<lambda>a. naAttemptId a = naAttemptId pending) (attemptsForNode (Some latestFrame) (naNodeId pending)) of
                        None \<Rightarrow> orphaned s
                      | Some matching \<Rightarrow>
                          (let rebound = matching\<lparr>naStatus := if ivStatus latestFrame = FrPaused then PausedAttempt else InFlightAttempt,
                                                  naQueueItemId := Some queueItemId\<rparr>
                           in orRaise (upsertInvocationFrame latestRun (recordNodeAttempt latestFrame rebound)) s (\<lambda>reboundRun.
                                (case compareAndSetConnectedRun env reboundRun (cwRevision latestRun) s of
                                   (CasWritten run, s') \<Rightarrow>
                                     (Finished (PhaseDispatched run invId (naNodeId pending) (naAttemptId pending) queueItemId), s')
                                 | (CasThrown, s') \<Rightarrow> (Raised, s')
                                 | (CasStale c, s') \<Rightarrow> orphaned s'))))
                   else orphaned s)))"

definition bindEnqueued ::
  "coord_env \<Rightarrow> string \<Rightarrow> NodeAttemptRecord \<Rightarrow> WorkflowInvocationFrame \<Rightarrow> ConnectedWorkflowRun \<Rightarrow> string \<Rightarrow> coord_store \<Rightarrow>
   coord_tail \<times> coord_store" where
  "bindEnqueued env invId pending framePending pre queueItemId s =
     (let attempt = pending\<lparr>naStatus := InFlightAttempt, naQueueItemId := Some queueItemId\<rparr>
      in orRaise (upsertInvocationFrame pre (recordNodeAttempt framePending attempt)) s (\<lambda>nextRun.
           (case compareAndSetConnectedRun env nextRun (cwRevision pre) s of
              (CasWritten run, s') \<Rightarrow>
                (Finished (PhaseDispatched run invId (naNodeId attempt) (naAttemptId attempt) queueItemId), s')
            | (CasThrown, s') \<Rightarrow> (Raised, s')
            | (CasStale current, s') \<Rightarrow> rebindEnqueued env invId pending queueItemId (connectedQueueId pre) current s')))"

text \<open>The await of \<open>dispatchPhase\<close>, once the pending attempt is stored.\<close>

definition dispatchPending ::
  "coord_env \<Rightarrow> string \<Rightarrow> NodeAttemptRecord \<Rightarrow> WorkflowInvocationFrame \<Rightarrow> WorkflowNode \<Rightarrow> port_values \<Rightarrow>
   InvocationInputEnvelope \<Rightarrow> int \<Rightarrow> ConnectedWorkflowRun \<Rightarrow> coord_store \<Rightarrow> coord_tail \<times> coord_store" where
  "dispatchPending env invId pending framePending node boundInputs envelope startedAt pre s =
     (case ceDispatchPhase env
             \<lparr>pdRun = pre, pdFrame = framePending, pdNode = node, pdPhaseId = naTarget pending,
              pdBoundInputs = boundInputs, pdInputEnvelope = envelope, pdAttemptId = naAttemptId pending,
              pdAttemptIndex = naAttemptIndex pending, pdQueueId = connectedQueueId pre, pdStartedAt = startedAt\<rparr> s of
        (PhaseRejected reason, s') \<Rightarrow>
          (let failed = pending\<lparr>naStatus := Ended NodeFailed, naCompletedAt := Some startedAt, naFailureCode := Some reason\<rparr>
           in (Continue (CallFail pre (cwRevision pre) (recordNodeAttempt framePending failed) startedAt reason), s'))
      | (PhaseEnqueued queueItemId, s') \<Rightarrow> bindEnqueued env invId pending framePending pre queueItemId s')"

definition dispatchPhaseNode ::
  "coord_env \<Rightarrow> ConnectedWorkflowRun \<Rightarrow> int \<Rightarrow> string \<Rightarrow> WorkflowInvocationFrame \<Rightarrow> WorkflowNode \<Rightarrow> string \<Rightarrow> port_values \<Rightarrow>
   InvocationInputEnvelope \<Rightarrow> int \<Rightarrow> coord_store \<Rightarrow> coord_tail \<times> coord_store" where
  "dispatchPhaseNode env run expectedRevision invId frame node nodeId boundInputs envelope startedAt s =
     (let phaseId = (case wnPhaseId node of Some p \<Rightarrow> p | None \<Rightarrow> []);
          pending = createNodeAttemptRecord frame nodeId PhaseNode phaseId startedAt (Some PendingDispatch) None;
          framePending = recordNodeAttempt frame pending
      in orRaise (upsertInvocationFrame run framePending) s (\<lambda>preRun.
           (case compareAndSetConnectedRun env preRun expectedRevision s of
              (CasStale current, s') \<Rightarrow> (Finished (StepRejectedStale current), s')
            | (CasThrown, s') \<Rightarrow> (Raised, s')
            | (CasWritten pre, s') \<Rightarrow>
                dispatchPending env invId pending framePending node boundInputs envelope startedAt pre s')))"

definition dispatchCallNode ::
  "FrozenWorkflowClosure \<Rightarrow> ConnectedWorkflowRun \<Rightarrow> int \<Rightarrow> string \<Rightarrow> WorkflowInvocationFrame \<Rightarrow> WorkflowNode \<Rightarrow> string \<Rightarrow> port_values \<Rightarrow>
   int \<Rightarrow> coord_store \<Rightarrow> coord_tail \<times> coord_store" where
  "dispatchCallNode closure run expectedRevision invId frame node nodeId boundInputs startedAt s =
     (case map_of (fcWorkflows closure) (calledWorkflowId node) of
        None \<Rightarrow> (Continue (CallFail run expectedRevision frame startedAt ''invalid-entry-node''), s)
      | Some child \<Rightarrow>
          (case wdStartNodeIds child of
             [] \<Rightarrow> (Continue (CallFail run expectedRevision frame startedAt ''invalid-entry-node''), s)
           | entry # rest \<Rightarrow>
               (let k = length (attemptsForNode (Some frame) nodeId) + 1;
                    parentAttemptId = attemptIdOf invId nodeId k;
                    childFrame = createChildWorkflowInvocationFrame frame nodeId parentAttemptId child boundInputs startedAt;
                    parentAttempt = createNodeAttemptRecord frame nodeId CallNode (wdWorkflowId child) startedAt None
                      (Some (ivInvocationId childFrame))
                in orRaise (upsertInvocationFrame run (recordNodeAttempt frame parentAttempt)) s (\<lambda>withParent.
                     orRaise (upsertInvocationFrame withParent childFrame) s (\<lambda>nextRun.
                       (Continue (CallDispatch nextRun expectedRevision (ivInvocationId childFrame) entry startedAt), s))))))"

fun bindingCode :: "BindingFailureCode \<Rightarrow> string" where
  "bindingCode MissingRequiredInput = ''missing-required-input''"
| "bindingCode MissingRequiredOutput = ''missing-required-output''"
| "bindingCode CollectionSelectionViolation = ''collection-selection-violation''"

definition dispatchNode ::
  "coord_env \<Rightarrow> ConnectedWorkflowRun \<Rightarrow> int \<Rightarrow> string \<Rightarrow> string \<Rightarrow> int \<Rightarrow> coord_store \<Rightarrow> coord_tail \<times> coord_store" where
  "dispatchNode env run expectedRevision invId nodeId startedAt s =
     (case (cwClosure run, map_of (cwInvocations run) invId) of
        (Some closure, Some frame) \<Rightarrow>
          (case map_of (fcWorkflows closure) (ivWorkflowId frame) of
             None \<Rightarrow> (Continue (CallFail run expectedRevision frame startedAt ''invalid-entry-node''), s)
           | Some workflow \<Rightarrow>
               (case findNode workflow nodeId of
                  None \<Rightarrow> (Continue (CallFail run expectedRevision frame startedAt ''invalid-entry-node''), s)
                | Some node \<Rightarrow>
                    (let handoff = latestInputEnvelopeForTarget run invId nodeId
                     in (case resolveNodeInputBindings workflow frame nodeId (targetPortsOf closure node)
                                (map_option ieInputsByPort handoff) of
                           Unbound code field \<Rightarrow> (Continue (CallFail run expectedRevision frame startedAt (bindingCode code)), s)
                         | Bound boundInputs \<Rightarrow>
                             (case nodeKindOf node of
                                PhaseNode \<Rightarrow>
                                  if (case wnPhaseId node of Some p \<Rightarrow> p | None \<Rightarrow> []) \<notin> set (fcPhases closure)
                                  then (Continue (CallFail run expectedRevision frame startedAt ''workflow-closure-invalid''), s)
                                  else dispatchPhaseNode env run expectedRevision invId frame node nodeId boundInputs
                                         (case handoff of Some e \<Rightarrow> e
                                          | None \<Rightarrow> \<lparr>ieInvocationId = invId, ieTargetNodeId = nodeId, ieSource = EnvBinding,
                                                     ieInputsByPort = boundInputs, ieAcceptedAt = startedAt\<rparr>)
                                         startedAt s
                              | CallNode \<Rightarrow> dispatchCallNode closure run expectedRevision invId frame node nodeId boundInputs startedAt s)))))
      | _ \<Rightarrow> (Finished (WorkflowFailed run invId ''workflow-closure-invalid''), s))"

subsection \<open>Settling an attempt\<close>

definition chooseAttempt :: "NodeAttemptRecord list \<Rightarrow> nat option \<Rightarrow> NodeAttemptRecord option" where
  "chooseAttempt attempts attemptIndex =
     (case attemptIndex of
        None \<Rightarrow> if attempts = [] then None else Some (last attempts)
      | Some i \<Rightarrow>
          (case List.find (\<lambda>a. naAttemptIndex a = i) attempts of
             Some a \<Rightarrow> Some a
           | None \<Rightarrow> if i < length attempts then Some (attempts ! i) else None))"

definition settleRecord ::
  "NodeAttemptRecord \<Rightarrow> WorkflowNodeTerminalStatus \<Rightarrow> int \<Rightarrow> port_values option \<Rightarrow> bool option option \<Rightarrow> string option \<Rightarrow> NodeAttemptRecord" where
  "settleRecord a status completedAt outputs verdict code =
     a\<lparr>naStatus := Ended status, naCompletedAt := Some completedAt,
       naDeclaredOutputs := (case outputs of Some vs \<Rightarrow> vs | None \<Rightarrow> naDeclaredOutputs a),
       naVerdict := (case verdict of Some v \<Rightarrow> Some v | None \<Rightarrow> naVerdict a),
       naFailureCode := (case code of Some c \<Rightarrow> Some c | None \<Rightarrow> naFailureCode a)\<rparr>"

fun decisionOf :: "SelectedTransition \<Rightarrow> RoutingDecision" where
  "decisionOf (TransitionTo d i c t h) = d"
| "decisionOf (TerminalSink d) = d"
| "decisionOf (NoEligibleTransition d) = d"
| "decisionOf (UnhandledNodeFailure d) = d"

text \<open>The frame returns: its public outputs complete it and settle the call of its parent.\<close>

definition completeFrame ::
  "coord_env \<Rightarrow> WorkflowDefinition \<Rightarrow> ConnectedWorkflowRun \<Rightarrow> int \<Rightarrow> WorkflowInvocationFrame \<Rightarrow> int \<Rightarrow> coord_store \<Rightarrow> coord_tail \<times> coord_store" where
  "completeFrame env workflow run expectedRevision frame completedAt s =
     (case resolveWorkflowPublicOutputs workflow frame of
        Unbound code field \<Rightarrow> (Continue (CallFail run expectedRevision frame completedAt (bindingCode code)), s)
      | Bound outputs \<Rightarrow>
          (let completed = frame\<lparr>ivActiveNodeId := None, ivStatus := FrEnded NodeCompleted, ivCompletedAt := Some completedAt,
                                 ivResolvedOutputs := outputs\<rparr>
           in orRaise (upsertInvocationFrame run completed) s (\<lambda>nextRun.
                (case parentAttemptOf nextRun completed of
                   Some (parent, a) \<Rightarrow>
                     (Continue (CallSettle nextRun expectedRevision (ivInvocationId parent) (naNodeId a) (Some (naAttemptIndex a))
                        NodeCompleted completedAt (Some outputs) None None), s)
                 | None \<Rightarrow> persistRunStep env nextRun expectedRevision (\<lambda>persisted. WorkflowCompleted persisted outputs) s))))"

definition waitForHandoff ::
  "coord_env \<Rightarrow> FrozenWorkflowClosure \<Rightarrow> WorkflowDefinition \<Rightarrow> ConnectedWorkflowRun \<Rightarrow> int \<Rightarrow> string \<Rightarrow> WorkflowInvocationFrame \<Rightarrow>
   string \<Rightarrow> string \<Rightarrow> nat \<Rightarrow> string \<Rightarrow> int \<Rightarrow> coord_store \<Rightarrow> coord_tail \<times> coord_store" where
  "waitForHandoff env closure workflow run expectedRevision invId frame nodeId attemptId connectionIndex target completedAt s =
     (let ports = (case findNode workflow target of
                     Some node \<Rightarrow> targetPortsOf closure node
                   | None \<Rightarrow> (case map_of (fcWorkflows closure) [] of Some w \<Rightarrow> wdInputs w | None \<Rightarrow> None));
          prefilled = (case resolveNodeInputBindings workflow frame target ports None of Bound r \<Rightarrow> r | Unbound code field \<Rightarrow> []);
          handoff = \<lparr>phInvocationId = invId, phFromNodeId = nodeId, phFromAttemptId = attemptId,
                     phConnectionIndex = connectionIndex, phTarget = ToNode target, phPrefilled = prefilled,
                     phPausedAt = completedAt\<rparr>
      in orRaise (upsertInvocationFrame run (frame\<lparr>ivActiveNodeId := Some target, ivStatus := FrWaiting,
                                                   ivPendingHandoff := Some handoff\<rparr>)) s (\<lambda>withFrame.
           orRaise (setPendingHandoff withFrame (Some handoff)) s (\<lambda>nextRun.
             persistRunStep env nextRun expectedRevision
               (\<lambda>persisted. WaitingForHandoff persisted invId nodeId target) s)))"

text \<open>Where the command goes once the decision of the settled attempt is recorded.\<close>

definition followTransition ::
  "coord_env \<Rightarrow> FrozenWorkflowClosure \<Rightarrow> WorkflowDefinition \<Rightarrow> int \<Rightarrow> string \<Rightarrow> WorkflowInvocationFrame \<Rightarrow> string \<Rightarrow>
   NodeAttemptRecord \<Rightarrow> WorkflowNodeTerminalStatus \<Rightarrow> int \<Rightarrow> SelectedTransition \<Rightarrow> ConnectedWorkflowRun \<Rightarrow> coord_store \<Rightarrow>
   coord_tail \<times> coord_store" where
  "followTransition env closure workflow expectedRevision invId updated nodeId settled status completedAt chosen nextRun s =
     (case chosen of
        UnhandledNodeFailure d \<Rightarrow>
          if status = NodeCanceled then (Continue (CallCancel nextRun expectedRevision updated completedAt), s)
          else (Continue (CallFail nextRun expectedRevision updated completedAt ''unhandled-node-failure''), s)
      | NoEligibleTransition d \<Rightarrow>
          (Continue (CallFail nextRun expectedRevision updated completedAt ''no-eligible-transition''), s)
      | TerminalSink d \<Rightarrow> completeFrame env workflow nextRun expectedRevision updated completedAt s
      | TransitionTo d i c ToReturn h \<Rightarrow> completeFrame env workflow nextRun expectedRevision updated completedAt s
      | TransitionTo d i c (ToNode target) HandoffManual \<Rightarrow>
          waitForHandoff env closure workflow nextRun expectedRevision invId updated nodeId
            (naAttemptId settled) i target completedAt s
      | TransitionTo d i c (ToNode target) HandoffAuto \<Rightarrow>
          (Continue (CallDispatch nextRun expectedRevision invId target completedAt), s))"

definition settleAttempt ::
  "coord_env \<Rightarrow> ConnectedWorkflowRun \<Rightarrow> int \<Rightarrow> string \<Rightarrow> string \<Rightarrow> nat option \<Rightarrow> WorkflowNodeTerminalStatus \<Rightarrow> int \<Rightarrow>
   port_values option \<Rightarrow> bool option option \<Rightarrow> string option \<Rightarrow> coord_store \<Rightarrow> coord_tail \<times> coord_store" where
  "settleAttempt env run expectedRevision invId nodeId attemptIndex status completedAt outputs verdict code s =
     (case (cwClosure run, map_of (cwInvocations run) invId) of
        (Some closure, Some frame) \<Rightarrow>
          (case map_of (fcWorkflows closure) (ivWorkflowId frame) of
             None \<Rightarrow> (Finished (WorkflowFailed run invId ''workflow-closure-invalid''), s)
           | Some workflow \<Rightarrow>
               (case chooseAttempt (attemptsForNode (Some frame) nodeId) attemptIndex of
                  None \<Rightarrow> (Finished (WorkflowFailed run invId ''unhandled-node-failure''), s)
                | Some existing \<Rightarrow>
                    (let settled = settleRecord existing status completedAt outputs verdict code;
                         frameWithAttempt = recordNodeAttempt frame settled
                     in orRaise (buildInvocationConditionContext frameWithAttempt (Some settled)) s (\<lambda>ctx.
                          (let transition = selectNextTransition workflow nodeId (naAttemptIndex settled) completedAt ctx (Some status);
                               updated = frameWithAttempt\<lparr>ivDecisions := ivDecisions frameWithAttempt @ [decisionOf transition]\<rparr>
                           in orRaise (upsertInvocationFrame run updated) s (\<lambda>nextRun.
                                followTransition env closure workflow expectedRevision invId updated nodeId settled status
                                  completedAt transition nextRun s))))))
      | _ \<Rightarrow> (Finished (WorkflowFailed run invId ''workflow-closure-invalid''), s))"

subsection \<open>The coordinator\<close>

fun stepCall :: "coord_env \<Rightarrow> coord_call \<Rightarrow> coord_store \<Rightarrow> coord_tail \<times> coord_store" where
  "stepCall env (CallDispatch run rv invId nodeId t) s = dispatchNode env run rv invId nodeId t s"
| "stepCall env (CallSettle run rv invId nodeId k status t outputs verdict code) s =
     settleAttempt env run rv invId nodeId k status t outputs verdict code s"
| "stepCall env (CallFail run rv frame t code) s = failFrame env run rv frame t code s"
| "stepCall env (CallCancel run rv frame t) s = cancelFrame env run rv frame t s"

partial_function (option) runCalls ::
  "coord_env \<Rightarrow> coord_call \<Rightarrow> coord_store \<Rightarrow> (ComposableWorkflowStepResult option \<times> coord_store) option" where
  "runCalls env c s =
     (case stepCall env c s of
        (Continue c', s') \<Rightarrow> runCalls env c' s'
      | (Finished r, s') \<Rightarrow> Some (Some r, s')
      | (Raised, s') \<Rightarrow> Some (None, s'))"

definition dispatchComposableNode ::
  "coord_env \<Rightarrow> ConnectedWorkflowRun \<Rightarrow> string \<Rightarrow> string \<Rightarrow> int \<Rightarrow> coord_store \<Rightarrow> (ComposableWorkflowStepResult option \<times> coord_store) option" where
  "dispatchComposableNode env run invId nodeId startedAt s =
     runCalls env (CallDispatch run (cwRevision run) invId nodeId startedAt) s"

definition completeComposableNodeAttempt ::
  "coord_env \<Rightarrow> ConnectedWorkflowRun \<Rightarrow> string \<Rightarrow> string \<Rightarrow> nat option \<Rightarrow> WorkflowNodeTerminalStatus \<Rightarrow> int \<Rightarrow>
   port_values option \<Rightarrow> bool option option \<Rightarrow> string option \<Rightarrow> coord_store \<Rightarrow> (ComposableWorkflowStepResult option \<times> coord_store) option" where
  "completeComposableNodeAttempt env run invId nodeId attemptIndex status completedAt outputs verdict code s =
     runCalls env (CallSettle run (cwRevision run) invId nodeId attemptIndex status completedAt outputs verdict code) s"

end
