(* ===== verification/WorkflowTermination.thy ===== *)
theory WorkflowTermination
  imports WorkflowStep
begin

text \<open>
  A coordinator command ends.  The coordinator calls itself from settling to dispatching, from a dispatch
  into the entry of a called Workflow, and from the end of a frame into the settling of its parent's attempt.
  Workflow definitions are validated to be acyclic, both in their connections and in what they include; under
  that condition, and over frames whose parents were created before them, no chain of such calls is infinite.
  The argument is nested: by inclusion for the calls into a Workflow, by the connections within one, and by
  the length of the invocation id for the returns to parents.
\<close>

subsection \<open>Frames and runs\<close>

text \<open>What an update of a frame never changes: its Workflow and the call that made it.\<close>

definition skeleton :: "WorkflowInvocationFrame \<Rightarrow> string \<times> string option \<times> string option" where
  "skeleton f = (ivWorkflowId f, ivParentInvocationId f, ivParentCallNodeId f)"

definition attemptsFiled :: "WorkflowInvocationFrame \<Rightarrow> bool" where
  "attemptsFiled f \<longleftrightarrow> (\<forall>n. \<forall>a \<in> set (attemptsForNode (Some f) n). naNodeId a = n)"

definition frameBorn :: "string \<times> WorkflowInvocationFrame \<Rightarrow> bool" where
  "frameBorn = (\<lambda>(k, f). ivInvocationId f = k \<and> attemptsFiled f \<and>
     (case ivParentInvocationId f of None \<Rightarrow> True | Some p \<Rightarrow> length p < length k))"

definition runBorn :: "FrozenWorkflowClosure \<Rightarrow> ConnectedWorkflowRun \<Rightarrow> bool" where
  "runBorn cl run \<longleftrightarrow> cwClosure run = Some cl \<and> (\<forall>k f. map_of (cwInvocations run) k = Some f \<longrightarrow> frameBorn (k, f))"

text \<open>A later run still has the frames with ids up to a length.\<close>

definition keepsFrames :: "nat \<Rightarrow> ConnectedWorkflowRun \<Rightarrow> ConnectedWorkflowRun \<Rightarrow> bool" where
  "keepsFrames l run run' \<longleftrightarrow>
     (\<forall>k f. length k \<le> l \<longrightarrow> map_of (cwInvocations run) k = Some f \<longrightarrow>
        (\<exists>f'. map_of (cwInvocations run') k = Some f' \<and> skeleton f' = skeleton f))"

lemma keepsFrames_refl [simp]: "keepsFrames l run run"
  by (simp add: keepsFrames_def)

lemma keepsFrames_trans: "keepsFrames l run run' \<Longrightarrow> keepsFrames l run' run'' \<Longrightarrow> keepsFrames l run run''"
  unfolding keepsFrames_def by metis

lemma keepsFrames_less: "keepsFrames l run run' \<Longrightarrow> k \<le> l \<Longrightarrow> keepsFrames k run run'"
  unfolding keepsFrames_def by (meson le_trans)

lemma upsert_Some:
  "upsertInvocationFrame run f = Some run' \<Longrightarrow>
     cwClosure run' = cwClosure run \<and> map_of (cwInvocations run') = (map_of (cwInvocations run))(ivInvocationId f \<mapsto> f)"
  by (auto simp: upsertInvocationFrame_def checked_def bumped_def update_conv' split: if_splits)

lemma handoff_Some:
  "setPendingHandoff run h = Some run' \<Longrightarrow> cwClosure run' = cwClosure run \<and> cwInvocations run' = cwInvocations run"
  by (auto simp: setPendingHandoff_def checked_def bumped_def split: if_splits)

lemma upsert_born:
  assumes "runBorn cl run" "upsertInvocationFrame run f = Some run'" "frameBorn (ivInvocationId f, f)"
  shows "runBorn cl run'"
  using assms upsert_Some [OF assms(2)] by (auto simp: runBorn_def)

lemma upsert_keeps:
  assumes "upsertInvocationFrame run f = Some run'"
    and "length (ivInvocationId f) \<le> l \<Longrightarrow> map_of (cwInvocations run) (ivInvocationId f) = Some g \<and> skeleton g = skeleton f"
  shows "keepsFrames l run run'"
  using assms(2) upsert_Some [OF assms(1)] by (auto simp: keepsFrames_def)

lemma attempts_update:
  "attemptsForNode (Some (f\<lparr>ivActiveNodeId := x, ivAttempts := AList.update n xs (ivAttempts f)\<rparr>)) m =
     (if m = n then xs else attemptsForNode (Some f) m)"
  by (simp add: attemptsForNode_def update_conv')

lemma record_filed:
  assumes "attemptsFiled f"
  shows "attemptsFiled (recordNodeAttempt f a)"
proof -
  have "naNodeId x = m" if "x \<in> set (attemptsForNode (Some (recordNodeAttempt f a)) m)" for x m
    using that assms by (auto simp: recordNodeAttempt_def attempts_update Let_def attemptsFiled_def split: if_splits)
  then show ?thesis by (simp add: attemptsFiled_def)
qed

lemma record_simps [simp]:
  "skeleton (recordNodeAttempt f a) = skeleton f" "ivInvocationId (recordNodeAttempt f a) = ivInvocationId f"
  by (simp_all add: recordNodeAttempt_def skeleton_def Let_def)

lemma filed_attempts: "ivAttempts f = ivAttempts g \<Longrightarrow> attemptsFiled f = attemptsFiled g"
  by (simp add: attemptsFiled_def attemptsForNode_def)

subsection \<open>Commands that end\<close>

definition ends :: "coord_env \<Rightarrow> coord_call \<Rightarrow> bool" where
  "ends env c \<longleftrightarrow> (\<forall>s. \<exists>r. runCalls env c s = Some r)"

lemma endsI:
  assumes "\<And>s s' c'. stepCall env c s = (Continue c', s') \<Longrightarrow> ends env c'"
  shows "ends env c"
  unfolding ends_def
proof
  fix s
  obtain tl' s' where st: "stepCall env c s = (tl', s')" by fastforce
  show "\<exists>r. runCalls env c s = Some r"
  proof (cases tl')
    case (Continue c')
    then have "ends env c'" using assms st by blast
    then show ?thesis using st Continue by (subst runCalls.simps) (simp add: ends_def)
  qed (use st in \<open>subst runCalls.simps; simp\<close>)+
qed

definition settleEnds :: "coord_env \<Rightarrow> ConnectedWorkflowRun \<Rightarrow> string \<Rightarrow> string \<Rightarrow> bool" where
  "settleEnds env run i n \<longleftrightarrow> (\<forall>rv k st t outs v code. ends env (CallSettle run rv i n k st t outs v code))"

definition dispatchEnds :: "coord_env \<Rightarrow> ConnectedWorkflowRun \<Rightarrow> string \<Rightarrow> string \<Rightarrow> bool" where
  "dispatchEnds env run i n \<longleftrightarrow> (\<forall>rv t. ends env (CallDispatch run rv i n t))"

text \<open>Settling the call that made a frame ends, in every later run.\<close>

definition returnEnds :: "coord_env \<Rightarrow> FrozenWorkflowClosure \<Rightarrow> nat \<Rightarrow> ConnectedWorkflowRun \<Rightarrow> WorkflowInvocationFrame \<Rightarrow> bool" where
  "returnEnds env cl l run f \<longleftrightarrow>
     (\<forall>p n run'. ivParentInvocationId f = Some p \<longrightarrow> ivParentCallNodeId f = Some n \<longrightarrow> runBorn cl run' \<longrightarrow>
        keepsFrames l run run' \<longrightarrow> settleEnds env run' p n)"

definition inside :: "coord_env \<Rightarrow> FrozenWorkflowClosure \<Rightarrow> string \<Rightarrow> string \<Rightarrow> ConnectedWorkflowRun \<Rightarrow> bool" where
  "inside env cl i w run \<longleftrightarrow> runBorn cl run \<and>
     (\<exists>f. map_of (cwInvocations run) i = Some f \<and> ivWorkflowId f = w \<and> returnEnds env cl (length i) run f)"

definition updates :: "ConnectedWorkflowRun \<Rightarrow> string \<Rightarrow> WorkflowInvocationFrame \<Rightarrow> bool" where
  "updates run i f' \<longleftrightarrow> ivInvocationId f' = i \<and> attemptsFiled f' \<and>
     (\<exists>f. map_of (cwInvocations run) i = Some f \<and> skeleton f' = skeleton f)"

lemma inside_later:
  assumes "inside env cl i w run" "runBorn cl run'" "keepsFrames (length i) run run'"
  shows "inside env cl i w run'"
proof -
  obtain f where f: "map_of (cwInvocations run) i = Some f" "ivWorkflowId f = w" "returnEnds env cl (length i) run f"
    using assms(1) unfolding inside_def by blast
  obtain f' where f': "map_of (cwInvocations run') i = Some f'" "skeleton f' = skeleton f"
    using assms(3) f(1) unfolding keepsFrames_def by blast
  have "returnEnds env cl (length i) run' f'"
    using f(3) f'(2) keepsFrames_trans [OF assms(3)] unfolding returnEnds_def skeleton_def by simp
  then show ?thesis using f' f(2) assms(2) by (auto simp: inside_def skeleton_def)
qed

lemma updates_upsert:
  assumes "runBorn cl run" "updates run i f'" "upsertInvocationFrame run f' = Some run'"
  shows "runBorn cl run'" "keepsFrames l run run'" "map_of (cwInvocations run') i = Some f'" "updates run' i f'"
proof -
  obtain f where f: "map_of (cwInvocations run) i = Some f" "skeleton f' = skeleton f" "ivInvocationId f' = i" "attemptsFiled f'"
    using assms(2) unfolding updates_def by blast
  have "frameBorn (i, f)" using assms(1) f(1) by (simp add: runBorn_def)
  then have "frameBorn (ivInvocationId f', f')" using f(2-4) by (simp add: frameBorn_def skeleton_def)
  then show "runBorn cl run'" by (rule upsert_born [OF assms(1,3)])
  show "keepsFrames l run run'" by (rule upsert_keeps [OF assms(3)]) (use f in simp)
  show "map_of (cwInvocations run') i = Some f'" using upsert_Some [OF assms(3)] f(3) by simp
  then show "updates run' i f'" using f by (simp add: updates_def)
qed

lemma inside_frame: "inside env cl i w run \<Longrightarrow> map_of (cwInvocations run) i = Some f \<Longrightarrow> updates run i f \<and> ivWorkflowId f = w"
  by (auto simp: inside_def updates_def runBorn_def frameBorn_def)

lemma updates_simps [simp]:
  "updates run i (f\<lparr>ivActiveNodeId := x\<rparr>) = updates run i f" "updates run i (f\<lparr>ivStatus := st\<rparr>) = updates run i f"
  "updates run i (f\<lparr>ivCompletedAt := t\<rparr>) = updates run i f" "updates run i (f\<lparr>ivFailureCode := c\<rparr>) = updates run i f"
  "updates run i (f\<lparr>ivPendingHandoff := h\<rparr>) = updates run i f" "updates run i (f\<lparr>ivControlMarkers := m\<rparr>) = updates run i f"
  "updates run i (f\<lparr>ivResolvedOutputs := os\<rparr>) = updates run i f" "updates run i (f\<lparr>ivDecisions := ds\<rparr>) = updates run i f"
  by (simp_all add: updates_def skeleton_def attemptsFiled_def attemptsForNode_def)

lemma updates_record [simp]: "updates run i f \<Longrightarrow> updates run i (recordNodeAttempt f a)"
  by (simp add: updates_def record_filed)

subsection \<open>Leaving a frame\<close>

lemma parent_attempt:
  assumes "parentAttemptOf run f = Some (parent, a)" "runBorn cl run"
  shows "ivParentInvocationId f = Some (ivInvocationId parent) \<and> ivParentCallNodeId f = Some (naNodeId a)"
proof -
  obtain p n where pn: "ivParentInvocationId f = Some p" "ivParentCallNodeId f = Some n" "map_of (cwInvocations run) p = Some parent"
    "List.find (\<lambda>a. naChildInvocationId a = Some (ivInvocationId f)) (attemptsForNode (Some parent) n) = Some a"
    using assms(1) by (auto simp: parentAttemptOf_def split: option.splits)
  then have "a \<in> set (attemptsForNode (Some parent) n)" by (auto simp: find_Some_iff)
  moreover have "frameBorn (p, parent)" using assms(2) pn(3) by (simp add: runBorn_def)
  ultimately show ?thesis using pn by (auto simp: frameBorn_def attemptsFiled_def)
qed

lemma return_ends:
  assumes "upsertInvocationFrame run f' = Some run'" "parentAttemptOf run' f' = Some (parent, a)" "inside env cl i w run" "updates run i f'"
  shows "ends env (CallSettle run' rv (ivInvocationId parent) (naNodeId a) k st t outs v code)"
proof -
  have b: "runBorn cl run" using assms(3) by (simp add: inside_def)
  note u = updates_upsert [OF b assms(4,1)]
  obtain f where f: "map_of (cwInvocations run) i = Some f" "returnEnds env cl (length i) run f"
    using assms(3) unfolding inside_def by blast
  have "skeleton f' = skeleton f" using assms(4) f(1) by (auto simp: updates_def)
  then show ?thesis using parent_attempt [OF assms(2) u(1)] f(2) u(1) u(2) [of "length i"]
    by (auto simp: returnEnds_def skeleton_def settleEnds_def)
qed

lemma orRaise_Continue [simp]:
  "orRaise x s k = (Continue c, s') \<longleftrightarrow> (\<exists>y. x = Some y \<and> k y = (Continue c, s'))"
  by (simp add: orRaise_def split: option.split)

lemma persist_Continue [simp]: "persistRunStep env next' rv b s \<noteq> (Continue c, s')"
  by (simp add: persistRunStep_def split: prod.split ConnectedRunWriteResult.split)

lemma fail_ends:
  assumes "inside env cl i w run" "updates run i f"
  shows "ends env (CallFail run rv f t code)"
proof (rule endsI)
  fix s s' c'
  assume "stepCall env (CallFail run rv f t code) s = (Continue c', s')"
  then show "ends env c'" using assms
    by (auto simp: failFrame_def Let_def split: option.splits prod.splits) (erule (2) return_ends, simp)
qed

lemma cancel_ends:
  assumes "inside env cl i w run" "updates run i f"
  shows "ends env (CallCancel run rv f t)"
proof (rule endsI)
  fix s s' c'
  assume "stepCall env (CallCancel run rv f t) s = (Continue c', s')"
  then show "ends env c'" using assms
    by (auto simp: cancelFrame_def Let_def split: option.splits prod.splits) (erule (2) return_ends, simp)
qed

lemma complete_ends:
  assumes "inside env cl i w run" "updates run i f" "completeFrame env wf' run rv f t s = (Continue c, s')"
  shows "ends env c"
  using assms(3,1,2) fail_ends [OF assms(1,2)]
  by (auto simp: completeFrame_def Let_def split: BindingResolution.splits option.splits prod.splits) (erule (2) return_ends, simp)

subsection \<open>Dispatching\<close>

definition nodeEdges :: "WorkflowDefinition \<Rightarrow> (string \<times> string) set" where
  "nodeEdges w = {(wcFrom c, m) | c m. c \<in> set (wdConnections w) \<and> wcTo c = ToNode m}"

definition inclusions :: "FrozenWorkflowClosure \<Rightarrow> (string \<times> string) set" where
  "inclusions cl = {(k, calledWorkflowId n) | k w n. (k, w) \<in> set (fcWorkflows cl) \<and> n \<in> set (wdNodes w) \<and>
     nodeKindOf n = CallNode}"

definition closureAcyclic :: "FrozenWorkflowClosure \<Rightarrow> bool" where
  "closureAcyclic cl \<longleftrightarrow> (\<forall>(k, w) \<in> set (fcWorkflows cl). wdWorkflowId w = k \<and> acyclic (nodeEdges w)) \<and> acyclic (inclusions cl)"

lemma cas_written: "compareAndSetConnectedRun env r e s = (CasWritten r', s') \<Longrightarrow> r' = r"
  by (auto simp: compareAndSetConnectedRun_def Let_def split: if_splits)

lemma rebind_Continue [simp]: "rebindEnqueued env i p q b cur s \<noteq> (Continue c, s')"
  by (simp add: rebindEnqueued_def Let_def split: option.split prod.split ConnectedRunWriteResult.split)

lemma bind_Continue [simp]: "bindEnqueued env i p f pre q s \<noteq> (Continue c, s')"
  by (simp add: bindEnqueued_def Let_def orRaise_def split: option.split prod.split ConnectedRunWriteResult.split)

lemma dispatchPending_Continue:
  "dispatchPending env i p f node b e t pre s = (Continue c, s') \<Longrightarrow> \<exists>a reason. c = CallFail pre (cwRevision pre) (recordNodeAttempt f a) t reason"
  by (auto simp: dispatchPending_def Let_def split: prod.splits PhaseAttemptDispatchResult.splits)

lemma dispatchPhase_Continue:
  assumes "dispatchPhaseNode env run rv i frame node n b e t s = (Continue c, s')"
  shows "\<exists>p pre a rv' reason. upsertInvocationFrame run (recordNodeAttempt frame p) = Some pre \<and>
     c = CallFail pre rv' (recordNodeAttempt (recordNodeAttempt frame p) a) t reason"
proof -
  define p where "p = createNodeAttemptRecord frame n PhaseNode (case wnPhaseId node of Some p \<Rightarrow> p | None \<Rightarrow> []) t (Some PendingDispatch) None"
  obtain pre where pre: "upsertInvocationFrame run (recordNodeAttempt frame p) = Some pre"
    and d: "(case compareAndSetConnectedRun env pre rv s of
        (CasStale current, s') \<Rightarrow> (Finished (StepRejectedStale current), s')
      | (CasThrown, s') \<Rightarrow> (Raised, s')
      | (CasWritten pre, s') \<Rightarrow> dispatchPending env i p (recordNodeAttempt frame p) node b e t pre s') = (Continue c, s')"
    using assms unfolding dispatchPhaseNode_def Let_def orRaise_Continue p_def by blast
  obtain s1 where "dispatchPending env i p (recordNodeAttempt frame p) node b e t pre s1 = (Continue c, s')"
    using d by (auto split: prod.splits ConnectedRunWriteResult.splits dest: cas_written)
  from dispatchPending_Continue [OF this] obtain a reason
    where "c = CallFail pre (cwRevision pre) (recordNodeAttempt (recordNodeAttempt frame p) a) t reason" by blast
  then show ?thesis using pre by (intro exI conjI)
qed

lemma dispatchPhase_ends:
  assumes "inside env cl i w run" "updates run i frame" "dispatchPhaseNode env run rv i' frame node n b e t s = (Continue c, s')"
  shows "ends env c"
proof -
  have r: "runBorn cl run" using assms(1) by (simp add: inside_def)
  obtain p pre a rv' reason where p: "upsertInvocationFrame run (recordNodeAttempt frame p) = Some pre"
    and c: "c = CallFail pre rv' (recordNodeAttempt (recordNodeAttempt frame p) a) t reason"
    using dispatchPhase_Continue [OF assms(3)] by blast
  note u = updates_upsert [OF r updates_record [OF assms(2)] p]
  have "inside env cl i w pre" by (rule inside_later [OF assms(1) u(1,2)])
  then show ?thesis unfolding c by (rule fail_ends [OF _ updates_record [OF u(4)]])
qed

lemma no_attempts [simp]: "attemptsForNode (Some (createChildWorkflowInvocationFrame f n a w b t)) m = []"
  by (simp add: attemptsForNode_def createChildWorkflowInvocationFrame_def createInvocationFrame_def)

lemma child_simps [simp]:
  "ivInvocationId (createChildWorkflowInvocationFrame f n a w b t) = ivInvocationId f @ '':'' @ n @ '':'' @ a"
  "ivParentInvocationId (createChildWorkflowInvocationFrame f n a w b t) = Some (ivInvocationId f)"
  "ivParentCallNodeId (createChildWorkflowInvocationFrame f n a w b t) = Some n"
  "ivWorkflowId (createChildWorkflowInvocationFrame f n a w b t) = wdWorkflowId w"
  by (simp_all add: createChildWorkflowInvocationFrame_def createInvocationFrame_def)

text \<open>Entering a called Workflow: the child is inside it, and its return settles the call node.\<close>

lemma dispatchCall_ends:
  assumes ok: "inside env cl i w run" and up: "updates run i frame"
    and w': "\<And>child. map_of (fcWorkflows cl) (calledWorkflowId node) = Some child \<Longrightarrow> wdWorkflowId child = w'"
    and calls: "\<And>j run' m. inside env cl j w' run' \<Longrightarrow> dispatchEnds env run' j m"
    and settle: "\<And>run'. inside env cl i w run' \<Longrightarrow> settleEnds env run' i n"
    and c: "dispatchCallNode cl run rv i frame node n b t s = (Continue c, s')"
  shows "ends env c"
proof (cases "\<exists>rv code. c = CallFail run rv frame t code")
  case True
  then show ?thesis using fail_ends [OF ok up] by blast
next
  case False
  have r: "runBorn cl run" using ok by (simp add: inside_def)
  have i: "ivInvocationId frame = i" using up by (simp add: updates_def)
  obtain child a pa withParent next' entry where child: "map_of (fcWorkflows cl) (calledWorkflowId node) = Some child"
    and wp: "upsertInvocationFrame run (recordNodeAttempt frame pa) = Some withParent"
    and nx: "upsertInvocationFrame withParent (createChildWorkflowInvocationFrame frame n a child b t) = Some next'"
    and c': "c = CallDispatch next' rv (i @ '':'' @ n @ '':'' @ a) entry t"
    using c False i by (auto simp: dispatchCallNode_def Let_def split: option.splits list.splits)
  let ?f = "createChildWorkflowInvocationFrame frame n a child b t" and ?j = "i @ '':'' @ n @ '':'' @ a"
  note u = updates_upsert [OF r updates_record [OF up] wp]
  have inW: "inside env cl i w withParent" by (rule inside_later [OF ok u(1,2)])
  have b2: "runBorn cl next'"
    by (rule upsert_born [OF u(1) nx]) (simp add: frameBorn_def i attemptsFiled_def)
  have k: "keepsFrames (length i) withParent next'" by (rule upsert_keeps [OF nx]) (simp add: i)
  have inN: "inside env cl i w next'" by (rule inside_later [OF inW b2 k])
  have "returnEnds env cl (length ?j) next' ?f"
    unfolding returnEnds_def
  proof (intro allI impI)
    fix p m run'
    assume "ivParentInvocationId ?f = Some p" "ivParentCallNodeId ?f = Some m" "runBorn cl run'" "keepsFrames (length ?j) next' run'"
    then have "p = i" "m = n" "inside env cl i w run'"
      using inside_later [OF inN] keepsFrames_less [of "length ?j" next' run' "length i"] i by auto
    then show "settleEnds env run' p m" using settle by simp
  qed
  then have "inside env cl ?j w' next'"
    using b2 w' [OF child] upsert_Some [OF nx] i by (auto simp: inside_def)
  then show ?thesis unfolding c' using calls by (simp add: dispatchEnds_def)
qed

lemma dispatch_ends:
  assumes ok: "inside env cl i w run" and cl: "closureAcyclic cl"
    and calls: "\<And>w' j run' m. (w, w') \<in> inclusions cl \<Longrightarrow> inside env cl j w' run' \<Longrightarrow> dispatchEnds env run' j m"
    and settle: "\<And>run'. inside env cl i w run' \<Longrightarrow> settleEnds env run' i n"
  shows "dispatchEnds env run i n"
  unfolding dispatchEnds_def
proof (intro allI, rule endsI)
  fix rv t s s' c'
  assume "stepCall env (CallDispatch run rv i n t) s = (Continue c', s')"
  then have d: "dispatchNode env run rv i n t s = (Continue c', s')" by simp
  have cw: "cwClosure run = Some cl" using ok by (simp add: inside_def runBorn_def)
  obtain frame where f: "map_of (cwInvocations run) i = Some frame" "ivWorkflowId frame = w" "updates run i frame"
    using ok inside_frame [OF ok] unfolding inside_def by blast
  show "ends env c'"
  proof (cases "map_of (fcWorkflows cl) w")
    case None
    then show ?thesis using d f fail_ends [OF ok f(3)] by (auto simp: dispatchNode_def cw)
  next
    case w: (Some workflow)
    show ?thesis
    proof (cases "findNode workflow n")
      case None
      then show ?thesis using d f w fail_ends [OF ok f(3)] by (auto simp: dispatchNode_def cw)
    next
      case node: (Some node)
      then have "node \<in> set (wdNodes workflow)" by (auto simp: findNode_def find_Some_iff)
      then have inc: "nodeKindOf node = CallNode \<Longrightarrow> (w, calledWorkflowId node) \<in> inclusions cl"
        using map_of_SomeD [OF w] by (auto simp: inclusions_def)
      have ids: "wdWorkflowId child = calledWorkflowId node" if "map_of (fcWorkflows cl) (calledWorkflowId node) = Some child" for child
        using cl map_of_SomeD [OF that] by (auto simp: closureAcyclic_def)
      have "(\<exists>rv code. c' = CallFail run rv frame t code) \<or>
          (\<exists>b e. dispatchPhaseNode env run rv i frame node n b e t s = (Continue c', s')) \<or>
          nodeKindOf node = CallNode \<and> (\<exists>b. dispatchCallNode cl run rv i frame node n b t s = (Continue c', s'))"
        using d f w node by (auto simp: dispatchNode_def cw Let_def split: BindingResolution.splits WorkflowNodeKind.splits if_splits)
      then show ?thesis
        using fail_ends [OF ok f(3)] dispatchPhase_ends [OF ok f(3)] dispatchCall_ends [OF ok f(3) ids calls [OF inc] settle] by blast
    qed
  qed
qed

subsection \<open>Settling\<close>

lemma auto_transition:
  assumes "selectNextTransition g n k t ctx (Some st) = TransitionTo d j c (ToNode m) h"
  shows "(n, m) \<in> nodeEdges g"
proof -
  have "j \<in> set (rdEligible d)" "c = wdConnections g ! j" "wcTo c = ToNode m" "d = decideNextNodes g n k t ctx (st \<noteq> NodeCompleted)"
    using assms by (auto simp: selectNextTransition_def Let_def split: list.splits if_splits)
  then have "j \<in> set (edgesFrom g n)" using decision_parts(3) [of g n k t ctx "st \<noteq> NodeCompleted"]
    by (auto simp: routed_def offerable_def split: if_splits)
  then show ?thesis using \<open>c = _\<close> \<open>wcTo c = _\<close> by (force simp: edgesFrom_def nodeEdges_def)
qed

lemma chosen_filed: "attemptsFiled f \<Longrightarrow> chooseAttempt (attemptsForNode (Some f) n) k = Some a \<Longrightarrow> naNodeId a = n"
  by (auto simp: chooseAttempt_def attemptsFiled_def find_Some_iff split: option.splits if_splits)

lemma handoff_Continue [simp]: "waitForHandoff env cl w run rv i f n a j m t s \<noteq> (Continue c, s')"
  by (simp add: waitForHandoff_def Let_def orRaise_def split: option.split)

text \<open>What a settled attempt goes on with.\<close>

definition goesOn :: "coord_env \<Rightarrow> WorkflowDefinition \<Rightarrow> ConnectedWorkflowRun \<Rightarrow> string \<Rightarrow> WorkflowInvocationFrame \<Rightarrow> int \<Rightarrow> SelectedTransition \<Rightarrow> coord_call \<Rightarrow> bool" where
  "goesOn env workflow run i f t tr c \<longleftrightarrow>
     (\<exists>rv. c = CallCancel run rv f t) \<or> (\<exists>rv code. c = CallFail run rv f t code) \<or>
     (\<exists>rv s s'. completeFrame env workflow run rv f t s = (Continue c, s')) \<or>
     (\<exists>d j cn m h rv. tr = TransitionTo d j cn (ToNode m) h \<and> c = CallDispatch run rv i m t)"

lemma follow_Continue:
  assumes "followTransition env cl workflow rv i f n sr st t tr run s = (Continue c, s')"
  shows "goesOn env workflow run i f t tr c"
  using assms
  by (cases tr) (auto simp: followTransition_def goesOn_def split: TransitionTarget.splits WorkflowHandoffMode.splits if_splits)

lemma settle_Continue:
  assumes d: "settleAttempt env run rv i n k st t outs v code s = (Continue c, s')"
    and cw: "cwClosure run = Some cl" and f: "map_of (cwInvocations run) i = Some frame" "ivWorkflowId frame = w"
  shows "\<exists>workflow a ctx run' tr. map_of (fcWorkflows cl) w = Some workflow \<and>
     tr = selectNextTransition workflow n (naAttemptIndex (settleRecord a st t outs v code)) t ctx (Some st) \<and>
     upsertInvocationFrame run ((recordNodeAttempt frame (settleRecord a st t outs v code))
       \<lparr>ivDecisions := ivDecisions (recordNodeAttempt frame (settleRecord a st t outs v code)) @ [decisionOf tr]\<rparr>) = Some run' \<and>
     goesOn env workflow run' i ((recordNodeAttempt frame (settleRecord a st t outs v code))
       \<lparr>ivDecisions := ivDecisions (recordNodeAttempt frame (settleRecord a st t outs v code)) @ [decisionOf tr]\<rparr>) t tr c"
proof -
  obtain workflow where w: "map_of (fcWorkflows cl) w = Some workflow"
    using d f by (auto simp: settleAttempt_def cw split: option.splits)
  obtain a where a: "chooseAttempt (attemptsForNode (Some frame) n) k = Some a"
    using d f w by (auto simp: settleAttempt_def cw split: option.splits)
  define sr where "sr = settleRecord a st t outs v code"
  define fa where "fa = recordNodeAttempt frame sr"
  obtain ctx where ctx: "buildInvocationConditionContext fa (Some sr) = Some ctx"
    using d f w a by (auto simp: settleAttempt_def cw Let_def fa_def sr_def)
  define tr where "tr = selectNextTransition workflow n (naAttemptIndex sr) t ctx (Some st)"
  define f' where "f' = fa\<lparr>ivDecisions := ivDecisions fa @ [decisionOf tr]\<rparr>"
  obtain run' where up: "upsertInvocationFrame run f' = Some run'"
    and rest: "followTransition env cl workflow rv i f' n sr st t tr run' s = (Continue c, s')"
    using d f w a ctx unfolding f'_def tr_def fa_def sr_def by (auto simp: settleAttempt_def cw Let_def)
  have "goesOn env workflow run' i f' t tr c" by (rule follow_Continue [OF rest])
  then show ?thesis using w up unfolding f'_def fa_def tr_def sr_def by blast
qed

lemma settle_ends:
  assumes ok: "inside env cl i w run"
    and nxt: "\<And>workflow m run'. map_of (fcWorkflows cl) w = Some workflow \<Longrightarrow> (n, m) \<in> nodeEdges workflow \<Longrightarrow>
       inside env cl i w run' \<Longrightarrow> dispatchEnds env run' i m"
  shows "settleEnds env run i n"
  unfolding settleEnds_def
proof (intro allI, rule endsI)
  fix rv k st t outs v code s s' c'
  assume "stepCall env (CallSettle run rv i n k st t outs v code) s = (Continue c', s')"
  then have d: "settleAttempt env run rv i n k st t outs v code s = (Continue c', s')" by simp
  have cw: "cwClosure run = Some cl" and r: "runBorn cl run" using ok by (simp_all add: inside_def runBorn_def)
  obtain frame where f: "map_of (cwInvocations run) i = Some frame" "ivWorkflowId frame = w" "updates run i frame"
    using ok inside_frame [OF ok] unfolding inside_def by blast
  obtain workflow a ctx run' tr where w: "map_of (fcWorkflows cl) w = Some workflow"
    and tr: "tr = selectNextTransition workflow n (naAttemptIndex (settleRecord a st t outs v code)) t ctx (Some st)"
    and up: "upsertInvocationFrame run ((recordNodeAttempt frame (settleRecord a st t outs v code))
       \<lparr>ivDecisions := ivDecisions (recordNodeAttempt frame (settleRecord a st t outs v code)) @ [decisionOf tr]\<rparr>) = Some run'"
    and on: "goesOn env workflow run' i ((recordNodeAttempt frame (settleRecord a st t outs v code))
       \<lparr>ivDecisions := ivDecisions (recordNodeAttempt frame (settleRecord a st t outs v code)) @ [decisionOf tr]\<rparr>) t tr c'"
    using settle_Continue [OF d cw f(1,2)] by blast
  let ?f = "(recordNodeAttempt frame (settleRecord a st t outs v code))
       \<lparr>ivDecisions := ivDecisions (recordNodeAttempt frame (settleRecord a st t outs v code)) @ [decisionOf tr]\<rparr>"
  have "updates run i ?f" using f(3) by simp
  note u = updates_upsert [OF r this up]
  have inR: "inside env cl i w run'" by (rule inside_later [OF ok u(1,2)])
  have "dispatchEnds env run' i m" if "tr = TransitionTo d' j cn (ToNode m) h" for d' j cn m h
    using that nxt [OF w auto_transition inR] unfolding tr by blast
  then show "ends env c'"
    using on cancel_ends [OF inR u(4)] fail_ends [OF inR u(4)] complete_ends [OF inR u(4)]
    unfolding goesOn_def dispatchEnds_def by blast
qed

subsection \<open>Termination\<close>

lemma finite_edges [simp]: "finite (nodeEdges w)" "finite (inclusions cl)"
proof -
  have "nodeEdges w \<subseteq> (\<Union>c \<in> set (wdConnections w). (case wcTo c of ToNode m \<Rightarrow> {(wcFrom c, m)} | ToReturn \<Rightarrow> {}))"
    by (force simp: nodeEdges_def split: TransitionTarget.splits)
  then show "finite (nodeEdges w)" by (rule finite_subset) (auto split: TransitionTarget.split)
  have "inclusions cl \<subseteq> fst ` set (fcWorkflows cl) \<times> calledWorkflowId ` (\<Union>w \<in> snd ` set (fcWorkflows cl). set (wdNodes w))"
    unfolding inclusions_def by auto (metis fst_conv image_eqI, metis UN_I image_eqI snd_conv)
  then show "finite (inclusions cl)" by (rule finite_subset) auto
qed

lemma inside_ends:
  assumes cl: "closureAcyclic cl" and "inside env cl i w run"
  shows "settleEnds env run i n \<and> dispatchEnds env run i n"
proof -
  have "wf ((inclusions cl)\<inverse>)" using cl by (intro finite_acyclic_wf) (auto simp: closureAcyclic_def)
  then have "\<forall>i run n. inside env cl i w run \<longrightarrow> settleEnds env run i n \<and> dispatchEnds env run i n"
  proof (induction w rule: wf_induct_rule)
    case (less w)
    have calls: "dispatchEnds env run' j m" if "(w, w') \<in> inclusions cl" "inside env cl j w' run'" for w' j run' m
      using less that by blast
    have main: "\<forall>run. inside env cl i w run \<longrightarrow> settleEnds env run i n" if wf: "map_of (fcWorkflows cl) w = Some workflow" for i n workflow
    proof -
      have "wf ((nodeEdges workflow)\<inverse>)"
        using cl map_of_SomeD [OF wf] by (intro finite_acyclic_wf) (auto simp: closureAcyclic_def)
      then show ?thesis
      proof (induction n rule: wf_induct_rule)
        case (less n)
        have "dispatchEnds env run' i m" if "(n, m) \<in> nodeEdges workflow" "inside env cl i w run'" for m run'
          using that less by (intro dispatch_ends [OF that(2) cl calls]) blast+
        then show ?case using settle_ends [of env cl i w] wf by fastforce
      qed
    qed
    have settle: "settleEnds env run i n" if "inside env cl i w run" for i n run
    proof (cases "map_of (fcWorkflows cl) w")
      case None
      then show ?thesis using settle_ends [OF that] by simp
    qed (use main that in blast)
    moreover have "dispatchEnds env run i n" if "inside env cl i w run" for i n run
      by (rule dispatch_ends [OF that cl]) (use calls settle in blast)+
    ultimately show ?case by blast
  qed
  then show ?thesis using assms(2) by blast
qed

lemma every_return_ends:
  assumes cl: "closureAcyclic cl"
  shows "runBorn cl run \<Longrightarrow> map_of (cwInvocations run) i = Some f \<Longrightarrow> returnEnds env cl l run f"
proof (induction "length i" arbitrary: i run f l rule: less_induct)
  case less
  show ?case
    unfolding returnEnds_def
  proof (intro allI impI)
    fix p n run'
    assume p: "ivParentInvocationId f = Some p" and r': "runBorn cl run'"
    have "frameBorn (i, f)" using less.prems by (simp add: runBorn_def)
    then have lt: "length p < length i" using p by (simp add: frameBorn_def)
    show "settleEnds env run' p n"
    proof (cases "map_of (cwInvocations run') p")
      case None
      show ?thesis
        unfolding settleEnds_def
        by (intro allI, rule endsI) (use None r' in \<open>auto simp: settleAttempt_def runBorn_def split: option.splits\<close>)
    next
      case (Some g)
      then have "inside env cl p (ivWorkflowId g) run'" using r' less.hyps [OF lt r'] by (auto simp: inside_def)
      then show ?thesis using inside_ends [OF cl] by blast
    qed
  qed
qed

lemma command_ends:
  assumes "closureAcyclic cl" "runBorn cl run"
  shows "settleEnds env run i n \<and> dispatchEnds env run i n"
proof (cases "map_of (cwInvocations run) i")
  case None
  have "ends env (CallSettle run rv i n k st t outs v code)" for rv k st t outs v code
    by (rule endsI) (use None assms(2) in \<open>auto simp: settleAttempt_def runBorn_def split: option.splits\<close>)
  moreover have "ends env (CallDispatch run rv i n t)" for rv t
    by (rule endsI) (use None assms(2) in \<open>auto simp: dispatchNode_def runBorn_def split: option.splits\<close>)
  ultimately show ?thesis unfolding settleEnds_def dispatchEnds_def by blast
next
  case (Some f)
  then have "inside env cl i (ivWorkflowId f) run" using assms every_return_ends by (auto simp: inside_def)
  then show ?thesis by (rule inside_ends [OF assms(1)])
qed

text \<open>
  C40. Every command to the coordinator of a connected Workflow run returns.  Dispatching a node and
  completing an attempt may enter called Workflows, fail frames at once and route their failures on, any
  number of times in one command and whatever the dispatcher and the store answer; the chain ends when every
  Workflow of the frozen closure is acyclic in its connections, no Workflow includes itself through calls (both
  are validated when the definitions are saved and resolved), and the frames of the run are filed under their
  ids and were created after their parents, whose ids are shorter.
\<close>
theorem coordinator_commands_end:
  assumes "closureAcyclic cl" "runBorn cl run"
  shows "(\<exists>r. dispatchComposableNode env run i n t s = Some r) \<and>
    (\<exists>r. completeComposableNodeAttempt env run i n k st t outs v code s = Some r)"
  using command_ends [OF assms, of env i n]
  by (simp add: dispatchComposableNode_def completeComposableNodeAttempt_def settleEnds_def dispatchEnds_def ends_def)

subsection \<open>A run whose calls fail\<close>

text \<open>The main Workflow calls the other one, which names a missing Phase, and recovers by calling it again.\<close>

definition callNode :: "string \<Rightarrow> string \<Rightarrow> WorkflowNode" where
  "callNode n w = \<lparr>wnNodeId = n, wnKind = Some CallNode, wnPhaseId = None, wnWorkflowId = Some w\<rparr>"

definition mainWorkflow :: WorkflowDefinition where
  "mainWorkflow = \<lparr>wdWorkflowId = ''main'', wdInputs = None, wdOutputs = None, wdNodes = [callNode ''a'' ''sub'', callNode ''b'' ''sub''],
     wdConnections = [\<lparr>wcFrom = ''a'', wcTo = ToNode ''b'', wcHandoff = None,
       wcCondition = Some \<lparr>cdLeft = NodeStatus ''a'', cdOperator = CoEquals, cdRight = OneRight (LText ''failed'')\<rparr>,
       wcPriority = None, wcIsDefault = None\<rparr>], wdBindings = None, wdStartNodeIds = [''a'']\<rparr>"

definition subWorkflow :: WorkflowDefinition where
  "subWorkflow = \<lparr>wdWorkflowId = ''sub'', wdInputs = None, wdOutputs = None,
     wdNodes = [\<lparr>wnNodeId = ''p'', wnKind = Some PhaseNode, wnPhaseId = Some ''lost'', wnWorkflowId = None\<rparr>],
     wdConnections = [], wdBindings = None, wdStartNodeIds = [''p'']\<rparr>"

definition failingClosure :: FrozenWorkflowClosure where
  "failingClosure = \<lparr>fcWorkflows = [(''main'', mainWorkflow), (''sub'', subWorkflow)], fcPhases = []\<rparr>"

definition failingRun :: ConnectedWorkflowRun where
  "failingRun = \<lparr>cwRunId = ''r'', cwGraphNodes = [], cwGraphConnections = 0, cwNodes = [], cwDecisions = [], cwRevision = 1,
     cwQueueId = None, cwClosure = Some failingClosure,
     cwInvocations = [(''r:root'', createInvocationFrame ''r:root'' None None None ''main'' 0 ''a'' [] 1 None)],
     cwInputEnvelopes = [], cwPendingHandoff = None, cwCommandReceipts = []\<rparr>"

definition quietCoordEnv :: coord_env where
  "quietCoordEnv = \<lparr>ceCommits = (\<lambda>s r. True), ceUpdates = (\<lambda>s r. True), ceDispatchPhase = (\<lambda>d s. (PhaseRejected ''none'', s)),
     ceCancelsOrphans = True\<rparr>"

definition noRuns :: coord_store where
  "noRuns = \<lparr>csRuns = [(''r'', failingRun)], csRefused = [], csKnownQueues = [], csOrphansCanceled = [], csLeasesReleased = []\<rparr>"

lemma failing_acyclic: "closureAcyclic failingClosure"
proof -
  have "nodeEdges mainWorkflow = {(''a'', ''b'')}" "nodeEdges subWorkflow = {}"
    by (auto simp: nodeEdges_def mainWorkflow_def subWorkflow_def)
  moreover have "acyclic (inclusions failingClosure)"
  proof (rule acyclic_subset)
    show "inclusions failingClosure \<subseteq> {(''main'', ''sub'')}"
      by (auto simp: inclusions_def failingClosure_def mainWorkflow_def subWorkflow_def callNode_def nodeKindOf_def calledWorkflowId_def)
  qed (simp add: acyclic_insert wf_acyclic)
  moreover have "wdWorkflowId mainWorkflow = ''main''" "wdWorkflowId subWorkflow = ''sub''"
    by (simp_all add: mainWorkflow_def subWorkflow_def)
  moreover have "fcWorkflows failingClosure = [(''main'', mainWorkflow), (''sub'', subWorkflow)]"
    by (simp add: failingClosure_def)
  ultimately show ?thesis by (auto simp: closureAcyclic_def acyclic_insert wf_acyclic)
qed

lemma failing_born: "runBorn failingClosure failingRun"
  by (auto simp: runBorn_def failingRun_def frameBorn_def createInvocationFrame_def attemptsFiled_def attemptsForNode_def)

lemma coordinator_commands_end_witness:
  "\<exists>r. dispatchComposableNode quietCoordEnv failingRun ''r:root'' ''a'' 5 noRuns = Some r"
  using coordinator_commands_end [OF failing_acyclic failing_born, of quietCoordEnv "''r:root''" "''a''" 5 noRuns] by blast

end
