(* ===== verification/Spec2Isabelle.thy ===== *)
theory Spec2Isabelle
  imports RetrySemantics QueueBehaviour OwnershipSafety RegistrySafety WorkflowGraph FatalScan AuditSafety AuditCheckpoint TransitionSafety WorkflowTermination
begin

text \<open>
  A verification development for the Schegent extension host (\<open>src/src\<close>): the scheduler that runs an
  agent pipeline phase by phase against a command-line backend, keeps tasks in queues, persists a Run for
  each queue, and lets an operator pause, resume, restart, edit and delete them while several windows share
  one workspace.

  \<^bold>\<open>The program's parts and their theories.\<close>

  \<^item> \<open>Prelude\<close> holds the shared vocabulary: a thrown error is \<open>Inl\<close>, \<open>then_ok\<close> sequences fallible calls, arrays
    are lists, \<open>sort\<close> with a numeric comparator is the stable \<open>sort_key\<close>, and \<open>String.prototype.trim\<close> is
    \<open>js_trim\<close>.  \<open>JsNumber\<close> is the part of IEEE double arithmetic that decimal numerals and comparisons need.
    Strings are lists of 8-bit code units.

  \<^item> The retry-condition language of \<open>lib/retry-condition.ts\<close>: \<open>RetryCondition\<close> (tokenizer, recursive-descent
    parser, evaluator), \<open>RetryGrammar\<close> (the published grammar and parser correctness), \<open>RetryLexer\<close> (lexing and
    the error behaviour of \<open>validate\<close>), \<open>RetrySemantics\<close> (what the component promises).  The parser runs on
    fuel; \<open>RetryGrammar.parse_fuel_enough\<close> shows that the fuel \<open>parse_tokens\<close> gives, a multiple of the number of
    tokens, is never used up.

  \<^item> One Run: \<open>RunTypes\<close> (the record and pure patches of \<open>state/workflow-run.ts\<close>), \<open>PhaseTransition\<close> (the
    decision \<open>transition\<close> of \<open>controller/phase.ts\<close> with retry caps and stagnation), \<open>RunPlan\<close> (planned total and
    progress), \<open>PhaseSequencer\<close> (\<open>controller/phase-sequencer.ts\<close>: classifying the output of a phase, delayed
    retries), \<open>PhaseDrive\<close> (the drive loop of \<open>services/run-driver.ts\<close> as a step relation: the turns that move the
    Run through its plan are the loop's own writes, and a turn or an operator's write that keeps its position
    is any write that does).

  \<^item> The Run store and the controls: \<open>RunStore\<close> (\<open>validateRunInvariants\<close>, the fenced writers \<open>setRun\<close> and
    \<open>updateRun\<close> of \<open>state/workspace-state.ts\<close>), \<open>RunControl\<close> (the operator controls of
    \<open>controller/phase-control-service.ts\<close>, cancel and resume admission), \<open>RunControlSafety\<close>.  The environment
    record \<open>StoreEnv\<close> holds what a write asks of its surroundings: the clock, window primacy, known queues,
    the claim for a queue, and the verdict on a fencing token.

  \<^item> Queues: \<open>TaskQueue\<close> (records, transition table, normalisation of persisted records and their rows), \<open>QueueStore\<close> (serialized
    writers and single-task writers), \<open>QueueManager\<close> and \<open>QueueControl\<close> (\<open>queue/queue-manager.ts\<close>), \<open>QueueOrder\<close> (the
    abstract view: rows in position order), \<open>QueueInvariant\<close> and \<open>QueueSteps\<close> (the invariant, kept by every
    operation and any sequence of them), \<open>QueueRefinement\<close> (operations refine operations on lists),
    \<open>QueueSafety\<close> and \<open>QueueBehaviour\<close> (the properties).

  \<^item> The registry of queues: \<open>QueueRegistry\<close> (\<open>queue/queue-registry.ts\<close>), \<open>RegistryOps\<close> (the registry writers of the
    store and the manager's create, rename, delete, settings and schedule commands), \<open>RegistrySafety\<close>.

  \<^item> Ownership: \<open>OwnershipRegistry\<close> (\<open>state/ownership-registry.ts\<close> over the port of \<open>ownership-fs.ts\<close>: one file per
    generation, the generation is the fencing token), \<open>OwnershipSteps\<close> (its storage operations interleaved for any
    number of processes that may stop anywhere, a read being a listing and one step per file, and the inductive
    invariant), \<open>OwnershipSafety\<close>.  A Run commit
    reaches it through \<open>StoreEnv\<close>: \<open>OwnershipSafety.fencing_tokens_exclusive\<close> instantiates the store's fence check
    with the registry's \<open>verify\<close>.

  \<^item> Workflow graphs: \<open>WorkflowGraph\<close> (\<open>config/workflow-graph.ts\<close>: Kahn's order, breadth-first reachability, ancestor
    sets).  CLI output: \<open>LineFramer\<close> (\<open>lib/line-framer.ts\<close>) and \<open>FatalScan\<close> (the fatal-signature registry and its
    incremental scanner).

  \<^item> The audit log.  \<open>AuditChain\<close> models \<open>audit/audit-chain.ts\<close>: cut records, and the walk \<open>verifyChain\<close> that
    links each row to the digest of the line before it, accepts a cut record for the history it covers and a
    damage row for a line it names.  What the walk asks of the language runtime is a record \<open>platform\<close> (parse and
    print of JSON, decoding of UTF-8, SHA-256), an argument of every definition.  \<open>AuditWalk\<close> has the walk of a
    concatenation, the merging of cuts and what pruning keeps; \<open>AuditFiles\<close> the choice, splitting and tail of the
    chain files; \<open>AuditWriter\<close> the write step of \<open>audit/audit-log-writer.ts\<close> (tail check, damage row, rotation,
    retention sweep, append) over a disk that may write short and refuse renames, unlinks and opens; \<open>AuditDisk\<close>,
    \<open>AuditTail\<close>, \<open>AuditPrune\<close>, \<open>AuditInvariant\<close> and \<open>AuditKeep\<close> the invariant that joins the writer's memory to the
    bytes on disk, and its preservation; \<open>AuditSafety\<close> the step relation and its consequence; \<open>AuditCheckpoint\<close>
    the head checkpoint of \<open>audit/audit-checkpoint.ts\<close>.

  \<^item> How a Run ends.  \<open>TerminalTransition\<close> models \<open>services/terminal-transition-coordinator.ts\<close> (the journal of
    intents: begin, complete, its five outcomes, replay) with the history partitions of
    \<open>state/workspace-state.ts\<close>, \<open>persistTransition\<close> of \<open>controller/workflow-controller.ts\<close> and the durable writes of
    \<open>services/run-terminal-effects.ts\<close>, over the Run store and the queues above.  Each durable write may land,
    be rejected, or be the one before which the host dies.  \<open>TransitionRecovery\<close> holds triples over such
    actions and the stages of an ending, \<open>TransitionSafety\<close> the properties.

  \<^item> Connected Workflow runs, an aggregate of attempts over the graphs of a frozen closure.  \<open>WorkflowFrames\<close> models the
    record of \<open>state/connected-workflow-run.ts\<close>, its invariants and the updates of frames; \<open>WorkflowRouting\<close> the
    condition context and evaluator and \<open>next-node-selector.ts\<close>; \<open>WorkflowBinding\<close> the ports
    (\<open>binding-resolver.ts\<close>); \<open>WorkflowStep\<close> the coordinator (\<open>connected-run-coordinator.ts\<close>, under
    \<open>services/workflow-execution\<close> like the last three) over a store with refused writes and an injected dispatcher,
    each body of its mutual tail recursion as one step.  \<open>runCalls\<close> iterates the steps as a partial function, and
    \<open>WorkflowTermination\<close> shows that it is defined.

  \<^bold>\<open>Interfaces.\<close>  \<open>QueueInvariant.task_mutation\<close> is the contract of a mutation given to \<open>updateQueue\<close>,
  interpreted on every mutation of the manager; \<open>RunControlSafety.run_writer\<close> and \<open>control_writer\<close> are the
  contracts of a patch given to \<open>updateRun\<close>, interpreted on the patches of the controls; \<open>LineFramer.chunk_reader\<close>
  is the contract of a reader of a chunked stream, interpreted on the framer and on the scanner.

  \<^bold>\<open>What the lemmas show.\<close>  The language: acceptance is the grammar, totality, lexing inverts printing, evaluation
  is Boolean with absent metrics as zero.  The phases: the shape of every transition, a bound on the
  dispatches that move a Run over distinct phases, the exact table of the classification of outputs, backoff
  bounds.  The store and the controls: every
  accepted write keeps every Run valid; the exact outcome of each control, with the states in which the store
  refuses what the control builds.  The queues: the invariant under any sequence of operations, refinement of
  lists, exact outcomes, and four behaviours that the code does not intend.  The registry: validity is kept and
  a deletion is exact under failures of its writes.  Ownership: tokens are exclusive and monotone in any
  interleaving, an undisturbed acquisition is exact, and a read that others overtake can confirm a token twice,
  but only one that has been superseded.  Graphs: the order is complete
  up to cycles and the ancestor sets are the proper ancestors.  Streams: chunking changes neither the lines nor
  the classification.  The audit log: what the writer leaves behind verifies after any sequence of steps, pruning
  keeps the verdict, two verified logs consistent with one checkpoint share its history, and two kinds of lines
  on which the walk does not answer as documented.  The journal: an ending that wrote anything is completed by
  one undisturbed replay after any rejected writes and crashes, replay spares a Run that moved on, and an
  intent left over from an earlier ending can make it drop the one that is needed.  Connected runs: every
  command of the coordinator ends.

  \<^bold>\<open>The platform.\<close>  \<open>AuditSafety\<close> assumes of the platform what is documented of \<open>JSON.stringify\<close>, \<open>JSON.parse\<close> and
  UTF-8: printed rows have no line feed and parse back (\<open>platform_ok\<close>, \<open>printed\<close>); nothing is assumed of the
  digest, except in \<open>consistent_history_is_pinned\<close>, whose conclusion names the collision.  A witness instantiates
  the laws with a concrete platform.  The steps of \<open>auditStep\<close> have guards: clock and file stamps do not go back,
  a damage row is written whole or not at all (\<open>torn_damage_row\<close> shows what happens otherwise), and the cut
  record a sweep owes is written.

  \<^bold>\<open>Bounds.\<close>  Machine integers do not occur; JavaScript integers are \<open>int\<close> or \<open>nat\<close>, faithful while they stay
  below 2 to the 53.  Loops are total functions with their measures (framer, scanner, Kahn, search) or
  carry the code's own bound (eight attempts in \<open>acquireOrReport\<close>).

  \<^bold>\<open>Waits and failures.\<close>  In \<open>OwnershipSteps\<close> a read of the registry's state is overtaken by other processes
  between its listing and its files; \<open>torn_confirm_reissues_fence\<close> runs an interleaving in which such a read
  confirms a token a second time.  The acknowledgement wait of \<open>clearQueue\<close> is a parameter that may change
  queues and Runs in any way.  Of the storage failures, the short and refused writes of the audit log, the
  rejected writes of an ending and the three writes of a queue deletion are inputs of the model.

  \<^bold>\<open>Not modelled.\<close>  Spawning and supervising the backend processes, their output parsers and telemetry; the
  writer's checkpoint port and its chain-verified and re-anchor rows, raw transcripts and evidence health;
  history and diagnostics files; the catalog of pipelines and its validators; the
  launcher, the control service and the recovery of connected runs; the coordinators that arm timers
  (auto-drain, scheduled starts, retries); state migrations; the webview and the sidebar.  These are effects outside the modelled state, projections of it, or separate subsystems.
  Within the modelled parts, log lines, notices, audit hooks, error messages (beyond their codes) and other
  storage failures are left out; strongly connected components are not modelled.
\<close>

end
